(* ===== verification/Prelude.thy ===== *)
theory Prelude
  imports Complex_Main "HOL-Library.Char_ord" "HOL-Library.List_Lexorder"
    "HOL-Library.Product_Lexorder" "HOL-Library.Multiset"
begin

text \<open>
  Shared vocabulary of the development: the exceptions the modelled code raises, results that
  are either an exception (\<open>Inl\<close>) or a value (\<open>Inr\<close>), the chains of guards that Pydantic
  validators and \<open>__post_init__\<close> methods are made of, Python's stable \<open>sorted\<close> with a key, and
  the string tests the identifier patterns use. Strings are lists of characters compared by code
  (\<open>Char_ord\<close>, \<open>List_Lexorder\<close>), as Python compares code points.
\<close>

named_theorems guard_simps \<open>unfolding of guard chains and results\<close>

section \<open>Exceptions and results\<close>

text \<open>
  The exception classes the modelled code raises or distinguishes in an \<open>except\<close> clause. A
  Pydantic validation failure is a \<open>ValueError\<close> (\<open>ValidationError\<close> is a subclass of it).
\<close>

datatype exn =
    ValueError string
  | TypeError string
  | KeyError string
  | RuntimeError string
  | StaleSourcePollTransition string
  | RateLimiterUnavailable string
  | RetryableSourceError nat
  | PermanentSourceError nat
  | ConnectionError string
  | OSError string
  | DatabaseError string
  | ZeroDivisionError
  | IndexError

type_synonym 'a res = "exn + 'a"

definition rbind :: "('e + 'a) \<Rightarrow> ('a \<Rightarrow> 'e + 'b) \<Rightarrow> 'e + 'b" where
  "rbind m f = (case m of Inl e \<Rightarrow> Inl e | Inr x \<Rightarrow> f x)"

lemma rbind_simps [simp]: "rbind (Inl e) f = Inl e" "rbind (Inr x) f = f x"
  by (simp_all add: rbind_def)

lemma rbind_eq_Inr [simp]: "rbind m f = Inr y \<longleftrightarrow> (\<exists>x. m = Inr x \<and> f x = Inr y)"
  by (cases m) auto

lemma rbind_eq_Inl: "rbind m f = Inl e \<longleftrightarrow> m = Inl e \<or> (\<exists>x. m = Inr x \<and> f x = Inl e)"
  by (cases m) auto

definition is_ok :: "'e + 'a \<Rightarrow> bool" where
  "is_ok r = (case r of Inl _ \<Rightarrow> False | Inr _ \<Rightarrow> True)"

lemma is_ok_simps [simp]: "is_ok (Inr x)" "\<not> is_ok (Inl e)"
  by (simp_all add: is_ok_def)

lemma is_ok_iff: "is_ok r \<longleftrightarrow> (\<exists>x. r = Inr x)"
  by (cases r) auto

lemma not_is_ok_iff: "\<not> is_ok r \<longleftrightarrow> (\<exists>e. r = Inl e)"
  by (cases r) auto

text \<open>
  A chain of \<open>if c: raise ValueError(m)\<close> statements: the first guard that holds decides.
\<close>

fun raise_first :: "(bool \<times> string) list \<Rightarrow> 'a \<Rightarrow> 'a res" where
  "raise_first [] x = Inr x"
| "raise_first ((c, m) # gs) x = (if c then Inl (ValueError m) else raise_first gs x)"

lemma raise_first_eq_Inr [guard_simps]:
  "raise_first gs x = Inr y \<longleftrightarrow> y = x \<and> (\<forall>g \<in> set gs. \<not> fst g)"
  by (induction gs x rule: raise_first.induct) auto

lemma raise_first_eq_Inl:
  "raise_first gs x = Inl e \<longleftrightarrow>
     (\<exists>i < length gs. fst (gs ! i) \<and> (\<forall>j < i. \<not> fst (gs ! j)) \<and> e = ValueError (snd (gs ! i)))"
proof (induction gs)
  case Nil
  then show ?case by simp
next
  case (Cons g gs)
  obtain c m where g: "g = (c, m)" by (cases g)
  show ?case
  proof (cases c)
    case True
    then show ?thesis
      by (auto simp: g intro!: exI [of _ 0] dest: gr0_implies_Suc)
        (metis fst_conv gr0I nth_Cons_0 snd_conv)
  next
    case False
    then show ?thesis
      by (simp add: g Cons.IH Ex_less_Suc2 All_less_Suc2)
  qed
qed

text \<open>
  Proofs use the characterisation above; the equations themselves are for evaluation.
\<close>

declare raise_first.simps [simp del]

lemma raise_first_is_ok: "is_ok (raise_first gs x) \<longleftrightarrow> (\<forall>g \<in> set gs. \<not> fst g)"
  by (auto simp: is_ok_iff raise_first_eq_Inr)

text \<open>A loop whose body may raise: the first exception stops it.\<close>

fun rmap :: "('a \<Rightarrow> 'e + 'b) \<Rightarrow> 'a list \<Rightarrow> 'e + 'b list" where
  "rmap f [] = Inr []"
| "rmap f (x # xs) = rbind (f x) (\<lambda>y. rbind (rmap f xs) (\<lambda>ys. Inr (y # ys)))"

fun rfold :: "('s \<Rightarrow> 'a \<Rightarrow> 'e + 's) \<Rightarrow> 's \<Rightarrow> 'a list \<Rightarrow> 'e + 's" where
  "rfold f s [] = Inr s"
| "rfold f s (x # xs) = rbind (f s x) (\<lambda>s'. rfold f s' xs)"

lemma rmap_eq_Inr: "rmap f xs = Inr ys \<longleftrightarrow> list_all2 (\<lambda>x y. f x = Inr y) xs ys"
  by (induction xs arbitrary: ys) (auto simp: list_all2_Cons1)

lemma rmap_length: "rmap f xs = Inr ys \<Longrightarrow> length ys = length xs"
  by (auto simp: rmap_eq_Inr dest: list_all2_lengthD)

lemma rmap_ok_iff: "(\<exists>ys. rmap f xs = Inr ys) \<longleftrightarrow> (\<forall>x \<in> set xs. \<exists>y. f x = Inr y)"
  by (induction xs) auto

lemma rmap_Inr_fun: "(\<And>x. x \<in> set xs \<Longrightarrow> f x = Inr (g x)) \<Longrightarrow> rmap f xs = Inr (map g xs)"
  by (induction xs) auto

lemma rfold_append: "rfold f s (xs @ ys) = rbind (rfold f s xs) (\<lambda>s'. rfold f s' ys)"
  by (induction xs arbitrary: s) (auto simp: rbind_def split: sum.splits)

lemma rfold_invariant:
  assumes "rfold f s xs = Inr t" and "P s"
    and "\<And>s x t. x \<in> set xs \<Longrightarrow> P s \<Longrightarrow> f s x = Inr t \<Longrightarrow> P t"
  shows "P t"
  using assms by (induction xs arbitrary: s) auto

section \<open>Python's stable sort\<close>

text \<open>
  \<open>sorted(xs, key=k)\<close> is stable; \<open>sort_key\<close> is too. \<open>reverse=True\<close> keeps equal elements in
  their original order, which is a stable sort by the reversed order.
\<close>

definition sorted_desc :: "('a \<Rightarrow> 'k::linorder) \<Rightarrow> 'a list \<Rightarrow> 'a list" where
  "sorted_desc k xs = rev (sort_key k (rev xs))"

lemma set_sorted_desc [simp]: "set (sorted_desc k xs) = set xs"
  by (simp add: sorted_desc_def)

lemma mset_sorted_desc [simp]: "mset (sorted_desc k xs) = mset xs"
  by (simp add: sorted_desc_def)

lemma length_sorted_desc [simp]: "length (sorted_desc k xs) = length xs"
  by (simp add: sorted_desc_def)

lemma sorted_desc_sorted: "sorted_wrt (\<lambda>x y. k y \<le> k x) (sorted_desc k xs)"
proof -
  have "sorted (map k (sort_key k (rev xs)))" by simp
  then have "sorted_wrt (\<lambda>x y. k x \<le> k y) (sort_key k (rev xs))"
    by (simp add: sorted_map)
  then show ?thesis by (simp add: sorted_desc_def sorted_wrt_rev)
qed

text \<open>\<open>tuple(sorted(set(xs)))\<close>, and the canonical-order test the contracts are made of.\<close>

definition sorted_set :: "'a::linorder list \<Rightarrow> 'a list" where
  "sorted_set xs = remdups (sort xs)"

lemma set_sorted_set [simp]: "set (sorted_set xs) = set xs"
  by (simp add: sorted_set_def)

lemma distinct_sorted_set [simp]: "distinct (sorted_set xs)"
  by (simp add: sorted_set_def)

lemma sorted_sorted_set [simp]: "sorted (sorted_set xs)"
  by (simp add: sorted_set_def)

lemma sorted_set_fixpoint: "xs = sorted_set xs \<longleftrightarrow> sorted xs \<and> distinct xs"
  by (metis distinct_remdups_id distinct_sorted_set sorted_sort_id sorted_set_def
      sorted_sorted_set)

text \<open>Tuples compare lexicographically, as Python's do.\<close>

lemma pair_less_iff:
  fixes a c :: "'a::linorder" and b d :: "'b::linorder"
  shows "(a, b) < (c, d) \<longleftrightarrow> a < c \<or> a = c \<and> b < d"
    and "(a, b) \<le> (c, d) \<longleftrightarrow> a < c \<or> a = c \<and> b \<le> d"
  by auto

section \<open>Identifier patterns\<close>

definition hex_digits :: "string" where
  "hex_digits = ''0123456789abcdef''"

definition dec_digits :: "string" where
  "dec_digits = ''0123456789''"

definition is_prefix :: "string \<Rightarrow> string \<Rightarrow> bool" where
  "is_prefix p s \<longleftrightarrow> take (length p) s = p"

text \<open>The regular expression \<open>^<prefix>[0-9a-f]{n}$\<close>.\<close>

definition matches_hex :: "string \<Rightarrow> nat \<Rightarrow> string \<Rightarrow> bool" where
  "matches_hex p n s \<longleftrightarrow> is_prefix p s \<and> length s = length p + n
     \<and> list_all (\<lambda>c. c \<in> set hex_digits) (drop (length p) s)"

lemma is_prefix_append [simp]: "is_prefix p (p @ s)"
  by (simp add: is_prefix_def)

lemma matches_hex_append:
  "matches_hex p n (p @ s) \<longleftrightarrow> length s = n \<and> list_all (\<lambda>c. c \<in> set hex_digits) s"
  by (simp add: matches_hex_def)

section \<open>Lists\<close>

lemma take_min_length: "take (min n (length xs)) xs = take n xs"
  by (simp add: min_def)

lemma distinct_map_inj_on_set: "distinct xs \<Longrightarrow> inj_on f (set xs) \<Longrightarrow> distinct (map f xs)"
  by (simp add: distinct_map)

lemma sum_list_take_le: "sum_list (take n (xs::nat list)) \<le> sum_list xs"
  by (metis append_take_drop_id le_add1 sum_list_append)

text \<open>A chunked loop \<open>for start in range(0, len(xs), n)\<close> over slices \<open>xs[start:start+n]\<close>.\<close>

function chunks :: "nat \<Rightarrow> 'a list \<Rightarrow> 'a list list" where
  "chunks n xs = (if xs = [] \<or> n = 0 then [] else take n xs # chunks n (drop n xs))"
  by pat_completeness auto
termination
  by (relation "measure (\<lambda>(n, xs). length xs)") auto

declare chunks.simps [simp del]

lemma concat_chunks: "0 < n \<Longrightarrow> concat (chunks n xs) = xs"
proof (induction n xs rule: chunks.induct)
  case (1 n xs)
  then show ?case
    by (cases "xs = []") (simp_all add: chunks.simps [of n xs] chunks.simps [of n "[]"])
qed

lemma chunks_bounded: "c \<in> set (chunks n xs) \<Longrightarrow> c \<noteq> [] \<and> length c \<le> n"
proof (induction n xs rule: chunks.induct)
  case (1 n xs)
  then show ?case
    by (cases "xs = [] \<or> n = 0") (auto simp: chunks.simps [of n xs])
qed

end
