(* ===== verification/PyNum.thy ===== *)
theory PyNum
  imports Prelude "HOL-Library.Log_Nat"
begin

text \<open>
  Python numbers as the code uses them. Integers are unbounded (\<open>int\<close>, \<open>nat\<close>). A finite float is
  the rational it denotes; every float operation is the exact rational operation followed by
  \<open>fl\<close>, IEEE-754 binary64 rounding to nearest, ties to even (the magnitudes in the modelled code
  stay far from overflow and from the subnormal range, which \<open>fl\<close> does not model). The lemmas give
  what the component proofs need of rounding: it is monotone, idempotent and exact on integers
  below \<open>2 ^ 53\<close>.
\<close>

section \<open>Round half to even\<close>

definition round_half_even :: "rat \<Rightarrow> int" where
  "round_half_even y =
     (let f = \<lfloor>y\<rfloor>; r = y - of_int f
      in if r < 1/2 then f else if 1/2 < r then f + 1 else if even f then f else f + 1)"

lemma round_half_even_bounds:
  "\<lfloor>y\<rfloor> \<le> round_half_even y" "round_half_even y \<le> \<lfloor>y\<rfloor> + 1"
  by (auto simp: round_half_even_def Let_def)

lemma round_half_even_of_int [simp]: "round_half_even (of_int n) = n"
  by (simp add: round_half_even_def)

lemma round_half_even_numeral [simp]:
  "round_half_even 0 = 0" "round_half_even 1 = 1" "round_half_even (numeral k) = numeral k"
  using round_half_even_of_int [of 0] round_half_even_of_int [of 1]
    round_half_even_of_int [of "numeral k"] by simp_all

lemma round_half_even_error: "\<bar>of_int (round_half_even y) - y\<bar> \<le> 1/2"
proof -
  have f: "of_int \<lfloor>y\<rfloor> \<le> y" "y < of_int \<lfloor>y\<rfloor> + 1" by linarith+
  consider "round_half_even y = \<lfloor>y\<rfloor>" "y - of_int \<lfloor>y\<rfloor> \<le> 1/2"
    | "round_half_even y = \<lfloor>y\<rfloor> + 1" "1/2 \<le> y - of_int \<lfloor>y\<rfloor>"
    by (cases "y - of_int \<lfloor>y\<rfloor> < 1/2"; cases "1/2 < y - of_int \<lfloor>y\<rfloor>";
        cases "even \<lfloor>y\<rfloor>") (simp_all add: round_half_even_def Let_def)
  then show ?thesis
  proof cases
    case 1
    with f show ?thesis by (simp only: abs_le_iff) linarith
  next
    case 2
    have "of_int (\<lfloor>y\<rfloor> + 1) = of_int \<lfloor>y\<rfloor> + (1::rat)" by simp
    with f 2 show ?thesis by (simp only: abs_le_iff) linarith
  qed
qed

lemma round_half_even_mono: "x \<le> y \<Longrightarrow> round_half_even x \<le> round_half_even y"
proof -
  assume xy: "x \<le> y"
  show ?thesis
  proof (cases "\<lfloor>x\<rfloor> = \<lfloor>y\<rfloor>")
    case True
    with xy show ?thesis by (auto simp: round_half_even_def Let_def)
  next
    case False
    with xy have "\<lfloor>x\<rfloor> + 1 \<le> \<lfloor>y\<rfloor>" using floor_mono [OF xy] by linarith
    then show ?thesis
      using round_half_even_bounds [of x] round_half_even_bounds [of y] by linarith
  qed
qed

lemma round_half_even_minus: "round_half_even (- y) = - round_half_even y"
proof (cases "y = of_int \<lfloor>y\<rfloor>")
  case True
  then show ?thesis
    by (metis of_int_minus round_half_even_of_int)
next
  case False
  then have "\<lfloor>- y\<rfloor> = - \<lfloor>y\<rfloor> - 1" by linarith
  then show ?thesis by (auto simp: round_half_even_def Let_def)
qed

section \<open>Binary64 rounding\<close>

text \<open>The exponent of the binade of a positive rational: \<open>2 powi ilog2 x \<le> x < 2 powi (ilog2 x + 1)\<close>.\<close>

definition ilog2 :: "rat \<Rightarrow> int" where
  "ilog2 x = (case quotient_of x of (n, d) \<Rightarrow>
     let e = bitlen n - bitlen d in if 2 powi e \<le> x then e else e - 1)"

lemma powi_bitlen:
  assumes "0 < (n::int)"
  shows "(2::rat) powi (bitlen n - 1) \<le> of_int n" "of_int n < (2::rat) powi bitlen n"
proof -
  from assms have pos: "0 < bitlen n" by (simp add: bitlen_eq_zero_iff less_le bitlen_nonneg)
  from bitlen_bounds [OF assms]
  have b: "2 ^ nat (bitlen n - 1) \<le> n" "n < 2 ^ nat (bitlen n)" by auto
  have "of_int (2 ^ nat (bitlen n - 1)) \<le> (of_int n :: rat)" using b(1) by linarith
  then show "(2::rat) powi (bitlen n - 1) \<le> of_int n" using pos by (simp add: power_int_def)
  have "(of_int n :: rat) < of_int (2 ^ nat (bitlen n))" using b(2) by linarith
  then show "of_int n < (2::rat) powi bitlen n" using pos by (simp add: power_int_def)
qed

lemma ilog2_bounds:
  assumes "0 < x"
  shows "2 powi ilog2 x \<le> x" "x < 2 powi (ilog2 x + 1)"
proof -
  obtain n d where q: "quotient_of x = (n, d)" by (cases "quotient_of x")
  then have d: "0 < d" and x: "x = of_int n / of_int d"
    by (auto dest: quotient_of_denom_pos quotient_of_div)
  with assms have n: "0 < n" by (simp add: zero_less_divide_iff)
  note bn = powi_bitlen [OF n] and bd = powi_bitlen [OF d]
  let ?e = "bitlen n - bitlen d"
  have two: "(2::rat) powi k > 0" for k by simp
  have lo: "2 powi (?e - 1) < x"
  proof -
    have "(2::rat) powi (?e - 1) = 2 powi (bitlen n - 1) / 2 powi bitlen d"
      by (simp add: power_int_diff [symmetric] algebra_simps)
    also have "\<dots> < of_int n / of_int d"
      using bn(1) bd(2) d n by (intro frac_less2) auto
    finally show ?thesis by (simp add: x)
  qed
  have hi: "x < 2 powi (?e + 1)"
  proof -
    have "of_int n / of_int d < (2::rat) powi bitlen n / 2 powi (bitlen d - 1)"
      using bn(2) bd(1) d n by (intro frac_less) auto
    also have "\<dots> = 2 powi (?e + 1)"
      by (simp add: power_int_diff [symmetric] algebra_simps)
    finally show ?thesis by (simp add: x)
  qed
  show "2 powi ilog2 x \<le> x" "x < 2 powi (ilog2 x + 1)"
    using lo hi by (auto simp: ilog2_def q Let_def)
qed

lemma ilog2_mono: "0 < x \<Longrightarrow> x \<le> y \<Longrightarrow> ilog2 x \<le> ilog2 y"
proof (rule ccontr)
  assume a: "0 < x" "x \<le> y" "\<not> ilog2 x \<le> ilog2 y"
  then have "(2::rat) powi (ilog2 y + 1) \<le> 2 powi ilog2 x"
    by (intro power_int_increasing) auto
  with a ilog2_bounds [of x] ilog2_bounds [of y] show False by linarith
qed

definition ulp :: "rat \<Rightarrow> rat" where
  "ulp x = 2 powi (ilog2 \<bar>x\<bar> - 52)"

definition fl :: "rat \<Rightarrow> rat" where
  "fl x = (if x = 0 then 0 else of_int (round_half_even (x / ulp x)) * ulp x)"

lemma ulp_pos [simp]: "0 < ulp x"
  by (simp add: ulp_def)

lemma fl_0 [simp]: "fl 0 = 0"
  by (simp add: fl_def)

lemma fl_minus [simp]: "fl (- x) = - fl x"
  by (simp add: fl_def ulp_def round_half_even_minus)

text \<open>A positive number is rounded inside its own binade.\<close>

lemma fl_binade:
  assumes "0 < x"
  shows "2 powi ilog2 x \<le> fl x" "fl x \<le> 2 powi (ilog2 x + 1)"
proof -
  let ?u = "2 powi (ilog2 x - 52) :: rat"
  have u: "ulp x = ?u" using assms by (simp add: ulp_def)
  have lo: "of_int (2 ^ 52) * ?u = 2 powi ilog2 x" and hi: "of_int (2 ^ 53) * ?u = 2 powi (ilog2 x + 1)"
    by (simp_all add: power_int_diff power_int_add)
  note b = ilog2_bounds [OF assms]
  have "of_int (2 ^ 52) \<le> x / ?u" using b(1) lo by (simp add: pos_le_divide_eq)
  then have 1: "2 ^ 52 \<le> round_half_even (x / ?u)"
    using round_half_even_mono round_half_even_of_int by metis
  have "x / ?u \<le> of_int (2 ^ 53)" using b(2) hi by (simp add: pos_divide_le_eq)
  then have 2: "round_half_even (x / ?u) \<le> 2 ^ 53"
    using round_half_even_mono round_half_even_of_int by metis
  have "of_int (2 ^ 52) * ?u \<le> of_int (round_half_even (x / ?u)) * ?u"
    using 1 by (intro mult_right_mono) (linarith, simp)
  then show "2 powi ilog2 x \<le> fl x"
    unfolding lo using assms by (simp add: fl_def u)
  have "of_int (round_half_even (x / ?u)) * ?u \<le> of_int (2 ^ 53) * ?u"
    using 2 by (intro mult_right_mono) (linarith, simp)
  then show "fl x \<le> 2 powi (ilog2 x + 1)"
    unfolding hi using assms by (simp add: fl_def u)
qed

lemma fl_pos: "0 < x \<Longrightarrow> 0 < fl x"
  using fl_binade(1) [of x] less_le_trans [of 0 "2 powi ilog2 x" "fl x"] by simp

lemma fl_mono_pos:
  assumes "0 < x" "x \<le> y"
  shows "fl x \<le> fl y"
proof (cases "ilog2 x = ilog2 y")
  case True
  then have u: "ulp x = ulp y" using assms by (simp add: ulp_def)
  have "round_half_even (x / ulp y) \<le> round_half_even (y / ulp y)"
    using assms by (intro round_half_even_mono divide_right_mono) (auto simp: less_imp_le)
  then show ?thesis using assms by (simp add: fl_def u)
next
  case False
  with ilog2_mono [OF assms] have "ilog2 x + 1 \<le> ilog2 y" by linarith
  then have "(2::rat) powi (ilog2 x + 1) \<le> 2 powi ilog2 y" by (intro power_int_increasing) auto
  with fl_binade(2) [OF assms(1)] fl_binade(1) [of y] assms show ?thesis by linarith
qed

lemma fl_nonneg: "0 \<le> x \<Longrightarrow> 0 \<le> fl x"
  using fl_pos [of x] by (cases "x = 0") auto

lemma fl_mono: "x \<le> y \<Longrightarrow> fl x \<le> fl y"
proof -
  assume xy: "x \<le> y"
  consider "0 < x" | "x \<le> 0" "0 \<le> y" | "y < 0" by linarith
  then show ?thesis
  proof cases
    case 1
    with xy show ?thesis by (simp add: fl_mono_pos)
  next
    case 2
    then show ?thesis using fl_nonneg [of y] fl_nonneg [of "- x"] by simp
  next
    case 3
    with xy fl_mono_pos [of "- y" "- x"] show ?thesis by simp
  qed
qed

text \<open>A multiple \<open>k * 2 powi e\<close> with \<open>k \<le> 2 ^ 53\<close> is a float: rounding leaves it alone.\<close>

lemma fl_representable:
  assumes "\<bar>k\<bar> \<le> 2 ^ 53"
  shows "fl (of_int k * 2 powi e) = of_int k * 2 powi e"
proof -
  have pos: "fl (of_int k * 2 powi e) = of_int k * 2 powi e" if k: "0 < k" "k \<le> 2 ^ 53" for k :: int
  proof -
    let ?x = "of_int k * 2 powi e :: rat"
    have x: "0 < ?x" using k by simp
    note b = ilog2_bounds [OF x]
    have "2 powi ilog2 ?x \<le> (2::rat) powi (53 + e)"
    proof -
      have "?x \<le> of_int (2 ^ 53) * 2 powi e"
        using k by (intro mult_right_mono) (simp_all del: of_int_power)
      also have "\<dots> = 2 powi (53 + e)" by (simp add: power_int_add)
      finally show ?thesis using b(1) by linarith
    qed
    then have "ilog2 ?x \<le> 53 + e"
      by (metis linorder_not_less one_less_numeral_iff order_less_le_trans
          power_int_strict_increasing semiring_norm(76) less_irrefl)
    show ?thesis
    proof (cases "ilog2 ?x - 52 \<le> e")
      case True
      then obtain j where j: "e = ilog2 ?x - 52 + int j"
        using zle_iff_zadd by blast
      have u: "ulp ?x = 2 powi (ilog2 ?x - 52)" using x by (simp add: ulp_def)
      have "?x = of_int k * (2 powi (ilog2 ?x - 52) * 2 powi (int j))"
        by (subst j) (simp add: power_int_add)
      then have eq: "?x = of_int (k * 2 ^ j) * ulp ?x"
        using u by (simp add: algebra_simps)
      have div: "?x / ulp ?x = of_int (k * 2 ^ j)"
        using eq by (metis less_irrefl nonzero_mult_div_cancel_right ulp_pos)
      have "fl ?x = of_int (k * 2 ^ j) * ulp ?x"
        unfolding fl_def div round_half_even_of_int using x by auto
      with eq show ?thesis by metis
    next
      case False
      with \<open>ilog2 ?x \<le> 53 + e\<close> have i: "ilog2 ?x = 53 + e" by linarith
      have "2 powi (53 + e) \<le> ?x" using b(1) i by simp
      then have "of_int (2 ^ 53) * 2 powi e \<le> ?x" by (simp add: power_int_add)
      then have "k = 2 ^ 53" using k
        by (metis mult_le_cancel_right_pos of_int_le_iff order_antisym zero_less_numeral
            zero_less_power_int)
      then have eq: "?x = of_int (2 ^ 52) * 2 powi (e + 1)"
        by (simp add: power_int_add)
      have u: "ulp ?x = 2 powi (e + 1)" using x by (simp add: ulp_def i add.commute)
      have div: "?x / ulp ?x = of_int (2 ^ 52)"
        using eq u by (metis less_irrefl nonzero_mult_div_cancel_right ulp_pos)
      have "fl ?x = of_int (2 ^ 52) * ulp ?x"
        unfolding fl_def div round_half_even_of_int using x by auto
      with eq u show ?thesis by metis
    qed
  qed
  show ?thesis
  proof (cases k "0::int" rule: linorder_cases)
    case less
    then have "fl (of_int (- k) * 2 powi e) = of_int (- k) * 2 powi e"
      using assms by (intro pos) auto
    then show ?thesis by simp
  next
    case equal
    then show ?thesis by simp
  next
    case greater
    with assms show ?thesis by (intro pos) auto
  qed
qed

lemma fl_idem [simp]: "fl (fl x) = fl x"
proof -
  have pos: "fl (fl x) = fl x" if "0 < x" for x
  proof -
    let ?k = "round_half_even (x / ulp x)"
    have "of_int ?k * ulp x \<le> of_int (2 ^ 53) * ulp x"
    proof -
      have "fl x = of_int ?k * ulp x" using that by (simp add: fl_def)
      moreover have "of_int (2 ^ 53) * ulp x = 2 powi (ilog2 x + 1)"
        using that by (simp add: ulp_def power_int_diff power_int_add)
      ultimately show ?thesis using fl_binade(2) [OF that] by simp
    qed
    then have "?k \<le> 2 ^ 53"
      by (metis mult_le_cancel_right_pos of_int_le_iff ulp_pos)
    moreover have "0 \<le> ?k"
      using that round_half_even_mono [of 0 "x / ulp x"] by (simp add: less_imp_le)
    ultimately have "fl (of_int ?k * 2 powi (ilog2 x - 52)) = of_int ?k * 2 powi (ilog2 x - 52)"
      by (intro fl_representable) simp
    then show ?thesis using that by (simp add: fl_def ulp_def)
  qed
  consider "x = 0" | "0 < x" | "0 < - x" by linarith
  then show ?thesis
  proof cases
    case 3
    then have "fl (fl (- x)) = fl (- x)" by (rule pos)
    then show ?thesis by simp
  qed (auto intro: pos)
qed

lemma fl_of_int: "\<bar>n\<bar> \<le> 2 ^ 53 \<Longrightarrow> fl (of_int n) = of_int n"
  using fl_representable [of n 0] by simp

lemma fl_1 [simp]: "fl 1 = 1"
  using fl_of_int [of 1] by simp

definition is_float :: "rat \<Rightarrow> bool" where
  "is_float x \<longleftrightarrow> fl x = x"

lemma is_float_fl [simp]: "is_float (fl x)"
  by (simp add: is_float_def)

lemma fl_le_float: "is_float t \<Longrightarrow> x \<le> t \<Longrightarrow> fl x \<le> t"
  by (metis fl_mono is_float_def)

lemma float_le_fl: "is_float t \<Longrightarrow> t \<le> x \<Longrightarrow> t \<le> fl x"
  by (metis fl_mono is_float_def)

text \<open>\<open>round(x, d)\<close>: the decimal with \<open>d\<close> places nearest to the float, read back as a float.\<close>

definition py_round :: "nat \<Rightarrow> rat \<Rightarrow> rat" where
  "py_round d x = fl (of_int (round_half_even (x * 10 ^ d)) / 10 ^ d)"

lemma py_round_mono: "x \<le> y \<Longrightarrow> py_round d x \<le> py_round d y"
  unfolding py_round_def
  by (intro fl_mono divide_right_mono) (simp_all add: round_half_even_mono mult_right_mono)

lemma py_round_0 [simp]: "py_round d 0 = 0"
  by (simp add: py_round_def)

lemma py_round_1 [simp]: "py_round d 1 = 1"
  using round_half_even_of_int [of "10 ^ d"] by (simp add: py_round_def)

lemma py_round_nonneg: "0 \<le> x \<Longrightarrow> 0 \<le> py_round d x"
  using py_round_mono [of 0 x d] by simp

lemma is_float_py_round [simp]: "is_float (py_round d x)"
  by (simp add: py_round_def)

end
