(* ===== verification/PyTime.thy ===== *)
theory PyTime
  imports PyNum
begin

text \<open>
  Python's \<open>datetime\<close> as the contracts use it. A datetime is an instant, counted in microseconds
  from 0001-01-01T00:00 of its own UTC line, and the UTC offset of its \<open>tzinfo\<close> (\<open>None\<close> for a
  naive datetime, whose count is its wall clock). \<open>isoformat\<close> is modelled to the character,
  because one store compares such strings: the last section proves that for UTC datetimes the
  string order is the time order.
\<close>

record datetime =
  dt_us :: int
  dt_off :: "int option"

definition utc :: "int \<Rightarrow> datetime" where
  "utc us = \<lparr>dt_us = us, dt_off = Some 0\<rparr>"

lemma utc_simps [simp]: "dt_us (utc us) = us" "dt_off (utc us) = Some 0"
  by (simp_all add: utc_def)

lemma utc_eq_iff [simp]: "utc a = utc b \<longleftrightarrow> a = b"
  by (simp add: utc_def)

definition is_utc :: "datetime \<Rightarrow> bool" where
  "is_utc t \<longleftrightarrow> dt_off t = Some 0"

lemma is_utc_utc [simp]: "is_utc (utc us)"
  by (simp add: is_utc_def)

lemma is_utc_eq: "is_utc a \<Longrightarrow> is_utc b \<Longrightarrow> a = b \<longleftrightarrow> dt_us a = dt_us b"
  by (cases a; cases b) (simp add: is_utc_def)

lemma is_utcE: "is_utc t \<Longrightarrow> (\<And>us. t = utc us \<Longrightarrow> P) \<Longrightarrow> P"
  by (cases t) (simp add: is_utc_def utc_def)

text \<open>\<open>(a - b).total_seconds()\<close>: the exact microseconds over a million, rounded to a float.\<close>

definition total_seconds :: "int \<Rightarrow> rat" where
  "total_seconds us = fl (of_int us / 1000000)"

lemma total_seconds_neg_iff: "total_seconds us < 0 \<longleftrightarrow> us < 0"
proof -
  have "total_seconds us < 0" if "us < 0"
    using fl_pos [of "- of_int us / 1000000"] that by (simp add: total_seconds_def)
  moreover have "\<not> total_seconds us < 0" if "\<not> us < 0"
    using fl_nonneg [of "of_int us / 1000000"] that by (simp add: total_seconds_def not_less)
  ultimately show ?thesis by blast
qed

lemma total_seconds_mono: "a \<le> b \<Longrightarrow> total_seconds a \<le> total_seconds b"
  by (simp add: total_seconds_def fl_mono divide_right_mono)

lemma total_seconds_greater:
  assumes "is_float t" "t < total_seconds us"
  shows "t * 1000000 < of_int us"
proof (rule ccontr)
  assume "\<not> t * 1000000 < of_int us"
  then have "of_int us / 1000000 \<le> t" by (simp add: pos_divide_le_eq)
  then have "total_seconds us \<le> t"
    unfolding total_seconds_def by (rule fl_le_float [OF assms(1)])
  with assms(2) show False by simp
qed

lemma total_seconds_whole: "\<bar>s\<bar> \<le> 2 ^ 53 \<Longrightarrow> total_seconds (s * 1000000) = of_int s"
  by (simp add: total_seconds_def fl_of_int)

text \<open>Up to \<open>2 ^ 33\<close> seconds a float separates whole seconds from the next microsecond.\<close>

lemma total_seconds_greater_iff:
  assumes "0 \<le> k" "k < 2 ^ 33"
  shows "of_int k < total_seconds us \<longleftrightarrow> k * 1000000 < us"
proof
  assume "of_int k < total_seconds us"
  moreover have "is_float (of_int k)" using assms by (simp add: is_float_def fl_of_int)
  ultimately have "of_int (k * 1000000) < (of_int us :: rat)"
    using total_seconds_greater [of "of_int k" us] by simp
  then show "k * 1000000 < us" by linarith
next
  assume us: "k * 1000000 < us"
  let ?y = "of_int (k * 2 ^ 20 + 1) * 2 powi (- 20) :: rat"
  have y: "?y = of_int k + 1 / 2 ^ 20" by (simp add: power_int_def field_simps)
  have "is_float ?y"
    unfolding is_float_def by (rule fl_representable) (use assms in simp)
  moreover have "?y \<le> of_int us / 1000000"
  proof -
    have "of_int (k * 1000000 + 1) \<le> (of_int us :: rat)" using us by linarith
    then have "of_int k + 1 / 1000000 \<le> (of_int us :: rat) / 1000000" by (simp add: field_simps)
    then show ?thesis unfolding y by (simp add: field_simps)
  qed
  ultimately have "?y \<le> total_seconds us"
    unfolding total_seconds_def by (rule float_le_fl)
  then show "of_int k < total_seconds us" unfolding y by (simp add: field_simps)
qed

section \<open>Decimal digits\<close>

definition digit_char :: "nat \<Rightarrow> char" where
  "digit_char d = dec_digits ! d"

text \<open>The format \<open>{:0wd}\<close> for a number below \<open>10 ^ w\<close>.\<close>

fun digits :: "nat \<Rightarrow> nat \<Rightarrow> string" where
  "digits 0 n = []"
| "digits (Suc w) n = digits w (n div 10) @ [digit_char (n mod 10)]"

lemma length_digits [simp]: "length (digits w n) = w"
  by (induction w arbitrary: n) auto

lemma digit_char_mono: "a < b \<Longrightarrow> b < 10 \<Longrightarrow> digit_char a < digit_char b"
proof -
  have "sorted_wrt (<) dec_digits" "length dec_digits = 10"
    by (simp_all add: dec_digits_def less_char_def)
  then show "a < b \<Longrightarrow> b < 10 \<Longrightarrow> digit_char a < digit_char b"
    by (simp add: digit_char_def sorted_wrt_nth_less)
qed

lemma digit_char_less_iff: "a < 10 \<Longrightarrow> b < 10 \<Longrightarrow> digit_char a < digit_char b \<longleftrightarrow> a < b"
  by (metis digit_char_mono linorder_less_linear order_less_asym)

lemma digit_char_inj: "a < 10 \<Longrightarrow> b < 10 \<Longrightarrow> digit_char a = digit_char b \<longleftrightarrow> a = b"
  using digit_char_less_iff [of a b] digit_char_less_iff [of b a] by (metis nat_neq_iff less_irrefl)

lemma digit_char_decimal: "d < 10 \<Longrightarrow> digit_char d \<in> set dec_digits"
  by (simp add: digit_char_def dec_digits_def del: List.set_simps)

text \<open>Strings with equally long heads compare by the heads, then by the tails.\<close>

lemma list_less_append:
  fixes xs ys us vs :: "'a::linorder list"
  assumes "length xs = length ys"
  shows "xs @ us < ys @ vs \<longleftrightarrow> xs < ys \<or> xs = ys \<and> us < vs"
  using assms by (induction xs ys rule: list_induct2) (auto)

lemma less_div_mod_iff:
  "0 < n \<Longrightarrow> (a::nat) < b \<longleftrightarrow> a div n < b div n \<or> a div n = b div n \<and> a mod n < b mod n"
  by (metis add_less_cancel_left div_le_mono linorder_less_linear linorder_not_less
      mult_div_mod_eq order.strict_implies_order)

lemma digits_eq_iff: "a < 10 ^ w \<Longrightarrow> b < 10 ^ w \<Longrightarrow> digits w a = digits w b \<longleftrightarrow> a = b"
proof (induction w arbitrary: a b)
  case 0
  then show ?case by simp
next
  case (Suc w)
  have "a div 10 < 10 ^ w" "b div 10 < 10 ^ w" using Suc.prems by (auto simp: div_less_iff_less_mult)
  then have "digits (Suc w) a = digits (Suc w) b \<longleftrightarrow> a div 10 = b div 10 \<and> a mod 10 = b mod 10"
    using Suc.IH by (simp add: digit_char_inj)
  also have "\<dots> \<longleftrightarrow> a = b" by (metis div_mult_mod_eq)
  finally show ?case .
qed

lemma digits_less_iff: "a < 10 ^ w \<Longrightarrow> b < 10 ^ w \<Longrightarrow> digits w a < digits w b \<longleftrightarrow> a < b"
proof (induction w arbitrary: a b)
  case 0
  then show ?case by simp
next
  case (Suc w)
  have r: "a div 10 < 10 ^ w" "b div 10 < 10 ^ w"
    using Suc.prems by (auto simp: div_less_iff_less_mult)
  have "digits (Suc w) a < digits (Suc w) b \<longleftrightarrow> digits w (a div 10) < digits w (b div 10)
      \<or> digits w (a div 10) = digits w (b div 10)
        \<and> [digit_char (a mod 10)] < [digit_char (b mod 10)]"
    unfolding digits.simps by (rule list_less_append) simp
  also have "\<dots> \<longleftrightarrow> a div 10 < b div 10 \<or> a div 10 = b div 10 \<and> a mod 10 < b mod 10"
    unfolding Suc.IH [OF r] digits_eq_iff [OF r] by (simp add: digit_char_less_iff)
  also have "\<dots> \<longleftrightarrow> a < b" by (simp add: less_div_mod_iff [of 10 a b])
  finally show ?case .
qed

text \<open>\<open>str(n)\<close> for a non-negative integer and \<open>int(s)\<close> for a string of digits.\<close>

fun nat_dec :: "nat \<Rightarrow> string" where
  "nat_dec n = (if n < 10 then [digit_char n] else nat_dec (n div 10) @ [digit_char (n mod 10)])"

declare nat_dec.simps [simp del]

definition dec_digit :: "char \<Rightarrow> nat" where
  "dec_digit c = of_char c - 48"

definition dec_value :: "string \<Rightarrow> nat" where
  "dec_value s = foldl (\<lambda>v c. 10 * v + dec_digit c) 0 s"

definition is_decimal :: "string \<Rightarrow> bool" where
  "is_decimal s \<longleftrightarrow> s \<noteq> [] \<and> list_all (\<lambda>c. c \<in> set dec_digits) s"

lemma dec_digit_char [simp]: "d < 10 \<Longrightarrow> dec_digit (digit_char d) = d"
proof -
  have "map dec_digit dec_digits = [0..<10]"
    by (simp add: dec_digit_def dec_digits_def upt_rec)
  then show "d < 10 \<Longrightarrow> dec_digit (digit_char d) = d"
    by (metis (no_types, lifting) add_0 diff_zero digit_char_def length_map length_upt nth_map nth_upt)
qed

lemma nat_dec_decimal: "is_decimal (nat_dec n)"
proof (induction n rule: nat_dec.induct)
  case (1 n)
  then show ?case
    by (cases "n < 10") (auto simp: nat_dec.simps [of n] is_decimal_def digit_char_decimal)
qed

lemma dec_value_nat_dec [simp]: "dec_value (nat_dec n) = n"
proof (induction n rule: nat_dec.induct)
  case (1 n)
  then show ?case by (cases "n < 10") (simp_all add: nat_dec.simps [of n] dec_value_def)
qed

lemma nat_dec_inj [simp]: "nat_dec a = nat_dec b \<longleftrightarrow> a = b"
  by (metis dec_value_nat_dec)

lemma decimal_no_dash: "is_decimal s \<Longrightarrow> CHR ''-'' \<notin> set s"
proof -
  have "CHR ''-'' \<notin> set dec_digits" by (simp add: dec_digits_def)
  then show "is_decimal s \<Longrightarrow> CHR ''-'' \<notin> set s" by (auto simp: is_decimal_def list_all_iff)
qed

section \<open>The proleptic Gregorian calendar\<close>

definition leap_year :: "nat \<Rightarrow> bool" where
  "leap_year y \<longleftrightarrow> y mod 4 = 0 \<and> (y mod 100 \<noteq> 0 \<or> y mod 400 = 0)"

definition year_days :: "nat \<Rightarrow> nat" where
  "year_days y = (if leap_year y then 366 else 365)"

definition month_days :: "nat \<Rightarrow> nat \<Rightarrow> nat" where
  "month_days y m = (if m = 2 then if leap_year y then 29 else 28
     else if m \<in> {4, 6, 9, 11} then 30 else 31)"

text \<open>
  The date of day \<open>n\<close> (counted from 0) from a given year or month on: \<open>year_from\<close> skips whole
  years, \<open>month_from\<close> whole months (at most twelve of them: the fuel is the month count).
\<close>

function year_from :: "nat \<Rightarrow> nat \<Rightarrow> nat \<times> nat" where
  "year_from y n = (if n < year_days y then (y, n) else year_from (Suc y) (n - year_days y))"
  by pat_completeness auto
termination
  by (relation "measure snd") (auto simp: year_days_def split: if_splits)

declare year_from.simps [simp del]

fun month_from :: "nat \<Rightarrow> nat \<Rightarrow> nat \<Rightarrow> nat \<Rightarrow> nat \<times> nat" where
  "month_from y 0 m n = (m, n)"
| "month_from y (Suc k) m n =
     (if n < month_days y m then (m, n) else month_from y k (Suc m) (n - month_days y m))"

text \<open>Day 0 is 0001-01-01; the result is year, month and day of the month.\<close>

definition date_of_day :: "nat \<Rightarrow> nat \<times> nat \<times> nat" where
  "date_of_day n = (case year_from 1 n of (y, d) \<Rightarrow>
     case month_from y 11 1 d of (m, k) \<Rightarrow> (y, m, k + 1))"

lemma year_from_ge: "y \<le> fst (year_from y n)"
proof (induction y n rule: year_from.induct)
  case (1 y n)
  then show ?case by (cases "n < year_days y") (auto simp: year_from.simps [of y n])
qed

lemma year_from_rest: "snd (year_from y n) < year_days (fst (year_from y n))"
proof (induction y n rule: year_from.induct)
  case (1 y n)
  then show ?case by (cases "n < year_days y") (auto simp: year_from.simps [of y n])
qed

lemma year_from_mono: "a < b \<Longrightarrow> year_from y a < year_from y b"
proof (induction y a arbitrary: b rule: year_from.induct)
  case (1 y a)
  consider "b < year_days y" | "a < year_days y" "\<not> b < year_days y" | "\<not> a < year_days y"
    by linarith
  then show ?case
  proof cases
    case 1
    with \<open>a < b\<close> show ?thesis by (simp add: year_from.simps [of y])
  next
    case 2
    then show ?thesis using year_from_ge [of "Suc y" "b - year_days y"]
      by (cases "year_from (Suc y) (b - year_days y)") (simp add: year_from.simps [of y])
  next
    case 3
    with "1.IH" [of "b - year_days y"] \<open>a < b\<close> show ?thesis
      by (simp add: year_from.simps [of y])
  qed
qed

lemma month_from_ge: "m \<le> fst (month_from y k m n)"
proof (induction y k m n rule: month_from.induct)
  case (2 y k m n)
  then show ?case by (cases "n < month_days y m") auto
qed simp

lemma month_from_le: "fst (month_from y k m n) \<le> m + k"
  by (induction y k m n rule: month_from.induct) auto

lemma month_from_mono: "a < b \<Longrightarrow> month_from y k m a < month_from y k m b"
proof (induction y k m a arbitrary: b rule: month_from.induct)
  case (2 y k m a)
  consider "b < month_days y m" | "a < month_days y m" "\<not> b < month_days y m"
    | "\<not> a < month_days y m" by linarith
  then show ?case
  proof cases
    case 1
    with \<open>a < b\<close> show ?thesis by simp
  next
    case 2
    then show ?thesis using month_from_ge [of "Suc m" y k "b - month_days y m"]
      by (cases "month_from y k (Suc m) (b - month_days y m)") simp
  next
    case 3
    with "2.IH" [of "b - month_days y m"] \<open>a < b\<close> show ?thesis by simp
  qed
qed simp

lemma month_from_rest:
  "n < (\<Sum>i < Suc k. month_days y (m + i)) \<Longrightarrow>
    snd (month_from y k m n) < month_days y (fst (month_from y k m n))"
proof (induction y k m n rule: month_from.induct)
  case (2 y k m n)
  then show ?case by (auto simp: sum.lessThan_Suc_shift simp del: sum.lessThan_Suc)
qed simp

lemma month_sum: "(\<Sum>i < Suc 11. month_days y (1 + i)) = year_days y"
  by (simp add: eval_nat_numeral month_days_def year_days_def)

lemma date_of_day_mono: "a < b \<Longrightarrow> date_of_day a < date_of_day b"
proof -
  assume ab: "a < b"
  obtain y d y' d' where yd: "year_from 1 a = (y, d)" "year_from 1 b = (y', d')"
    by (cases "year_from 1 a"; cases "year_from 1 b")
  obtain m k m' k' where mk: "month_from y 11 1 d = (m, k)" "month_from y' 11 1 d' = (m', k')"
    by (cases "month_from y 11 1 d"; cases "month_from y' 11 1 d'")
  have "y < y' \<or> y = y' \<and> d < d'"
    using year_from_mono [OF ab, of 1] unfolding yd pair_less_iff .
  moreover have "m < m' \<or> m = m' \<and> k < k'" if "y = y'" "d < d'"
    using month_from_mono [OF that(2), of y 11 1] mk that(1) by (simp only: pair_less_iff)
  ultimately show ?thesis using yd mk by (auto simp: date_of_day_def)
qed

lemma date_of_day_bounds:
  assumes "date_of_day n = (y, m, d)"
  shows "m \<le> 12" "d \<le> 31"
proof -
  obtain r where r: "year_from 1 n = (y, r)"
    using assms by (auto simp: date_of_day_def split: prod.splits)
  obtain k where k: "month_from y 11 1 r = (m, k)" "d = k + 1"
    using assms r by (auto simp: date_of_day_def split: prod.splits)
  show "m \<le> 12" using month_from_le [of y 11 1 r] k by simp
  have "r < year_days y" using year_from_rest [of 1 n] r by simp
  then have "k < month_days y m"
    using month_from_rest [where n = r and k = 11 and y = y and m = 1] k
    unfolding month_sum by simp
  then show "d \<le> 31" using k by (auto simp: month_days_def split: if_splits)
qed

section \<open>\<open>isoformat\<close>\<close>

definition day_us :: int where
  "day_us = 86400000000"

definition wall_us :: "datetime \<Rightarrow> int" where
  "wall_us t = dt_us t + (case dt_off t of None \<Rightarrow> 0 | Some k \<Rightarrow> k)"

definition clock_string :: "nat \<Rightarrow> string" where
  "clock_string s =
     digits 2 (s div 3600) @ '':'' @ digits 2 (s div 60 mod 60) @ '':'' @ digits 2 (s mod 60)"

definition micro_string :: "nat \<Rightarrow> string" where
  "micro_string us = (if us = 0 then [] else ''.'' @ digits 6 us)"

definition offset_string :: "int option \<Rightarrow> string" where
  "offset_string off = (case off of None \<Rightarrow> [] | Some k \<Rightarrow>
     let a = nat \<bar>k\<bar>; s = a div 1000000 in
     (if k < 0 then ''-'' else ''+'') @ digits 2 (s div 3600) @ '':'' @ digits 2 (s div 60 mod 60)
     @ (if a mod 60000000 = 0 then [] else '':'' @ digits 2 (s mod 60) @ micro_string (a mod 1000000)))"

definition date_string :: "nat \<times> nat \<times> nat \<Rightarrow> string" where
  "date_string = (\<lambda>(y, m, d). digits 4 y @ ''-'' @ digits 2 m @ ''-'' @ digits 2 d)"

definition isoformat :: "datetime \<Rightarrow> string" where
  "isoformat t = (let w = wall_us t; r = nat (w mod day_us) in
     date_string (date_of_day (nat (w div day_us))) @ ''T'' @ clock_string (r div 1000000)
     @ micro_string (r mod 1000000) @ offset_string (dt_off t))"

text \<open>The datetimes Python can represent: years 1 to 9999 of the wall clock.\<close>

definition representable :: "datetime \<Rightarrow> bool" where
  "representable t \<longleftrightarrow> 0 \<le> wall_us t \<and> fst (date_of_day (nat (wall_us t div day_us))) \<le> 9999"


section \<open>The string order of UTC timestamps is the time order\<close>

lemma date_string_mono:
  assumes "date_of_day a < date_of_day b"
    and "fst (date_of_day a) \<le> 9999" "fst (date_of_day b) \<le> 9999"
  shows "date_string (date_of_day a) < date_string (date_of_day b)"
proof -
  obtain y m d y' m' d' where ab: "date_of_day a = (y, m, d)" "date_of_day b = (y', m', d')"
    by (cases "date_of_day a"; cases "date_of_day b")
  note bounds = date_of_day_bounds [OF ab(1)] date_of_day_bounds [OF ab(2)]
  have less: "digits 4 y < digits 4 y' \<longleftrightarrow> y < y'" "digits 2 m < digits 2 m' \<longleftrightarrow> m < m'"
    "digits 2 d < digits 2 d' \<longleftrightarrow> d < d'"
    using assms(2,3) bounds unfolding ab by (simp_all add: digits_less_iff)
  have "y < y' \<or> y = y' \<and> (m < m' \<or> m = m' \<and> d < d')"
    using assms(1) unfolding ab pair_less_iff .
  then show ?thesis
    unfolding ab date_string_def prod.case
    by (auto simp: list_less_append less)
qed

lemma length_date_string [simp]: "length (date_string x) = 10"
  by (cases x) (simp add: date_string_def)

lemma length_clock_string [simp]: "length (clock_string s) = 8"
  by (simp add: clock_string_def)

lemma clock_string_mono:
  assumes "s < t" "t < 86400"
  shows "clock_string s < clock_string t"
proof -
  have d: "s div 3600 = s div 60 div 60" "t div 3600 = t div 60 div 60"
    by (simp_all add: div_mult2_eq [symmetric])
  have less: "digits 2 (x div 3600) < digits 2 (y div 3600) \<longleftrightarrow> x div 3600 < y div 3600"
    "digits 2 (x div 60 mod 60) < digits 2 (y div 60 mod 60) \<longleftrightarrow> x div 60 mod 60 < y div 60 mod 60"
    "digits 2 (x mod 60) < digits 2 (y mod 60) \<longleftrightarrow> x mod 60 < y mod 60"
    if "x < 86400" "y < 86400" for x y :: nat
    using that by (auto simp: digits_less_iff div_less_iff_less_mult
        intro: less_trans [OF mod_less_divisor])
  have "s div 3600 < t div 3600 \<or> s div 3600 = t div 3600 \<and>
      (s div 60 mod 60 < t div 60 mod 60 \<or> s div 60 mod 60 = t div 60 mod 60 \<and> s mod 60 < t mod 60)"
    using assms(1) less_div_mod_iff [of 60 s t] less_div_mod_iff [of 60 "s div 60" "t div 60"]
    unfolding d by (metis zero_less_numeral)
  then show ?thesis
    using assms by (auto simp: clock_string_def list_less_append less)
qed

lemma micro_string_mono:
  assumes "u < v" "v < 1000000"
  shows "micro_string u @ ''+'' @ r < micro_string v @ ''+'' @ r"
proof (cases "u = 0")
  case True
  with assms show ?thesis by (simp add: micro_string_def less_char_def)
next
  case False
  have "digits 6 u < digits 6 v" using assms by (simp add: digits_less_iff)
  with False assms show ?thesis by (simp add: micro_string_def list_less_append)
qed

lemma offset_string_utc: "offset_string (Some 0) = ''+'' @ ''00:00''"
  by (simp add: offset_string_def digit_char_def dec_digits_def numeral_2_eq_2)

lemma isoformat_mono:
  assumes "is_utc a" "is_utc b" "representable a" "representable b" "dt_us a < dt_us b"
  shows "isoformat a < isoformat b"
proof -
  let ?D = "\<lambda>t::datetime. nat (dt_us t div day_us)" and ?r = "\<lambda>t::datetime. nat (dt_us t mod day_us)"
  have iso: "isoformat t = date_string (date_of_day (?D t)) @ (''T'' @ clock_string (?r t div 1000000)
      @ micro_string (?r t mod 1000000) @ ''+'' @ ''00:00'')" if "is_utc t" for t
    using that
    by (simp only: isoformat_def is_utc_def wall_us_def offset_string_utc Let_def option.case
        add_0_right append_assoc)
  have nn: "0 \<le> dt_us a" "0 \<le> dt_us b" and yr: "fst (date_of_day (?D a)) \<le> 9999"
    "fst (date_of_day (?D b)) \<le> 9999"
    using assms by (auto simp: representable_def is_utc_def wall_us_def)
  have day: "(0::int) < day_us" by (simp add: day_us_def)
  have r: "?r t < 86400000000" for t
    using pos_mod_bound [OF day, of "dt_us t"] pos_mod_sign [OF day, of "dt_us t"]
    by (simp add: day_us_def nat_less_iff)
  have split: "nat (dt_us t) div 86400000000 = ?D t" "nat (dt_us t) mod 86400000000 = ?r t"
    if "0 \<le> dt_us t" for t
    using that by (simp_all add: day_us_def nat_div_distrib nat_mod_distrib)
  have lt: "nat (dt_us a) < nat (dt_us b)" using assms nn by simp
  have "?D a < ?D b \<or> ?D a = ?D b \<and> ?r a < ?r b"
    using lt less_div_mod_iff [of 86400000000 "nat (dt_us a)" "nat (dt_us b)"]
    unfolding split [OF nn(1)] split [OF nn(2)] by simp
  then consider "?D a < ?D b" | "?D a = ?D b" "?r a div 1000000 < ?r b div 1000000"
    | "?D a = ?D b" "?r a div 1000000 = ?r b div 1000000" "?r a mod 1000000 < ?r b mod 1000000"
    using less_div_mod_iff [of 1000000 "?r a" "?r b"] by auto
  then show ?thesis
  proof cases
    case 1
    then show ?thesis
      using date_string_mono [OF date_of_day_mono yr]
      unfolding iso [OF assms(1)] iso [OF assms(2)] by (simp add: list_less_append)
  next
    case 2
    have "?r b div 1000000 < 86400" using r [of b] by (simp add: div_less_iff_less_mult)
    from clock_string_mono [OF 2(2) this] 2(1) show ?thesis
      unfolding iso [OF assms(1)] iso [OF assms(2)] by (simp add: list_less_append)
  next
    case 3
    from micro_string_mono [OF 3(3), of "''00:00''"] 3(1,2) show ?thesis
      unfolding iso [OF assms(1)] iso [OF assms(2)] by (simp add: list_less_append)
  qed
qed

lemma isoformat_less_iff:
  assumes "is_utc a" "is_utc b" "representable a" "representable b"
  shows "isoformat a < isoformat b \<longleftrightarrow> dt_us a < dt_us b"
  using isoformat_mono [OF assms] isoformat_mono [OF assms(2,1,4,3)] is_utc_eq [OF assms(1,2)]
  by (metis linorder_less_linear order_less_asym)

lemma isoformat_inj:
  assumes "is_utc a" "is_utc b" "representable a" "representable b"
  shows "isoformat a = isoformat b \<longleftrightarrow> a = b"
  using isoformat_less_iff [OF assms] isoformat_less_iff [OF assms(2,1,4,3)] is_utc_eq [OF assms(1,2)]
  by (metis linorder_less_linear less_irrefl)

end
