(* ===== verification/StreamId.thy ===== *)
theory StreamId
  imports PyTime
begin

text \<open>
  Valkey stream ids \<open><milliseconds>-<sequence>\<close>, which the event bus, the projection and the poll
  history parse: splitting at the first dash, the two decimal parts, and the round trip.
\<close>

text \<open>\<open>value.split("-", maxsplit=1)\<close>: the text before the first dash, and the rest if there is one.\<close>

definition split_dash :: "string \<Rightarrow> string \<times> string option" where
  "split_dash s = (case dropWhile (\<lambda>c. c \<noteq> CHR ''-'') s of
     [] \<Rightarrow> (s, None) | _ # r \<Rightarrow> (takeWhile (\<lambda>c. c \<noteq> CHR ''-'') s, Some r))"

definition stream_id_text :: "nat \<times> nat \<Rightarrow> string" where
  "stream_id_text = (\<lambda>(ms, n). nat_dec ms @ ''-'' @ nat_dec n)"

definition decimal_position :: "string \<Rightarrow> (nat \<times> nat) option" where
  "decimal_position s = (case split_dash s of
     (a, Some b) \<Rightarrow> if is_decimal a \<and> is_decimal b then Some (dec_value a, dec_value b) else None
   | (a, None) \<Rightarrow> None)"

lemma split_dash_append: "CHR ''-'' \<notin> set a \<Longrightarrow> split_dash (a @ CHR ''-'' # b) = (a, Some b)"
proof -
  assume "CHR ''-'' \<notin> set a"
  then have "dropWhile (\<lambda>c. c \<noteq> CHR ''-'') (a @ CHR ''-'' # b) = CHR ''-'' # b"
    "takeWhile (\<lambda>c. c \<noteq> CHR ''-'') (a @ CHR ''-'' # b) = a"
    by (simp_all add: dropWhile_append3 takeWhile_append2 dropWhile_append2) (auto simp: takeWhile_append)
  then show ?thesis by (simp add: split_dash_def)
qed

lemma decimal_position_text [simp]: "decimal_position (stream_id_text p) = Some p"
proof (cases p)
  case (Pair m n)
  have "split_dash (nat_dec m @ CHR ''-'' # nat_dec n) = (nat_dec m, Some (nat_dec n))"
    by (rule split_dash_append) (rule decimal_no_dash [OF nat_dec_decimal])
  then show ?thesis
    by (simp add: Pair decimal_position_def stream_id_text_def nat_dec_decimal)
qed

lemma stream_id_text_inj [simp]: "stream_id_text p = stream_id_text q \<longleftrightarrow> p = q"
  by (metis decimal_position_text option.inject)

text \<open>The ids the in-memory stream and history draw from their counters, \<open>f"0-{n}"\<close>.\<close>

definition memory_stream_id :: "nat \<Rightarrow> string" where
  "memory_stream_id n = ''0-'' @ nat_dec n"

lemma memory_stream_id_text: "memory_stream_id n = stream_id_text (0, n)"
  by (simp add: memory_stream_id_def stream_id_text_def nat_dec.simps [of 0] digit_char_def
      dec_digits_def)


section \<open>Python slices\<close>

text \<open>\<open>xs[lo:hi]\<close>: a negative bound counts from the end, and both are clipped to the list.\<close>

definition slice_bound :: "nat \<Rightarrow> int \<Rightarrow> nat" where
  "slice_bound n i = (if i < 0 then nat (max 0 (int n + i)) else min n (nat i))"

definition py_slice :: "'a list \<Rightarrow> int \<Rightarrow> int option \<Rightarrow> 'a list" where
  "py_slice xs lo hi = (let n = length xs; a = slice_bound n lo;
     b = (case hi of None \<Rightarrow> n | Some h \<Rightarrow> slice_bound n h) in take (b - a) (drop a xs))"

lemma py_slice_prefix: "0 \<le> n \<Longrightarrow> py_slice xs (int k) (Some (int k + n)) = take (nat n) (drop k xs)"
  by (simp add: py_slice_def slice_bound_def Let_def nat_add_distrib min_def)

lemma py_slice_last: "1 \<le> n \<Longrightarrow> py_slice xs (- n) None = drop (length xs - nat n) xs"
  by (simp add: py_slice_def slice_bound_def Let_def nat_diff_distrib' max_def)

end
