(* ===== verification/SourcePoll.thy ===== *)
theory SourcePoll
  imports StreamId
begin

text \<open>
  The contracts of \<open>src/atlas_pulse/source_polling.py\<close>: policies, poll attempts, the per-source
  state, the history transitions and their page, each a record with the function its Pydantic
  validators compute. \<open>validate_x\<close> returns its argument or raises the first \<open>ValueError\<close> the
  validators reach, field constraints first. Fields of a single \<open>Literal\<close> value (the version
  constants) are left out. A field of a model that is itself a model instance is not validated
  again, as Pydantic does not.
\<close>

section \<open>Enumerations\<close>

datatype source_name = Usgs | Nws | Firms | Gdelt

datatype timestamp_basis = SourceMetadata | LatestRecord | FetchFallback

datatype poll_outcome = InProgress | Succeeded | Failed

datatype poll_stage = Fetch | Snapshot | Normalize | Publish | Complete

datatype failure_code =
    TransportExhausted | SourceRejected | SourcePayloadInvalid
  | SnapshotWriteFailed | PublicationUnavailable | UnexpectedFailure

datatype poll_status = Healthy | Degraded | Stale | Starting | ClockSkew

datatype data_status = CurrentData | StaleData | NotReported | FutureClockSkew

datatype transition_kind = StartedTr | SucceededTr | FailedTr

text \<open>Sources are strings to the code, so they sort by their names.\<close>

fun source_string :: "source_name \<Rightarrow> string" where
  "source_string Usgs = ''usgs''"
| "source_string Nws = ''nws''"
| "source_string Firms = ''firms''"
| "source_string Gdelt = ''gdelt''"

lemma source_string_inj: "source_string a = source_string b \<longleftrightarrow> a = b"
  by (cases a; cases b) simp_all

instantiation source_name :: linorder
begin

definition less_eq_source_name :: "source_name \<Rightarrow> source_name \<Rightarrow> bool" where
  "less_eq_source_name a b \<longleftrightarrow> source_string a \<le> source_string b"

definition less_source_name :: "source_name \<Rightarrow> source_name \<Rightarrow> bool" where
  "less_source_name a b \<longleftrightarrow> source_string a < source_string b"

instance
  by standard
    (auto simp: less_eq_source_name_def less_source_name_def source_string_inj order.strict_iff_order)

end

lemma UNIV_source_name: "UNIV = {Usgs, Nws, Firms, Gdelt}"
  using source_name.exhaust by blast

lemma finite_sources [simp]: "finite (UNIV :: source_name set)"
  by (simp add: UNIV_source_name)

lemma card_sources: "card (UNIV :: source_name set) = 4"
  by (simp add: UNIV_source_name)

lemma distinct_sources_bound: "distinct (xs :: source_name list) \<Longrightarrow> length xs \<le> 4"
  by (metis card_mono card_sources distinct_card finite_sources subset_UNIV)

section \<open>Timestamps\<close>

definition require_utc :: "datetime \<Rightarrow> string \<Rightarrow> datetime res" where
  "require_utc t field = (case dt_off t of
     None \<Rightarrow> Inl (ValueError (field @ '' must be timezone-aware''))
   | Some k \<Rightarrow> if k \<noteq> 0 then Inl (ValueError (field @ '' must use UTC''))
       else Inr (t\<lparr>dt_off := Some 0\<rparr>))"

definition require_utc_option :: "datetime option \<Rightarrow> string \<Rightarrow> datetime option res" where
  "require_utc_option t field = (case t of None \<Rightarrow> Inr None
     | Some t \<Rightarrow> rbind (require_utc t field) (\<lambda>u. Inr (Some u)))"

lemma require_utc_eq_Inr [guard_simps]: "require_utc t f = Inr u \<longleftrightarrow> is_utc t \<and> u = t"
  by (cases t) (auto simp: require_utc_def is_utc_def split: option.splits)

lemma require_utc_option_eq_Inr [guard_simps]:
  "require_utc_option t f = Inr u \<longleftrightarrow> (\<forall>x. t = Some x \<longrightarrow> is_utc x) \<and> u = t"
  by (auto simp: require_utc_option_def guard_simps split: option.splits)

lemma require_utc_utc [simp]: "require_utc (utc us) f = Inr (utc us)"
  by (simp add: guard_simps)

section \<open>Policies\<close>

record poll_policy =
  pol_source :: source_name
  pol_interval :: rat
  pol_poll_stale :: rat
  pol_source_stale :: rat

definition validate_policy :: "poll_policy \<Rightarrow> poll_policy res" where
  "validate_policy p = raise_first
     [(pol_interval p \<le> 0, ''interval_seconds must be greater than 0''),
      (pol_poll_stale p \<le> 0, ''poll_stale_after_seconds must be greater than 0''),
      (pol_source_stale p \<le> 0, ''source_stale_after_seconds must be greater than 0''),
      (pol_poll_stale p \<le> pol_interval p, ''poll stale threshold must exceed the configured interval''),
      (pol_source_stale p \<le> pol_interval p, ''source stale threshold must exceed the configured interval'')] p"

definition valid_policy :: "poll_policy \<Rightarrow> bool" where
  "valid_policy p \<longleftrightarrow> 0 < pol_interval p \<and> pol_interval p < pol_poll_stale p
     \<and> pol_interval p < pol_source_stale p"

lemma validate_policy_eq_Inr [guard_simps]: "validate_policy p = Inr q \<longleftrightarrow> valid_policy p \<and> q = p"
  by (auto simp: validate_policy_def valid_policy_def guard_simps not_le)

section \<open>Poll attempts\<close>

record poll_attempt =
  att_id :: string
  att_source :: source_name
  att_started :: datetime
  att_completed :: "datetime option"
  att_outcome :: poll_outcome
  att_stage :: poll_stage
  att_transport :: int
  att_generated :: "datetime option"
  att_basis :: "timestamp_basis option"
  att_fetched :: "int option"
  att_published :: "int option"
  att_deduplicated :: "int option"
  att_failure :: "failure_code option"
  att_execution_enabled :: bool

definition negative_count :: "int option \<Rightarrow> bool" where
  "negative_count c \<longleftrightarrow> (case c of None \<Rightarrow> False | Some n \<Rightarrow> n < 0)"

definition attempt_field_checks :: "poll_attempt \<Rightarrow> unit res" where
  "attempt_field_checks a = raise_first
     [(\<not> matches_hex ''source-poll-'' 32 (att_id a), ''attempt_id does not match its pattern''),
      (att_transport a < 0 \<or> 20 < att_transport a, ''transport_attempts must be within 0 and 20''),
      (negative_count (att_fetched a), ''fetched_events must not be negative''),
      (negative_count (att_published a), ''published_events must not be negative''),
      (negative_count (att_deduplicated a), ''deduplicated_events must not be negative''),
      (att_execution_enabled a, ''execution_enabled must be False'')] ()"

definition attempt_counts :: "poll_attempt \<Rightarrow> int option list" where
  "attempt_counts a = [att_fetched a, att_published a, att_deduplicated a]"

definition attempt_outcome_checks :: "poll_attempt \<Rightarrow> unit res" where
  "attempt_outcome_checks a = (let counts = attempt_counts a in
     case att_outcome a of
       InProgress \<Rightarrow> raise_first
         [(att_completed a \<noteq> None \<or> att_failure a \<noteq> None \<or> att_stage a = Complete,
           ''in-progress polls cannot contain a completion or failure''),
          ((\<exists>c \<in> set counts. c \<noteq> None) \<or> att_transport a \<noteq> 0,
           ''new polls cannot contain result counters'')] ()
     | Succeeded \<Rightarrow> raise_first
         [(att_completed a = None \<or> att_stage a \<noteq> Complete \<or> att_failure a \<noteq> None
            \<or> att_generated a = None \<or> att_transport a < 1 \<or> (\<exists>c \<in> set counts. c = None),
           ''successful polls require complete bounded result metadata''),
          (the (att_published a) + the (att_deduplicated a) \<noteq> the (att_fetched a),
           ''published and deduplicated counts must equal fetched events'')] ()
     | Failed \<Rightarrow> raise_first
         [(att_completed a = None \<or> att_failure a = None \<or> att_stage a = Complete,
           ''failed polls require a completion, stage, and bounded failure''),
          ((\<exists>c \<in> set counts. c \<noteq> None) \<and> \<not> (\<forall>c \<in> set counts. c \<noteq> None),
           ''partial result counters must be present together'')] ())"

definition completion_order_check :: "datetime \<Rightarrow> datetime option \<Rightarrow> unit res" where
  "completion_order_check started completed = raise_first
     [(case completed of None \<Rightarrow> False | Some c \<Rightarrow> dt_us c < dt_us started,
       ''poll completion cannot precede its start'')] ()"

definition validate_attempt :: "poll_attempt \<Rightarrow> poll_attempt res" where
  "validate_attempt a =
     rbind (attempt_field_checks a) (\<lambda>_.
     rbind (require_utc (att_started a) ''started_at'') (\<lambda>started.
     rbind (require_utc_option (att_completed a) ''completed_at'') (\<lambda>completed.
     rbind (completion_order_check started completed) (\<lambda>_.
     rbind (raise_first [((att_generated a = None) \<noteq> (att_basis a = None),
              ''source timestamp and basis must be present together'')] ()) (\<lambda>_.
     rbind (require_utc_option (att_generated a) ''source_generated_at'') (\<lambda>_.
     rbind (attempt_outcome_checks a) (\<lambda>_. Inr a)))))))"

text \<open>What a validated attempt is, by outcome.\<close>

definition attempt_shape :: "poll_attempt \<Rightarrow> bool" where
  "attempt_shape a \<longleftrightarrow> (case att_outcome a of
     InProgress \<Rightarrow> att_completed a = None \<and> att_failure a = None \<and> att_stage a \<noteq> Complete
       \<and> att_fetched a = None \<and> att_published a = None \<and> att_deduplicated a = None
       \<and> att_transport a = 0
   | Succeeded \<Rightarrow> att_completed a \<noteq> None \<and> att_stage a = Complete \<and> att_failure a = None
       \<and> att_generated a \<noteq> None \<and> 1 \<le> att_transport a
       \<and> (\<exists>f p d. att_fetched a = Some f \<and> att_published a = Some p \<and> att_deduplicated a = Some d
            \<and> p + d = f)
   | Failed \<Rightarrow> att_completed a \<noteq> None \<and> att_failure a \<noteq> None \<and> att_stage a \<noteq> Complete
       \<and> (att_fetched a = None \<longleftrightarrow> att_published a = None)
       \<and> (att_published a = None \<longleftrightarrow> att_deduplicated a = None))"

definition attempt_times :: "poll_attempt \<Rightarrow> bool" where
  "attempt_times a \<longleftrightarrow> is_utc (att_started a)
     \<and> (\<forall>c. att_completed a = Some c \<longrightarrow> is_utc c \<and> dt_us (att_started a) \<le> dt_us c)
     \<and> (att_generated a = None \<longleftrightarrow> att_basis a = None)
     \<and> (\<forall>g. att_generated a = Some g \<longrightarrow> is_utc g)"

definition attempt_fields :: "poll_attempt \<Rightarrow> bool" where
  "attempt_fields a \<longleftrightarrow> matches_hex ''source-poll-'' 32 (att_id a)
     \<and> 0 \<le> att_transport a \<and> att_transport a \<le> 20
     \<and> \<not> negative_count (att_fetched a) \<and> \<not> negative_count (att_published a)
     \<and> \<not> negative_count (att_deduplicated a) \<and> \<not> att_execution_enabled a"

definition valid_attempt :: "poll_attempt \<Rightarrow> bool" where
  "valid_attempt a \<longleftrightarrow> attempt_fields a \<and> attempt_times a \<and> attempt_shape a"

lemma attempt_field_checks_eq_Inr [guard_simps]:
  "attempt_field_checks a = Inr u \<longleftrightarrow> attempt_fields a"
  by (auto simp: attempt_field_checks_def attempt_fields_def guard_simps)

lemma completion_order_check_eq_Inr [guard_simps]:
  "completion_order_check s c = Inr u \<longleftrightarrow> (\<forall>t. c = Some t \<longrightarrow> dt_us s \<le> dt_us t)"
  by (auto simp: completion_order_check_def guard_simps split: option.splits)

lemma attempt_outcome_checks_eq_Inr [guard_simps]:
  "attempt_outcome_checks a = Inr u \<longleftrightarrow> attempt_shape a"
  by (cases "att_outcome a"; cases "att_fetched a"; cases "att_published a"; cases "att_deduplicated a")
    (auto simp: attempt_outcome_checks_def attempt_shape_def attempt_counts_def Let_def guard_simps)

lemma validate_attempt_eq_Inr [guard_simps]:
  "validate_attempt a = Inr b \<longleftrightarrow> valid_attempt a \<and> b = a"
  by (auto simp: validate_attempt_def valid_attempt_def attempt_times_def guard_simps)

text \<open>A new attempt, with the identity drawn from \<open>uuid4\<close>.\<close>

definition new_source_poll_attempt :: "string \<Rightarrow> source_name \<Rightarrow> datetime \<Rightarrow> poll_attempt res" where
  "new_source_poll_attempt uuid src started =
     rbind (require_utc started ''started_at'') (\<lambda>t. validate_attempt
       \<lparr>att_id = ''source-poll-'' @ uuid, att_source = src, att_started = t, att_completed = None,
        att_outcome = InProgress, att_stage = Fetch, att_transport = 0, att_generated = None,
        att_basis = None, att_fetched = None, att_published = None, att_deduplicated = None,
        att_failure = None, att_execution_enabled = False\<rparr>)"

lemma new_source_poll_attempt_eq_Inr:
  "new_source_poll_attempt uuid src started = Inr a \<longleftrightarrow>
     is_utc started \<and> length uuid = 32 \<and> list_all (\<lambda>c. c \<in> set hex_digits) uuid
     \<and> a = \<lparr>att_id = ''source-poll-'' @ uuid, att_source = src, att_started = started,
        att_completed = None, att_outcome = InProgress, att_stage = Fetch, att_transport = 0,
        att_generated = None, att_basis = None, att_fetched = None, att_published = None,
        att_deduplicated = None, att_failure = None, att_execution_enabled = False\<rparr>"
  unfolding new_source_poll_attempt_def
  by (auto simp: guard_simps valid_attempt_def attempt_fields_def attempt_times_def
      attempt_shape_def negative_count_def matches_hex_append [of "''source-poll-''", simplified])

section \<open>Per-source state\<close>

record poll_state =
  st_source :: source_name
  st_policy :: poll_policy
  st_current :: poll_attempt
  st_success :: "poll_attempt option"
  st_failures :: int

definition state_success_checks :: "poll_state \<Rightarrow> unit res" where
  "state_success_checks s = (case st_success s of None \<Rightarrow> Inr ()
     | Some l \<Rightarrow> raise_first
         [(att_source l \<noteq> st_source s \<or> att_outcome l \<noteq> Succeeded,
           ''last-success state must contain a successful matching poll''),
          (dt_us (att_started (st_current s)) < dt_us (att_started l),
           ''last success cannot begin after the current attempt'')] ())"

definition state_current_checks :: "poll_state \<Rightarrow> unit res" where
  "state_current_checks s = (case att_outcome (st_current s) of
     Succeeded \<Rightarrow> raise_first
       [(st_failures s \<noteq> 0, ''successful current polls reset consecutive failures''),
        (st_success s \<noteq> Some (st_current s), ''successful current polls must also be the last success'')] ()
   | Failed \<Rightarrow> raise_first
       [(st_failures s < 1, ''failed current polls require a positive consecutive-failure count'')] ()
   | InProgress \<Rightarrow> Inr ())"

definition validate_state :: "poll_state \<Rightarrow> poll_state res" where
  "validate_state s =
     rbind (raise_first
       [(st_failures s < 0, ''consecutive_failures must not be negative''),
        (pol_source (st_policy s) \<noteq> st_source s \<or> att_source (st_current s) \<noteq> st_source s,
         ''poll state source must match its policy and current attempt'')] ()) (\<lambda>_.
     rbind (state_success_checks s) (\<lambda>_.
     rbind (state_current_checks s) (\<lambda>_. Inr s)))"

definition coherent_state :: "poll_state \<Rightarrow> bool" where
  "coherent_state s \<longleftrightarrow> 0 \<le> st_failures s \<and> pol_source (st_policy s) = st_source s
     \<and> att_source (st_current s) = st_source s
     \<and> (\<forall>l. st_success s = Some l \<longrightarrow> att_source l = st_source s \<and> att_outcome l = Succeeded
          \<and> dt_us (att_started l) \<le> dt_us (att_started (st_current s)))
     \<and> (att_outcome (st_current s) = Succeeded \<longrightarrow>
          st_failures s = 0 \<and> st_success s = Some (st_current s))
     \<and> (att_outcome (st_current s) = Failed \<longrightarrow> 1 \<le> st_failures s)"

lemma validate_state_eq_Inr [guard_simps]: "validate_state s = Inr t \<longleftrightarrow> coherent_state s \<and> t = s"
  by (cases "st_success s"; cases "att_outcome (st_current s)")
    (auto simp: validate_state_def coherent_state_def state_success_checks_def
      state_current_checks_def guard_simps)

text \<open>A state all of whose parts passed their own validators.\<close>

definition valid_state :: "poll_state \<Rightarrow> bool" where
  "valid_state s \<longleftrightarrow> coherent_state s \<and> valid_policy (st_policy s) \<and> valid_attempt (st_current s)
     \<and> (\<forall>l. st_success s = Some l \<longrightarrow> valid_attempt l)"

section \<open>Stream positions, transitions and the history page\<close>

definition stream_position :: "string \<Rightarrow> (nat \<times> nat) res" where
  "stream_position s = (case decimal_position s of
     Some p \<Rightarrow> Inr p
   | None \<Rightarrow> Inl (ValueError ''source poll history cursor must be a Valkey stream ID''))"

lemma stream_position_text [simp]: "stream_position (stream_id_text p) = Inr p"
  by (simp add: stream_position_def)

record poll_transition =
  tr_stream_id :: string
  tr_source :: source_name
  tr_kind :: transition_kind
  tr_attempt :: poll_attempt

fun expected_outcome :: "transition_kind \<Rightarrow> poll_outcome" where
  "expected_outcome StartedTr = InProgress"
| "expected_outcome SucceededTr = Succeeded"
| "expected_outcome FailedTr = Failed"

definition validate_transition :: "poll_transition \<Rightarrow> poll_transition res" where
  "validate_transition t = raise_first
     [(\<not> is_ok (stream_position (tr_stream_id t)), ''stream_id does not match its pattern''),
      (tr_source t \<noteq> att_source (tr_attempt t), ''poll transition source must match its attempt''),
      (att_outcome (tr_attempt t) \<noteq> expected_outcome (tr_kind t),
       ''poll transition must match its attempt outcome'')] t"

definition coherent_transition :: "poll_transition \<Rightarrow> bool" where
  "coherent_transition t \<longleftrightarrow> is_ok (stream_position (tr_stream_id t))
     \<and> tr_source t = att_source (tr_attempt t)
     \<and> att_outcome (tr_attempt t) = expected_outcome (tr_kind t)"

lemma validate_transition_eq_Inr [guard_simps]:
  "validate_transition t = Inr u \<longleftrightarrow> coherent_transition t \<and> u = t"
  by (auto simp: validate_transition_def coherent_transition_def guard_simps)

record history_page =
  hp_generated :: datetime
  hp_count :: int
  hp_items :: "poll_transition list"
  hp_next_cursor :: "string option"
  hp_has_more :: bool

definition transition_position :: "poll_transition \<Rightarrow> nat \<times> nat" where
  "transition_position t = (case stream_position (tr_stream_id t) of Inl _ \<Rightarrow> (0, 0) | Inr p \<Rightarrow> p)"

definition page_cursor :: "poll_transition list \<Rightarrow> string option" where
  "page_cursor items = (if items = [] then None else Some (tr_stream_id (last items)))"

definition validate_history_page :: "history_page \<Rightarrow> history_page res" where
  "validate_history_page p =
     rbind (raise_first
       [(hp_count p < 0, ''count must not be negative''),
        (100 < length (hp_items p), ''items must not exceed 100'')] ()) (\<lambda>_.
     rbind (require_utc (hp_generated p) ''generated_at'') (\<lambda>_.
     let positions = map transition_position (hp_items p) in raise_first
       [(hp_count p \<noteq> int (length (hp_items p)), ''poll history count must match its items''),
        (hp_next_cursor p \<noteq> page_cursor (hp_items p),
         ''poll history cursor must identify the oldest returned transition''),
        (hp_has_more p \<and> hp_items p = [], ''empty poll history cannot report another page''),
        (\<not> distinct positions \<or> positions \<noteq> rev (sort positions),
         ''poll history transitions must be unique and newest first'')] p))"

lemma rev_sort_eq_iff: "xs = rev (sort xs) \<longleftrightarrow> sorted (rev (xs :: 'a::linorder list))"
  by (metis mset_rev properties_for_sort rev_rev_ident sorted_sort)

end
