(* ===== verification/Freshness.thy ===== *)
theory Freshness
  imports SourcePoll
begin

text \<open>
  The point-in-time freshness assessment of \<open>src/atlas_pulse/source_polling.py\<close>:
  the item and response contracts and \<open>evaluate_source_freshness\<close>. The lemmas show that the
  evaluation of validated inputs never trips the contracts it builds, that a source passes exactly
  when its heartbeat is healthy and its upstream data is current, and what that means in
  microseconds.
\<close>

section \<open>Contracts\<close>

record freshness_item =
  it_source :: source_name
  it_interval :: rat
  it_poll_stale :: rat
  it_source_stale :: rat
  it_poll_status :: poll_status
  it_data_status :: data_status
  it_last_outcome :: "poll_outcome option"
  it_last_stage :: "poll_stage option"
  it_last_failure :: "failure_code option"
  it_last_attempt_at :: "datetime option"
  it_last_success_at :: "datetime option"
  it_last_generated_at :: "datetime option"
  it_success_age :: "rat option"
  it_source_age :: "rat option"
  it_failures :: int
  it_transport :: int
  it_basis :: "timestamp_basis option"
  it_passed :: bool

text \<open>\<open>any(v is None ...) != all(v is None ...)\<close> over a list of presence flags.\<close>

definition partly_present :: "bool list \<Rightarrow> bool" where
  "partly_present present \<longleftrightarrow> ((\<exists>b \<in> set present. \<not> b) \<noteq> (\<forall>b \<in> set present. \<not> b))"

definition item_field_checks :: "freshness_item \<Rightarrow> unit res" where
  "item_field_checks i = raise_first
     [(it_interval i \<le> 0 \<or> it_poll_stale i \<le> 0 \<or> it_source_stale i \<le> 0,
       ''intervals and thresholds must be greater than 0''),
      (it_failures i < 0, ''consecutive_failures must not be negative''),
      (it_transport i < 0 \<or> 20 < it_transport i, ''transport_attempts must be within 0 and 20'')] ()"

definition validate_item :: "freshness_item \<Rightarrow> freshness_item res" where
  "validate_item i =
     rbind (item_field_checks i) (\<lambda>_.
     rbind (raise_first [(partly_present
         [it_last_attempt_at i \<noteq> None, it_last_outcome i \<noteq> None, it_last_stage i \<noteq> None],
         ''last-attempt fields must be present together'')] ()) (\<lambda>_.
     rbind (require_utc_option (it_last_attempt_at i) ''last_attempt_at'') (\<lambda>_.
     rbind (raise_first [(partly_present
         [it_last_success_at i \<noteq> None, it_last_generated_at i \<noteq> None, it_success_age i \<noteq> None,
          it_source_age i \<noteq> None, it_basis i \<noteq> None],
         ''last-success freshness fields must be present together'')] ()) (\<lambda>_.
     rbind (require_utc_option (it_last_success_at i) ''last_success_at'') (\<lambda>_.
     rbind (require_utc_option (it_last_generated_at i) ''last_source_generated_at'') (\<lambda>_.
     raise_first
       [((it_last_failure i \<noteq> None) \<noteq> (it_last_outcome i = Some Failed),
         ''only a failed latest poll may expose a failure code''),
        (it_passed i \<noteq> (it_poll_status i = Healthy \<and> it_data_status i = CurrentData),
         ''freshness pass status must match poll and source-data status'')] i))))))"

record freshness_response =
  fr_generated :: datetime
  fr_items :: "freshness_item list"
  fr_passed :: bool

definition age_mismatch :: "datetime \<Rightarrow> datetime option \<Rightarrow> rat option \<Rightarrow> bool" where
  "age_mismatch now tm age = (case (tm, age) of
     (Some t, Some x) \<Rightarrow> 1 / 1000000 < \<bar>fl (x - total_seconds (dt_us now - dt_us t))\<bar>
   | _ \<Rightarrow> False)"

definition age_guards :: "datetime \<Rightarrow> freshness_item \<Rightarrow> (bool \<times> string) list" where
  "age_guards now i =
     [(age_mismatch now (it_last_success_at i) (it_success_age i),
       ''last-success age must match response generation time''),
      (age_mismatch now (it_last_generated_at i) (it_source_age i),
       ''source age must match response generation time'')]"

definition validate_response :: "freshness_response \<Rightarrow> freshness_response res" where
  "validate_response r =
     rbind (raise_first [(fr_items r = [] \<or> 4 < length (fr_items r), ''items must hold 1 to 4 sources'')] ()) (\<lambda>_.
     rbind (require_utc (fr_generated r) ''generated_at'') (\<lambda>now.
     let sources = map it_source (fr_items r) in raise_first
       ([(sources \<noteq> sorted_set sources,
          ''source freshness items must be unique and canonically ordered'')]
        @ concat (map (age_guards now) (fr_items r))
        @ [(fr_passed r \<noteq> (\<forall>i \<in> set (fr_items r). it_passed i),
          ''response pass status must match every source'')]) r))"

section \<open>Evaluation\<close>

definition age_of :: "datetime \<Rightarrow> datetime \<Rightarrow> rat" where
  "age_of now t = total_seconds (dt_us now - dt_us t)"

definition heartbeat_status :: "datetime \<Rightarrow> poll_policy \<Rightarrow> poll_state \<Rightarrow> poll_status" where
  "heartbeat_status now p s = (let cur = st_current s in
     if age_of now (att_started cur) < 0
        \<or> (case att_completed cur of None \<Rightarrow> False | Some c \<Rightarrow> age_of now c < 0) then ClockSkew
     else if pol_poll_stale p < age_of now (att_started cur) then Stale
     else if att_outcome cur = Failed then Degraded
     else if att_outcome cur = InProgress \<and> st_success s = None then Starting
     else Healthy)"

definition upstream_status :: "datetime \<Rightarrow> poll_policy \<Rightarrow> datetime \<Rightarrow> data_status" where
  "upstream_status now p g = (if age_of now g < 0 then FutureClockSkew
     else if pol_source_stale p < age_of now g then StaleData else CurrentData)"

definition starting_item :: "poll_policy \<Rightarrow> freshness_item" where
  "starting_item p = \<lparr>it_source = pol_source p, it_interval = pol_interval p,
     it_poll_stale = pol_poll_stale p, it_source_stale = pol_source_stale p,
     it_poll_status = Starting, it_data_status = NotReported, it_last_outcome = None,
     it_last_stage = None, it_last_failure = None, it_last_attempt_at = None,
     it_last_success_at = None, it_last_generated_at = None, it_success_age = None,
     it_source_age = None, it_failures = 0, it_transport = 0, it_basis = None, it_passed = False\<rparr>"

text \<open>
  The item of a source with a state. The \<open>assert\<close> statements on the last success are the \<open>the\<close>
  of its fields, which a validated success has.
\<close>

definition state_item :: "datetime \<Rightarrow> poll_policy \<Rightarrow> poll_state \<Rightarrow> freshness_item" where
  "state_item now p s = (let cur = st_current s; hb = heartbeat_status now p s;
     base = (starting_item p)\<lparr>it_last_outcome := Some (att_outcome cur),
       it_last_stage := Some (att_stage cur), it_last_failure := att_failure cur,
       it_last_attempt_at := Some (att_started cur), it_failures := st_failures s,
       it_transport := att_transport cur\<rparr> in
     case st_success s of
       None \<Rightarrow> base\<lparr>it_poll_status := hb, it_data_status := NotReported, it_passed := False\<rparr>
     | Some l \<Rightarrow> let tm = the (att_completed l); g = the (att_generated l);
         hb' = (if age_of now tm < 0 then ClockSkew else hb); data = upstream_status now p g in
       base\<lparr>it_poll_status := hb', it_data_status := data, it_last_success_at := Some tm,
         it_last_generated_at := Some g, it_success_age := Some (age_of now tm),
         it_source_age := Some (age_of now g), it_basis := att_basis l,
         it_passed := (hb' = Healthy \<and> data = CurrentData)\<rparr>)"

definition state_by_source :: "poll_state list \<Rightarrow> source_name \<Rightarrow> poll_state option" where
  "state_by_source states = map_of (rev (map (\<lambda>s. (st_source s, s)) states))"

definition evaluate_item :: "datetime \<Rightarrow> poll_state list \<Rightarrow> poll_policy \<Rightarrow> freshness_item res" where
  "evaluate_item now states p = (case state_by_source states (pol_source p) of
     None \<Rightarrow> validate_item (starting_item p)
   | Some s \<Rightarrow> if st_policy s \<noteq> p
       then Inl (ValueError ''stored source poll policy does not match runtime configuration'')
       else validate_item (state_item now p s))"

definition evaluate_source_freshness ::
  "poll_policy list \<Rightarrow> poll_state list \<Rightarrow> datetime \<Rightarrow> freshness_response res" where
  "evaluate_source_freshness policies states generated =
     rbind (require_utc generated ''generated_at'') (\<lambda>now.
     let policy_sources = map pol_source policies; by_source = map st_source states in
     rbind (raise_first
       [(policy_sources \<noteq> sorted_set policy_sources,
         ''source poll policies must be unique and canonically ordered''),
        (length (remdups by_source) \<noteq> length states \<or> \<not> set by_source \<subseteq> set policy_sources,
         ''source poll states must be unique and match configured policies'')] ()) (\<lambda>_.
     rbind (rmap (evaluate_item now states) policies) (\<lambda>items.
       validate_response \<lparr>fr_generated = now, fr_items = items,
         fr_passed = (\<forall>i \<in> set items. it_passed i)\<rparr>)))"

section \<open>Library lemmas\<close>

lemma partly_present_simps [simp]:
  "partly_present [b, b, b] \<longleftrightarrow> False" "partly_present [b, b, b, b, b] \<longleftrightarrow> False"
  by (auto simp: partly_present_def)

lemma age_of_neg_iff: "age_of now t < 0 \<longleftrightarrow> dt_us now < dt_us t"
  by (simp add: age_of_def total_seconds_neg_iff)

lemma age_of_greater: "is_float x \<Longrightarrow> x < age_of now t \<Longrightarrow> x * 1000000 < of_int (dt_us now - dt_us t)"
  unfolding age_of_def by (rule total_seconds_greater)

text \<open>What an item needs to pass its contract.\<close>

definition coherent_item :: "freshness_item \<Rightarrow> bool" where
  "coherent_item i \<longleftrightarrow> 0 < it_interval i \<and> 0 < it_poll_stale i \<and> 0 < it_source_stale i
     \<and> 0 \<le> it_failures i \<and> 0 \<le> it_transport i \<and> it_transport i \<le> 20
     \<and> \<not> partly_present
         [it_last_attempt_at i \<noteq> None, it_last_outcome i \<noteq> None, it_last_stage i \<noteq> None]
     \<and> \<not> partly_present
         [it_last_success_at i \<noteq> None, it_last_generated_at i \<noteq> None, it_success_age i \<noteq> None,
          it_source_age i \<noteq> None, it_basis i \<noteq> None]
     \<and> pred_option is_utc (it_last_attempt_at i) \<and> pred_option is_utc (it_last_success_at i)
     \<and> pred_option is_utc (it_last_generated_at i)
     \<and> ((it_last_failure i \<noteq> None) = (it_last_outcome i = Some Failed))
     \<and> (it_passed i = (it_poll_status i = Healthy \<and> it_data_status i = CurrentData))"

lemma validate_item_eq_Inr [guard_simps]: "validate_item i = Inr j \<longleftrightarrow> coherent_item i \<and> j = i"
  unfolding validate_item_def coherent_item_def item_field_checks_def
  by (simp add: guard_simps not_le not_less option.pred_set) fast

lemma starting_item_ok: "valid_policy p \<Longrightarrow> coherent_item (starting_item p)"
  by (simp add: coherent_item_def starting_item_def valid_policy_def)

lemma state_item_source [simp]: "it_source (state_item now p s) = pol_source p"
  by (simp add: state_item_def starting_item_def Let_def split: option.splits)

lemma valid_successD:
  assumes "valid_attempt l" "att_outcome l = Succeeded"
  obtains c g b where "att_completed l = Some c" "att_generated l = Some g" "att_basis l = Some b"
    "is_utc c" "is_utc g"
  using assms by (auto simp: valid_attempt_def attempt_shape_def attempt_times_def)

lemma state_item_ok:
  assumes "valid_policy p" "valid_state s"
  shows "coherent_item (state_item now p s)"
proof -
  have cur: "valid_attempt (st_current s)" and coh: "coherent_state s"
    using assms(2) by (auto simp: valid_state_def)
  have fail: "(att_failure (st_current s) \<noteq> None) = (att_outcome (st_current s) = Failed)"
    using cur by (cases "att_outcome (st_current s)") (auto simp: valid_attempt_def attempt_shape_def)
  have base: "is_utc (att_started (st_current s))" "0 \<le> att_transport (st_current s)"
    "att_transport (st_current s) \<le> 20" "0 \<le> st_failures s"
    using cur coh by (auto simp: valid_attempt_def attempt_times_def attempt_fields_def coherent_state_def)
  have pol: "0 < pol_interval p" "0 < pol_poll_stale p" "0 < pol_source_stale p"
    using assms(1) by (auto simp: valid_policy_def)
  show ?thesis
  proof (cases "st_success s")
    case None
    with base fail pol show ?thesis
      by (simp add: coherent_item_def state_item_def starting_item_def Let_def)
  next
    case (Some l)
    have "valid_attempt l" "att_outcome l = Succeeded"
      using assms(2) coh Some by (auto simp: valid_state_def coherent_state_def)
    then obtain c g b where "att_completed l = Some c" "att_generated l = Some g"
      "att_basis l = Some b" "is_utc c" "is_utc g" by (rule valid_successD)
    with Some base fail pol show ?thesis
      by (simp add: coherent_item_def state_item_def starting_item_def Let_def)
  qed
qed

lemma state_by_source_Some: "state_by_source states src = Some s \<Longrightarrow> s \<in> set states \<and> st_source s = src"
  by (auto simp: state_by_source_def dest: map_of_SomeD)

lemma state_by_source_None: "state_by_source states src = None \<longleftrightarrow> src \<notin> st_source ` set states"
  by (force simp: state_by_source_def map_of_eq_None_iff image_iff)

text \<open>The item the evaluation reports for one policy.\<close>

definition source_assessment :: "datetime \<Rightarrow> poll_state list \<Rightarrow> poll_policy \<Rightarrow> freshness_item" where
  "source_assessment now states p = (case state_by_source states (pol_source p) of
     None \<Rightarrow> starting_item p | Some s \<Rightarrow> state_item now p s)"

lemma evaluate_item_ok:
  assumes "valid_policy p" "\<forall>s \<in> set states. valid_state s"
    and "\<forall>s \<in> set states. st_source s = pol_source p \<longrightarrow> st_policy s = p"
  shows "evaluate_item now states p = Inr (source_assessment now states p)"
proof (cases "state_by_source states (pol_source p)")
  case None
  then show ?thesis
    by (simp add: evaluate_item_def source_assessment_def guard_simps starting_item_ok assms(1))
next
  case (Some s)
  then have "s \<in> set states" "st_policy s = p" using assms(3) by (auto dest: state_by_source_Some)
  then have "coherent_item (state_item now p s)" "\<not> st_policy s \<noteq> p"
    using assms(1,2) by (simp_all add: state_item_ok)
  with Some show ?thesis
    by (simp only: evaluate_item_def source_assessment_def option.case if_False validate_item_eq_Inr
        simp_thms)
qed

lemma source_assessment_source [simp]: "it_source (source_assessment now states p) = pol_source p"
  by (simp add: source_assessment_def starting_item_def split: option.splits)

lemma starting_item_ages [simp]: "it_success_age (starting_item p) = None" "it_source_age (starting_item p) = None"
  by (simp_all add: starting_item_def)

lemma age_mismatch_self [simp]:
  "\<not> age_mismatch now (Some t) (Some (age_of now t))" "\<not> age_mismatch now u None"
  by (simp_all add: age_mismatch_def age_of_def split: option.splits)

lemma state_item_ages [simp]:
  "\<not> age_mismatch now (it_last_success_at (state_item now p s)) (it_success_age (state_item now p s))"
  "\<not> age_mismatch now (it_last_generated_at (state_item now p s)) (it_source_age (state_item now p s))"
  by (simp_all add: state_item_def Let_def split: option.split)

lemma source_assessment_ages:
  "\<not> age_mismatch now (it_last_success_at (source_assessment now states p))
       (it_success_age (source_assessment now states p))"
  "\<not> age_mismatch now (it_last_generated_at (source_assessment now states p))
       (it_source_age (source_assessment now states p))"
  by (simp_all add: source_assessment_def split: option.split)


section \<open>The assessment\<close>

text \<open>C26. Evaluating validated policies (unique and canonically ordered) and validated states that
match them never raises: none of the contracts the evaluation builds can reject it, and the response
holds the assessment of each policy in order.\<close>

theorem evaluate_source_freshness_total:
  assumes "is_utc now" "policies \<noteq> []" "\<forall>p \<in> set policies. valid_policy p"
    and "sorted (map pol_source policies)" "distinct (map pol_source policies)"
    and "distinct (map st_source states)" "\<forall>s \<in> set states. valid_state s"
    and "\<forall>s \<in> set states. st_policy s \<in> set policies"
  shows "evaluate_source_freshness policies states now = Inr
    \<lparr>fr_generated = now, fr_items = map (source_assessment now states) policies,
     fr_passed = (\<forall>p \<in> set policies. it_passed (source_assessment now states p))\<rparr>"
proof -
  have src: "st_source s = pol_source (st_policy s)" if "s \<in> set states" for s
    using assms(7) that by (auto simp: valid_state_def coherent_state_def)
  have match: "\<forall>s \<in> set states. st_source s = pol_source p \<longrightarrow> st_policy s = p"
    if "p \<in> set policies" for p
    using src assms(5,8) that by (auto simp: distinct_map dest: inj_onD)
  have items: "rmap (evaluate_item now states) policies = Inr (map (source_assessment now states) policies)"
    using assms(3,7) match by (intro rmap_Inr_fun evaluate_item_ok) auto
  have "length policies \<le> 4" using distinct_sources_bound [OF assms(5)] by simp
  moreover have "map pol_source policies = sorted_set (map pol_source policies)"
    using assms(4,5) by (simp only: sorted_set_fixpoint)
  moreover have "length (remdups (map st_source states)) = length states"
    using assms(6) by (simp add: distinct_remdups_id)
  moreover have "st_source ` set states \<subseteq> pol_source ` set policies"
    using src assms(8) by auto
  ultimately show ?thesis
    using assms(1,2) items
    by (simp add: evaluate_source_freshness_def validate_response_def guard_simps Let_def comp_def
        source_assessment_ages age_guards_def)
qed


text \<open>A state and a policy the witnesses run on: a success three seconds before \<open>now\<close>.\<close>

definition sample_policy :: poll_policy where
  "sample_policy = \<lparr>pol_source = Usgs, pol_interval = 60, pol_poll_stale = 180, pol_source_stale = 900\<rparr>"

definition sample_success :: poll_attempt where
  "sample_success = \<lparr>att_id = ''source-poll-'' @ replicate 32 CHR ''a'', att_source = Usgs,
     att_started = utc 1000000, att_completed = Some (utc 2000000), att_outcome = Succeeded,
     att_stage = Complete, att_transport = 1, att_generated = Some (utc 500000),
     att_basis = Some SourceMetadata, att_fetched = Some 3, att_published = Some 2,
     att_deduplicated = Some 1, att_failure = None, att_execution_enabled = False\<rparr>"

definition sample_state :: poll_state where
  "sample_state = \<lparr>st_source = Usgs, st_policy = sample_policy, st_current = sample_success,
     st_success = Some sample_success, st_failures = 0\<rparr>"

lemma sample_policy_valid [simp]: "valid_policy sample_policy"
  by (simp add: sample_policy_def valid_policy_def)

lemma sample_success_valid [simp]: "valid_attempt sample_success"
  by (simp add: sample_success_def valid_attempt_def attempt_fields_def attempt_times_def
      attempt_shape_def negative_count_def matches_hex_def is_prefix_def hex_digits_def list_all_iff)

lemma sample_state_valid [simp]: "valid_state sample_state"
  using sample_policy_valid sample_success_valid
  by (simp add: valid_state_def coherent_state_def sample_state_def)
    (simp add: sample_policy_def sample_success_def)

theorem evaluate_source_freshness_total_witness:
  "evaluate_source_freshness [sample_policy] [sample_state] (utc 5000000) = Inr
    \<lparr>fr_generated = utc 5000000, fr_items = [source_assessment (utc 5000000) [sample_state] sample_policy],
     fr_passed = it_passed (source_assessment (utc 5000000) [sample_state] sample_policy)\<rparr>"
  using evaluate_source_freshness_total [of "utc 5000000" "[sample_policy]" "[sample_state]"]
  by (simp add: sample_state_def sample_state_valid [unfolded sample_state_def])

lemma evaluate_source_freshness_items:
  assumes "evaluate_source_freshness policies states now = Inr r"
  shows "list_all2 (\<lambda>p i. i = source_assessment now states p
      \<and> (\<forall>s. state_by_source states (pol_source p) = Some s \<longrightarrow> st_policy s = p)) policies (fr_items r)"
proof -
  from assms have "rmap (evaluate_item now states) policies = Inr (fr_items r)"
    by (auto simp: evaluate_source_freshness_def validate_response_def guard_simps Let_def)
  then have "list_all2 (\<lambda>p i. evaluate_item now states p = Inr i) policies (fr_items r)"
    by (simp add: rmap_eq_Inr)
  then show ?thesis
    by (rule list_all2_mono)
      (auto simp: evaluate_item_def source_assessment_def guard_simps split: option.splits if_splits)
qed

lemma state_item_passedD:
  assumes "it_passed (state_item now p s)"
  obtains l where "st_success s = Some l" "att_outcome (st_current s) \<noteq> Failed"
    "dt_us (att_started (st_current s)) \<le> dt_us now" "dt_us (the (att_generated l)) \<le> dt_us now"
    "age_of now (att_started (st_current s)) \<le> pol_poll_stale p"
    "age_of now (the (att_generated l)) \<le> pol_source_stale p"
proof (cases "st_success s")
  case None
  with assms show ?thesis by (simp add: state_item_def Let_def)
next
  case (Some l)
  then have hb: "heartbeat_status now p s = Healthy"
    and up: "upstream_status now p (the (att_generated l)) = CurrentData"
    using assms by (simp_all add: state_item_def Let_def split: if_splits)
  have h: "\<not> age_of now (att_started (st_current s)) < 0" "att_outcome (st_current s) \<noteq> Failed"
    "\<not> pol_poll_stale p < age_of now (att_started (st_current s))"
    using hb by (simp_all add: heartbeat_status_def Let_def split: if_splits)
  have u: "\<not> age_of now (the (att_generated l)) < 0"
    "\<not> pol_source_stale p < age_of now (the (att_generated l))"
    using up by (simp_all add: upstream_status_def split: if_splits)
  show ?thesis
    by (rule that [OF Some]) (use h u in \<open>simp_all add: age_of_neg_iff not_less\<close>)
qed

text \<open>C24. A source passes the freshness assessment only if it has a recorded success, its latest poll
did not fail, that poll began no later than now and within the heartbeat threshold, and the
successful poll's upstream timestamp lies in the past within the source threshold: missing state,
failures, clock skew and stale data all fail closed.\<close>

theorem passed_source_is_fresh:
  assumes "evaluate_source_freshness policies states now = Inr r"
    and "i \<in> set (fr_items r)" "it_passed i"
  shows "\<exists>p \<in> set policies. \<exists>s \<in> set states. \<exists>l. pol_source p = it_source i \<and> st_source s = it_source i
    \<and> st_policy s = p \<and> st_success s = Some l \<and> att_outcome (st_current s) \<noteq> Failed
    \<and> dt_us (att_started (st_current s)) \<le> dt_us now
    \<and> total_seconds (dt_us now - dt_us (att_started (st_current s))) \<le> pol_poll_stale p
    \<and> dt_us (the (att_generated l)) \<le> dt_us now
    \<and> total_seconds (dt_us now - dt_us (the (att_generated l))) \<le> pol_source_stale p"
proof -
  obtain p where p: "p \<in> set policies" "i = source_assessment now states p"
    and pol: "\<forall>s. state_by_source states (pol_source p) = Some s \<longrightarrow> st_policy s = p"
    using evaluate_source_freshness_items [OF assms(1)] assms(2)
    by (auto simp: list_all2_conv_all_nth in_set_conv_nth) metis
  then obtain s where s: "state_by_source states (pol_source p) = Some s" "it_passed (state_item now p s)"
    using assms(3) by (auto simp: source_assessment_def starting_item_def split: option.splits)
  from s(2) obtain l where "st_success s = Some l" "att_outcome (st_current s) \<noteq> Failed"
    "dt_us (att_started (st_current s)) \<le> dt_us now" "dt_us (the (att_generated l)) \<le> dt_us now"
    "age_of now (att_started (st_current s)) \<le> pol_poll_stale p"
    "age_of now (the (att_generated l)) \<le> pol_source_stale p"
    by (rule state_item_passedD)
  with p pol s(1) state_by_source_Some [OF s(1)] show ?thesis
    unfolding age_of_def by (intro bexI [of _ p] bexI [of _ s] exI [of _ l]) auto
qed

lemma sample_run_fresh:
  "evaluate_source_freshness [sample_policy] [sample_state] (utc 5000000) = Inr
    \<lparr>fr_generated = utc 5000000, fr_items = [source_assessment (utc 5000000) [sample_state] sample_policy],
     fr_passed = True\<rparr>"
  "it_passed (source_assessment (utc 5000000) [sample_state] sample_policy)"
  by code_simp+

theorem passed_source_is_fresh_witness:
  "\<exists>p \<in> set [sample_policy]. \<exists>s \<in> set [sample_state]. \<exists>l.
    pol_source p = it_source (source_assessment (utc 5000000) [sample_state] sample_policy)
    \<and> st_source s = it_source (source_assessment (utc 5000000) [sample_state] sample_policy)
    \<and> st_policy s = p \<and> st_success s = Some l \<and> att_outcome (st_current s) \<noteq> Failed
    \<and> dt_us (att_started (st_current s)) \<le> dt_us (utc 5000000)
    \<and> total_seconds (dt_us (utc 5000000) - dt_us (att_started (st_current s))) \<le> pol_poll_stale p
    \<and> dt_us (the (att_generated l)) \<le> dt_us (utc 5000000)
    \<and> total_seconds (dt_us (utc 5000000) - dt_us (the (att_generated l))) \<le> pol_source_stale p"
  by (rule passed_source_is_fresh [OF sample_run_fresh(1) _ sample_run_fresh(2)]) simp

text \<open>For a heartbeat threshold of whole seconds (below \<open>2 ^ 33\<close>) the float arithmetic of the
assessment decides exactly: a source without clock skew is reported stale if and only if the latest
poll began more than that many microseconds ago.\<close>

theorem heartbeat_stale_exact:
  assumes "pol_poll_stale p = of_int k" "0 \<le> k" "k < 2 ^ 33"
    and "heartbeat_status now p s \<noteq> ClockSkew"
  shows "heartbeat_status now p s = Stale
    \<longleftrightarrow> k * 1000000 < dt_us now - dt_us (att_started (st_current s))"
proof -
  have "heartbeat_status now p s = Stale \<longleftrightarrow> of_int k < age_of now (att_started (st_current s))"
    using assms(1,4) by (simp add: heartbeat_status_def Let_def split: if_splits)
  then show ?thesis unfolding age_of_def total_seconds_greater_iff [OF assms(2,3)] .
qed

theorem heartbeat_stale_exact_witness:
  "heartbeat_status (utc 5000000) sample_policy sample_state = Stale
    \<longleftrightarrow> 180 * 1000000 < dt_us (utc 5000000) - dt_us (att_started (st_current sample_state))"
  by (rule heartbeat_stale_exact) (simp add: sample_policy_def, simp, simp, code_simp)

end
