(* ===== verification/PollStore.thy ===== *)
theory PollStore
  imports Freshness
begin

text \<open>
  The poll-state stores of \<open>src/atlas_pulse/source_poll_store.py\<close>. The first part is
  \<open>InMemorySourcePollStore\<close>: every operation runs under its lock, so it is one atomic function on
  the store that returns the new store or the exception raised (with the store unchanged). The
  interface the ingestion service relies on is the locale \<open>poll_store\<close>; the store's own history is
  the abstract specification of its state: \<open>replay_history\<close> folds the transition log of a source,
  and every reachable store agrees with the fold.
\<close>

section \<open>The in-memory store\<close>

record mem_store =
  ms_states :: "source_name \<rightharpoonup> poll_state"
  ms_history :: "poll_transition list"
  ms_sequence :: nat

definition empty_store :: mem_store where
  "empty_store = \<lparr>ms_states = Map.empty, ms_history = [], ms_sequence = 0\<rparr>"

definition append_transition :: "transition_kind \<Rightarrow> poll_attempt \<Rightarrow> mem_store \<Rightarrow> mem_store res" where
  "append_transition k a st = (let n = ms_sequence st + 1 in
     rbind (validate_transition \<lparr>tr_stream_id = memory_stream_id n, tr_source = att_source a,
              tr_kind = k, tr_attempt = a\<rparr>) (\<lambda>t.
       Inr (st\<lparr>ms_sequence := n, ms_history := ms_history st @ [t]\<rparr>)))"

definition record_started :: "poll_attempt \<Rightarrow> poll_policy \<Rightarrow> mem_store \<Rightarrow> mem_store res" where
  "record_started a p st =
     (if att_outcome a \<noteq> InProgress \<or> att_source a \<noteq> pol_source p
      then Inl (ValueError ''poll start must be in progress and match its policy'')
      else let existing = ms_states st (att_source a) in
        if \<exists>s. existing = Some s \<and> dt_us (att_started a) \<le> dt_us (att_started (st_current s))
        then Inl (StaleSourcePollTransition ''source poll start was stale or duplicated'')
        else rbind (validate_state \<lparr>st_source = att_source a, st_policy = p, st_current = a,
                 st_success = (case existing of None \<Rightarrow> None | Some s \<Rightarrow> st_success s),
                 st_failures = (case existing of None \<Rightarrow> 0 | Some s \<Rightarrow> st_failures s)\<rparr>) (\<lambda>s.
             append_transition StartedTr a (st\<lparr>ms_states := (ms_states st)(att_source a \<mapsto> s)\<rparr>)))"

definition record_completed :: "poll_attempt \<Rightarrow> mem_store \<Rightarrow> mem_store res" where
  "record_completed a st =
     (if att_outcome a = InProgress \<or> att_completed a = None
      then Inl (ValueError ''poll completion must contain a terminal attempt'')
      else case ms_states st (att_source a) of
        None \<Rightarrow> Inl (StaleSourcePollTransition ''source poll completion was stale or duplicated'')
      | Some s \<Rightarrow>
          if att_id (st_current s) \<noteq> att_id a \<or> att_outcome (st_current s) \<noteq> InProgress
          then Inl (StaleSourcePollTransition ''source poll completion was stale or duplicated'')
          else let succeeded = (att_outcome a = Succeeded) in
            rbind (validate_state \<lparr>st_source = att_source a, st_policy = st_policy s, st_current = a,
                 st_success = (if succeeded then Some a else st_success s),
                 st_failures = (if succeeded then 0 else st_failures s + 1)\<rparr>) (\<lambda>s'.
              append_transition (if succeeded then SucceededTr else FailedTr) a
                (st\<lparr>ms_states := (ms_states st)(att_source a \<mapsto> s')\<rparr>)))"

definition load_states :: "mem_store \<Rightarrow> source_name list \<Rightarrow> poll_state list" where
  "load_states st sources = List.map_filter (ms_states st) sources"

text \<open>The loop over the reversed history stops at the limit; generators are lazy, so a stream id is
parsed only for the entries looked at.\<close>

fun collect_recent :: "(nat \<times> nat) option \<Rightarrow> nat \<Rightarrow> poll_transition list \<Rightarrow> poll_transition list res" where
  "collect_recent before n [] = Inr []"
| "collect_recent before n (t # ts) =
     (case before of
        None \<Rightarrow> if n = 1 then Inr [t] else rbind (collect_recent before (n - 1) ts) (\<lambda>r. Inr (t # r))
      | Some b \<Rightarrow> rbind (stream_position (tr_stream_id t)) (\<lambda>p.
          if p < b then if n = 1 then Inr [t]
            else rbind (collect_recent before (n - 1) ts) (\<lambda>r. Inr (t # r))
          else collect_recent before n ts))"

definition load_recent_transitions ::
  "mem_store \<Rightarrow> string option \<Rightarrow> int \<Rightarrow> poll_transition list res" where
  "load_recent_transitions st before limit =
     (if limit < 1 then Inl (ValueError ''source poll history limit must be positive'')
      else rbind (case before of None \<Rightarrow> Inr None | Some b \<Rightarrow> rbind (stream_position b) (\<lambda>p. Inr (Some p)))
        (\<lambda>position. collect_recent position (nat limit) (rev (ms_history st))))"


section \<open>The abstract specification: a state is the fold of its log\<close>

record poll_view =
  pv_current :: "poll_attempt option"
  pv_success :: "poll_attempt option"
  pv_failures :: int

definition empty_view :: poll_view where
  "empty_view = \<lparr>pv_current = None, pv_success = None, pv_failures = 0\<rparr>"

definition apply_transition :: "poll_view \<Rightarrow> poll_transition \<Rightarrow> poll_view" where
  "apply_transition v t = (case tr_kind t of
     StartedTr \<Rightarrow> v\<lparr>pv_current := Some (tr_attempt t)\<rparr>
   | SucceededTr \<Rightarrow> \<lparr>pv_current = Some (tr_attempt t), pv_success = Some (tr_attempt t), pv_failures = 0\<rparr>
   | FailedTr \<Rightarrow> v\<lparr>pv_current := Some (tr_attempt t), pv_failures := pv_failures v + 1\<rparr>)"

definition source_log :: "source_name \<Rightarrow> poll_transition list \<Rightarrow> poll_transition list" where
  "source_log src h = filter (\<lambda>t. tr_source t = src) h"

definition replay_history :: "source_name \<Rightarrow> poll_transition list \<Rightarrow> poll_view" where
  "replay_history src h = foldl apply_transition empty_view (source_log src h)"

definition state_view :: "poll_state option \<Rightarrow> poll_view" where
  "state_view s = (case s of None \<Rightarrow> empty_view
     | Some s \<Rightarrow> \<lparr>pv_current = Some (st_current s), pv_success = st_success s, pv_failures = st_failures s\<rparr>)"

text \<open>
  The discipline of one source's log, given its current attempt: a start begins later than the
  attempt before it, and a completion ends the in-progress attempt of the same identity.
\<close>

fun log_ok :: "poll_attempt option \<Rightarrow> poll_transition list \<Rightarrow> bool" where
  "log_ok cur [] = True"
| "log_ok cur (t # ts) =
     ((if tr_kind t = StartedTr
       then \<forall>c. cur = Some c \<longrightarrow> dt_us (att_started c) < dt_us (att_started (tr_attempt t))
       else \<exists>c. cur = Some c \<and> att_outcome c = InProgress \<and> att_id c = att_id (tr_attempt t))
      \<and> log_ok (Some (tr_attempt t)) ts)"

lemma log_ok_append:
  "log_ok cur (ts @ [t]) \<longleftrightarrow> log_ok cur ts
     \<and> log_ok (if ts = [] then cur else Some (tr_attempt (last ts))) [t]"
  by (induction cur ts rule: log_ok.induct) auto

lemma source_log_append [simp]:
  "source_log src (h @ [t]) = source_log src h @ (if tr_source t = src then [t] else [])"
  by (simp add: source_log_def)

lemma replay_history_append [simp]:
  "replay_history src (h @ [t]) =
     (if tr_source t = src then apply_transition (replay_history src h) t else replay_history src h)"
  by (simp add: replay_history_def)

lemma replay_current:
  "pv_current (replay_history src h) =
     (if source_log src h = [] then None else Some (tr_attempt (last (source_log src h))))"
proof (induction h rule: rev_induct)
  case Nil
  show ?case by (simp add: replay_history_def source_log_def empty_view_def)
next
  case (snoc t h)
  then show ?case by (simp add: apply_transition_def split: transition_kind.splits)
qed

section \<open>The store invariant\<close>

definition store_inv :: "mem_store \<Rightarrow> bool" where
  "store_inv st \<longleftrightarrow> ms_sequence st = length (ms_history st)
     \<and> map tr_stream_id (ms_history st) = map memory_stream_id [1..<length (ms_history st) + 1]
     \<and> (\<forall>t \<in> set (ms_history st). coherent_transition t \<and> valid_attempt (tr_attempt t))
     \<and> (\<forall>src s. ms_states st src = Some s \<longrightarrow> valid_state s \<and> st_source s = src)
     \<and> (\<forall>src. state_view (ms_states st src) = replay_history src (ms_history st)
          \<and> log_ok None (source_log src (ms_history st)))"

lemma append_transition_ok:
  assumes "att_outcome a = expected_outcome k"
  shows "append_transition k a st = Inr (st\<lparr>ms_sequence := ms_sequence st + 1,
    ms_history := ms_history st @ [\<lparr>tr_stream_id = memory_stream_id (ms_sequence st + 1),
      tr_source = att_source a, tr_kind = k, tr_attempt = a\<rparr>]\<rparr>)"
proof -
  let ?t = "\<lparr>tr_stream_id = memory_stream_id (ms_sequence st + 1), tr_source = att_source a,
    tr_kind = k, tr_attempt = a\<rparr>"
  have "coherent_transition ?t"
    using assms by (simp add: coherent_transition_def memory_stream_id_text)
  then have "validate_transition ?t = Inr ?t" by (simp add: guard_simps)
  then show ?thesis by (simp add: append_transition_def)
qed

definition stale_start :: "poll_attempt \<Rightarrow> mem_store \<Rightarrow> bool" where
  "stale_start a st \<longleftrightarrow> (\<exists>s. ms_states st (att_source a) = Some s
     \<and> dt_us (att_started a) \<le> dt_us (att_started (st_current s)))"

definition started_state :: "poll_attempt \<Rightarrow> poll_policy \<Rightarrow> poll_state option \<Rightarrow> poll_state" where
  "started_state a p existing = \<lparr>st_source = att_source a, st_policy = p, st_current = a,
     st_success = Option.bind existing st_success,
     st_failures = (case existing of None \<Rightarrow> 0 | Some s \<Rightarrow> st_failures s)\<rparr>"

definition completed_state :: "poll_attempt \<Rightarrow> poll_state \<Rightarrow> poll_state" where
  "completed_state a s = \<lparr>st_source = att_source a, st_policy = st_policy s, st_current = a,
     st_success = (if att_outcome a = Succeeded then Some a else st_success s),
     st_failures = (if att_outcome a = Succeeded then 0 else st_failures s + 1)\<rparr>"

definition store_put :: "transition_kind \<Rightarrow> poll_attempt \<Rightarrow> poll_state \<Rightarrow> mem_store \<Rightarrow> mem_store" where
  "store_put k a s st = \<lparr>ms_states = (ms_states st)(att_source a \<mapsto> s),
     ms_history = ms_history st @ [\<lparr>tr_stream_id = memory_stream_id (ms_sequence st + 1),
       tr_source = att_source a, tr_kind = k, tr_attempt = a\<rparr>],
     ms_sequence = ms_sequence st + 1\<rparr>"

lemma append_transition_put:
  "att_outcome a = expected_outcome k \<Longrightarrow>
   append_transition k a (st\<lparr>ms_states := (ms_states st)(att_source a \<mapsto> s)\<rparr>) = Inr (store_put k a s st)"
  by (simp add: append_transition_ok store_put_def)

lemma record_started_eq:
  "record_started a p st =
     (if att_outcome a \<noteq> InProgress \<or> att_source a \<noteq> pol_source p
      then Inl (ValueError ''poll start must be in progress and match its policy'')
      else if stale_start a st
      then Inl (StaleSourcePollTransition ''source poll start was stale or duplicated'')
      else rbind (validate_state (started_state a p (ms_states st (att_source a))))
        (\<lambda>s. Inr (store_put StartedTr a s st)))"
proof (cases "att_outcome a = InProgress")
  case True
  then have put: "append_transition StartedTr a (st\<lparr>ms_states := (ms_states st)(att_source a \<mapsto> s)\<rparr>)
      = Inr (store_put StartedTr a s st)" for s
    by (rule append_transition_put [of a StartedTr, unfolded expected_outcome.simps])
  have bind: "(case e of None \<Rightarrow> None | Some s \<Rightarrow> st_success s) = Option.bind e st_success" for e
    by (cases e) simp_all
  show ?thesis
    unfolding record_started_def put stale_start_def started_state_def bind Let_def
    by (simp only: if_False if_True)
next
  case False
  then show ?thesis by (simp add: record_started_def)
qed

lemma record_started_Inr:
  "record_started a p st = Inr st' \<longleftrightarrow>
     att_outcome a = InProgress \<and> att_source a = pol_source p \<and> \<not> stale_start a st
     \<and> coherent_state (started_state a p (ms_states st (att_source a)))
     \<and> st' = store_put StartedTr a (started_state a p (ms_states st (att_source a))) st"
  unfolding record_started_eq by (simp add: guard_simps) blast

definition terminal_kind :: "poll_attempt \<Rightarrow> transition_kind" where
  "terminal_kind a = (if att_outcome a = Succeeded then SucceededTr else FailedTr)"

definition open_attempt :: "poll_attempt \<Rightarrow> poll_state \<Rightarrow> bool" where
  "open_attempt a s \<longleftrightarrow> att_id (st_current s) = att_id a \<and> att_outcome (st_current s) = InProgress"

lemma terminal_kind_outcome:
  "att_outcome a \<noteq> InProgress \<Longrightarrow> att_outcome a = expected_outcome (terminal_kind a)"
  by (cases "att_outcome a") (simp_all add: terminal_kind_def)

lemma record_completed_eq:
  "record_completed a st =
     (if att_outcome a = InProgress \<or> att_completed a = None
      then Inl (ValueError ''poll completion must contain a terminal attempt'')
      else case ms_states st (att_source a) of
        None \<Rightarrow> Inl (StaleSourcePollTransition ''source poll completion was stale or duplicated'')
      | Some s \<Rightarrow> if \<not> open_attempt a s
          then Inl (StaleSourcePollTransition ''source poll completion was stale or duplicated'')
          else rbind (validate_state (completed_state a s))
            (\<lambda>s'. Inr (store_put (terminal_kind a) a s' st)))"
proof (cases "att_outcome a = InProgress")
  case True
  then show ?thesis by (simp add: record_completed_def)
next
  case False
  then have put: "append_transition (if att_outcome a = Succeeded then SucceededTr else FailedTr) a
      (st\<lparr>ms_states := (ms_states st)(att_source a \<mapsto> s)\<rparr>) = Inr (store_put (terminal_kind a) a s st)" for s
    unfolding terminal_kind_def [symmetric] by (intro append_transition_put terminal_kind_outcome)
  show ?thesis
    unfolding record_completed_def Let_def put completed_state_def open_attempt_def
    by (simp only: de_Morgan_conj)
qed

lemma record_completed_Inr:
  "record_completed a st = Inr st' \<longleftrightarrow>
     att_outcome a \<noteq> InProgress \<and> att_completed a \<noteq> None
     \<and> (\<exists>s. ms_states st (att_source a) = Some s \<and> open_attempt a s
          \<and> coherent_state (completed_state a s)
          \<and> st' = store_put (terminal_kind a) a (completed_state a s) st)"
  unfolding record_completed_eq by (simp add: guard_simps split: option.split) blast

lemma started_state_coherent:
  assumes "store_inv st" "att_outcome a = InProgress" "att_source a = pol_source p" "\<not> stale_start a st"
  shows "coherent_state (started_state a p (ms_states st (att_source a)))"
proof (cases "ms_states st (att_source a)")
  case None
  with assms(2,3) show ?thesis by (simp add: coherent_state_def started_state_def)
next
  case (Some s)
  have coh: "coherent_state s" and src: "st_source s = att_source a"
    using assms(1) Some by (simp_all add: store_inv_def valid_state_def)
  have later: "dt_us (att_started (st_current s)) < dt_us (att_started a)"
    using assms(4) Some by (simp add: stale_start_def not_le)
  have old: "att_source l = att_source a" "att_outcome l = Succeeded"
    "dt_us (att_started l) \<le> dt_us (att_started a)" if "st_success s = Some l" for l
    using coh src later that by (auto simp: coherent_state_def)
  have "0 \<le> st_failures s" using coh by (simp add: coherent_state_def)
  then show ?thesis
    unfolding Some started_state_def using assms(2,3) old by (simp add: coherent_state_def)
qed

lemma store_put_inv:
  assumes inv: "store_inv st" and a: "valid_attempt a" "att_outcome a = expected_outcome k"
    and s: "valid_state s" "st_source s = att_source a"
    and step: "state_view (Some s) = apply_transition (state_view (ms_states st (att_source a)))
      \<lparr>tr_stream_id = memory_stream_id (ms_sequence st + 1), tr_source = att_source a,
       tr_kind = k, tr_attempt = a\<rparr>"
    and log: "log_ok (pv_current (state_view (ms_states st (att_source a))))
      [\<lparr>tr_stream_id = memory_stream_id (ms_sequence st + 1), tr_source = att_source a,
        tr_kind = k, tr_attempt = a\<rparr>]"
  shows "store_inv (store_put k a s st)"
proof -
  let ?t = "\<lparr>tr_stream_id = memory_stream_id (ms_sequence st + 1), tr_source = att_source a,
    tr_kind = k, tr_attempt = a\<rparr>"
  have len: "ms_sequence st = length (ms_history st)"
    and ids: "map tr_stream_id (ms_history st) = map memory_stream_id [1..<length (ms_history st) + 1]"
    and view: "state_view (ms_states st src) = replay_history src (ms_history st)"
    and logs: "log_ok None (source_log src (ms_history st))" for src
    using inv by (auto simp: store_inv_def)
  have "log_ok (if source_log (att_source a) (ms_history st) = [] then None
      else Some (tr_attempt (last (source_log (att_source a) (ms_history st))))) [?t]"
    using log unfolding view replay_current .
  then have logs': "log_ok None (source_log src (ms_history st @ [?t]))" for src
    using logs [of src]
    by (cases "att_source a = src") (auto simp add: log_ok_append simp del: log_ok.simps)
  have "coherent_transition ?t"
    using a(2) by (simp add: coherent_transition_def memory_stream_id_text)
  then show ?thesis
    using inv a(1) s step logs' len ids view
    by (auto simp: store_inv_def store_put_def)
qed

lemma record_started_inv:
  assumes "store_inv st" "valid_attempt a" "valid_policy p" "record_started a p st = Inr st'"
  shows "store_inv st'"
proof -
  let ?e = "ms_states st (att_source a)"
  have r: "att_outcome a = InProgress" "\<not> stale_start a st" "coherent_state (started_state a p ?e)"
    "st' = store_put StartedTr a (started_state a p ?e) st"
    using assms(4) by (auto simp: record_started_Inr)
  have old: "\<And>s. ?e = Some s \<Longrightarrow> valid_state s" using assms(1) by (auto simp: store_inv_def)
  have "valid_state (started_state a p ?e)"
    using r(3) assms(2,3) old
    by (auto simp: valid_state_def started_state_def bind_eq_Some_conv)
  then show ?thesis
    unfolding r(4) using assms(1,2) r(1,2)
    by (intro store_put_inv)
      (auto simp: started_state_def state_view_def apply_transition_def empty_view_def
        stale_start_def not_le split: option.splits)
qed

lemma record_completed_inv:
  assumes "store_inv st" "valid_attempt a" "record_completed a st = Inr st'"
  shows "store_inv st'"
proof -
  obtain s where r: "att_outcome a \<noteq> InProgress" "ms_states st (att_source a) = Some s"
    "open_attempt a s" "coherent_state (completed_state a s)"
    "st' = store_put (terminal_kind a) a (completed_state a s) st"
    using assms(3) by (auto simp: record_completed_Inr)
  have "valid_state s" using assms(1) r(2) by (auto simp: store_inv_def)
  then have "valid_state (completed_state a s)"
    using r(4) assms(2) by (auto simp: valid_state_def completed_state_def)
  then show ?thesis
    unfolding r(5) using assms(1,2) r(1-3)
    by (intro store_put_inv terminal_kind_outcome; cases "att_outcome a")
      (auto simp: completed_state_def state_view_def apply_transition_def open_attempt_def
        terminal_kind_def)
qed

section \<open>Reachable stores\<close>

inductive store_step :: "mem_store \<Rightarrow> mem_store \<Rightarrow> bool" where
  start: "valid_attempt a \<Longrightarrow> valid_policy p \<Longrightarrow> record_started a p st = Inr st' \<Longrightarrow> store_step st st'"
| complete: "valid_attempt a \<Longrightarrow> record_completed a st = Inr st' \<Longrightarrow> store_step st st'"

inductive store_reachable :: "mem_store \<Rightarrow> bool" where
  empty: "store_reachable empty_store"
| step: "store_reachable st \<Longrightarrow> store_step st st' \<Longrightarrow> store_reachable st'"

inductive_cases store_stepE: "store_step st st'"

lemma empty_store_inv: "store_inv empty_store"
  by (simp add: store_inv_def empty_store_def state_view_def replay_history_def source_log_def)

lemma store_step_inv: "store_step st st' \<Longrightarrow> store_inv st \<Longrightarrow> store_inv st'"
  by (auto elim!: store_stepE intro: record_started_inv record_completed_inv)

lemma store_reachable_inv: "store_reachable st \<Longrightarrow> store_inv st"
  by (induction rule: store_reachable.induct) (auto intro: empty_store_inv store_step_inv)


section \<open>Totality: a poll transition is refused for the documented reasons only\<close>

lemma record_started_total:
  assumes "store_inv st"
  shows "record_started a p st =
     (if att_outcome a \<noteq> InProgress \<or> att_source a \<noteq> pol_source p
      then Inl (ValueError ''poll start must be in progress and match its policy'')
      else if stale_start a st
      then Inl (StaleSourcePollTransition ''source poll start was stale or duplicated'')
      else Inr (store_put StartedTr a (started_state a p (ms_states st (att_source a))) st))"
proof (cases "att_outcome a = InProgress \<and> att_source a = pol_source p \<and> \<not> stale_start a st")
  case True
  then have "coherent_state (started_state a p (ms_states st (att_source a)))"
    using assms by (intro started_state_coherent) auto
  then have "validate_state (started_state a p (ms_states st (att_source a)))
      = Inr (started_state a p (ms_states st (att_source a)))"
    by (simp add: validate_state_eq_Inr)
  then show ?thesis unfolding record_started_eq by (simp only: rbind_simps)
next
  case False
  then show ?thesis unfolding record_started_eq by auto
qed

lemma completed_state_coherent:
  assumes "valid_state s" "st_source s = att_source a" "att_outcome a \<noteq> InProgress"
    and "dt_us (att_started (st_current s)) \<le> dt_us (att_started a)"
  shows "coherent_state (completed_state a s)"
proof -
  have coh: "coherent_state s" using assms(1) by (simp add: valid_state_def)
  have old: "att_source l = att_source a" "att_outcome l = Succeeded"
    "dt_us (att_started l) \<le> dt_us (att_started a)" if "st_success s = Some l" for l
    using coh assms(2,4) that by (auto simp: coherent_state_def)
  have "0 \<le> st_failures s" "pol_source (st_policy s) = att_source a"
    using coh assms(2) by (simp_all add: coherent_state_def)
  then show ?thesis
    unfolding completed_state_def using assms(3) old
    by (cases "att_outcome a") (simp_all add: coherent_state_def)
qed

lemma record_completed_accepts:
  assumes "store_inv st" "att_outcome a \<noteq> InProgress" "att_completed a \<noteq> None"
    and "ms_states st (att_source a) = Some s" "open_attempt a s"
    and "dt_us (att_started (st_current s)) \<le> dt_us (att_started a)"
  shows "record_completed a st = Inr (store_put (terminal_kind a) a (completed_state a s) st)"
proof -
  have "valid_state s" "st_source s = att_source a" using assms(1,4) by (auto simp: store_inv_def)
  then have "coherent_state (completed_state a s)"
    using assms by (intro completed_state_coherent) auto
  then show ?thesis using assms by (auto simp: record_completed_Inr)
qed

lemma record_completed_stale:
  assumes "att_outcome a \<noteq> InProgress" "att_completed a \<noteq> None"
    and "\<forall>s. ms_states st (att_source a) = Some s \<longrightarrow> \<not> open_attempt a s"
  shows "record_completed a st =
    Inl (StaleSourcePollTransition ''source poll completion was stale or duplicated'')"
  using assms by (auto simp: record_completed_eq split: option.split)

section \<open>The interface of a poll store\<close>

text \<open>
  What the ingestion service relies on (\<open>SourcePollStore\<close>): the two transitions as functions on
  the store's state, the state of a source as \<open>view\<close> shows it, and an invariant every transition
  keeps. The laws: a later in-progress attempt is accepted and becomes the current one, a
  completion of the open attempt is accepted and closes it, anything else is stale.
\<close>

locale poll_store =
  fixes start :: "poll_attempt \<Rightarrow> poll_policy \<Rightarrow> 'st \<Rightarrow> 'st res"
    and complete :: "poll_attempt \<Rightarrow> 'st \<Rightarrow> 'st res"
    and view :: "'st \<Rightarrow> source_name \<Rightarrow> poll_state option"
    and inv :: "'st \<Rightarrow> bool"
  assumes start_ok: "\<lbrakk>inv st; valid_attempt a; valid_policy p; att_outcome a = InProgress;
      att_source a = pol_source p;
      \<And>s. view st (att_source a) = Some s \<Longrightarrow>
        dt_us (att_started (st_current s)) < dt_us (att_started a)\<rbrakk> \<Longrightarrow>
      \<exists>st'. start a p st = Inr st' \<and> inv st'
        \<and> view st' = (view st)(att_source a \<mapsto> started_state a p (view st (att_source a)))"
    and start_stale: "\<lbrakk>inv st; valid_attempt a; att_outcome a = InProgress; att_source a = pol_source p;
      view st (att_source a) = Some s;
      dt_us (att_started a) \<le> dt_us (att_started (st_current s))\<rbrakk> \<Longrightarrow>
      start a p st = Inl (StaleSourcePollTransition ''source poll start was stale or duplicated'')"
    and complete_ok: "\<lbrakk>inv st; valid_attempt a; att_outcome a \<noteq> InProgress;
      view st (att_source a) = Some s; open_attempt a s;
      att_started (st_current s) = att_started a\<rbrakk> \<Longrightarrow>
      \<exists>st'. complete a st = Inr st' \<and> inv st'
        \<and> view st' = (view st)(att_source a \<mapsto> completed_state a s)"
    and complete_stale: "\<lbrakk>inv st; valid_attempt a; att_outcome a \<noteq> InProgress;
      \<And>s. view st (att_source a) = Some s \<Longrightarrow> \<not> open_attempt a s\<rbrakk> \<Longrightarrow>
      complete a st = Inl (StaleSourcePollTransition ''source poll completion was stale or duplicated'')"
begin

text \<open>One poll: a fresh start, then the completion of that attempt.\<close>

lemma poll_cycle:
  assumes "inv st" "valid_attempt a" "valid_policy p" "att_outcome a = InProgress"
    "att_source a = pol_source p"
    and "\<And>s. view st (att_source a) = Some s \<Longrightarrow>
        dt_us (att_started (st_current s)) < dt_us (att_started a)"
    and "valid_attempt b" "att_outcome b \<noteq> InProgress" "att_id b = att_id a"
    "att_source b = att_source a" "att_started b = att_started a"
  obtains st1 st2 where "start a p st = Inr st1" "complete b st1 = Inr st2" "inv st1" "inv st2"
    "view st2 = (view st)(att_source a \<mapsto>
       completed_state b (started_state a p (view st (att_source a))))"
proof -
  obtain st1 where s1: "start a p st = Inr st1" "inv st1"
    "view st1 = (view st)(att_source a \<mapsto> started_state a p (view st (att_source a)))"
    using start_ok [OF assms(1-6)] by blast
  have "open_attempt b (started_state a p (view st (att_source a)))"
    using assms(4,9) by (simp add: open_attempt_def started_state_def)
  moreover have "att_started (st_current (started_state a p (view st (att_source a)))) = att_started b"
    using assms(11) by (simp add: started_state_def)
  moreover have "view st1 (att_source b) = Some (started_state a p (view st (att_source a)))"
    using s1(3) assms(10) by simp
  ultimately obtain st2 where "complete b st1 = Inr st2" "inv st2"
    "view st2 = (view st1)(att_source b \<mapsto> completed_state b (started_state a p (view st (att_source a))))"
    using complete_ok [OF s1(2) assms(7,8)] by blast
  with s1 assms(10) show ?thesis by (intro that) auto
qed

text \<open>An attempt completes at most once.\<close>

lemma completed_once:
  assumes "inv st" "valid_attempt a" "att_outcome a \<noteq> InProgress"
    "view st (att_source a) = Some s" "open_attempt a s" "att_started (st_current s) = att_started a"
    "complete a st = Inr st'"
    and "valid_attempt b" "att_outcome b \<noteq> InProgress" "att_source b = att_source a"
  shows "complete b st' =
    Inl (StaleSourcePollTransition ''source poll completion was stale or duplicated'')"
proof -
  obtain st2 where "complete a st = Inr st2" "inv st2"
    "view st2 = (view st)(att_source a \<mapsto> completed_state a s)"
    using complete_ok [OF assms(1-6)] by blast
  with assms(7) have "inv st'" "view st' (att_source b) = Some (completed_state a s)"
    using assms(10) by auto
  then show ?thesis
    using assms(3) by (intro complete_stale [OF _ assms(8,9)])
      (auto simp: open_attempt_def completed_state_def)
qed

end

lemma valid_terminal_completed:
  "valid_attempt a \<Longrightarrow> att_outcome a \<noteq> InProgress \<Longrightarrow> att_completed a \<noteq> None"
  by (cases "att_outcome a") (auto simp: valid_attempt_def attempt_shape_def)

lemma store_put_states [simp]: "ms_states (store_put k a s st) = (ms_states st)(att_source a \<mapsto> s)"
  by (simp add: store_put_def)

interpretation mem: poll_store record_started record_completed ms_states store_inv
proof (unfold_locales, goal_cases)
  case (1 st a p)
  then have "record_started a p st =
      Inr (store_put StartedTr a (started_state a p (ms_states st (att_source a))) st)"
    by (auto simp: record_started_total stale_start_def not_le)
  moreover from this have "store_inv (store_put StartedTr a (started_state a p (ms_states st (att_source a))) st)"
    using 1 by (blast intro: record_started_inv)
  ultimately show ?case by simp
next
  case (2 st a p s)
  then show ?case unfolding record_started_total [OF 2(1)] by (simp add: stale_start_def)
next
  case (3 st a s)
  then have "record_completed a st = Inr (store_put (terminal_kind a) a (completed_state a s) st)"
    by (intro record_completed_accepts) (auto dest: valid_terminal_completed)
  moreover from this have "store_inv (store_put (terminal_kind a) a (completed_state a s) st)"
    using 3 by (blast intro: record_completed_inv)
  ultimately show ?case by simp
next
  case (4 st a)
  then show ?case by (intro record_completed_stale) (auto dest: valid_terminal_completed)
qed


section \<open>What every reachable store satisfies\<close>

text \<open>A run the witnesses start from: the poll of \<open>sample_success\<close>, started and completed.\<close>

definition sample_start :: poll_attempt where
  "sample_start = \<lparr>att_id = ''source-poll-'' @ replicate 32 CHR ''a'', att_source = Usgs,
     att_started = utc 1000000, att_completed = None, att_outcome = InProgress,
     att_stage = Fetch, att_transport = 0, att_generated = None, att_basis = None,
     att_fetched = None, att_published = None, att_deduplicated = None, att_failure = None,
     att_execution_enabled = False\<rparr>"

definition sample_store :: mem_store where
  "sample_store = \<lparr>ms_states = [Usgs \<mapsto> sample_state],
     ms_history = [\<lparr>tr_stream_id = ''0-1'', tr_source = Usgs, tr_kind = StartedTr, tr_attempt = sample_start\<rparr>,
       \<lparr>tr_stream_id = ''0-2'', tr_source = Usgs, tr_kind = SucceededTr, tr_attempt = sample_success\<rparr>],
     ms_sequence = 2\<rparr>"

lemma sample_start_valid [simp]: "valid_attempt sample_start"
  by (simp add: sample_start_def valid_attempt_def attempt_fields_def attempt_times_def
      attempt_shape_def negative_count_def matches_hex_def is_prefix_def hex_digits_def list_all_iff)

lemma sample_fields [simp]:
  "att_outcome sample_start = InProgress" "att_outcome sample_success = Succeeded"
  "att_source sample_start = Usgs" "att_source sample_success = Usgs"
  "att_started sample_start = utc 1000000" "att_started sample_success = utc 1000000"
  "att_id sample_success = att_id sample_start" "pol_source sample_policy = Usgs"
  by (simp_all add: sample_start_def sample_success_def sample_policy_def)

lemma memory_stream_id_values: "memory_stream_id 1 = ''0-1''" "memory_stream_id 2 = ''0-2''"
  by (simp_all add: memory_stream_id_def nat_dec.simps digit_char_def dec_digits_def)

definition sample_started_store :: mem_store where
  "sample_started_store = store_put StartedTr sample_start
     (started_state sample_start sample_policy None) empty_store"

lemma sample_run:
  "record_started sample_start sample_policy empty_store = Inr sample_started_store"
  "record_completed sample_success sample_started_store = Inr sample_store"
proof -
  show s: "record_started sample_start sample_policy empty_store = Inr sample_started_store"
    unfolding record_started_total [OF empty_store_inv]
    by (simp add: sample_started_store_def stale_start_def empty_store_def sample_start_def
        sample_policy_def)
  have "store_inv sample_started_store"
    by (rule record_started_inv [OF empty_store_inv _ _ s]) simp_all
  then have "record_completed sample_success sample_started_store =
      Inr (store_put (terminal_kind sample_success) sample_success
        (completed_state sample_success (started_state sample_start sample_policy None)) sample_started_store)"
    by (rule record_completed_accepts)
      (simp_all add: sample_started_store_def sample_success_def started_state_def sample_start_def
        open_attempt_def)
  also have "store_put (terminal_kind sample_success) sample_success
        (completed_state sample_success (started_state sample_start sample_policy None)) sample_started_store
      = sample_store"
    by (simp add: store_put_def sample_started_store_def empty_store_def terminal_kind_def
        completed_state_def started_state_def sample_store_def sample_state_def
        memory_stream_id_values [unfolded One_nat_def numeral_2_eq_2] numeral_2_eq_2)
  finally show "record_completed sample_success sample_started_store = Inr sample_store" .
qed

lemma sample_store_reachable: "store_reachable sample_store"
  using store_reachable.empty sample_run
  by (meson sample_policy_valid sample_start_valid sample_success_valid store_reachable.step
      store_step.complete store_step.start)

text \<open>C8. The latest state of every source in a reachable store is exactly the fold of that source's
immutable transition log: current attempt, last success and consecutive failures.\<close>

theorem reachable_state_is_replay:
  assumes "store_reachable st"
  shows "state_view (ms_states st src) = replay_history src (ms_history st)"
  using store_reachable_inv [OF assms] by (simp add: store_inv_def)

theorem reachable_state_is_replay_witness:
  "state_view (ms_states sample_store Usgs) = replay_history Usgs (ms_history sample_store)"
  by (rule reachable_state_is_replay [OF sample_store_reachable])

text \<open>C30. In a reachable store the log of every source alternates lawfully: each start begins
strictly later than the attempt before it, each completion closes the open attempt of the same
identity, every logged attempt is valid, and stream ids count the appends.\<close>

theorem reachable_log_discipline:
  assumes "store_reachable st"
  shows "log_ok None (source_log src (ms_history st))
    \<and> (\<forall>t \<in> set (ms_history st). coherent_transition t \<and> valid_attempt (tr_attempt t))
    \<and> map tr_stream_id (ms_history st) = map memory_stream_id [1..<length (ms_history st) + 1]"
  using store_reachable_inv [OF assms] by (simp add: store_inv_def)

theorem reachable_log_discipline_witness:
  "log_ok None (source_log Usgs (ms_history sample_store))
    \<and> map tr_stream_id (ms_history sample_store)
        = map memory_stream_id [1..<length (ms_history sample_store) + 1]"
  using reachable_log_discipline [OF sample_store_reachable, of Usgs] by (elim conjE) (intro conjI)

section \<open>Polls complete once\<close>

text \<open>A started poll is completed by exactly one terminal attempt of its identity: on a reachable
store, a later start and the completion of that attempt are both accepted, and then every further
completion for the source is refused as stale, leaving the store as it was.\<close>

theorem poll_completes_once:
  assumes "store_reachable st" "valid_attempt a" "valid_policy p" "att_outcome a = InProgress"
    "att_source a = pol_source p" "\<not> stale_start a st"
    and "valid_attempt b" "att_outcome b \<noteq> InProgress" "att_id b = att_id a"
    "att_source b = att_source a" "att_started b = att_started a"
    and "valid_attempt c" "att_outcome c \<noteq> InProgress" "att_source c = att_source a"
  shows "\<exists>st1 st2. record_started a p st = Inr st1 \<and> record_completed b st1 = Inr st2
    \<and> ms_states st2 (att_source a) = Some (completed_state b (started_state a p (ms_states st (att_source a))))
    \<and> record_completed c st2 =
        Inl (StaleSourcePollTransition ''source poll completion was stale or duplicated'')"
proof -
  have inv: "store_inv st" using assms(1) by (rule store_reachable_inv)
  have late: "dt_us (att_started (st_current s)) < dt_us (att_started a)"
    if "ms_states st (att_source a) = Some s" for s
    using assms(6) that by (simp add: stale_start_def not_le)
  obtain st1 st2 where run: "record_started a p st = Inr st1" "record_completed b st1 = Inr st2"
    and inv2: "store_inv st1" "store_inv st2"
    and view: "ms_states st2 = (ms_states st)(att_source a \<mapsto>
       completed_state b (started_state a p (ms_states st (att_source a))))"
    using mem.poll_cycle [OF inv assms(2-5) late assms(7-11)] by blast
  have "record_completed c st2 =
      Inl (StaleSourcePollTransition ''source poll completion was stale or duplicated'')"
    by (rule mem.complete_stale [OF inv2(2) assms(12,13)])
      (use assms(8,14) view in \<open>auto simp: open_attempt_def completed_state_def\<close>)
  with run view show ?thesis by auto
qed

theorem poll_completes_once_witness:
  "\<exists>st1 st2. record_started sample_start sample_policy empty_store = Inr st1
    \<and> record_completed sample_success st1 = Inr st2
    \<and> ms_states st2 (att_source sample_start) = Some (completed_state sample_success
        (started_state sample_start sample_policy (ms_states empty_store (att_source sample_start))))
    \<and> record_completed sample_success st2 =
        Inl (StaleSourcePollTransition ''source poll completion was stale or duplicated'')"
  by (rule poll_completes_once)
    (rule store_reachable.empty, simp_all add: stale_start_def empty_store_def)

section \<open>Reading the history back\<close>

lemma collect_recent_filter:
  assumes "0 < n" "\<forall>t \<in> set ts. is_ok (stream_position (tr_stream_id t))"
  shows "collect_recent before n ts =
    Inr (take n (filter (\<lambda>t. \<forall>b. before = Some b \<longrightarrow> transition_position t < b) ts))"
  using assms
proof (induction before n ts rule: collect_recent.induct)
  case (1 before n)
  then show ?case by simp
next
  case (2 before n t ts)
  obtain p where p: "stream_position (tr_stream_id t) = Inr p"
    using 2(5) by (auto simp: is_ok_iff)
  then have pos: "transition_position t = p" by (simp add: transition_position_def)
  have IH: "collect_recent before (n - 1) ts =
      Inr (take (n - 1) (filter (\<lambda>t. \<forall>b. before = Some b \<longrightarrow> transition_position t < b) ts))"
    if "n \<noteq> 1" "before = None \<or> (\<exists>b. before = Some b \<and> p < b)"
    using 2 p that by (cases before) auto
  have skip: "collect_recent before n ts =
      Inr (take n (filter (\<lambda>t. \<forall>b. before = Some b \<longrightarrow> transition_position t < b) ts))"
    if "before = Some b" "\<not> p < b" for b
    using 2 p that by auto
  obtain m where m: "n = Suc m" using 2(4) by (cases n) auto
  show ?case
  proof (cases before)
    case None
    then show ?thesis using IH m by (cases m) auto
  next
    case (Some b)
    then show ?thesis using IH skip [of b] m p pos by (cases m; cases "p < b") auto
  qed
qed

lemma filter_suffix:
  assumes "\<And>i. i < length xs \<Longrightarrow> P (xs ! i) \<longleftrightarrow> k \<le> i"
  shows "filter P xs = drop k xs"
proof -
  have "filter P (take k xs) = []"
    using assms by (auto simp: filter_empty_conv in_set_conv_nth)
  moreover have "filter P (drop k xs) = drop k xs"
    using assms by (auto simp: filter_id_conv in_set_conv_nth)
  ultimately show ?thesis
    by (metis append_Nil append_take_drop_id filter_append)
qed

lemma history_position:
  assumes "store_inv st" "i < length (ms_history st)"
  shows "tr_stream_id (ms_history st ! i) = stream_id_text (0, i + 1)"
proof -
  have "map tr_stream_id (ms_history st) ! i = map memory_stream_id [1..<length (ms_history st) + 1] ! i"
    using assms(1) by (simp add: store_inv_def del: map_eq_conv)
  then show ?thesis
    using assms(2) by (simp add: memory_stream_id_text nth_append del: upt_Suc)
qed

text \<open>The pages of the history tile it: the first page is the newest transitions, and the page
before the cursor of any transition is exactly what follows that transition in newest-first order,
so walking the cursors visits every transition once.\<close>

theorem history_pages_tile:
  assumes "store_reachable st" "1 \<le> n"
  shows "load_recent_transitions st None n = Inr (take (nat n) (rev (ms_history st)))
    \<and> (\<forall>k < length (ms_history st).
      load_recent_transitions st (Some (tr_stream_id (rev (ms_history st) ! k))) n
        = Inr (take (nat n) (drop (k + 1) (rev (ms_history st)))))"
proof (intro conjI allI impI)
  have inv: "store_inv st" using assms(1) by (rule store_reachable_inv)
  then have ok: "\<forall>t \<in> set (rev (ms_history st)). is_ok (stream_position (tr_stream_id t))"
    by (simp add: store_inv_def coherent_transition_def)
  note collect = collect_recent_filter [of "nat n", OF _ ok]
  show "load_recent_transitions st None n = Inr (take (nat n) (rev (ms_history st)))"
    using assms(2) by (simp add: load_recent_transitions_def collect)
  fix k assume k: "k < length (ms_history st)"
  have pos: "stream_position (tr_stream_id (rev (ms_history st) ! i)) = Inr (0, length (ms_history st) - i)"
    if "i < length (ms_history st)" for i
    using that history_position [OF inv, of "length (ms_history st) - Suc i"]
    by (simp add: rev_nth Suc_diff_Suc)
  have "filter (\<lambda>t. transition_position t < (0, length (ms_history st) - k)) (rev (ms_history st))
      = drop (k + 1) (rev (ms_history st))"
    by (rule filter_suffix) (use k in \<open>auto simp: transition_position_def pos\<close>)
  then show "load_recent_transitions st (Some (tr_stream_id (rev (ms_history st) ! k))) n
        = Inr (take (nat n) (drop (k + 1) (rev (ms_history st))))"
    using assms(2) pos [OF k] by (simp add: load_recent_transitions_def collect)
qed

theorem history_pages_tile_witness:
  "load_recent_transitions sample_store None 1 = Inr (take (nat 1) (rev (ms_history sample_store)))
    \<and> load_recent_transitions sample_store (Some (tr_stream_id (rev (ms_history sample_store) ! 0))) 1
        = Inr (take (nat 1) (drop (0 + 1) (rev (ms_history sample_store))))"
proof -
  have "(0::int) \<le> 0" "0 < length (ms_history sample_store)" by (simp_all add: sample_store_def)
  then show ?thesis using history_pages_tile [OF sample_store_reachable, of 1] by blast
qed

end
