(* ===== verification/ValkeyReply.thy ===== *)
theory ValkeyReply
  imports StreamId
begin

text \<open>
  What the Valkey client hands back to the adapters, and the conversions they apply to it:
  replies as a tagged union (\<open>bytes\<close> and \<open>str\<close> are both text, in UTF-8), \<open>_as_text\<close>, and Python's
  \<open>int\<close> on text. The server and the client library are not part of the repository: they are
  arguments of the definitions that call them.
\<close>

datatype reply =
    RNil
  | RInt int
  | RText string
  | RList "reply list"
  | RMap "(string \<times> reply) list"

text \<open>\<open>_as_text\<close>, as the event bus and the poll store define it.\<close>

fun as_text :: "reply \<Rightarrow> string res" where
  "as_text (RText s) = Inr s"
| "as_text _ = Inl (TypeError ''expected bytes or str'')"

section \<open>Python's int on text\<close>

text \<open>\<open>int(s)\<close>: surrounding ASCII whitespace, a sign, and digits with single underscores between
them.\<close>

definition is_space :: "char \<Rightarrow> bool" where
  "is_space c \<longleftrightarrow> of_char c \<in> {9..13::nat} \<or> c = CHR '' ''"

definition strip :: "string \<Rightarrow> string" where
  "strip s = rev (dropWhile is_space (rev (dropWhile is_space s)))"

fun parse_digits :: "bool \<Rightarrow> nat \<Rightarrow> string \<Rightarrow> nat option" where
  "parse_digits digit_before v [] = (if digit_before then Some v else None)"
| "parse_digits digit_before v (c # s) =
     (if c \<in> set dec_digits then parse_digits True (10 * v + dec_digit c) s
      else if c = CHR ''_'' \<and> digit_before then parse_digits False v s
      else None)"

definition parse_signed :: "string \<Rightarrow> int option" where
  "parse_signed s = (case s of
     [] \<Rightarrow> None
   | c # r \<Rightarrow> if c = CHR ''-'' then map_option (\<lambda>n. - int n) (parse_digits False 0 r)
       else if c = CHR ''+'' then map_option int (parse_digits False 0 r)
       else map_option int (parse_digits False 0 s))"

definition py_int :: "string \<Rightarrow> int res" where
  "py_int s = (case parse_signed (strip s) of
     None \<Rightarrow> Inl (ValueError ''invalid literal for int() with base 10'')
   | Some i \<Rightarrow> Inr i)"

lemma digit_not_space: "c \<in> set dec_digits \<Longrightarrow> \<not> is_space c \<and> c \<noteq> CHR ''-'' \<and> c \<noteq> CHR ''+''"
  by (auto simp: dec_digits_def is_space_def)

lemma strip_decimal: "is_decimal s \<Longrightarrow> strip s = s"
proof -
  assume "is_decimal s"
  then have none: "c \<in> set s \<Longrightarrow> \<not> is_space c" for c
    by (auto simp: is_decimal_def list_all_iff digit_not_space)
  then have "dropWhile is_space s = s" "dropWhile is_space (rev s) = rev s"
    by (auto simp: dropWhile_eq_self_iff dest: hd_in_set) (metis hd_in_set set_rev rev_is_Nil_conv)
  then show ?thesis by (simp add: strip_def)
qed

lemma parse_digits_decimal:
  "list_all (\<lambda>c. c \<in> set dec_digits) s \<Longrightarrow> s \<noteq> [] \<or> b \<Longrightarrow>
   parse_digits b v s = Some (foldl (\<lambda>v c. 10 * v + dec_digit c) v s)"
  by (induction s arbitrary: b v) auto

lemma py_int_decimal: "is_decimal s \<Longrightarrow> py_int s = Inr (int (dec_value s))"
proof -
  assume dec: "is_decimal s"
  then obtain c r where s: "s = c # r" and c: "c \<in> set dec_digits"
    by (cases s) (auto simp: is_decimal_def)
  have "parse_digits False 0 s = Some (dec_value s)"
    using dec by (simp add: parse_digits_decimal is_decimal_def dec_value_def)
  moreover have "c \<noteq> CHR ''-''" "c \<noteq> CHR ''+''" using digit_not_space [OF c] by auto
  ultimately have "parse_signed s = Some (int (dec_value s))"
    unfolding s parse_signed_def by (simp del: parse_digits.simps)
  then show ?thesis by (simp add: py_int_def strip_decimal dec)
qed

lemma py_int_nat_dec [simp]: "py_int (nat_dec n) = Inr (int n)"
  by (simp add: py_int_decimal nat_dec_decimal)

text \<open>\<open>int(_as_text(x)) if isinstance(x, bytes | str) else int(x)\<close>.\<close>

fun reply_int :: "reply \<Rightarrow> int res" where
  "reply_int (RInt i) = Inr i"
| "reply_int (RText s) = py_int s"
| "reply_int _ = Inl (TypeError ''int() argument must be a string or a real number'')"

end
