(* ===== verification/ValkeyPollStore.thy ===== *)
theory ValkeyPollStore
  imports PollStore ValkeyReply "HOL-Library.AList"
begin

text \<open>
  \<open>ValkeySourcePollStore\<close> of \<open>src/atlas_pulse/source_poll_store.py\<close>: the two Lua scripts, which the
  server runs atomically, and the client methods around them. The server's commands are the
  fields of \<open>valkey\<close> and Pydantic's JSON codecs those of \<open>codec\<close>; what the proofs need of them is
  \<open>hash_laws\<close> (HGET after HSET, HINCRBY and XADD) and that the values stored load back. The lemmas
  show that the scripts take exactly the decisions of the in-memory store: \<open>encodes\<close> relates the
  two, and every transition preserves it.
\<close>

section \<open>The server's commands and the codecs\<close>

record 'db valkey =
  hget :: "string \<Rightarrow> string \<Rightarrow> 'db \<Rightarrow> string option"
  hset :: "string \<Rightarrow> (string \<times> string) list \<Rightarrow> 'db \<Rightarrow> 'db"
  hincrby :: "string \<Rightarrow> string \<Rightarrow> int \<Rightarrow> 'db \<Rightarrow> 'db res"
  xadd :: "string \<Rightarrow> int \<Rightarrow> (string \<times> string) list \<Rightarrow> 'db \<Rightarrow> 'db"
  hgetall :: "string \<Rightarrow> 'db \<Rightarrow> reply"
  xrevrange :: "string \<Rightarrow> string \<Rightarrow> int \<Rightarrow> 'db \<Rightarrow> reply"

record codec =
  dump_policy :: "poll_policy \<Rightarrow> string"
  load_policy :: "string \<Rightarrow> poll_policy res"
  dump_attempt :: "poll_attempt \<Rightarrow> string"
  load_attempt :: "string \<Rightarrow> poll_attempt res"

record poll_config =
  cfg_stream :: string
  cfg_max :: int

fun outcome_string :: "poll_outcome \<Rightarrow> string" where
  "outcome_string InProgress = ''in_progress''"
| "outcome_string Succeeded = ''succeeded''"
| "outcome_string Failed = ''failed''"

fun kind_string :: "transition_kind \<Rightarrow> string" where
  "kind_string StartedTr = ''started''"
| "kind_string SucceededTr = ''succeeded''"
| "kind_string FailedTr = ''failed''"

definition state_key :: "source_name \<Rightarrow> string" where
  "state_key src = ''{atlas}:source-poll:'' @ source_string src"

text \<open>The constructor's check; the client itself is an argument.\<close>

definition poll_store_config :: "string \<Rightarrow> int \<Rightarrow> poll_config res" where
  "poll_store_config history_stream history_max_length = raise_first
     [(history_max_length < 1, ''source poll history length must be positive'')]
     \<lparr>cfg_stream = history_stream, cfg_max = history_max_length\<rparr>"

section \<open>The scripts\<close>

text \<open>Lua compares strings by \<open>strcoll\<close>, by bytes in the server's C locale; \<open>cur\<close> and \<open>out\<close> are the two
\<open>HGET\<close> results, false where absent.\<close>

definition script_start ::
  "'db valkey \<Rightarrow> string \<Rightarrow> string \<Rightarrow> string \<Rightarrow> string \<Rightarrow> string \<Rightarrow> string \<Rightarrow> string \<Rightarrow> int \<Rightarrow> 'db \<Rightarrow> 'db \<times> reply" where
  "script_start V key stream source policy_json attempt_id started_at attempt_json max_length db =
     (case hget V key ''current_started_at'' db of
        Some existing \<Rightarrow> if started_at \<le> existing then (db, RList [RInt 0, RText ''stale_start'']) else
          (xadd V stream max_length
             [(''source'', source), (''transition'', ''started''), (''attempt'', attempt_json)]
             (hset V key [(''source'', source), (''policy_json'', policy_json),
                (''current_attempt_id'', attempt_id), (''current_started_at'', started_at),
                (''current_outcome'', ''in_progress''), (''current_attempt_json'', attempt_json)] db),
           RList [RInt 1, RText ''started''])
      | None \<Rightarrow>
          (xadd V stream max_length
             [(''source'', source), (''transition'', ''started''), (''attempt'', attempt_json)]
             (hset V key [(''source'', source), (''policy_json'', policy_json),
                (''current_attempt_id'', attempt_id), (''current_started_at'', started_at),
                (''current_outcome'', ''in_progress''), (''current_attempt_json'', attempt_json)] db),
           RList [RInt 1, RText ''started'']))"

definition script_completion ::
  "'db valkey \<Rightarrow> string \<Rightarrow> string \<Rightarrow> string \<Rightarrow> string \<Rightarrow> string \<Rightarrow> int \<Rightarrow> string \<Rightarrow> 'db \<Rightarrow> ('db \<times> reply) res" where
  "script_completion V key stream attempt_id outcome attempt_json max_length source db =
     (let cur = hget V key ''current_attempt_id'' db; out = hget V key ''current_outcome'' db in
      if cur = None \<or> cur \<noteq> Some attempt_id \<or> out \<noteq> Some ''in_progress''
      then Inr (db, RList [RInt 0, RText ''stale_completion''])
      else let db1 = hset V key [(''current_outcome'', outcome), (''current_attempt_json'', attempt_json)] db in
        rbind (if outcome = ''succeeded''
               then Inr (hset V key [(''last_success_json'', attempt_json), (''consecutive_failures'', ''0'')] db1)
               else hincrby V key ''consecutive_failures'' 1 db1) (\<lambda>db2.
          Inr (xadd V stream max_length
              [(''source'', source), (''transition'', outcome), (''attempt'', attempt_json)] db2,
            RList [RInt 1, RText outcome])))"

section \<open>The client methods\<close>

definition script_accepted :: "reply \<Rightarrow> bool res" where
  "script_accepted r = (case r of
     RList xs \<Rightarrow> if length xs \<noteq> 2
       then Inl (ValueError ''Valkey source-poll script returned an unexpected response length'')
       else (case hd xs of
           RNil \<Rightarrow> Inl (ValueError ''Valkey source-poll script returned an invalid transition result'')
         | x \<Rightarrow> rbind (reply_int x) (\<lambda>i. if i \<notin> {0, 1}
             then Inl (ValueError ''Valkey source-poll script returned an invalid transition result'')
             else Inr (i = 1)))
   | _ \<Rightarrow> Inl (TypeError ''Valkey source-poll script returned an invalid response''))"

definition vk_record_started ::
  "'db valkey \<Rightarrow> codec \<Rightarrow> poll_config \<Rightarrow> poll_attempt \<Rightarrow> poll_policy \<Rightarrow> 'db \<Rightarrow> 'db res" where
  "vk_record_started V C cfg a p db =
     (if att_outcome a \<noteq> InProgress \<or> att_source a \<noteq> pol_source p
      then Inl (ValueError ''poll start must be in progress and match its policy'')
      else case script_start V (state_key (att_source a)) (cfg_stream cfg) (source_string (att_source a))
             (dump_policy C p) (att_id a) (isoformat (att_started a)) (dump_attempt C a) (cfg_max cfg) db of
        (db', r) \<Rightarrow> rbind (script_accepted r) (\<lambda>accepted. if \<not> accepted
          then Inl (StaleSourcePollTransition ''source poll start was stale or duplicated'')
          else Inr db'))"

definition vk_record_completed ::
  "'db valkey \<Rightarrow> codec \<Rightarrow> poll_config \<Rightarrow> poll_attempt \<Rightarrow> 'db \<Rightarrow> 'db res" where
  "vk_record_completed V C cfg a db =
     (if att_outcome a = InProgress \<or> att_completed a = None
      then Inl (ValueError ''poll completion must contain a terminal attempt'')
      else rbind (script_completion V (state_key (att_source a)) (cfg_stream cfg) (att_id a)
             (outcome_string (att_outcome a)) (dump_attempt C a) (cfg_max cfg)
             (source_string (att_source a)) db) (\<lambda>(db', r).
        rbind (script_accepted r) (\<lambda>accepted. if \<not> accepted
          then Inl (StaleSourcePollTransition ''source poll completion was stale or duplicated'')
          else Inr db')))"

definition decode_optional :: "(string \<Rightarrow> 'a res) \<Rightarrow> reply option \<Rightarrow> 'a option res" where
  "decode_optional f r = (case r of None \<Rightarrow> Inr None
     | Some x \<Rightarrow> rbind (as_text x) (\<lambda>t. rbind (f t) (\<lambda>v. Inr (Some v))))"

definition decode_state :: "codec \<Rightarrow> source_name \<Rightarrow> (string \<times> reply) list \<Rightarrow> poll_state res" where
  "decode_state C src raw =
     (case (map_of raw ''source'', map_of raw ''policy_json'', map_of raw ''current_attempt_json'') of
        (Some stored_source, Some policy_json, Some current_json) \<Rightarrow>
          rbind (as_text stored_source) (\<lambda>text. if text \<noteq> source_string src
            then Inl (ValueError ''Valkey source-poll state has the wrong source'')
            else rbind (rbind (as_text policy_json) (load_policy C)) (\<lambda>policy.
              rbind (rbind (as_text current_json) (load_attempt C)) (\<lambda>current.
              rbind (decode_optional (load_attempt C) (map_of raw ''last_success_json'')) (\<lambda>success.
              rbind (decode_optional py_int (map_of raw ''consecutive_failures'')) (\<lambda>failures.
                validate_state \<lparr>st_source = src, st_policy = policy, st_current = current,
                  st_success = success, st_failures = (case failures of None \<Rightarrow> 0 | Some n \<Rightarrow> n)\<rparr>)))))
      | _ \<Rightarrow> Inl (ValueError ''Valkey source-poll state is incomplete''))"

definition vk_load_state :: "'db valkey \<Rightarrow> codec \<Rightarrow> 'db \<Rightarrow> source_name \<Rightarrow> poll_state option res" where
  "vk_load_state V C db src = (case hgetall V (state_key src) db of
     RMap raw \<Rightarrow> if raw = [] then Inr None else rbind (decode_state C src raw) (\<lambda>s. Inr (Some s))
   | _ \<Rightarrow> Inl (TypeError ''Valkey source-poll hash returned an invalid response''))"

definition vk_load_states :: "'db valkey \<Rightarrow> codec \<Rightarrow> 'db \<Rightarrow> source_name list \<Rightarrow> poll_state list res" where
  "vk_load_states V C db sources =
     rbind (rmap (vk_load_state V C db) sources) (\<lambda>states. Inr (List.map_filter id states))"

definition parse_source :: "string \<Rightarrow> source_name res" where
  "parse_source s = (if s = ''usgs'' then Inr Usgs else if s = ''nws'' then Inr Nws
     else if s = ''firms'' then Inr Firms else if s = ''gdelt'' then Inr Gdelt
     else Inl (ValueError ''source is not one of the known sources''))"

definition parse_kind :: "string \<Rightarrow> transition_kind res" where
  "parse_kind s = (if s = ''started'' then Inr StartedTr else if s = ''succeeded'' then Inr SucceededTr
     else if s = ''failed'' then Inr FailedTr
     else Inl (ValueError ''transition is not one of the known transitions''))"

definition decode_transition :: "codec \<Rightarrow> reply \<Rightarrow> poll_transition res" where
  "decode_transition C message = (case message of
     RList [stream_id, RMap raw] \<Rightarrow>
       if set (map fst raw) \<noteq> {''source'', ''transition'', ''attempt''}
       then Inl (ValueError ''Valkey source-poll history fields are incomplete or extended'')
       else rbind (as_text stream_id) (\<lambda>sid.
         rbind (as_text (the (map_of raw ''source''))) (\<lambda>source_text.
         rbind (as_text (the (map_of raw ''transition''))) (\<lambda>kind_text.
         rbind (rbind (as_text (the (map_of raw ''attempt''))) (load_attempt C)) (\<lambda>a.
         rbind (parse_source source_text) (\<lambda>src.
         rbind (parse_kind kind_text) (\<lambda>k.
           validate_transition \<lparr>tr_stream_id = sid, tr_source = src, tr_kind = k, tr_attempt = a\<rparr>))))))
   | RList [_, _] \<Rightarrow> Inl (TypeError ''Valkey source-poll history fields have an invalid shape'')
   | _ \<Rightarrow> Inl (TypeError ''Valkey source-poll history entry has an invalid shape''))"

definition vk_load_recent_transitions ::
  "'db valkey \<Rightarrow> codec \<Rightarrow> poll_config \<Rightarrow> 'db \<Rightarrow> string option \<Rightarrow> int \<Rightarrow> poll_transition list res" where
  "vk_load_recent_transitions V C cfg db before limit =
     (if limit < 1 then Inl (ValueError ''source poll history limit must be positive'')
      else rbind (case before of None \<Rightarrow> Inr ''+'' | Some b \<Rightarrow> rbind (stream_position b) (\<lambda>_. Inr (''('' @ b)))
        (\<lambda>maximum. case xrevrange V (cfg_stream cfg) maximum limit db of
             RList messages \<Rightarrow> rmap (decode_transition C) messages
           | _ \<Rightarrow> Inl (TypeError ''Valkey source-poll history returned an invalid response'')))"

section \<open>The documented behaviour of the commands\<close>

definition hset_law :: "'db valkey \<Rightarrow> bool" where
  "hset_law V \<longleftrightarrow> (\<forall>k fvs db k' f. distinct (map fst fvs) \<longrightarrow> hget V k' f (hset V k fvs db) =
     (if k' = k \<and> map_of fvs f \<noteq> None then map_of fvs f else hget V k' f db))"

text \<open>A counter counts up from 0 where the field is absent; past 64 bits HINCRBY fails.\<close>

definition hincrby_law :: "'db valkey \<Rightarrow> bool" where
  "hincrby_law V \<longleftrightarrow> (\<forall>k f db n. n < 2 ^ 63 - 1 \<longrightarrow>
     hget V k f db = Some (nat_dec n) \<or> hget V k f db = None \<and> n = 0 \<longrightarrow>
     (\<exists>db'. hincrby V k f 1 db = Inr db' \<and> (\<forall>k' f'. hget V k' f' db' =
        (if k' = k \<and> f' = f then Some (nat_dec (n + 1)) else hget V k' f' db))))"

definition xadd_law :: "'db valkey \<Rightarrow> bool" where
  "xadd_law V \<longleftrightarrow> (\<forall>stream m fvs db k f. hget V k f (xadd V stream m fvs db) = hget V k f db)"

definition hgetall_law :: "'db valkey \<Rightarrow> bool" where
  "hgetall_law V \<longleftrightarrow> (\<forall>k db. \<exists>raw. hgetall V k db = RMap raw \<and>
     (\<forall>f. map_of raw f = map_option RText (hget V k f db)))"

definition hash_laws :: "'db valkey \<Rightarrow> bool" where
  "hash_laws V \<longleftrightarrow> hset_law V \<and> hincrby_law V \<and> xadd_law V \<and> hgetall_law V"

lemma hget_hset: "hash_laws V \<Longrightarrow> distinct (map fst fvs) \<Longrightarrow> hget V k' f (hset V k fvs db) =
    (if k' = k \<and> map_of fvs f \<noteq> None then map_of fvs f else hget V k' f db)"
  by (simp add: hash_laws_def hset_law_def)

lemma hget_xadd: "hash_laws V \<Longrightarrow> hget V k f (xadd V stream m fvs db) = hget V k f db"
  by (simp add: hash_laws_def xadd_law_def)

lemma hget_hincrby:
  assumes "hash_laws V" "n < 2 ^ 63 - 1"
    "hget V k f db = Some (nat_dec n) \<or> hget V k f db = None \<and> n = 0"
  obtains db' where "hincrby V k f 1 db = Inr db'" "\<And>k' f'. hget V k' f' db' =
    (if k' = k \<and> f' = f then Some (nat_dec (n + 1)) else hget V k' f' db)"
proof -
  have "hincrby_law V" using assms(1) by (simp add: hash_laws_def)
  then show ?thesis using assms(2,3) that unfolding hincrby_law_def by blast
qed

lemma hgetall_map:
  assumes "hash_laws V"
  obtains raw where "hgetall V k db = RMap raw" "map_of raw = (\<lambda>f. map_option RText (hget V k f db))"
proof -
  have "hgetall_law V" using assms by (simp add: hash_laws_def)
  then show ?thesis using that unfolding hgetall_law_def by (metis ext)
qed

lemma state_key_inj [simp]: "state_key a = state_key b \<longleftrightarrow> a = b"
  by (simp add: state_key_def source_string_inj)

section \<open>The hash of a source encodes its state\<close>

definition encodes_state :: "codec \<Rightarrow> source_name \<Rightarrow> (string \<Rightarrow> string option) \<Rightarrow> poll_state option \<Rightarrow> bool" where
  "encodes_state C src h existing \<longleftrightarrow> (case existing of
     None \<Rightarrow> (\<forall>f. h f = None)
   | Some s \<Rightarrow> h ''source'' = Some (source_string src)
       \<and> (\<exists>j. h ''policy_json'' = Some j \<and> load_policy C j = Inr (st_policy s))
       \<and> h ''current_attempt_id'' = Some (att_id (st_current s))
       \<and> h ''current_started_at'' = Some (isoformat (att_started (st_current s)))
       \<and> h ''current_outcome'' = Some (outcome_string (att_outcome (st_current s)))
       \<and> (\<exists>j. h ''current_attempt_json'' = Some j \<and> load_attempt C j = Inr (st_current s))
       \<and> (case st_success s of None \<Rightarrow> h ''last_success_json'' = None
          | Some l \<Rightarrow> \<exists>j. h ''last_success_json'' = Some j \<and> load_attempt C j = Inr l)
       \<and> (h ''consecutive_failures'' = Some (nat_dec (nat (st_failures s)))
          \<or> h ''consecutive_failures'' = None \<and> st_failures s = 0)
       \<and> representable (att_started (st_current s)))"

definition encodes :: "'db valkey \<Rightarrow> codec \<Rightarrow> 'db \<Rightarrow> mem_store \<Rightarrow> bool" where
  "encodes V C db st \<longleftrightarrow>
     (\<forall>src. encodes_state C src (\<lambda>f. hget V (state_key src) f db) (ms_states st src))"


lemma script_accepted_simps [simp]:
  "script_accepted (RList [RInt 1, r]) = Inr True" "script_accepted (RList [RInt 0, r]) = Inr False"
  by (simp_all add: script_accepted_def)

lemma isoformat_le_iff:
  "valid_attempt a \<Longrightarrow> valid_attempt b \<Longrightarrow> representable (att_started a) \<Longrightarrow> representable (att_started b) \<Longrightarrow>
   isoformat (att_started a) \<le> isoformat (att_started b) \<longleftrightarrow> dt_us (att_started a) \<le> dt_us (att_started b)"
  using isoformat_less_iff [of "att_started b" "att_started a"]
  by (simp add: valid_attempt_def attempt_times_def not_less [symmetric])

lemma encodes_started:
  assumes "encodes_state C src h e" "representable (att_started a)" "att_outcome a = InProgress"
    and "load_policy C pj = Inr p" "load_attempt C aj = Inr a" "att_source a = src"
  shows "encodes_state C src
    (\<lambda>f. if map_of [(''source'', source_string src), (''policy_json'', pj),
                (''current_attempt_id'', att_id a), (''current_started_at'', isoformat (att_started a)),
                (''current_outcome'', ''in_progress''), (''current_attempt_json'', aj)] f \<noteq> None
         then map_of [(''source'', source_string src), (''policy_json'', pj),
                (''current_attempt_id'', att_id a), (''current_started_at'', isoformat (att_started a)),
                (''current_outcome'', ''in_progress''), (''current_attempt_json'', aj)] f else h f)
    (Some (started_state a p e))"
  using assms by (cases e) (simp_all add: encodes_state_def started_state_def)

lemma encodes_update:
  assumes "encodes V C db st" "encodes_state C src (\<lambda>f. hget V (state_key src) f db') (Some s)"
    and "\<And>src' f. src' \<noteq> src \<Longrightarrow> hget V (state_key src') f db' = hget V (state_key src') f db"
    and "ms_states st' = (ms_states st)(src \<mapsto> s)"
  shows "encodes V C db' st'"
  using assms by (auto simp: encodes_def)

lemma script_start_accepts:
  assumes laws: "hash_laws V" and enc: "encodes V C db st"
    and a: "representable (att_started a)" "att_outcome a = InProgress"
    and load: "load_policy C pj = Inr p" "load_attempt C aj = Inr a"
    and fresh: "\<And>s. ms_states st (att_source a) = Some s \<Longrightarrow>
      \<not> isoformat (att_started a) \<le> isoformat (att_started (st_current s))"
  obtains db' where "script_start V (state_key (att_source a)) stream (source_string (att_source a)) pj
      (att_id a) (isoformat (att_started a)) aj m db = (db', RList [RInt 1, RText ''started''])"
    "encodes V C db' (store_put StartedTr a (started_state a p (ms_states st (att_source a))) st)"
proof -
  let ?src = "att_source a" let ?k = "state_key ?src"
  let ?fvs = "[(''source'', source_string ?src), (''policy_json'', pj),
    (''current_attempt_id'', att_id a), (''current_started_at'', isoformat (att_started a)),
    (''current_outcome'', ''in_progress''), (''current_attempt_json'', aj)]"
  let ?db = "xadd V stream m [(''source'', source_string ?src), (''transition'', ''started''), (''attempt'', aj)]
    (hset V ?k ?fvs db)"
  have old: "encodes_state C ?src (\<lambda>f. hget V ?k f db) (ms_states st ?src)"
    using enc by (simp add: encodes_def)
  have get: "hget V k' f ?db = (if k' = ?k \<and> map_of ?fvs f \<noteq> None then map_of ?fvs f else hget V k' f db)" for k' f
    using laws by (simp only: hget_xadd) (rule hget_hset, simp_all)
  have "encodes_state C ?src (\<lambda>f. hget V ?k f ?db) (Some (started_state a p (ms_states st ?src)))"
    using encodes_started [OF old a load refl] unfolding get by (simp only: simp_thms)
  then have "encodes V C ?db (store_put StartedTr a (started_state a p (ms_states st ?src)) st)"
    by (rule encodes_update [OF enc]) (simp_all add: get del: map_of.simps)
  moreover have "script_start V ?k stream (source_string ?src) pj (att_id a) (isoformat (att_started a)) aj m db
      = (?db, RList [RInt 1, RText ''started''])"
  proof (cases "ms_states st ?src")
    case None
    then have "hget V ?k ''current_started_at'' db = None" using old by (simp add: encodes_state_def)
    then show ?thesis by (simp add: script_start_def)
  next
    case (Some s)
    then have "hget V ?k ''current_started_at'' db = Some (isoformat (att_started (st_current s)))"
      using old by (simp add: encodes_state_def)
    with fresh [OF Some] show ?thesis by (simp add: script_start_def)
  qed
  ultimately show ?thesis using that by blast
qed

lemma start_simulation:
  assumes laws: "hash_laws V" and enc: "encodes V C db st" and inv: "store_inv st"
    and a: "valid_attempt a" "representable (att_started a)"
    and load: "load_policy C (dump_policy C p) = Inr p" "load_attempt C (dump_attempt C a) = Inr a"
  shows "case record_started a p st of
      Inl e \<Rightarrow> vk_record_started V C cfg a p db = Inl e
    | Inr st' \<Rightarrow> \<exists>db'. vk_record_started V C cfg a p db = Inr db' \<and> encodes V C db' st'"
proof (cases "att_outcome a = InProgress \<and> att_source a = pol_source p")
  case False
  then show ?thesis by (auto simp: record_started_total [OF inv] vk_record_started_def)
next
  case True
  have late: "isoformat (att_started a) \<le> isoformat (att_started (st_current s))
      \<longleftrightarrow> dt_us (att_started a) \<le> dt_us (att_started (st_current s))"
    if "ms_states st (att_source a) = Some s" for s
  proof (rule isoformat_le_iff [OF a(1) _ a(2)])
    show "valid_attempt (st_current s)" using inv that by (auto simp: store_inv_def valid_state_def)
    have "encodes_state C (att_source a) (\<lambda>f. hget V (state_key (att_source a)) f db)
        (ms_states st (att_source a))" using enc by (simp add: encodes_def)
    with that show "representable (att_started (st_current s))" by (simp add: encodes_state_def)
  qed
  show ?thesis
  proof (cases "stale_start a st")
    case stale: True
    then obtain s where s: "ms_states st (att_source a) = Some s"
      "dt_us (att_started a) \<le> dt_us (att_started (st_current s))" by (auto simp: stale_start_def)
    have "encodes_state C (att_source a) (\<lambda>f. hget V (state_key (att_source a)) f db)
        (ms_states st (att_source a))" using enc by (simp add: encodes_def)
    then have "hget V (state_key (att_source a)) ''current_started_at'' db
        = Some (isoformat (att_started (st_current s)))" using s(1) by (simp add: encodes_state_def)
    then show ?thesis
      using True stale late [OF s(1)] s(2)
      by (simp add: record_started_total [OF inv] vk_record_started_def script_start_def)
  next
    case fresh: False
    obtain db' where run: "script_start V (state_key (att_source a)) (cfg_stream cfg)
        (source_string (att_source a)) (dump_policy C p) (att_id a) (isoformat (att_started a))
        (dump_attempt C a) (cfg_max cfg) db = (db', RList [RInt 1, RText ''started''])"
      and enc': "encodes V C db' (store_put StartedTr a (started_state a p (ms_states st (att_source a))) st)"
      by (rule script_start_accepts [OF laws enc a(2) _ load]) (use True fresh late in \<open>auto simp: stale_start_def\<close>)
    have "record_started a p st = Inr (store_put StartedTr a (started_state a p (ms_states st (att_source a))) st)"
      using True fresh by (simp add: record_started_total [OF inv])
    moreover have "vk_record_started V C cfg a p db = Inr db'"
      unfolding vk_record_started_def run using True by simp
    ultimately show ?thesis using enc' by simp
  qed
qed


lemma nat_dec_0: "nat_dec 0 = ''0''"
  by (simp add: nat_dec.simps digit_char_def dec_digits_def)

lemma outcome_string_inj [simp]: "outcome_string a = outcome_string b \<longleftrightarrow> a = b"
  by (cases a; cases b) simp_all

lemma outcome_string_values [simp]:
  "outcome_string a = ''in_progress'' \<longleftrightarrow> a = InProgress" "outcome_string a = ''succeeded'' \<longleftrightarrow> a = Succeeded"
  by (cases a; simp)+

text \<open>The two shapes of a completed hash.\<close>

lemma encodes_succeeded:
  assumes "encodes_state C src h (Some s)" "open_attempt a s" "att_started (st_current s) = att_started a"
    and "att_source a = src" "att_outcome a = Succeeded" "load_attempt C aj = Inr a"
    and "h' ''current_outcome'' = Some ''succeeded''" "h' ''current_attempt_json'' = Some aj"
      "h' ''last_success_json'' = Some aj" "h' ''consecutive_failures'' = Some ''0''"
    and "\<And>f. f \<notin> {''current_outcome'', ''current_attempt_json'', ''last_success_json'',
      ''consecutive_failures''} \<Longrightarrow> h' f = h f"
  shows "encodes_state C src h' (Some (completed_state a s))"
  using assms by (simp add: encodes_state_def completed_state_def open_attempt_def nat_dec_0)

lemma encodes_failed:
  assumes "encodes_state C src h (Some s)" "open_attempt a s" "att_started (st_current s) = att_started a"
    and "att_source a = src" "att_outcome a = Failed" "load_attempt C aj = Inr a" "0 \<le> st_failures s"
    and "h' ''current_outcome'' = Some ''failed''" "h' ''current_attempt_json'' = Some aj"
      "h' ''consecutive_failures'' = Some (nat_dec (nat (st_failures s) + 1))"
    and "\<And>f. f \<notin> {''current_outcome'', ''current_attempt_json'', ''consecutive_failures''} \<Longrightarrow> h' f = h f"
  shows "encodes_state C src h' (Some (completed_state a s))"
proof -
  have "nat (st_failures s + 1) = nat (st_failures s) + 1" using assms(7) by simp
  then show ?thesis
    using assms by (cases "st_success s") (simp_all add: encodes_state_def completed_state_def open_attempt_def)
qed

lemma script_completion_accepts:
  assumes laws: "hash_laws V" and enc: "encodes V C db st"
    and s: "ms_states st (att_source a) = Some s" "open_attempt a s"
      "att_started (st_current s) = att_started a" "0 \<le> st_failures s" "st_failures s < 2 ^ 63 - 1"
    and a: "att_outcome a \<noteq> InProgress" and load: "load_attempt C aj = Inr a"
  obtains db' r where "script_completion V (state_key (att_source a)) stream (att_id a)
      (outcome_string (att_outcome a)) aj m (source_string (att_source a)) db = Inr (db', RList [RInt 1, r])"
    "encodes V C db' (store_put (terminal_kind a) a (completed_state a s) st)"
proof -
  let ?src = "att_source a" let ?k = "state_key ?src" let ?out = "outcome_string (att_outcome a)"
  let ?add = "xadd V stream m [(''source'', source_string ?src), (''transition'', ?out), (''attempt'', aj)]"
  let ?db1 = "hset V ?k [(''current_outcome'', ?out), (''current_attempt_json'', aj)] db"
  have old: "encodes_state C ?src (\<lambda>f. hget V ?k f db) (Some s)"
    using enc s(1) by (metis encodes_def)
  have guard: "hget V ?k ''current_attempt_id'' db = Some (att_id a)"
    "hget V ?k ''current_outcome'' db = Some ''in_progress''"
    using old s(2) by (simp_all add: encodes_state_def open_attempt_def)
  have get1: "hget V k' f ?db1 = (if k' = ?k \<and> f = ''current_outcome'' then Some ?out
      else if k' = ?k \<and> f = ''current_attempt_json'' then Some aj else hget V k' f db)" for k' f
    using hget_hset [OF laws, of "[(''current_outcome'', ?out), (''current_attempt_json'', aj)]"] by simp
  show ?thesis
  proof (cases "att_outcome a")
    case InProgress
    with a show ?thesis by simp
  next
    case Succeeded
    let ?db = "?add (hset V ?k [(''last_success_json'', aj), (''consecutive_failures'', ''0'')] ?db1)"
    have get: "hget V k' f ?db = (if k' = ?k \<and> f = ''last_success_json'' then Some aj
        else if k' = ?k \<and> f = ''consecutive_failures'' then Some ''0'' else hget V k' f ?db1)" for k' f
      using hget_hset [OF laws, of "[(''last_success_json'', aj), (''consecutive_failures'', ''0'')]"]
      by (simp add: hget_xadd [OF laws])
    have "encodes_state C ?src (\<lambda>f. hget V ?k f ?db) (Some (completed_state a s))"
      by (rule encodes_succeeded [OF old s(2,3) refl Succeeded load])
        (unfold get get1, simp_all add: Succeeded)
    then have "encodes V C ?db (store_put (terminal_kind a) a (completed_state a s) st)"
      by (rule encodes_update [OF enc]) (simp_all add: get get1)
    moreover have "script_completion V ?k stream (att_id a) ?out aj m (source_string ?src) db
        = Inr (?db, RList [RInt 1, RText ?out])"
      by (simp add: script_completion_def guard Succeeded)
    ultimately show ?thesis using that by blast
  next
    case Failed
    have cnt: "hget V ?k ''consecutive_failures'' ?db1 = Some (nat_dec (nat (st_failures s)))
        \<or> hget V ?k ''consecutive_failures'' ?db1 = None \<and> nat (st_failures s) = 0"
      using old by (auto simp: get1 encodes_state_def)
    have bound: "nat (st_failures s) < 2 ^ 63 - 1" using s(4,5) by simp
    obtain db2 where inc: "hincrby V ?k ''consecutive_failures'' 1 ?db1 = Inr db2"
      and get2: "\<And>k' f'. hget V k' f' db2 = (if k' = ?k \<and> f' = ''consecutive_failures''
        then Some (nat_dec (nat (st_failures s) + 1)) else hget V k' f' ?db1)"
      using hget_hincrby [OF laws bound cnt] by blast
    have "encodes_state C ?src (\<lambda>f. hget V ?k f (?add db2)) (Some (completed_state a s))"
      by (rule encodes_failed [OF old s(2,3) refl Failed load s(4)])
        (unfold hget_xadd [OF laws] get2 get1, simp_all add: Failed)
    then have "encodes V C (?add db2) (store_put (terminal_kind a) a (completed_state a s) st)"
      by (rule encodes_update [OF enc]) (simp_all add: hget_xadd [OF laws] get2 get1)
    moreover have "script_completion V ?k stream (att_id a) ?out aj m (source_string ?src) db
        = Inr (?add db2, RList [RInt 1, RText ?out])"
      using inc by (simp add: script_completion_def guard Failed)
    ultimately show ?thesis using that by blast
  qed
qed

lemma completion_simulation:
  assumes laws: "hash_laws V" and enc: "encodes V C db st" and inv: "store_inv st"
    and load: "load_attempt C (dump_attempt C a) = Inr a"
    and same: "\<And>s. ms_states st (att_source a) = Some s \<Longrightarrow>
      st_failures s < 2 ^ 63 - 1 \<and> (open_attempt a s \<longrightarrow> att_started (st_current s) = att_started a)"
  shows "case record_completed a st of
      Inl e \<Rightarrow> vk_record_completed V C cfg a db = Inl e
    | Inr st' \<Rightarrow> \<exists>db'. vk_record_completed V C cfg a db = Inr db' \<and> encodes V C db' st'"
proof (cases "att_outcome a = InProgress \<or> att_completed a = None")
  case True
  then show ?thesis by (auto simp: record_completed_def vk_record_completed_def)
next
  case False
  let ?k = "state_key (att_source a)"
  have old: "encodes_state C (att_source a) (\<lambda>f. hget V ?k f db) (ms_states st (att_source a))"
    using enc by (simp add: encodes_def)
  show ?thesis
  proof (cases "\<exists>s. ms_states st (att_source a) = Some s \<and> open_attempt a s")
    case True
    then obtain s where s: "ms_states st (att_source a) = Some s" "open_attempt a s" by blast
    have eq: "att_started (st_current s) = att_started a" and bound: "st_failures s < 2 ^ 63 - 1"
      using same [OF s(1)] s(2) by auto
    have nonneg: "0 \<le> st_failures s"
      using inv s(1) by (auto simp: store_inv_def valid_state_def coherent_state_def)
    obtain db' r where run: "script_completion V ?k (cfg_stream cfg) (att_id a)
        (outcome_string (att_outcome a)) (dump_attempt C a) (cfg_max cfg) (source_string (att_source a)) db
          = Inr (db', RList [RInt 1, r])"
      and enc': "encodes V C db' (store_put (terminal_kind a) a (completed_state a s) st)"
      using script_completion_accepts [OF laws enc s eq nonneg bound _ load] False by metis
    have "record_completed a st = Inr (store_put (terminal_kind a) a (completed_state a s) st)"
      using False s eq by (intro record_completed_accepts inv) auto
    moreover have "vk_record_completed V C cfg a db = Inr db'"
      using False by (simp add: vk_record_completed_def run)
    ultimately show ?thesis using enc' by simp
  next
    case none: False
    have "hget V ?k ''current_attempt_id'' db \<noteq> Some (att_id a)
        \<or> hget V ?k ''current_outcome'' db \<noteq> Some ''in_progress''"
      using old none by (cases "ms_states st (att_source a)") (auto simp: encodes_state_def open_attempt_def)
    then have "vk_record_completed V C cfg a db =
        Inl (StaleSourcePollTransition ''source poll completion was stale or duplicated'')"
      using False by (auto simp: vk_record_completed_def script_completion_def Let_def)
    moreover have "record_completed a st =
        Inl (StaleSourcePollTransition ''source poll completion was stale or duplicated'')"
      using False none by (intro record_completed_stale) auto
    ultimately show ?thesis by simp
  qed
qed

section \<open>Reading the hash back\<close>

lemma load_state_encoded:
  assumes laws: "hash_laws V" and enc: "encodes V C db st" and inv: "store_inv st"
  shows "vk_load_state V C db src = Inr (ms_states st src)"
proof -
  let ?h = "\<lambda>f. hget V (state_key src) f db"
  obtain raw where raw: "hgetall V (state_key src) db = RMap raw"
    "map_of raw = (\<lambda>f. map_option RText (?h f))" by (rule hgetall_map [OF laws])
  have e: "encodes_state C src ?h (ms_states st src)" using enc by (simp add: encodes_def)
  show ?thesis
  proof (cases "ms_states st src")
    case None
    then have "map_of raw = Map.empty" using e raw(2) by (simp add: encodes_state_def)
    then have "raw = []" by simp
    with None raw(1) show ?thesis by (simp add: vk_load_state_def)
  next
    case (Some s)
    have coh: "coherent_state s" "st_source s = src" "0 \<le> st_failures s"
      using inv Some by (auto simp: store_inv_def valid_state_def coherent_state_def)
    have "map_of raw ''source'' \<noteq> None" using e raw(2) Some by (simp add: encodes_state_def)
    then have ne: "raw \<noteq> []" by auto
    have s: "s = \<lparr>st_source = src, st_policy = st_policy s, st_current = st_current s,
        st_success = st_success s, st_failures = st_failures s\<rparr>" using coh(2) by simp
    have succ: "decode_optional (load_attempt C) (map_of raw ''last_success_json'') = Inr (st_success s)"
      using e raw(2) Some by (cases "st_success s") (auto simp: encodes_state_def decode_optional_def)
    obtain n where fails: "decode_optional py_int (map_of raw ''consecutive_failures'') = Inr n"
      "(case n of None \<Rightarrow> 0 | Some n \<Rightarrow> n) = st_failures s"
      using e raw(2) Some coh(3) by (auto simp: encodes_state_def decode_optional_def)
    have "validate_state s = Inr s" using coh(1) by (simp add: validate_state_eq_Inr)
    then have "decode_state C src raw = Inr s"
      using e Some fails s by (auto simp: decode_state_def encodes_state_def raw(2) succ [unfolded raw(2)])
    with ne raw(1) Some show ?thesis by (simp add: vk_load_state_def)
  qed
qed

lemma map_filter_id: "List.map_filter id (map f xs) = List.map_filter f xs"
  by (induction xs) (simp_all add: map_filter_simps split: option.split)

lemma load_states_encoded:
  assumes "hash_laws V" "encodes V C db st" "store_inv st"
  shows "vk_load_states V C db sources = Inr (load_states st sources)"
proof -
  have "rmap (vk_load_state V C db) sources = Inr (map (ms_states st) sources)"
    by (rule rmap_Inr_fun) (rule load_state_encoded [OF assms])
  then show ?thesis by (simp add: vk_load_states_def load_states_def map_filter_id)
qed


section \<open>Runs of both stores\<close>

datatype poll_op = StartOp poll_attempt poll_policy | CompleteOp poll_attempt

fun op_attempt :: "poll_op \<Rightarrow> poll_attempt" where
  "op_attempt (StartOp a p) = a"
| "op_attempt (CompleteOp a) = a"

fun mem_op :: "poll_op \<Rightarrow> mem_store \<Rightarrow> mem_store res" where
  "mem_op (StartOp a p) st = record_started a p st"
| "mem_op (CompleteOp a) st = record_completed a st"

fun vk_op :: "'db valkey \<Rightarrow> codec \<Rightarrow> poll_config \<Rightarrow> poll_op \<Rightarrow> 'db \<Rightarrow> 'db res" where
  "vk_op V C cfg (StartOp a p) db = vk_record_started V C cfg a p db"
| "vk_op V C cfg (CompleteOp a) db = vk_record_completed V C cfg a db"

text \<open>A run: an operation that raises leaves the store, and its exception is noted.\<close>

fun run_ops :: "('op \<Rightarrow> 's \<Rightarrow> 's res) \<Rightarrow> 's \<Rightarrow> 'op list \<Rightarrow> 's \<times> exn option list" where
  "run_ops f s [] = (s, [])"
| "run_ops f s (x # xs) = (case f x s of
     Inl e \<Rightarrow> (case run_ops f s xs of (t, es) \<Rightarrow> (t, Some e # es))
   | Inr s' \<Rightarrow> (case run_ops f s' xs of (t, es) \<Rightarrow> (t, None # es)))"

text \<open>The values of an operation are validated ones that survive their JSON, with timestamps in
the years 1 to 9999.\<close>

definition op_ok :: "codec \<Rightarrow> poll_op \<Rightarrow> bool" where
  "op_ok C x \<longleftrightarrow> valid_attempt (op_attempt x) \<and> representable (att_started (op_attempt x))
     \<and> load_attempt C (dump_attempt C (op_attempt x)) = Inr (op_attempt x)
     \<and> (case x of StartOp a p \<Rightarrow> valid_policy p \<and> load_policy C (dump_policy C p) = Inr p
        | CompleteOp a \<Rightarrow> True)"

definition ids_match :: "poll_attempt set \<Rightarrow> bool" where
  "ids_match A \<longleftrightarrow> (\<forall>a \<in> A. \<forall>b \<in> A. att_id a = att_id b \<longrightarrow> att_started a = att_started b)"

definition run_inv :: "poll_attempt set \<Rightarrow> nat \<Rightarrow> mem_store \<Rightarrow> bool" where
  "run_inv A n st \<longleftrightarrow> store_inv st \<and> (\<forall>src s. ms_states st src = Some s \<longrightarrow>
     st_current s \<in> A \<and> st_failures s \<le> int n)"

lemma mem_op_run_inv:
  assumes "run_inv A n st" "op_ok C x" "op_attempt x \<in> A" "mem_op x st = Inr st'"
  shows "run_inv A (n + 1) st'"
proof (cases x)
  case (StartOp a p)
  with assms have "store_inv st'" by (auto simp: run_inv_def op_ok_def intro: record_started_inv)
  then show ?thesis
    using assms StartOp
    by (auto simp: run_inv_def record_started_Inr started_state_def split: option.splits if_splits)
      force+
next
  case (CompleteOp a)
  with assms have "store_inv st'" by (auto simp: run_inv_def op_ok_def intro: record_completed_inv)
  then show ?thesis
    using assms CompleteOp
    by (auto simp: run_inv_def record_completed_Inr completed_state_def split: option.splits if_splits)
      force+
qed

lemma op_simulation:
  assumes laws: "hash_laws V" and enc: "encodes V C db st" and inv: "run_inv A n st" "n < 2 ^ 63 - 1"
    and x: "op_ok C x" "op_attempt x \<in> A" "ids_match A"
  shows "case mem_op x st of Inl e \<Rightarrow> vk_op V C cfg x db = Inl e
    | Inr st' \<Rightarrow> \<exists>db'. vk_op V C cfg x db = Inr db' \<and> encodes V C db' st'"
proof (cases x)
  case (StartOp a p)
  have "store_inv st" "valid_attempt a" "representable (att_started a)"
    "load_policy C (dump_policy C p) = Inr p" "load_attempt C (dump_attempt C a) = Inr a"
    using inv(1) x(1) StartOp by (simp_all add: run_inv_def op_ok_def)
  from start_simulation [OF laws enc this] show ?thesis
    unfolding StartOp mem_op.simps vk_op.simps .
next
  case (CompleteOp a)
  have same: "st_failures s < 2 ^ 63 - 1 \<and> (open_attempt a s \<longrightarrow> att_started (st_current s) = att_started a)"
    if "ms_states st (att_source a) = Some s" for s
  proof -
    have cur: "st_current s \<in> A" "st_failures s \<le> int n"
      using inv(1) that unfolding run_inv_def by blast+
    have "a \<in> A" using x(2) CompleteOp by simp
    with cur(1) x(3) have "att_started (st_current s) = att_started a" if "open_attempt a s"
      using that unfolding ids_match_def open_attempt_def by blast
    moreover have "st_failures s < 2 ^ 63 - 1" using cur(2) inv(2) by simp
    ultimately show ?thesis by blast
  qed
  have "store_inv st" "load_attempt C (dump_attempt C a) = Inr a"
    using inv(1) x(1) CompleteOp by (simp_all add: run_inv_def op_ok_def)
  from completion_simulation [OF laws enc this same] show ?thesis
    unfolding CompleteOp mem_op.simps vk_op.simps .
qed

lemma run_simulation:
  assumes laws: "hash_laws V" and "encodes V C db st" "run_inv A n st" "n + length ops < 2 ^ 63 - 1"
    and "\<forall>x \<in> set ops. op_ok C x \<and> op_attempt x \<in> A" "ids_match A"
  shows "snd (run_ops (vk_op V C cfg) db ops) = snd (run_ops mem_op st ops)
    \<and> encodes V C (fst (run_ops (vk_op V C cfg) db ops)) (fst (run_ops mem_op st ops))
    \<and> store_inv (fst (run_ops mem_op st ops))"
  using assms(2-6)
proof (induction ops arbitrary: db st n)
  case Nil
  then show ?case by (simp add: run_inv_def)
next
  case (Cons x xs)
  have step: "case mem_op x st of Inl e \<Rightarrow> vk_op V C cfg x db = Inl e
      | Inr st' \<Rightarrow> \<exists>db'. vk_op V C cfg x db = Inr db' \<and> encodes V C db' st'"
    using Cons.prems by (intro op_simulation [OF laws]) auto
  show ?case
  proof (cases "mem_op x st")
    case (Inl e)
    then have "vk_op V C cfg x db = Inl e" using step by simp
    moreover note Cons.IH [of db st n]
    ultimately show ?thesis using Inl Cons.prems by (auto split: prod.split)
  next
    case (Inr st')
    then obtain db' where db': "vk_op V C cfg x db = Inr db'" "encodes V C db' st'" using step by auto
    have "run_inv A (n + 1) st'"
      using Cons.prems Inr by (intro mem_op_run_inv [of A n st C x]) auto
    with Cons.IH [of db' st' "n + 1"] db' Cons.prems have
      "snd (run_ops (vk_op V C cfg) db' xs) = snd (run_ops mem_op st' xs)
       \<and> encodes V C (fst (run_ops (vk_op V C cfg) db' xs)) (fst (run_ops mem_op st' xs))
       \<and> store_inv (fst (run_ops mem_op st' xs))" by simp
    with Inr db'(1) show ?thesis by (auto split: prod.split)
  qed
qed

text \<open>C17. The Valkey store is indistinguishable from the in-memory one: from an empty database, any
sequence of starts and completions (whose attempts agree on the start time of an identity) is
accepted and refused by the Lua scripts exactly as by the in-memory store, with the same exceptions,
and afterwards \<open>load_states\<close> returns the same states in the same order. In particular the string
comparison of the start script decides as the comparison of instants does.\<close>

theorem valkey_store_refines_memory:
  assumes "hash_laws V" "\<And>src f. hget V (state_key src) f db = None"
    and "\<And>x. x \<in> set ops \<Longrightarrow> op_ok C x" "ids_match (op_attempt ` set ops)" "length ops < 2 ^ 63 - 1"
  shows "snd (run_ops (vk_op V C cfg) db ops) = snd (run_ops mem_op empty_store ops)
    \<and> vk_load_states V C (fst (run_ops (vk_op V C cfg) db ops)) sources
        = Inr (load_states (fst (run_ops mem_op empty_store ops)) sources)"
proof -
  have "encodes V C db empty_store"
    using assms(2) by (simp add: encodes_def encodes_state_def empty_store_def)
  moreover have "run_inv (op_attempt ` set ops) 0 empty_store"
    using empty_store_inv by (simp add: run_inv_def empty_store_def)
  ultimately have run: "snd (run_ops (vk_op V C cfg) db ops) = snd (run_ops mem_op empty_store ops)
    \<and> encodes V C (fst (run_ops (vk_op V C cfg) db ops)) (fst (run_ops mem_op empty_store ops))
    \<and> store_inv (fst (run_ops mem_op empty_store ops))"
    using assms by (intro run_simulation) auto
  then show ?thesis using load_states_encoded [OF assms(1)] by blast
qed

section \<open>A server the hypotheses hold of\<close>

text \<open>An in-memory server with hashes and streams, to run the client on.\<close>

record sample_db =
  db_hashes :: "string \<Rightarrow> (string \<times> string) list"
  db_streams :: "string \<Rightarrow> (string \<times> (string \<times> string) list) list"

definition write_fields :: "(string \<times> string) list \<Rightarrow> (string \<times> string) list \<Rightarrow> (string \<times> string) list" where
  "write_fields fvs h = foldl (\<lambda>h (f, v). AList.update f v h) h fvs"

definition stream_entry :: "string \<times> (string \<times> string) list \<Rightarrow> reply" where
  "stream_entry e = RList [RText (fst e), RMap (map (\<lambda>(f, v). (f, RText v)) (snd e))]"

definition sample_valkey :: "sample_db valkey" where
  "sample_valkey = \<lparr>
     hget = \<lambda>k f db. map_of (db_hashes db k) f,
     hset = \<lambda>k fvs db. db\<lparr>db_hashes := (db_hashes db)(k := write_fields fvs (db_hashes db k))\<rparr>,
     hincrby = \<lambda>k f n db. rbind (case map_of (db_hashes db k) f of None \<Rightarrow> Inr 0 | Some s \<Rightarrow> py_int s)
       (\<lambda>i. Inr (db\<lparr>db_hashes := (db_hashes db)(k := AList.update f (nat_dec (nat (i + n))) (db_hashes db k))\<rparr>)),
     xadd = \<lambda>stream m fvs db. db\<lparr>db_streams := (db_streams db)(stream :=
       db_streams db stream @ [(nat_dec (length (db_streams db stream) + 1) @ ''-0'', fvs)])\<rparr>,
     hgetall = \<lambda>k db. RMap (map (\<lambda>(f, v). (f, RText v)) (db_hashes db k)),
     xrevrange = \<lambda>stream maximum limit db. RList (map stream_entry (take (nat limit) (rev (db_streams db stream))))\<rparr>"

definition sample_codec :: codec where
  "sample_codec = \<lparr>dump_policy = \<lambda>_. ''policy'', load_policy = \<lambda>_. Inr sample_policy,
     dump_attempt = \<lambda>a. outcome_string (att_outcome a),
     load_attempt = \<lambda>s. Inr (if s = ''in_progress'' then sample_start else sample_success)\<rparr>"

lemma map_of_write_fields:
  "distinct (map fst fvs) \<Longrightarrow> map_of (write_fields fvs h) f =
     (if map_of fvs f \<noteq> None then map_of fvs f else map_of h f)"
  unfolding write_fields_def
proof (induction fvs arbitrary: h)
  case (Cons fv fvs)
  obtain g v where fv: "fv = (g, v)" by (cases fv)
  have "map_of fvs g = None" using Cons.prems by (simp add: fv map_of_eq_None_iff)
  then have "(g, y) \<notin> set fvs" for y by (metis map_of_eq_None_iff fst_conv image_eqI)
  moreover have "map_of fvs f \<noteq> None" if "(f, y) \<in> set fvs" for y
    using that by (metis map_of_eq_None_iff fst_conv image_eqI)
  ultimately show ?case using Cons by (auto simp: fv update_conv')
qed simp

lemma sample_valkey_laws: "hash_laws sample_valkey"
  unfolding hash_laws_def hset_law_def hincrby_law_def xadd_law_def hgetall_law_def
  by (auto simp: sample_valkey_def map_of_write_fields update_conv' map_of_map nat_add_distrib
      split: option.splits)

definition sample_ops :: "poll_op list" where
  "sample_ops = [StartOp sample_start sample_policy, CompleteOp sample_success, CompleteOp sample_success]"

definition empty_sample_db :: sample_db where
  "empty_sample_db = \<lparr>db_hashes = \<lambda>_. [], db_streams = \<lambda>_. []\<rparr>"

lemma sample_ops_ok: "x \<in> set sample_ops \<Longrightarrow> op_ok sample_codec x"
proof -
  have "representable (utc 1000000)" by code_simp
  then show "x \<in> set sample_ops \<Longrightarrow> op_ok sample_codec x"
    by (auto simp: sample_ops_def op_ok_def sample_codec_def)
qed

theorem valkey_store_refines_memory_witness:
  "snd (run_ops (vk_op sample_valkey sample_codec \<lparr>cfg_stream = ''history'', cfg_max = 100\<rparr>)
      empty_sample_db sample_ops) = snd (run_ops mem_op empty_store sample_ops)
    \<and> vk_load_states sample_valkey sample_codec
        (fst (run_ops (vk_op sample_valkey sample_codec \<lparr>cfg_stream = ''history'', cfg_max = 100\<rparr>)
          empty_sample_db sample_ops)) [Usgs, Nws]
        = Inr (load_states (fst (run_ops mem_op empty_store sample_ops)) [Usgs, Nws])"
  by (rule valkey_store_refines_memory [OF sample_valkey_laws _ sample_ops_ok])
    (simp_all add: sample_valkey_def empty_sample_db_def sample_ops_def ids_match_def)

end
