(* ===== verification/RateLimit.thy ===== *)
theory RateLimit
  imports ValkeyReply
begin

text \<open>
  The request budgets of \<open>src/atlas_pulse/rate_limit.py\<close>: the policies and their validation, the
  identity of a client, the fixed-window script and the decision read off its reply. The server's
  commands are \<open>budget_server\<close>, with their documented effect on a counter and its expiry in
  \<open>budget_laws\<close>; the parser of IP addresses and HMAC-SHA256 are arguments. The lemmas compute the
  decision of every request of a window.
\<close>

section \<open>Policies and configuration\<close>

record rate_policy =
  rp_name :: string
  rp_requests :: int
  rp_window_seconds :: int

definition ascii_lowercase :: string where
  "ascii_lowercase = ''abcdefghijklmnopqrstuvwxyz''"

definition validate_rate_policy :: "rate_policy \<Rightarrow> rate_policy res" where
  "validate_rate_policy p = raise_first
     [(rp_name p = [] \<or> (\<exists>c \<in> set (rp_name p). c \<notin> set (ascii_lowercase @ ''-'')),
       ''rate-limit policy names require lowercase ASCII letters or '' @ [CHR 0x27, CHR ''-'', CHR 0x27]),
      (rp_requests p < 1, ''rate-limit requests must be positive''),
      (rp_window_seconds p < 1, ''rate-limit window must be positive'')] p"

record rate_decision =
  rd_policy :: string
  rd_allowed :: bool
  rd_limit :: int
  rd_remaining :: int
  rd_reset_after :: int

record api_rate_config =
  rc_client_secret :: string
  rc_general :: rate_policy
  rc_expensive :: rate_policy
  rc_client_header :: string

definition validate_rate_config :: "api_rate_config \<Rightarrow> api_rate_config res" where
  "validate_rate_config c = raise_first
     [(\<not> (32 \<le> length (rc_client_secret c) \<and> length (rc_client_secret c) \<le> 128),
       ''rate-limit client secret must contain 32-128 bytes''),
      (rp_name (rc_general c) = rp_name (rc_expensive c), ''rate-limit policies require distinct names''),
      (rp_requests (rc_general c) < rp_requests (rc_expensive c),
       ''expensive request budget cannot exceed the general budget''),
      (rp_window_seconds (rc_expensive c) \<noteq> rp_window_seconds (rc_general c),
       ''API rate-limit policies must use one shared window''),
      (rc_client_header c \<noteq> ''X-Atlas-Client-IP'',
       ''the reviewed client identity header cannot be changed'')] c"

section \<open>Client identity\<close>

text \<open>An address as \<open>ip_address\<close> returns it: its compressed text, and for an IPv6 address the compressed
text of the IPv4 address it maps, if it maps one.\<close>

datatype ip_object = IPv4 string | IPv6 string "string option"

definition canonical_address :: "(string \<Rightarrow> ip_object option) \<Rightarrow> string option \<Rightarrow> string option" where
  "canonical_address ip_address value = (case value of None \<Rightarrow> None
     | Some v \<Rightarrow> (case ip_address (strip v) of
         None \<Rightarrow> None
       | Some (IPv6 compressed (Some mapped)) \<Rightarrow> Some mapped
       | Some (IPv6 compressed None) \<Rightarrow> Some compressed
       | Some (IPv4 compressed) \<Rightarrow> Some compressed))"

definition client_key ::
  "(string \<Rightarrow> ip_object option) \<Rightarrow> (string \<Rightarrow> string \<Rightarrow> string) \<Rightarrow> api_rate_config \<Rightarrow> string option \<Rightarrow> string option \<Rightarrow> string" where
  "client_key ip_address hmac_hex c forwarded peer = hmac_hex (rc_client_secret c)
     (case canonical_address ip_address forwarded of
        Some a \<Rightarrow> a
      | None \<Rightarrow> (case canonical_address ip_address peer of
          None \<Rightarrow> ''unresolved'' | Some a \<Rightarrow> if a = [] then ''unresolved'' else a))"

definition expensive_api_paths :: "string list" where
  "expensive_api_paths = [''/v1/agent-runs/preflight'', ''/v1/evidence-packs'', ''/v1/incidents'', ''/v1/search'']"

definition policies_for_path :: "api_rate_config \<Rightarrow> string \<Rightarrow> rate_policy list" where
  "policies_for_path c path =
     (if \<not> is_prefix ''/v1/'' path then []
      else if path \<in> set expensive_api_paths then [rc_general c, rc_expensive c]
      else [rc_general c])"

section \<open>Consuming a budget\<close>

record 'db budget_server =
  bs_incr :: "string \<Rightarrow> 'db \<Rightarrow> 'db \<times> int"
  bs_pexpire :: "string \<Rightarrow> int \<Rightarrow> 'db \<Rightarrow> 'db"
  bs_pttl :: "string \<Rightarrow> 'db \<Rightarrow> int"

definition script_consume_budget :: "'db budget_server \<Rightarrow> string \<Rightarrow> int \<Rightarrow> 'db \<Rightarrow> 'db \<times> reply" where
  "script_consume_budget S key window db =
     (let (db1, count) = bs_incr S key db;
          db2 = (if count = 1 then bs_pexpire S key window db1 else db1);
          ttl = bs_pttl S key db2;
          (db3, ttl') = (if ttl < 1 then (bs_pexpire S key window db2, window) else (db2, ttl))
      in (db3, RList [RInt count, RInt ttl']))"

definition budget_key :: "string \<Rightarrow> rate_policy \<Rightarrow> string res" where
  "budget_key key p =
     (if length key \<noteq> 64 \<or> (\<exists>c \<in> set key. c \<notin> set hex_digits)
      then Inl (ValueError ''rate-limit client keys must be lowercase SHA-256 digests'')
      else Inr (''{atlas-rate:'' @ key @ ''}:'' @ rp_name p))"

fun reply_integer :: "reply \<Rightarrow> int res" where
  "reply_integer (RText s) = (case py_int s of
     Inl _ \<Rightarrow> Inl (ValueError ''rate-limit value must be an integer'') | Inr i \<Rightarrow> Inr i)"
| "reply_integer (RInt i) = Inr i"
| "reply_integer _ = Inl (TypeError ''rate-limit value must be an integer'')"

definition rate_decision_of :: "reply \<Rightarrow> rate_policy \<Rightarrow> rate_decision res" where
  "rate_decision_of r p = (case r of
     RList xs \<Rightarrow> if length xs \<noteq> 2
       then Inl (ValueError ''rate-limit script returned an unexpected response length'')
       else rbind (reply_integer (xs ! 0)) (\<lambda>count. rbind (reply_integer (xs ! 1)) (\<lambda>ttl.
         if count < 1 \<or> ttl < 1
         then Inl (ValueError ''rate-limit script returned values outside the valid range'')
         else Inr \<lparr>rd_policy = rp_name p, rd_allowed = (count \<le> rp_requests p),
                rd_limit = rp_requests p, rd_remaining = max (rp_requests p - count) 0,
                rd_reset_after = max 1 ((ttl + 999) div 1000)\<rparr>))
   | _ \<Rightarrow> Inl (TypeError ''rate-limit script returned an invalid response''))"

text \<open>The exceptions \<open>consume\<close> turns into \<open>RateLimiterUnavailable\<close>: the client's
\<open>ValkeyError\<close> is \<open>DatabaseError\<close> here, and \<open>TimeoutError\<close> an \<open>OSError\<close>.\<close>

fun unavailable_error :: "exn \<Rightarrow> bool" where
  "unavailable_error (ConnectionError m) = True"
| "unavailable_error (OSError m) = True"
| "unavailable_error (TypeError m) = True"
| "unavailable_error (ValueError m) = True"
| "unavailable_error (DatabaseError m) = True"
| "unavailable_error _ = False"

text \<open>\<open>eval\<close> runs the script on the server, or raises.\<close>

definition consume :: "(string \<Rightarrow> int \<Rightarrow> 'db \<Rightarrow> 'db \<times> reply res) \<Rightarrow> string \<Rightarrow> rate_policy \<Rightarrow> 'db \<Rightarrow> 'db \<times> rate_decision res" where
  "consume eval key p db =
     (let (db', result) = (case budget_key key p of
            Inl e \<Rightarrow> (db, Inl e)
          | Inr k \<Rightarrow> (case eval k (rp_window_seconds p * 1000) db of
              (db1, r) \<Rightarrow> (db1, rbind r (\<lambda>r. rate_decision_of r p))))
      in (db', case result of
           Inr d \<Rightarrow> Inr d
         | Inl e \<Rightarrow> if unavailable_error e
             then Inl (RateLimiterUnavailable ''request budget unavailable'') else Inl e))"

definition eval_script :: "'db budget_server \<Rightarrow> string \<Rightarrow> int \<Rightarrow> 'db \<Rightarrow> 'db \<times> reply res" where
  "eval_script S key window db = (case script_consume_budget S key window db of (db', r) \<Rightarrow> (db', Inr r))"

section \<open>Counters on the server\<close>

text \<open>
  The documented effect of the commands, over a view of the database: a key is absent, or a counter
  with its remaining milliseconds if it has an expiry. \<open>wait\<close> lets time pass.
\<close>

definition budget_laws ::
  "'db budget_server \<Rightarrow> (int \<Rightarrow> 'db \<Rightarrow> 'db) \<Rightarrow> ('db \<Rightarrow> string \<Rightarrow> (int \<times> int option) option) \<Rightarrow> bool" where
  "budget_laws S wait view \<longleftrightarrow>
     (\<forall>k db. snd (bs_incr S k db) = (case view db k of None \<Rightarrow> 1 | Some (c, t) \<Rightarrow> c + 1)
        \<and> view (fst (bs_incr S k db)) k =
            (case view db k of None \<Rightarrow> Some (1, None) | Some (c, t) \<Rightarrow> Some (c + 1, t)))
   \<and> (\<forall>k ms db. view (bs_pexpire S k ms db) k =
        (case view db k of None \<Rightarrow> None | Some (c, t) \<Rightarrow> Some (c, Some ms)))
   \<and> (\<forall>k db. bs_pttl S k db = (case view db k of None \<Rightarrow> - 2 | Some (c, None) \<Rightarrow> - 1 | Some (c, Some t) \<Rightarrow> t))
   \<and> (\<forall>k d db. 0 \<le> d \<longrightarrow> view (wait d db) k = (case view db k of
        None \<Rightarrow> None | Some (c, None) \<Rightarrow> Some (c, None)
      | Some (c, Some t) \<Rightarrow> if d < t then Some (c, Some (t - d)) else None))"

lemma consume_first:
  assumes "budget_laws S wait view" "budget_key key p = Inr k" "1 \<le> rp_window_seconds p" "view db k = None"
  shows "snd (consume (eval_script S) key p db) = Inr \<lparr>rd_policy = rp_name p,
      rd_allowed = (1 \<le> rp_requests p), rd_limit = rp_requests p, rd_remaining = max (rp_requests p - 1) 0,
      rd_reset_after = rp_window_seconds p\<rparr>
    \<and> view (fst (consume (eval_script S) key p db)) k = Some (1, Some (rp_window_seconds p * 1000))"
proof -
  have "(rp_window_seconds p * 1000 + 999) div 1000 = rp_window_seconds p" by simp
  then show ?thesis
    using assms
    by (simp add: budget_laws_def consume_def eval_script_def script_consume_budget_def
        rate_decision_of_def Let_def split_beta)
qed

lemma consume_next:
  assumes "budget_laws S wait view" "budget_key key p = Inr k"
    and "view db k = Some (c, Some t)" "1 \<le> c" "1 \<le> t"
  shows "snd (consume (eval_script S) key p db) = Inr \<lparr>rd_policy = rp_name p,
      rd_allowed = (c + 1 \<le> rp_requests p), rd_limit = rp_requests p,
      rd_remaining = max (rp_requests p - (c + 1)) 0, rd_reset_after = max 1 ((t + 999) div 1000)\<rparr>
    \<and> view (fst (consume (eval_script S) key p db)) k = Some (c + 1, Some t)"
  using assms
  by (simp add: budget_laws_def consume_def eval_script_def script_consume_budget_def
      rate_decision_of_def Let_def split_beta)

text \<open>A run of requests of one client against one policy, each after a delay in milliseconds.\<close>

fun request_run ::
  "'db budget_server \<Rightarrow> (int \<Rightarrow> 'db \<Rightarrow> 'db) \<Rightarrow> string \<Rightarrow> rate_policy \<Rightarrow> int list \<Rightarrow> 'db \<Rightarrow> rate_decision res list" where
  "request_run S wait key p [] db = []"
| "request_run S wait key p (d # ds) db = (case consume (eval_script S) key p (wait d db) of
     (db', r) \<Rightarrow> r # request_run S wait key p ds db')"

text \<open>The decision of the request with the given number, \<open>t\<close> milliseconds before the window ends.\<close>

definition window_decision :: "rate_policy \<Rightarrow> int \<Rightarrow> int \<Rightarrow> rate_decision" where
  "window_decision p number t = \<lparr>rd_policy = rp_name p, rd_allowed = (number \<le> rp_requests p),
     rd_limit = rp_requests p, rd_remaining = max (rp_requests p - number) 0,
     rd_reset_after = max 1 ((t + 999) div 1000)\<rparr>"

fun window_decisions :: "rate_policy \<Rightarrow> int \<Rightarrow> int \<Rightarrow> int list \<Rightarrow> rate_decision list" where
  "window_decisions p number t [] = []"
| "window_decisions p number t (d # ds) =
     window_decision p number (t - d) # window_decisions p (number + 1) (t - d) ds"

lemma run_window:
  assumes "budget_laws S wait view" "budget_key key p = Inr k"
    and "view db k = Some (c, Some t)" "1 \<le> c" "\<forall>d \<in> set ds. 0 \<le> d" "sum_list ds < t"
  shows "request_run S wait key p ds db = map Inr (window_decisions p (c + 1) t ds)"
  using assms(3-6)
proof (induction ds arbitrary: db c t)
  case (Cons d ds)
  have pos: "0 \<le> d" "0 \<le> sum_list ds" using Cons.prems(3) by (auto intro: sum_list_nonneg)
  then have "d < t" using Cons.prems(4) by simp
  then have view: "view (wait d db) k = Some (c, Some (t - d))"
    using assms(1) Cons.prems(1) pos by (simp add: budget_laws_def)
  have next': "snd (consume (eval_script S) key p (wait d db)) = Inr (window_decision p (c + 1) (t - d))"
    "view (fst (consume (eval_script S) key p (wait d db))) k = Some (c + 1, Some (t - d))"
    using consume_next [OF assms(1,2) view] Cons.prems(2) \<open>d < t\<close> by (simp_all add: window_decision_def)
  have "request_run S wait key p ds (fst (consume (eval_script S) key p (wait d db)))
      = map Inr (window_decisions p (c + 1 + 1) (t - d) ds)"
    using Cons.prems pos by (intro Cons.IH next'(2)) auto
  then show ?case using next'(1) by (simp add: split_beta)
qed simp

section \<open>Properties\<close>

text \<open>C34. A budget is exact within its window. When a client's counter is absent, the requests it then
makes before the window has passed get the decisions of the sequence numbers 1, 2, 3 and so on: the
first \<open>requests\<close> of them are allowed and no other, the remaining count falls by one each time down to
0, and the reset hint is the rest of the window in whole seconds, rounded up.\<close>

theorem budget_exact_in_window:
  assumes "budget_laws S wait view" "budget_key key p = Inr k" "1 \<le> rp_window_seconds p"
    and "view db k = None" "0 \<le> d" "\<forall>x \<in> set ds. 0 \<le> x" "sum_list ds < rp_window_seconds p * 1000"
  shows "request_run S wait key p (d # ds) db
    = map Inr (window_decision p 1 (rp_window_seconds p * 1000)
        # window_decisions p 2 (rp_window_seconds p * 1000) ds)"
proof -
  have "view (wait d db) k = None" using assms(1,4,5) by (simp add: budget_laws_def)
  note first = consume_first [OF assms(1,2,3) this]
  have "request_run S wait key p ds (fst (consume (eval_script S) key p (wait d db)))
      = map Inr (window_decisions p (1 + 1) (rp_window_seconds p * 1000) ds)"
    using first assms(6,7) by (intro run_window [OF assms(1,2)]) auto
  moreover have "snd (consume (eval_script S) key p (wait d db))
      = Inr (window_decision p 1 (rp_window_seconds p * 1000))"
    using first assms(3) by (simp add: window_decision_def max_def)
  ultimately show ?thesis by (simp add: split_beta)
qed

text \<open>A server whose database maps a key to its counter and the milliseconds it has left.\<close>

type_synonym sample_counters = "string \<Rightarrow> (int \<times> int option) option"

definition sample_budget_server :: "sample_counters budget_server" where
  "sample_budget_server = \<lparr>
     bs_incr = \<lambda>k db. case db k of None \<Rightarrow> (db(k \<mapsto> (1, None)), 1) | Some (c, t) \<Rightarrow> (db(k \<mapsto> (c + 1, t)), c + 1),
     bs_pexpire = \<lambda>k ms db. case db k of None \<Rightarrow> db | Some (c, t) \<Rightarrow> db(k \<mapsto> (c, Some ms)),
     bs_pttl = \<lambda>k db. case db k of None \<Rightarrow> - 2 | Some (c, None) \<Rightarrow> - 1 | Some (c, Some t) \<Rightarrow> t\<rparr>"

definition sample_wait :: "int \<Rightarrow> sample_counters \<Rightarrow> sample_counters" where
  "sample_wait d db = (\<lambda>k. case db k of None \<Rightarrow> None | Some (c, None) \<Rightarrow> Some (c, None)
     | Some (c, Some t) \<Rightarrow> if d < t then Some (c, Some (t - d)) else None)"

lemma sample_budget_laws: "budget_laws sample_budget_server sample_wait (\<lambda>db. db)"
  by (auto simp: budget_laws_def sample_budget_server_def sample_wait_def split: option.splits)

definition sample_rate_policy :: rate_policy where
  "sample_rate_policy = \<lparr>rp_name = ''general'', rp_requests = 2, rp_window_seconds = 60\<rparr>"

theorem budget_exact_in_window_witness:
  "request_run sample_budget_server sample_wait (replicate 64 CHR ''a'') sample_rate_policy
      [0, 1000, 2000] Map.empty
    = map Inr (window_decision sample_rate_policy 1 (rp_window_seconds sample_rate_policy * 1000)
        # window_decisions sample_rate_policy 2 (rp_window_seconds sample_rate_policy * 1000) [1000, 2000])"
  by (rule budget_exact_in_window [OF sample_budget_laws,
        of _ _ "''{atlas-rate:'' @ replicate 64 CHR ''a'' @ ''}:general''"])
    (simp_all add: budget_key_def sample_rate_policy_def hex_digits_def)

text \<open>The limiter fails closed: whatever the client library returns or raises, a request is let
through only by a reply with a count between 1 and the limit; malformed keys, connection failures and
malformed replies all become \<open>RateLimiterUnavailable\<close>, and every decision has a remaining count
from 0 to below the limit and a positive reset hint.\<close>

theorem limiter_fails_closed:
  assumes "snd (consume eval key p db) = r" "1 \<le> rp_requests p"
  shows "(\<forall>d. r = Inr d \<longrightarrow> rd_limit d = rp_requests p \<and> 0 \<le> rd_remaining d
        \<and> rd_remaining d < rd_limit d \<and> 1 \<le> rd_reset_after d
        \<and> (\<exists>k count ttl. budget_key key p = Inr k \<and> 1 \<le> count \<and> 1 \<le> ttl
            \<and> (rd_allowed d \<longleftrightarrow> count \<le> rp_requests p)
            \<and> rd_remaining d = max (rp_requests p - count) 0
            \<and> (\<exists>x y. snd (eval k (rp_window_seconds p * 1000) db) = Inr (RList [x, y])
                 \<and> reply_integer x = Inr count \<and> reply_integer y = Inr ttl)))
    \<and> (\<forall>e. r = Inl e \<longrightarrow> e = RateLimiterUnavailable ''request budget unavailable''
        \<or> (\<exists>k. snd (eval k (rp_window_seconds p * 1000) db) = Inl e \<and> \<not> unavailable_error e))"
proof (cases "budget_key key p")
  case (Inl e)
  then show ?thesis
    using assms by (auto simp: consume_def budget_key_def split: if_splits)
next
  case (Inr k)
  obtain db1 er where ev: "eval k (rp_window_seconds p * 1000) db = (db1, er)" by fastforce
  have errs: "rate_decision_of x p = Inl e \<Longrightarrow> unavailable_error e" for x e
  proof -
    have "reply_integer y = Inl e \<Longrightarrow> unavailable_error e" for y e
      by (cases y) (auto split: sum.splits)
    then show "rate_decision_of x p = Inl e \<Longrightarrow> unavailable_error e"
      by (auto simp: rate_decision_of_def rbind_eq_Inl split: reply.splits if_splits)
  qed
  show ?thesis
  proof (cases er)
    case (Inl e)
    then have res: "r = (if unavailable_error e
        then Inl (RateLimiterUnavailable ''request budget unavailable'') else Inl e)"
      using assms(1) Inr ev by (simp add: consume_def Let_def)
    have "snd (eval k (rp_window_seconds p * 1000) db) = Inl e" using ev Inl by simp
    then show ?thesis using res by (cases "unavailable_error e") auto
  next
    case reply: (Inr x)
    show ?thesis
    proof (cases "rate_decision_of x p")
      case (Inl e)
      then show ?thesis using assms(1) Inr ev reply errs [OF Inl] by (auto simp: consume_def Let_def)
    next
      case dec: (Inr d)
      obtain xs where xs: "x = RList xs" "length xs = 2"
        using dec by (auto simp: rate_decision_of_def split: reply.splits if_splits)
      then obtain u v where uv: "xs = [u, v]"
        by (metis (no_types) length_0_conv length_Suc_conv numeral_2_eq_2)
      obtain count ttl where ct: "reply_integer u = Inr count" "reply_integer v = Inr ttl"
        "1 \<le> count" "1 \<le> ttl" "d = \<lparr>rd_policy = rp_name p, rd_allowed = (count \<le> rp_requests p),
          rd_limit = rp_requests p, rd_remaining = max (rp_requests p - count) 0,
          rd_reset_after = max 1 ((ttl + 999) div 1000)\<rparr>"
        using dec xs uv by (auto simp: rate_decision_of_def split: if_splits)
      have "r = Inr d" using assms(1) Inr ev reply dec by (auto simp: consume_def Let_def)
      then show ?thesis using ct Inr ev reply xs uv assms(2) by fastforce
    qed
  qed
qed

theorem limiter_fails_closed_witness:
  "snd (consume (\<lambda>k w db. ((), Inl (ConnectionError ''refused''))) (replicate 64 CHR ''a'') sample_rate_policy ())
    = Inl (RateLimiterUnavailable ''request budget unavailable'')"
proof -
  let ?eval = "\<lambda>k w (db::unit). ((), Inl (ConnectionError ''refused'') :: reply res)"
  have run: "snd (consume ?eval (replicate 64 CHR ''a'') sample_rate_policy ())
      = snd (consume ?eval (replicate 64 CHR ''a'') sample_rate_policy ())" ..
  have "1 \<le> rp_requests sample_rate_policy" by (simp add: sample_rate_policy_def)
  from limiter_fails_closed [OF run this] show ?thesis
    by (cases "snd (consume ?eval (replicate 64 CHR ''a'') sample_rate_policy ())") auto
qed

text \<open>Budgets are separate: two well-formed client keys and policies share a counter on the
server only if the client key and the policy name are both the same.\<close>

theorem budget_key_separates:
  assumes "budget_key a p = Inr k" "budget_key b q = Inr k"
  shows "a = b \<and> rp_name p = rp_name q"
  using assms by (auto simp: budget_key_def split: if_splits)

theorem budget_key_separates_witness:
  "replicate 64 CHR ''a'' = replicate 64 CHR ''a'' \<and> rp_name sample_rate_policy = rp_name sample_rate_policy"
  by (rule budget_key_separates [of _ _ "''{atlas-rate:'' @ replicate 64 CHR ''a'' @ ''}:general''"])
    (simp_all add: budget_key_def sample_rate_policy_def hex_digits_def)

end
