(* ===== verification/CanonJson.thy ===== *)
theory CanonJson
  imports PyTime
begin

text \<open>
  Canonical JSON and content addresses: \<open>src/atlas_pulse/identity.py\<close> and the \<open>json.dumps\<close> calls of
  \<open>streams/base.py\<close>, \<open>projections/postgres.py\<close> and others. Keys are sorted, separators compact,
  and non-finite floats refused where \<open>allow_nan=False\<close>. Strings hold code points below 256. The text
  of a finite float (\<open>float.__repr__\<close>) and SHA-256 are arguments. The main lemma: equal canonical
  texts come from equal values, up to the order of object keys and the text of a timestamp, so a
  content address identifies its content up to a hash collision.
\<close>

section \<open>Values and their text\<close>

datatype nonfinite = NaN | PosInf | NegInf

datatype json =
    JNull
  | JBool bool
  | JInt int
  | JFloat rat
  | JNonFinite nonfinite
  | JStr string
  | JTime datetime
  | JList "json list"
  | JObj "(string \<times> json) list"

definition int_text :: "int \<Rightarrow> string" where
  "int_text i = (if i < 0 then CHR ''-'' # nat_dec (nat (- i)) else nat_dec (nat i))"

fun nonfinite_text :: "nonfinite \<Rightarrow> string" where
  "nonfinite_text NaN = ''NaN''"
| "nonfinite_text PosInf = ''Infinity''"
| "nonfinite_text NegInf = ''-Infinity''"

definition hex4 :: "nat \<Rightarrow> string" where
  "hex4 n = [hex_digits ! (n div 4096 mod 16), hex_digits ! (n div 256 mod 16),
     hex_digits ! (n div 16 mod 16), hex_digits ! (n mod 16)]"

text \<open>The string escapes; \<open>ascii\<close> is \<open>ensure_ascii\<close>. The quote is code 34, the backslash 92.\<close>

definition quote_char :: char where
  "quote_char = CHR 0x22"

definition backslash_char :: char where
  "backslash_char = CHR 0x5C"

definition escape_char :: "bool \<Rightarrow> char \<Rightarrow> string" where
  "escape_char ascii c = (let n = of_char c :: nat; b = backslash_char in
     if n = 34 \<or> n = 92 then [b, c]
     else if n = 10 then [b, CHR ''n''] else if n = 13 then [b, CHR ''r'']
     else if n = 9 then [b, CHR ''t''] else if n = 12 then [b, CHR ''f'']
     else if n = 8 then [b, CHR ''b'']
     else if n < 32 \<or> ascii \<and> 127 \<le> n then b # CHR ''u'' # hex4 n
     else [c])"

definition quoted :: "bool \<Rightarrow> string \<Rightarrow> string" where
  "quoted ascii s = quote_char # concat (map (escape_char ascii) s) @ [quote_char]"

text \<open>\<open>separators=(",", ":")\<close>.\<close>

fun comma_join :: "string list \<Rightarrow> string" where
  "comma_join [] = []"
| "comma_join [s] = s"
| "comma_join (s # t # ts) = s @ CHR '','' # comma_join (t # ts)"

text \<open>\<open>s.replace(old, new)\<close>.\<close>

function replace_all :: "string \<Rightarrow> string \<Rightarrow> string \<Rightarrow> string" where
  "replace_all old new s = (if s = [] \<or> old = [] then s
     else if is_prefix old s then new @ replace_all old new (drop (length old) s)
     else hd s # replace_all old new (tl s))"
  by pat_completeness auto
termination
  by (relation "measure (\<lambda>(old, new, s). length s)") auto

declare replace_all.simps [simp del]

definition encode_extra :: "datetime \<Rightarrow> string" where
  "encode_extra t = replace_all ''+00:00'' ''Z'' (isoformat t)"

fun dumps :: "bool \<Rightarrow> (rat \<Rightarrow> string) \<Rightarrow> json \<Rightarrow> string" where
  "dumps ascii fr JNull = ''null''"
| "dumps ascii fr (JBool b) = (if b then ''true'' else ''false'')"
| "dumps ascii fr (JInt i) = int_text i"
| "dumps ascii fr (JFloat x) = fr x"
| "dumps ascii fr (JNonFinite n) = nonfinite_text n"
| "dumps ascii fr (JStr s) = quoted ascii s"
| "dumps ascii fr (JTime t) = quoted ascii (encode_extra t)"
| "dumps ascii fr (JList vs) = CHR ''['' # comma_join (map (dumps ascii fr) vs) @ '']''"
| "dumps ascii fr (JObj kvs) = CHR ''{'' # comma_join (map (\<lambda>(k, s). quoted ascii k @ CHR '':'' # s)
     (sort_key fst (map (\<lambda>(k, v). (k, dumps ascii fr v)) kvs))) @ ''}''"

fun finite_json :: "json \<Rightarrow> bool" where
  "finite_json (JNonFinite n) = False"
| "finite_json (JList vs) = (\<forall>v \<in> set vs. finite_json v)"
| "finite_json (JObj kvs) = (\<forall>kv \<in> set kvs. finite_json (snd kv))"
| "finite_json _ = True"

definition canonical_json_bytes :: "(rat \<Rightarrow> string) \<Rightarrow> json \<Rightarrow> string res" where
  "canonical_json_bytes fr v = (if finite_json v then Inr (dumps False fr v)
     else Inl (ValueError ''Out of range float values are not JSON compliant''))"

definition canonical_json_sha256 :: "(string \<Rightarrow> string) \<Rightarrow> (rat \<Rightarrow> string) \<Rightarrow> json \<Rightarrow> string res" where
  "canonical_json_sha256 sha fr v = rbind (canonical_json_bytes fr v) (\<lambda>s. Inr (sha s))"

section \<open>The canonical form\<close>

text \<open>What the text of a value determines: objects sorted by key, timestamps as their text.\<close>

fun canonical :: "json \<Rightarrow> json" where
  "canonical (JTime t) = JStr (encode_extra t)"
| "canonical (JList vs) = JList (map canonical vs)"
| "canonical (JObj kvs) = JObj (sort_key fst (map (\<lambda>(k, v). (k, canonical v)) kvs))"
| "canonical v = v"

text \<open>The text of a value in canonical form, members in the order given.\<close>

fun text_of :: "bool \<Rightarrow> (rat \<Rightarrow> string) \<Rightarrow> json \<Rightarrow> string" where
  "text_of ascii fr JNull = ''null''"
| "text_of ascii fr (JBool b) = (if b then ''true'' else ''false'')"
| "text_of ascii fr (JInt i) = int_text i"
| "text_of ascii fr (JFloat x) = fr x"
| "text_of ascii fr (JNonFinite n) = nonfinite_text n"
| "text_of ascii fr (JStr s) = quoted ascii s"
| "text_of ascii fr (JTime t) = quoted ascii (encode_extra t)"
| "text_of ascii fr (JList vs) = CHR ''['' # comma_join (map (text_of ascii fr) vs) @ '']''"
| "text_of ascii fr (JObj kvs) = CHR ''{''
     # comma_join (map (\<lambda>(k, v). quoted ascii k @ CHR '':'' # text_of ascii fr v) kvs) @ ''}''"

lemma insort_key_map_pair: "insort_key fst (k, f v) (map (\<lambda>(k, v). (k, f v)) kvs)
    = map (\<lambda>(k, v). (k, f v)) (insort_key fst (k, v) kvs)"
  by (induction kvs) auto

lemma sort_key_map_pair:
  "sort_key fst (map (\<lambda>(k, v). (k, f v)) kvs) = map (\<lambda>(k, v). (k, f v)) (sort_key fst kvs)"
  by (induction kvs) (auto simp: insort_key_map_pair)

lemma dumps_canonical: "dumps ascii fr v = text_of ascii fr (canonical v)"
proof (induction v)
  case (JObj kvs)
  have "map (\<lambda>(k, v). (k, dumps ascii fr v)) kvs
      = map (\<lambda>(k, v). (k, text_of ascii fr v)) (map (\<lambda>(k, v). (k, canonical v)) kvs)"
    using JObj by force
  then have "sort_key fst (map (\<lambda>(k, v). (k, dumps ascii fr v)) kvs)
      = map (\<lambda>(k, v). (k, text_of ascii fr v)) (sort_key fst (map (\<lambda>(k, v). (k, canonical v)) kvs))"
    by (simp only: sort_key_map_pair)
  then show ?case by (simp add: comp_def case_prod_unfold)
qed (auto simp: comp_def intro!: arg_cong [where f = comma_join])

section \<open>The text determines the value\<close>

text \<open>What is used of \<open>float.__repr__\<close>: it is injective on the finite floats, made of digits, signs,
a point and an exponent letter, and never the text of an int.\<close>

definition number_char :: "char \<Rightarrow> bool" where
  "number_char c \<longleftrightarrow> c \<in> set (dec_digits @ ''+-.e'')"

definition float_text_ok :: "(rat \<Rightarrow> string) \<Rightarrow> bool" where
  "float_text_ok fr \<longleftrightarrow> inj fr \<and> (\<forall>x. list_all number_char (fr x) \<and> fr x \<noteq> []
     \<and> (CHR ''.'' \<in> set (fr x) \<or> CHR ''e'' \<in> set (fr x)))"

lemma int_text_inj [simp]: "int_text i = int_text j \<longleftrightarrow> i = j"
proof -
  have "CHR ''-'' \<notin> set (nat_dec n)" for n by (rule decimal_no_dash [OF nat_dec_decimal])
  then have "nat_dec n \<noteq> CHR ''-'' # s" for n s by (metis list.set_intros(1))
  then show ?thesis by (auto simp: int_text_def dest: sym)
qed

lemma nat_dec_digits: "list_all (\<lambda>c. c \<in> set dec_digits) (nat_dec n) \<and> nat_dec n \<noteq> []"
  using nat_dec_decimal [of n] by (simp add: is_decimal_def)

lemma int_text_chars: "list_all number_char (int_text i) \<and> int_text i \<noteq> []
    \<and> CHR ''.'' \<notin> set (int_text i) \<and> CHR ''e'' \<notin> set (int_text i)"
proof -
  have "CHR ''.'' \<notin> set dec_digits" "CHR ''e'' \<notin> set dec_digits" by (simp_all add: dec_digits_def)
  then show ?thesis
    using nat_dec_digits [of "nat i"] nat_dec_digits [of "nat (- i)"]
    by (auto simp: int_text_def number_char_def list_all_iff)
qed

text \<open>What may follow a value: the end, a comma or a closing bracket.\<close>

definition follows :: "string \<Rightarrow> bool" where
  "follows r \<longleftrightarrow> r = [] \<or> hd r \<in> set '',]}''"

lemma follows_simps [simp]: "follows []" "follows (CHR '','' # r)" "follows (CHR '']'' # r)"
    "follows (CHR ''}'' # r)"
  by (simp_all add: follows_def)

lemma follows_number: "follows r \<Longrightarrow> r = [] \<or> \<not> number_char (hd r)"
  by (auto simp: follows_def number_char_def dec_digits_def)

lemma number_split:
  assumes "list_all number_char a" "list_all number_char b" "follows r" "follows s" "a @ r = b @ s"
  shows "a = b \<and> r = s"
proof -
  have "takeWhile number_char (a @ r) = a" if "list_all number_char a" "follows r" for a r
    using that follows_number [of r] by (cases r) (auto simp: list_all_iff takeWhile_append)
  with assms have "a = b" by metis
  with assms(5) show ?thesis by simp
qed

lemma hex4_inj: "m < 256 \<Longrightarrow> n < 256 \<Longrightarrow> hex4 m = hex4 n \<Longrightarrow> m = n"
proof -
  assume mn: "m < 256" "n < 256" "hex4 m = hex4 n"
  have nth: "hex_digits ! i = hex_digits ! j \<longleftrightarrow> i = j" if "i < 16" "j < 16" for i j
    by (rule nth_eq_iff_index_eq) (use that in \<open>simp_all add: hex_digits_def\<close>)
  have "m div 16 mod 16 = n div 16 mod 16" "m mod 16 = n mod 16"
    using mn(3) by (auto simp: hex4_def nth)
  moreover have "m div 16 < 16" "n div 16 < 16" using mn by auto
  ultimately have "m div 16 = n div 16" "m mod 16 = n mod 16" by simp_all
  then show "m = n" by (metis div_mult_mod_eq)
qed


lemma code_inj: "of_char c = (of_char d :: nat) \<longleftrightarrow> c = d"
  by (metis char_of_char)

lemma code_less: "of_char c < (256 :: nat)"
  by (metis char_of_char of_char_of mod_less_divisor zero_less_numeral of_char_mod_256 mod_less)

text \<open>The second character of a two-character escape tells which one it is.\<close>

definition short_escapes :: "(char \<times> char) list" where
  "short_escapes = [(CHR 0x22, CHR 0x22), (CHR 0x5C, CHR 0x5C), (CHR 0x0A, CHR ''n''),
     (CHR 0x0D, CHR ''r''), (CHR 0x09, CHR ''t''), (CHR 0x0C, CHR ''f''), (CHR 0x08, CHR ''b'')]"

lemma short_escapes_distinct: "distinct (map snd short_escapes) \<and> CHR ''u'' \<notin> set (map snd short_escapes)"
  by (simp add: short_escapes_def)

lemma short_escapes_inj: "(c, x) \<in> set short_escapes \<Longrightarrow> (d, x) \<in> set short_escapes \<Longrightarrow> c = d"
  using short_escapes_distinct
  by (metis (no_types, lifting) distinct_map inj_onD snd_conv prod.inject)

lemma code_values:
  "of_char c = (34::nat) \<longleftrightarrow> c = CHR 0x22" "of_char c = (92::nat) \<longleftrightarrow> c = CHR 0x5C"
  "of_char c = (10::nat) \<longleftrightarrow> c = CHR 0x0A" "of_char c = (13::nat) \<longleftrightarrow> c = CHR 0x0D"
  "of_char c = (9::nat) \<longleftrightarrow> c = CHR 0x09" "of_char c = (12::nat) \<longleftrightarrow> c = CHR 0x0C"
  "of_char c = (8::nat) \<longleftrightarrow> c = CHR 0x08"
  using code_inj [of c "CHR 0x22"] code_inj [of c "CHR 0x5C"] code_inj [of c "CHR 0x0A"]
    code_inj [of c "CHR 0x0D"] code_inj [of c "CHR 0x09"] code_inj [of c "CHR 0x0C"]
    code_inj [of c "CHR 0x08"] by simp_all

lemma escape_shape:
  obtains "escape_char a c = [c]" "c \<noteq> backslash_char" "c \<noteq> quote_char"
  | x where "escape_char a c = [backslash_char, x]" "x \<noteq> CHR ''u''" "(c, x) \<in> set short_escapes"
  | "escape_char a c = backslash_char # CHR ''u'' # hex4 (of_char c)"
proof (cases "c \<in> set (map fst short_escapes)")
  case True
  then have "\<exists>x. escape_char a c = [backslash_char, x] \<and> (c, x) \<in> set short_escapes"
    unfolding escape_char_def code_values short_escapes_def Let_def by auto
  then obtain x where x: "escape_char a c = [backslash_char, x]" "(c, x) \<in> set short_escapes" by blast
  moreover have "x \<in> set (map snd short_escapes)" using x(2) by force
  then have "x \<noteq> CHR ''u''" using short_escapes_distinct by blast
  ultimately show ?thesis using that(2) by blast
next
  case False
  then have ne: "c \<noteq> backslash_char" "c \<noteq> quote_char"
    by (simp_all add: short_escapes_def backslash_char_def quote_char_def)
  have plain: "escape_char a c = (if of_char c < (32::nat) \<or> a \<and> 127 \<le> (of_char c :: nat)
      then backslash_char # CHR ''u'' # hex4 (of_char c) else [c])"
    using False unfolding escape_char_def code_values Let_def by (simp add: short_escapes_def)
  show ?thesis
  proof (cases "of_char c < (32::nat) \<or> a \<and> 127 \<le> (of_char c :: nat)")
    case True
    then have "escape_char a c = backslash_char # CHR ''u'' # hex4 (of_char c)"
      using plain by (simp only: if_True)
    then show ?thesis using that(3) by blast
  next
    case False
    then have "escape_char a c = [c]" using plain by (simp only: if_False)
    then show ?thesis using that(1) ne by blast
  qed
qed

lemma escape_split:
  assumes "escape_char a c @ x = escape_char a d @ y"
  shows "c = d \<and> x = y"
proof (cases rule: escape_shape [of a c]; cases rule: escape_shape [of a d])
  fix u v
  assume "escape_char a c = [backslash_char, u]" "escape_char a d = [backslash_char, v]"
    "(c, u) \<in> set short_escapes" "(d, v) \<in> set short_escapes"
  with assms show ?thesis using short_escapes_inj by auto
next
  assume "escape_char a c = backslash_char # CHR ''u'' # hex4 (of_char c)"
    "escape_char a d = backslash_char # CHR ''u'' # hex4 (of_char d)"
  then have "hex4 (of_char c) = hex4 (of_char d)" "x = y"
    using assms by (auto simp: hex4_def)
  then have "(of_char c :: nat) = of_char d" by (intro hex4_inj code_less)
  with \<open>x = y\<close> show ?thesis by (simp only: code_inj simp_thms)
qed (use assms in \<open>simp_all\<close>)

lemma escape_no_quote: "escape_char a c = e # r \<Longrightarrow> e \<noteq> quote_char"
  by (cases rule: escape_shape [of a c]) (auto simp: backslash_char_def quote_char_def)

lemma escape_nonempty: "escape_char a c \<noteq> []"
  by (cases rule: escape_shape [of a c]) auto

lemma escaped_split:
  "concat (map (escape_char a) s) @ quote_char # r = concat (map (escape_char a) t) @ quote_char # r'
    \<Longrightarrow> s = t \<and> r = r'"
proof (induction s arbitrary: t)
  case Nil
  then show ?case
    by (cases t; cases "escape_char a (hd t)") (auto simp: escape_nonempty dest: escape_no_quote)
next
  case (Cons c s)
  show ?case
  proof (cases t)
    case Nil
    with Cons.prems show ?thesis
      by (cases "escape_char a c") (auto simp: escape_nonempty dest: escape_no_quote)
  next
    case (Cons d t')
    with Cons.prems have "escape_char a c @ (concat (map (escape_char a) s) @ quote_char # r)
        = escape_char a d @ (concat (map (escape_char a) t') @ quote_char # r')" by simp
    then have "c = d" "concat (map (escape_char a) s) @ quote_char # r
        = concat (map (escape_char a) t') @ quote_char # r'" by (auto dest: escape_split)
    with Cons.IH Cons show ?thesis by auto
  qed
qed

lemma quoted_split: "quoted a s @ r = quoted a t @ r' \<Longrightarrow> s = t \<and> r = r'"
  using escaped_split [of a s r t r'] by (simp add: quoted_def)


text \<open>A canonical value without non-finite floats.\<close>

fun plain :: "json \<Rightarrow> bool" where
  "plain (JNonFinite n) = False"
| "plain (JTime t) = False"
| "plain (JList vs) = (\<forall>v \<in> set vs. plain v)"
| "plain (JObj kvs) = (\<forall>kv \<in> set kvs. plain (snd kv))"
| "plain _ = True"

fun head_ok :: "json \<Rightarrow> char \<Rightarrow> bool" where
  "head_ok JNull c = (c = CHR ''n'')"
| "head_ok (JBool b) c = (c = (if b then CHR ''t'' else CHR ''f''))"
| "head_ok (JInt i) c = number_char c"
| "head_ok (JFloat x) c = number_char c"
| "head_ok (JList vs) c = (c = CHR ''['')"
| "head_ok (JObj kvs) c = (c = CHR ''{'')"
| "head_ok _ c = (c = quote_char)"

lemma text_head:
  assumes "float_text_ok fr" "plain v"
  shows "text_of a fr v \<noteq> [] \<and> head_ok v (hd (text_of a fr v))"
proof (cases v)
  case (JInt i)
  have "list_all number_char (int_text i)" "int_text i \<noteq> []" using int_text_chars by auto
  then show ?thesis using JInt by (cases "int_text i") auto
next
  case (JFloat x)
  have "list_all number_char (fr x)" "fr x \<noteq> []" using assms(1) by (auto simp: float_text_ok_def)
  then show ?thesis using JFloat by (cases "fr x") auto
qed (use assms in \<open>auto simp: quoted_def\<close>)

lemma number_char_values [simp]:
  "\<not> number_char (CHR ''n'')" "\<not> number_char (CHR ''t'')" "\<not> number_char (CHR ''f'')"
  "\<not> number_char (CHR ''['')" "\<not> number_char (CHR ''{'')" "\<not> number_char quote_char"
  "\<not> number_char (CHR '']'')" "\<not> number_char (CHR ''}'')"
  by (simp_all add: number_char_def dec_digits_def quote_char_def)

lemma head_not_close: "head_ok v c \<Longrightarrow> c \<noteq> CHR '']'' \<and> c \<noteq> CHR ''}''"
  by (cases v) (auto simp: quote_char_def split: if_splits)

lemma comma_join_Cons:
  "comma_join (x # xs) = x @ (if xs = [] then [] else CHR '','' # comma_join xs)"
  by (cases xs) simp_all

lemma comma_join_split:
  assumes "\<And>x y r s. x \<in> set xs \<Longrightarrow> y \<in> set ys \<Longrightarrow> follows r \<Longrightarrow> follows s \<Longrightarrow>
      f x @ r = f y @ s \<Longrightarrow> x = y \<and> r = s"
    and "\<And>x. x \<in> set xs \<union> set ys \<Longrightarrow> f x \<noteq> [] \<and> hd (f x) \<noteq> e"
    and "e = CHR '']'' \<or> e = CHR ''}''"
    and "comma_join (map f xs) @ e # r = comma_join (map f ys) @ e # s"
  shows "xs = ys \<and> r = s"
  using assms
proof (induction xs arbitrary: ys)
  case Nil
  then show ?case
  proof (cases ys)
    case (Cons y ys')
    then have "e # r = f y @ (if ys' = [] then [] else CHR '','' # comma_join (map f ys')) @ e # s"
      using Nil.prems(4) by (simp add: comma_join_Cons del: comma_join.simps(2,3))
    moreover have "f y \<noteq> []" "hd (f y) \<noteq> e" using Nil.prems(2) Cons by auto
    ultimately have False by (cases "f y") auto
    then show ?thesis ..
  qed auto
next
  case (Cons x xs)
  show ?case
  proof (cases ys)
    case Nil
    then have "f x @ (if xs = [] then [] else CHR '','' # comma_join (map f xs)) @ e # r = e # s"
      using Cons.prems(4) by (simp add: comma_join_Cons del: comma_join.simps(2,3))
    moreover have "f x \<noteq> []" "hd (f x) \<noteq> e" using Cons.prems(2) by auto
    ultimately have False by (cases "f x") auto
    then show ?thesis ..
  next
    case ys: (Cons y ys')
    let ?rest = "\<lambda>zs q. (if zs = [] then [] else CHR '','' # comma_join (map f zs)) @ e # q"
    have "f x @ ?rest xs r = f y @ ?rest ys' s"
      using Cons.prems(4) ys by (simp add: comma_join_Cons del: comma_join.simps(2,3))
    moreover have "follows (?rest zs q)" for zs q using Cons.prems(3) by auto
    ultimately have eq: "x = y" "?rest xs r = ?rest ys' s"
      using Cons.prems(1) [of x y "?rest xs r" "?rest ys' s"] ys by auto
    have comma: "e \<noteq> CHR '',''" using Cons.prems(3) by auto
    show ?thesis
    proof (cases "xs = [] \<or> ys' = []")
      case True
      then show ?thesis using eq ys comma by (auto split: if_splits)
    next
      case False
      then have "comma_join (map f xs) @ e # r = comma_join (map f ys') @ e # s" using eq by simp
      then have "xs = ys' \<and> r = s"
        using Cons.prems(1,2,3) ys by (intro Cons.IH) auto
      then show ?thesis using eq ys by simp
    qed
  qed
qed

fun json_kind :: "json \<Rightarrow> nat" where
  "json_kind JNull = 0"
| "json_kind (JBool b) = (if b then 1 else 2)"
| "json_kind (JInt i) = 3"
| "json_kind (JFloat x) = 3"
| "json_kind (JList vs) = 4"
| "json_kind (JObj kvs) = 5"
| "json_kind _ = 6"

lemma head_kind: "head_ok v c \<Longrightarrow> head_ok w c \<Longrightarrow> json_kind v = json_kind w"
  by (cases v; cases w) (auto simp: quote_char_def number_char_def dec_digits_def split: if_splits)

lemma text_kind:
  assumes "float_text_ok fr" "plain v" "plain w" "text_of a fr v @ r = text_of a fr w @ s"
  shows "json_kind v = json_kind w"
proof -
  have v: "text_of a fr v \<noteq> []" "head_ok v (hd (text_of a fr v))"
    and w: "text_of a fr w \<noteq> []" "head_ok w (hd (text_of a fr w))"
    using text_head assms(1-3) by auto
  then have "hd (text_of a fr v) = hd (text_of a fr w)" using assms(4) by (metis hd_append2)
  with v w show ?thesis by (metis head_kind)
qed

lemma number_text_split:
  assumes "float_text_ok fr" "follows r" "follows s"
  shows "int_text i @ r = int_text j @ s \<Longrightarrow> i = j \<and> r = s"
    and "fr x @ r = fr y @ s \<Longrightarrow> x = y \<and> r = s"
    and "int_text i @ r \<noteq> fr x @ s"
proof -
  have f: "inj fr" "list_all number_char (fr x)" "CHR ''.'' \<in> set (fr x) \<or> CHR ''e'' \<in> set (fr x)" for x
    using assms(1) by (auto simp: float_text_ok_def)
  show "int_text i @ r = int_text j @ s \<Longrightarrow> i = j \<and> r = s"
    using number_split [of "int_text i" "int_text j" r s] int_text_chars assms(2,3) by auto
  show "fr x @ r = fr y @ s \<Longrightarrow> x = y \<and> r = s"
    using number_split [of "fr x" "fr y" r s] f assms(2,3) by (auto dest: injD)
  show "int_text i @ r \<noteq> fr x @ s"
  proof
    assume "int_text i @ r = fr x @ s"
    then have "int_text i = fr x"
      using number_split [of "int_text i" "fr x" r s] int_text_chars f assms(2,3) by auto
    then show False using f(3) [of x] int_text_chars [of i] by auto
  qed
qed

lemma text_split:
  assumes fr: "float_text_ok fr"
  shows "plain v \<Longrightarrow> plain w \<Longrightarrow> follows r \<Longrightarrow> follows s \<Longrightarrow>
    text_of a fr v @ r = text_of a fr w @ s \<Longrightarrow> v = w \<and> r = s"
proof (induction v arbitrary: w r s)
  case (JList vs)
  then obtain ws where w: "w = JList ws"
    using text_kind [OF fr JList.prems(1,2,5)] by (cases w) (auto split: if_splits)
  have "vs = ws \<and> r = s"
  proof (rule comma_join_split [where f = "text_of a fr" and e = "CHR '']''"])
    fix x assume "x \<in> set vs \<union> set ws"
    then have "plain x" using JList.prems(1,2) w by auto
    then show "text_of a fr x \<noteq> [] \<and> hd (text_of a fr x) \<noteq> CHR '']''"
      using text_head [OF fr] head_not_close by blast
  qed (use JList w in auto)
  then show ?case using w by simp
next
  case (JObj kvs)
  then obtain kws where w: "w = JObj kws"
    using text_kind [OF fr JObj.prems(1,2,5)] by (cases w) (auto split: if_splits)
  have "kvs = kws \<and> r = s"
  proof (rule comma_join_split [where f = "\<lambda>(k, v). quoted a k @ CHR '':'' # text_of a fr v" and e = "CHR ''}''"])
    fix x y r s
    assume x: "x \<in> set kvs" and y: "y \<in> set kws" and fol: "follows r" "follows s"
      and eq: "(case x of (k, v) \<Rightarrow> quoted a k @ CHR '':'' # text_of a fr v) @ r
        = (case y of (k, v) \<Rightarrow> quoted a k @ CHR '':'' # text_of a fr v) @ s"
    obtain k v k' v' where kv: "x = (k, v)" "y = (k', v')" by (cases x; cases y)
    then have "k = k'" "text_of a fr v @ r = text_of a fr v' @ s"
      using eq quoted_split [of a k "CHR '':'' # text_of a fr v @ r" k'] by auto
    moreover have "plain v" "plain v'" using x y kv JObj.prems(1,2) w by auto
    ultimately show "x = y \<and> r = s"
      using JObj.IH [OF x, of v v' r s] kv fol by (auto simp: snds.simps)
  qed (use JObj w in \<open>auto simp: quoted_def quote_char_def\<close>)
  then show ?case using w by simp
next
  case JNull
  then show ?case using text_kind [OF fr JNull.prems(1,2,5)] by (cases w) (auto split: if_splits)
next
  case (JBool b)
  then show ?case using text_kind [OF fr JBool.prems(1,2,5)] by (cases w) (auto split: if_splits)
next
  case (JInt i)
  then show ?case
    using text_kind [OF fr JInt.prems(1,2,5)] number_text_split [OF fr JInt.prems(3,4)]
    by (cases w) (auto split: if_splits)
next
  case (JFloat x)
  then show ?case
    using text_kind [OF fr JFloat.prems(1,2,5)] number_text_split(2) [OF fr JFloat.prems(3,4)]
      number_text_split(3) [OF fr JFloat.prems(4,3)]
    by (cases w) (auto split: if_splits dest: sym)
next
  case (JStr x)
  then show ?case
    using text_kind [OF fr JStr.prems(1,2,5)] by (cases w) (auto split: if_splits dest: quoted_split)
qed auto


lemma plain_canonical: "finite_json v \<Longrightarrow> plain (canonical v)"
  by (induction v) force+

section \<open>Content addresses\<close>

text \<open>A float text the hypotheses hold of, for the witnesses.\<close>

definition sample_float_text :: "rat \<Rightarrow> string" where
  "sample_float_text x = (case quotient_of x of (p, q) \<Rightarrow> int_text p @ CHR ''e'' # int_text q)"

lemma sample_float_text_ok: "float_text_ok sample_float_text"
proof -
  have "inj sample_float_text"
  proof (rule injI)
    fix x y assume eq: "sample_float_text x = sample_float_text y"
    obtain p q p' q' where pq: "quotient_of x = (p, q)" "quotient_of y = (p', q')"
      by (cases "quotient_of x"; cases "quotient_of y")
    have tw: "takeWhile (\<lambda>c. c \<noteq> CHR ''e'') (int_text i @ CHR ''e'' # r) = int_text i" for i r
      using int_text_chars [of i] by (subst takeWhile_append2) auto
    have "int_text p = int_text p'"
      using eq pq tw [of p "int_text q"] tw [of p' "int_text q'"]
      by (simp add: sample_float_text_def)
    moreover from this have "int_text q = int_text q'" using eq pq by (simp add: sample_float_text_def)
    ultimately show "x = y" using pq by (metis int_text_inj quotient_of_inject)
  qed
  then show ?thesis
    using int_text_chars by (auto simp: float_text_ok_def sample_float_text_def number_char_def split: prod.split)
qed

text \<open>C31. The canonical JSON of an artifact determines it: two values with the same canonical bytes are
equal up to the order of object keys and the text of timestamps, and two values with the same content
address either are so or exhibit a SHA-256 collision between their canonical bytes.\<close>

theorem canonical_json_identifies:
  assumes "float_text_ok fr"
    and "canonical_json_sha256 sha fr v = Inr d" "canonical_json_sha256 sha fr w = Inr d"
  shows "canonical v = canonical w \<or> (\<exists>s t. canonical_json_bytes fr v = Inr s
    \<and> canonical_json_bytes fr w = Inr t \<and> s \<noteq> t \<and> sha s = sha t)"
proof -
  obtain s t where st: "canonical_json_bytes fr v = Inr s" "canonical_json_bytes fr w = Inr t"
    "sha s = d" "sha t = d" using assms(2,3) by (auto simp: canonical_json_sha256_def)
  then have fin: "plain (canonical v)" "plain (canonical w)"
    and texts: "s = text_of False fr (canonical v)" "t = text_of False fr (canonical w)"
    by (auto simp: canonical_json_bytes_def dumps_canonical plain_canonical split: if_splits)
  have "canonical v = canonical w" if "s = t"
    using text_split [OF assms(1) fin, of "[]" "[]" False] that texts by simp
  moreover have "sha s = sha t" using st(3,4) by simp
  ultimately show ?thesis using st(1,2) by blast
qed

theorem canonical_json_identifies_witness:
  "canonical (JObj [(''b'', JInt 1), (''a'', JNull)]) = canonical (JObj [(''a'', JNull), (''b'', JInt 1)])
    \<or> (\<exists>s t. canonical_json_bytes sample_float_text (JObj [(''b'', JInt 1), (''a'', JNull)]) = Inr s
      \<and> canonical_json_bytes sample_float_text (JObj [(''a'', JNull), (''b'', JInt 1)]) = Inr t
      \<and> s \<noteq> t \<and> s = t)"
  by (rule canonical_json_identifies [OF sample_float_text_ok, of "\<lambda>s. s" _
        "dumps False sample_float_text (JObj [(''b'', JInt 1), (''a'', JNull)])"])
    (simp_all add: canonical_json_sha256_def canonical_json_bytes_def)

lemma sort_key_unique:
  fixes f :: "'a \<Rightarrow> 'k::linorder"
  assumes "mset xs = mset ys" "inj_on f (set xs)"
  shows "sort_key f xs = sort_key f ys"
proof (rule properties_for_sort_key)
  show "mset (sort_key f ys) = mset xs" using assms(1) by simp
  show "sorted (map f (sort_key f ys))" by simp
  fix k assume k: "k \<in> set (sort_key f ys)"
  have sets: "set ys = set xs" using assms(1) by (metis mset_eq_setD)
  have "filter (\<lambda>x. f k = f x) zs = replicate (count (mset zs) k) k" if "set zs = set xs" for zs
  proof -
    have "filter (\<lambda>x. f k = f x) zs = filter (\<lambda>x. k = x) zs"
      by (rule filter_cong) (use k that sets assms(2) in \<open>auto dest: inj_onD\<close>)
    then show ?thesis by (simp add: replicate_count_mset_eq_filter_eq)
  qed
  then show "filter (\<lambda>x. f k = f x) (sort_key f ys) = filter (\<lambda>x. f k = f x) xs"
    using assms(1) sets by simp
qed

text \<open>The canonical JSON of an object does not depend on the order of its members: dictionaries
with the same items have the same bytes, so the same content address.\<close>

theorem canonical_json_order_free:
  assumes "mset kvs = mset kvs'" "distinct (map fst kvs)"
  shows "canonical_json_bytes fr (JObj kvs) = canonical_json_bytes fr (JObj kvs')"
proof -
  let ?f = "\<lambda>(k, v). (k, dumps False fr v)"
  have sets: "set kvs = set kvs'" using assms(1) by (rule mset_eq_setD)
  have "map fst (map ?f kvs) = map fst kvs" by (simp add: comp_def case_prod_unfold)
  then have inj: "inj_on fst (set (map ?f kvs))"
    using assms(2) by (metis distinct_map)
  have "sort_key fst (map ?f kvs) = sort_key fst (map ?f kvs')"
    by (rule sort_key_unique) (use assms(1) inj in simp_all)
  then show ?thesis using sets by (simp add: canonical_json_bytes_def)
qed

theorem canonical_json_order_free_witness:
  "canonical_json_bytes sample_float_text (JObj [(''b'', JInt 1), (''a'', JNull)])
    = canonical_json_bytes sample_float_text (JObj [(''a'', JNull), (''b'', JInt 1)])"
  by (rule canonical_json_order_free) simp_all

end
