(* ===== verification/EventStream.thy ===== *)
theory EventStream
  imports ValkeyReply CanonJson
begin

text \<open>
  The event stream of \<open>src/atlas_pulse/streams\<close>: the fingerprint that identifies an event revision
  (\<open>base.py\<close>), the in-memory bus (\<open>memory.py\<close>) and the Valkey bus (\<open>valkey_bus.py\<close>) with its Lua
  script, its pipelined batches and its decoding of replies. Events are of a type of their own:
  their serialisation is the library's (\<open>event_api\<close>), and so are the server's commands
  (\<open>stream_server\<close>). The locale \<open>event_bus\<close> is what ingestion and projection rely on.
\<close>

section \<open>Events, results, messages\<close>

record 'e event_api =
  ev_dump :: "'e \<Rightarrow> json"
  ev_json :: "'e \<Rightarrow> string"
  ev_load :: "string \<Rightarrow> 'e res"
  ev_sha256 :: "string \<Rightarrow> string"
  ev_float :: "rat \<Rightarrow> string"

definition event_fingerprint :: "'e event_api \<Rightarrow> 'e \<Rightarrow> string" where
  "event_fingerprint A e = ev_sha256 A (dumps True (ev_float A) (ev_dump A e))"

record publish_result =
  pr_stream_id :: string
  pr_deduplicated :: bool

record 'e stream_message =
  sm_stream_id :: string
  sm_event :: 'e

section \<open>The in-memory bus\<close>

record 'e mem_bus =
  mb_messages :: "'e stream_message list"
  mb_dedupe :: "string \<rightharpoonup> string"

definition empty_bus :: "'e mem_bus" where
  "empty_bus = \<lparr>mb_messages = [], mb_dedupe = Map.empty\<rparr>"

definition publish :: "'e event_api \<Rightarrow> 'e \<Rightarrow> 'e mem_bus \<Rightarrow> 'e mem_bus \<times> publish_result" where
  "publish A e b = (let fingerprint = event_fingerprint A e in
     case mb_dedupe b fingerprint of
       Some existing_id \<Rightarrow> (b, \<lparr>pr_stream_id = existing_id, pr_deduplicated = True\<rparr>)
     | None \<Rightarrow> let stream_id = memory_stream_id (length (mb_messages b) + 1) in
         (\<lparr>mb_messages = mb_messages b @ [\<lparr>sm_stream_id = stream_id, sm_event = e\<rparr>],
           mb_dedupe = (mb_dedupe b)(fingerprint \<mapsto> stream_id)\<rparr>,
          \<lparr>pr_stream_id = stream_id, pr_deduplicated = False\<rparr>))"

fun publish_many :: "'e event_api \<Rightarrow> 'e list \<Rightarrow> 'e mem_bus \<Rightarrow> 'e mem_bus \<times> publish_result list" where
  "publish_many A [] b = (b, [])"
| "publish_many A (e # es) b = (let (b1, r) = publish A e b; (b2, rs) = publish_many A es b1 in (b2, r # rs))"

definition latest :: "'e mem_bus \<Rightarrow> int \<Rightarrow> 'e stream_message list" where
  "latest b limit = rev (py_slice (mb_messages b) (- limit) None)"

text \<open>\<open>tuple(int(part) for part in s.split("-", maxsplit=1))\<close>; tuples compare lexicographically, a
shorter one before its extensions, as lists do.\<close>

definition int_parts :: "string \<Rightarrow> int list res" where
  "int_parts s = (case split_dash s of
     (a, None) \<Rightarrow> rmap py_int [a] | (a, Some b) \<Rightarrow> rmap py_int [a, b])"

fun first_after :: "int list \<Rightarrow> nat \<Rightarrow> nat \<Rightarrow> 'e stream_message list \<Rightarrow> nat res" where
  "first_after cursor end_index i [] = Inr end_index"
| "first_after cursor end_index i (m # ms) = rbind (int_parts (sm_stream_id m)) (\<lambda>message_id.
     if cursor < message_id then Inr i else first_after cursor end_index (i + 1) ms)"

definition replay :: "'e mem_bus \<Rightarrow> string option \<Rightarrow> int \<Rightarrow> 'e stream_message list res" where
  "replay b after limit =
     rbind (case after of None \<Rightarrow> Inr 0
       | Some a \<Rightarrow> rbind (int_parts a) (\<lambda>cursor.
           first_after cursor (length (mb_messages b)) 0 (mb_messages b)))
       (\<lambda>start_index. Inr (py_slice (mb_messages b) (int start_index) (Some (int start_index + limit))))"

section \<open>The Valkey bus\<close>

record 'db stream_server =
  srv_get :: "string \<Rightarrow> 'db \<Rightarrow> string option"
  srv_set_ex :: "string \<Rightarrow> string \<Rightarrow> int \<Rightarrow> 'db \<Rightarrow> 'db"
  srv_xadd :: "string \<Rightarrow> int \<Rightarrow> (string \<times> string) list \<Rightarrow> 'db \<Rightarrow> 'db \<times> string"
  srv_xrevrange :: "string \<Rightarrow> int \<Rightarrow> 'db \<Rightarrow> reply"
  srv_xrange :: "string \<Rightarrow> string \<Rightarrow> int \<Rightarrow> 'db \<Rightarrow> reply"
  srv_ping :: "'db \<Rightarrow> reply res"

record bus_config =
  bc_stream :: string
  bc_max_length :: int
  bc_dedupe_ttl :: int

definition script_publish_once ::
  "'db stream_server \<Rightarrow> string \<Rightarrow> string \<Rightarrow> int \<Rightarrow> string \<Rightarrow> int \<Rightarrow> 'db \<Rightarrow> 'db \<times> reply" where
  "script_publish_once S key stream max_length event_json ttl db = (case srv_get S key db of
     Some existing \<Rightarrow> (db, RList [RInt 0, RText existing])
   | None \<Rightarrow> (case srv_xadd S stream max_length [(''event'', event_json)] db of
       (db1, stream_id) \<Rightarrow> (srv_set_ex S key stream_id ttl db1, RList [RInt 1, RText stream_id])))"

definition dedupe_key :: "'e event_api \<Rightarrow> 'e \<Rightarrow> string" where
  "dedupe_key A e = ''{atlas}:dedupe:'' @ event_fingerprint A e"

definition eval_publish :: "'db stream_server \<Rightarrow> 'e event_api \<Rightarrow> bus_config \<Rightarrow> 'e \<Rightarrow> 'db \<Rightarrow> 'db \<times> reply" where
  "eval_publish S A cfg e db = script_publish_once S (dedupe_key A e) (bc_stream cfg)
     (bc_max_length cfg) (ev_json A e) (bc_dedupe_ttl cfg) db"

definition decode_publish_result :: "reply \<Rightarrow> publish_result res" where
  "decode_publish_result r = (case r of
     RList xs \<Rightarrow> if length xs \<noteq> 2
       then Inl (ValueError ''Valkey publish script returned an unexpected response length'')
       else rbind (reply_int (xs ! 0)) (\<lambda>created. rbind (as_text (xs ! 1)) (\<lambda>sid.
         Inr \<lparr>pr_stream_id = sid, pr_deduplicated = (created = 0)\<rparr>))
   | _ \<Rightarrow> Inl (TypeError ''Valkey publish script returned an invalid response''))"

definition vk_publish ::
  "'db stream_server \<Rightarrow> 'e event_api \<Rightarrow> bus_config \<Rightarrow> 'e \<Rightarrow> 'db \<Rightarrow> 'db \<times> publish_result res" where
  "vk_publish S A cfg e db = (case eval_publish S A cfg e db of
     (db', r) \<Rightarrow> (db', decode_publish_result r))"

text \<open>A pipeline sends its commands in order and returns their replies in order.\<close>

fun pipeline_execute ::
  "'db stream_server \<Rightarrow> 'e event_api \<Rightarrow> bus_config \<Rightarrow> 'e list \<Rightarrow> 'db \<Rightarrow> 'db \<times> reply list" where
  "pipeline_execute S A cfg [] db = (db, [])"
| "pipeline_execute S A cfg (e # es) db =
     (let (db1, r) = eval_publish S A cfg e db; (db2, rs) = pipeline_execute S A cfg es db1 in (db2, r # rs))"

fun publish_batches ::
  "'db stream_server \<Rightarrow> 'e event_api \<Rightarrow> bus_config \<Rightarrow> 'e list list \<Rightarrow> 'db \<Rightarrow> 'db \<times> publish_result list res" where
  "publish_batches S A cfg [] db = (db, Inr [])"
| "publish_batches S A cfg (batch # batches) db =
     (let (db1, raw) = pipeline_execute S A cfg batch db in
      if length raw \<noteq> length batch
      then (db1, Inl (ValueError ''Valkey publish pipeline returned an unexpected response length''))
      else case rmap decode_publish_result raw of
        Inl e \<Rightarrow> (db1, Inl e)
      | Inr outcomes \<Rightarrow> (case publish_batches S A cfg batches db1 of
          (db2, rest) \<Rightarrow> (db2, rbind rest (\<lambda>later. Inr (outcomes @ later)))))"

definition publish_pipeline_size :: nat where
  "publish_pipeline_size = 500"

definition vk_publish_many ::
  "'db stream_server \<Rightarrow> 'e event_api \<Rightarrow> bus_config \<Rightarrow> 'e list \<Rightarrow> 'db \<Rightarrow> 'db \<times> publish_result list res" where
  "vk_publish_many S A cfg events db = publish_batches S A cfg (chunks publish_pipeline_size events) db"

definition decode_message :: "'e event_api \<Rightarrow> reply \<Rightarrow> 'e stream_message res" where
  "decode_message A r = (case r of
     RList [stream_id, RMap raw_fields] \<Rightarrow>
       (case map_of raw_fields ''event'' of
          Some (RText (c # cs)) \<Rightarrow> rbind (as_text stream_id) (\<lambda>sid.
            rbind (ev_load A (c # cs)) (\<lambda>e. Inr \<lparr>sm_stream_id = sid, sm_event = e\<rparr>))
        | Some (RInt i) \<Rightarrow> Inl (TypeError ''event JSON must be text'')
        | Some (RList l) \<Rightarrow> Inl (TypeError ''event JSON must be text'')
        | Some (RMap m) \<Rightarrow> Inl (TypeError ''event JSON must be text'')
        | _ \<Rightarrow> Inl (ValueError ''Valkey stream entry is missing the event field''))
   | RList [_, _] \<Rightarrow> Inl (TypeError ''Valkey stream fields have an invalid shape'')
   | _ \<Rightarrow> Inl (TypeError ''Valkey stream entry has an invalid shape''))"

definition decode_messages :: "'e event_api \<Rightarrow> reply \<Rightarrow> 'e stream_message list res" where
  "decode_messages A r = (case r of
     RList raw_messages \<Rightarrow> rmap (decode_message A) raw_messages
   | _ \<Rightarrow> Inl (TypeError ''Valkey stream range returned an invalid response''))"

definition vk_latest :: "'db stream_server \<Rightarrow> 'e event_api \<Rightarrow> bus_config \<Rightarrow> 'db \<Rightarrow> int \<Rightarrow> 'e stream_message list res" where
  "vk_latest S A cfg db limit = decode_messages A (srv_xrevrange S (bc_stream cfg) limit db)"

definition vk_replay ::
  "'db stream_server \<Rightarrow> 'e event_api \<Rightarrow> bus_config \<Rightarrow> 'db \<Rightarrow> string option \<Rightarrow> int \<Rightarrow> 'e stream_message list res" where
  "vk_replay S A cfg db after limit = decode_messages A
     (srv_xrange S (bc_stream cfg) (case after of None \<Rightarrow> ''-'' | Some a \<Rightarrow> ''('' @ a) limit db)"

text \<open>Truth of a reply, and the readiness probe: connection and operating-system errors (timeouts
are among them) mean not ready, anything else propagates.\<close>

fun reply_truth :: "reply \<Rightarrow> bool" where
  "reply_truth RNil = False"
| "reply_truth (RInt i) = (i \<noteq> 0)"
| "reply_truth (RText s) = (s \<noteq> [])"
| "reply_truth (RList l) = (l \<noteq> [])"
| "reply_truth (RMap m) = (m \<noteq> [])"

definition vk_is_ready :: "'db stream_server \<Rightarrow> 'db \<Rightarrow> bool res" where
  "vk_is_ready S db = (case srv_ping S db of
     Inr r \<Rightarrow> Inr (reply_truth r)
   | Inl (ConnectionError m) \<Rightarrow> Inr False
   | Inl (OSError m) \<Rightarrow> Inr False
   | Inl e \<Rightarrow> Inl e)"


section \<open>Interfaces\<close>

text \<open>What ingestion uses of a bus: one outcome per event of a batch that is accepted.\<close>

locale event_publisher =
  fixes publish_batch :: "'e list \<Rightarrow> 's \<Rightarrow> 's \<times> publish_result list res"
  assumes outcome_per_event: "publish_batch es s = (s', Inr outs) \<Longrightarrow> length outs = length es"
begin

lemma counts_add_up:
  assumes "publish_batch es s = (s', Inr outs)"
  shows "length (filter (\<lambda>r. \<not> pr_deduplicated r) outs) \<le> length outs"
    and "int (length (filter (\<lambda>r. \<not> pr_deduplicated r) outs))
      + (int (length outs) - int (length (filter (\<lambda>r. \<not> pr_deduplicated r) outs))) = int (length es)"
  using outcome_per_event [OF assms] length_filter_le [of "\<lambda>r. \<not> pr_deduplicated r" outs] by simp_all

end

definition message_position :: "'e stream_message \<Rightarrow> nat \<times> nat" where
  "message_position m = the (decimal_position (sm_stream_id m))"

text \<open>What the projection uses: a log whose positions increase, and replay as a window of it.\<close>

locale event_log =
  fixes log :: "'s \<Rightarrow> 'e stream_message list"
    and replay_page :: "'s \<Rightarrow> string option \<Rightarrow> int \<Rightarrow> 'e stream_message list res"
    and inv :: "'s \<Rightarrow> bool"
  assumes increasing: "inv s \<Longrightarrow> sorted_wrt (<) (map message_position (log s))"
    and positioned: "inv s \<Longrightarrow> m \<in> set (log s) \<Longrightarrow> decimal_position (sm_stream_id m) \<noteq> None"
    and from_start: "inv s \<Longrightarrow> 0 \<le> n \<Longrightarrow> replay_page s None n = Inr (take (nat n) (log s))"
    and from_cursor: "inv s \<Longrightarrow> 0 \<le> n \<Longrightarrow> k < length (log s) \<Longrightarrow>
      replay_page s (Some (sm_stream_id (log s ! k))) n = Inr (take (nat n) (drop (k + 1) (log s)))"
begin

text \<open>A checkpoint that is the id of message \<open>k - 1\<close>, or none at the start.\<close>

definition checkpoint_at :: "'s \<Rightarrow> nat \<Rightarrow> string option" where
  "checkpoint_at s k = (if k = 0 then None else Some (sm_stream_id (log s ! (k - 1))))"

lemma replay_checkpoint:
  assumes "inv s" "0 \<le> n" "k \<le> length (log s)"
  shows "replay_page s (checkpoint_at s k) n = Inr (take (nat n) (drop k (log s)))"
  using assms from_start [of s n] from_cursor [of s n "k - 1"]
  by (cases k) (simp_all add: checkpoint_at_def)

lemma checkpoint_inj:
  assumes "inv s" "j \<le> length (log s)" "k \<le> length (log s)" "checkpoint_at s j = checkpoint_at s k"
  shows "j = k"
proof -
  have "sorted_wrt (<) (map message_position (log s))" using assms(1) by (rule increasing)
  then have "distinct (map message_position (log s))"
    by (simp add: strict_sorted_iff)
  then have "distinct (map sm_stream_id (log s))"
    by (auto simp: distinct_map inj_on_def message_position_def)
  moreover have "sm_stream_id (log s ! (j - 1)) = sm_stream_id (log s ! (k - 1))" if "j \<noteq> 0" "k \<noteq> 0"
    using assms(4) that by (simp add: checkpoint_at_def)
  ultimately have "j - 1 = k - 1" if "j \<noteq> 0" "k \<noteq> 0"
    using assms(2,3) that by (simp add: distinct_conv_nth) (metis Suc_pred less_eq_Suc_le not_gr0)
  then show ?thesis using assms(4) by (cases "j = 0"; cases "k = 0") (auto simp: checkpoint_at_def)
qed

end

section \<open>The in-memory bus is idempotent\<close>

abbreviation message_fingerprint :: "'e event_api \<Rightarrow> 'e stream_message \<Rightarrow> string" where
  "message_fingerprint A m \<equiv> event_fingerprint A (sm_event m)"

definition bus_inv :: "'e event_api \<Rightarrow> 'e mem_bus \<Rightarrow> bool" where
  "bus_inv A b \<longleftrightarrow>
     map sm_stream_id (mb_messages b) = map memory_stream_id [1..<length (mb_messages b) + 1]
     \<and> distinct (map (message_fingerprint A) (mb_messages b))
     \<and> (\<forall>f sid. mb_dedupe b f = Some sid \<longleftrightarrow>
          (\<exists>m \<in> set (mb_messages b). message_fingerprint A m = f \<and> sm_stream_id m = sid))"

lemma empty_bus_inv: "bus_inv A empty_bus"
  by (simp add: bus_inv_def empty_bus_def)

lemma publish_cases:
  assumes "bus_inv A b" "publish A e b = (b', r)"
  obtains (duplicate) m where "m \<in> set (mb_messages b)" "message_fingerprint A m = event_fingerprint A e"
      "b' = b" "r = \<lparr>pr_stream_id = sm_stream_id m, pr_deduplicated = True\<rparr>"
  | (fresh) m where "event_fingerprint A e \<notin> message_fingerprint A ` set (mb_messages b)"
      "m = \<lparr>sm_stream_id = memory_stream_id (length (mb_messages b) + 1), sm_event = e\<rparr>"
      "mb_messages b' = mb_messages b @ [m]"
      "mb_dedupe b' = (mb_dedupe b)(event_fingerprint A e \<mapsto> sm_stream_id m)"
      "r = \<lparr>pr_stream_id = sm_stream_id m, pr_deduplicated = False\<rparr>"
proof (cases "mb_dedupe b (event_fingerprint A e)")
  case (Some sid)
  then obtain m where m: "m \<in> set (mb_messages b)" "message_fingerprint A m = event_fingerprint A e"
    "sm_stream_id m = sid" using assms(1) unfolding bus_inv_def by blast
  have "publish A e b = (b, \<lparr>pr_stream_id = sm_stream_id m, pr_deduplicated = True\<rparr>)"
    unfolding publish_def Let_def Some option.case m(3) ..
  then have "b' = b" "r = \<lparr>pr_stream_id = sm_stream_id m, pr_deduplicated = True\<rparr>"
    using assms(2) by (simp_all only: prod.inject)
  with m(1,2) show ?thesis by (rule duplicate)
next
  case None
  let ?m = "\<lparr>sm_stream_id = memory_stream_id (length (mb_messages b) + 1), sm_event = e\<rparr>"
  have no: "event_fingerprint A e \<notin> message_fingerprint A ` set (mb_messages b)"
  proof
    assume "event_fingerprint A e \<in> message_fingerprint A ` set (mb_messages b)"
    then obtain m where "m \<in> set (mb_messages b)" "message_fingerprint A m = event_fingerprint A e"
      by (elim imageE) simp
    then have "mb_dedupe b (event_fingerprint A e) = Some (sm_stream_id m)"
      using assms(1) unfolding bus_inv_def by blast
    then show False using None by simp
  qed
  have "publish A e b = (\<lparr>mb_messages = mb_messages b @ [?m],
      mb_dedupe = (mb_dedupe b)(event_fingerprint A e \<mapsto> sm_stream_id ?m)\<rparr>,
      \<lparr>pr_stream_id = sm_stream_id ?m, pr_deduplicated = False\<rparr>)"
    unfolding publish_def Let_def None option.case by (simp only: stream_message.select_convs)
  then have "b' = \<lparr>mb_messages = mb_messages b @ [?m],
      mb_dedupe = (mb_dedupe b)(event_fingerprint A e \<mapsto> sm_stream_id ?m)\<rparr>"
    "r = \<lparr>pr_stream_id = sm_stream_id ?m, pr_deduplicated = False\<rparr>"
    using assms(2) by (simp_all only: prod.inject)
  then show ?thesis by (intro fresh [OF no refl]) (simp_all only: mem_bus.select_convs)
qed

lemma publish_inv:
  assumes "bus_inv A b" "publish A e b = (b', r)"
  shows "bus_inv A b'"
  using assms
proof (cases rule: publish_cases)
  case duplicate
  then show ?thesis using assms(1) by simp
next
  case (fresh m)
  have ids: "map sm_stream_id (mb_messages b) = map memory_stream_id [1..<length (mb_messages b) + 1]"
    and dist: "distinct (map (message_fingerprint A) (mb_messages b))"
    and dedupe: "mb_dedupe b f = Some sid \<longleftrightarrow>
      (\<exists>m \<in> set (mb_messages b). message_fingerprint A m = f \<and> sm_stream_id m = sid)" for f sid
    using assms(1) unfolding bus_inv_def by blast+
  have m: "message_fingerprint A m = event_fingerprint A e"
    "sm_stream_id m = memory_stream_id (length (mb_messages b) + 1)" using fresh(2) by simp_all
  have "map sm_stream_id (mb_messages b') = map memory_stream_id [1..<length (mb_messages b') + 1]"
    unfolding fresh(3) map_append ids by (simp add: m(2))
  moreover have "distinct (map (message_fingerprint A) (mb_messages b'))"
    using dist fresh(1) m(1) unfolding fresh(3) by auto
  moreover have "mb_dedupe b' f = Some sid \<longleftrightarrow>
      (\<exists>m \<in> set (mb_messages b'). message_fingerprint A m = f \<and> sm_stream_id m = sid)" for f sid
  proof -
    have "message_fingerprint A m' \<noteq> event_fingerprint A e" if "m' \<in> set (mb_messages b)" for m'
      using fresh(1) that by (metis imageI)
    then show ?thesis
      using dedupe [of f sid] m(1) unfolding fresh(3,4)
      by (cases "f = event_fingerprint A e") auto
  qed
  ultimately show ?thesis unfolding bus_inv_def by blast
qed

text \<open>What a publication leaves behind: the old messages, then one for the event unless it is there.\<close>

lemma publish_spec:
  assumes "bus_inv A b" "publish A e b = (b', r)"
  shows "bus_inv A b'"
    and "\<exists>new. mb_messages b' = mb_messages b @ new \<and> length new = (if pr_deduplicated r then 0 else 1)"
    and "\<exists>m \<in> set (mb_messages b'). message_fingerprint A m = event_fingerprint A e
      \<and> sm_stream_id m = pr_stream_id r"
proof -
  show "bus_inv A b'" using assms by (rule publish_inv)
  show "\<exists>new. mb_messages b' = mb_messages b @ new \<and> length new = (if pr_deduplicated r then 0 else 1)"
    using assms by (cases rule: publish_cases) auto
  show "\<exists>m \<in> set (mb_messages b'). message_fingerprint A m = event_fingerprint A e
      \<and> sm_stream_id m = pr_stream_id r"
    using assms by (cases rule: publish_cases) auto
qed

lemma publish_many_spec:
  assumes "bus_inv A b" "publish_many A es b = (b', rs)"
  shows "bus_inv A b' \<and> length rs = length es
    \<and> (\<exists>new. mb_messages b' = mb_messages b @ new
        \<and> length new = length (filter (\<lambda>r. \<not> pr_deduplicated r) rs))
    \<and> (\<forall>i < length es. \<exists>m \<in> set (mb_messages b').
        message_fingerprint A m = event_fingerprint A (es ! i) \<and> sm_stream_id m = pr_stream_id (rs ! i))"
  using assms
proof (induction es arbitrary: b rs)
  case Nil
  then show ?case by auto
next
  case (Cons e es)
  obtain b1 r rs' where run: "publish A e b = (b1, r)" "publish_many A es b1 = (b', rs')" "rs = r # rs'"
    using Cons.prems(2) by (auto split: prod.splits)
  note first = publish_spec [OF Cons.prems(1) run(1)]
  note rest = Cons.IH [OF first(1) run(2)]
  obtain new1 where new1: "mb_messages b1 = mb_messages b @ new1"
    "length new1 = (if pr_deduplicated r then 0 else 1)" using first(2) by blast
  obtain new2 where new2: "mb_messages b' = mb_messages b1 @ new2"
    "length new2 = length (filter (\<lambda>r. \<not> pr_deduplicated r) rs')" using rest by blast
  have "\<exists>m \<in> set (mb_messages b'). message_fingerprint A m = event_fingerprint A ((e # es) ! i)
      \<and> sm_stream_id m = pr_stream_id (rs ! i)" if "i < length (e # es)" for i
    using that rest first(3) new2(1) run(3) by (cases i) auto
  moreover have "mb_messages b' = mb_messages b @ (new1 @ new2)" "length (new1 @ new2)
      = length (filter (\<lambda>r. \<not> pr_deduplicated r) rs)" using new1 new2 run(3) by auto
  ultimately show ?case using rest run(3) by auto
qed

lemma publish_again:
  assumes "bus_inv A b" "m \<in> set (mb_messages b)" "message_fingerprint A m = event_fingerprint A e"
  shows "publish A e b = (b, \<lparr>pr_stream_id = sm_stream_id m, pr_deduplicated = True\<rparr>)"
proof -
  have "mb_dedupe b (event_fingerprint A e) = Some (sm_stream_id m)"
    using assms unfolding bus_inv_def by blast
  then show ?thesis by (simp add: publish_def)
qed

lemma publish_many_again:
  assumes "bus_inv A b" "length rs = length es"
    "\<forall>i < length es. \<exists>m \<in> set (mb_messages b).
        message_fingerprint A m = event_fingerprint A (es ! i) \<and> sm_stream_id m = pr_stream_id (rs ! i)"
  shows "publish_many A es b = (b, map (\<lambda>r. r\<lparr>pr_deduplicated := True\<rparr>) rs)"
  using assms(2,3)
proof (induction es arbitrary: rs)
  case (Cons e es)
  then obtain r rs' where rs: "rs = r # rs'" by (cases rs) auto
  from Cons.prems(2) obtain m where m: "m \<in> set (mb_messages b)"
    "message_fingerprint A m = event_fingerprint A e" "sm_stream_id m = pr_stream_id r"
    using rs by fastforce
  have "publish_many A es b = (b, map (\<lambda>r. r\<lparr>pr_deduplicated := True\<rparr>) rs')"
    using Cons.prems rs by (intro Cons.IH) fastforce+
  then show ?case using publish_again [OF assms(1) m(1,2)] rs m(3) by simp
qed simp


section \<open>Providers of the interfaces\<close>

definition mem_publish_batch ::
  "'e event_api \<Rightarrow> 'e list \<Rightarrow> 'e mem_bus \<Rightarrow> 'e mem_bus \<times> publish_result list res" where
  "mem_publish_batch A es b = (case publish_many A es b of (b', rs) \<Rightarrow> (b', Inr rs))"

lemma publish_many_length: "publish_many A es b = (b', rs) \<Longrightarrow> length rs = length es"
  by (induction es arbitrary: b b' rs) (auto split: prod.splits)

interpretation mem_publisher: event_publisher "mem_publish_batch A" for A
  by unfold_locales (auto simp: mem_publish_batch_def publish_many_length split: prod.splits)

lemma decode_script_reply:
  "\<exists>r. decode_publish_result (snd (eval_publish S A cfg e db)) = Inr r"
  by (auto simp: eval_publish_def script_publish_once_def decode_publish_result_def
      split: option.split prod.split)

lemma publish_batches_length:
  "publish_batches S A cfg batches db = (db', Inr rs) \<Longrightarrow> length rs = length (concat batches)"
  by (induction batches arbitrary: db db' rs)
    (auto simp: Let_def split: prod.splits if_splits sum.splits dest!: rmap_length)

interpretation vk_publisher: event_publisher "vk_publish_many S A cfg" for S A cfg
proof
  fix es :: "'b list" and s s' :: 'a and outs
  assume "vk_publish_many S A cfg es s = (s', Inr outs)"
  then have "length outs = length (concat (chunks publish_pipeline_size es))"
    unfolding vk_publish_many_def by (rule publish_batches_length)
  also have "concat (chunks publish_pipeline_size es) = es"
    by (rule concat_chunks) (simp add: publish_pipeline_size_def)
  finally show "length outs = length es" .
qed

lemma int_parts_memory: "int_parts (memory_stream_id n) = Inr [0, int n]"
proof -
  have "split_dash (nat_dec 0 @ CHR ''-'' # nat_dec n) = (nat_dec 0, Some (nat_dec n))"
    by (rule split_dash_append) (rule decimal_no_dash [OF nat_dec_decimal])
  moreover have "py_int (nat_dec 0) = Inr 0" by simp
  ultimately show ?thesis by (simp add: memory_stream_id_text stream_id_text_def int_parts_def)
qed

lemma bus_message_id:
  assumes "bus_inv A b" "i < length (mb_messages b)"
  shows "sm_stream_id (mb_messages b ! i) = memory_stream_id (i + 1)"
proof -
  have "map sm_stream_id (mb_messages b) ! i
      = map memory_stream_id [1..<length (mb_messages b) + 1] ! i"
    using assms(1) by (simp add: bus_inv_def del: map_eq_conv)
  then show ?thesis using assms(2) by (simp add: nth_append del: upt_Suc)
qed

lemma first_after_count:
  assumes "\<And>j. j < length ms \<Longrightarrow> sm_stream_id (ms ! j) = memory_stream_id (i + j + 1)"
  shows "first_after [0, int c] (i + length ms) i ms = Inr (if c < i then i else min c (i + length ms))"
  using assms
proof (induction ms arbitrary: i)
  case (Cons m ms)
  have "sm_stream_id m = memory_stream_id (i + 1)" using Cons.prems [of 0] by simp
  moreover have "sm_stream_id (ms ! j) = memory_stream_id (Suc i + j + 1)" if "j < length ms" for j
    using Cons.prems [of "Suc j"] that by simp
  ultimately show ?case
    using Cons.IH [of "Suc i"] by (auto simp: int_parts_memory)
qed simp

lemma replay_after_id:
  assumes "bus_inv A b" "0 \<le> n" "k < length (mb_messages b)"
  shows "replay b (Some (sm_stream_id (mb_messages b ! k))) n
    = Inr (take (nat n) (drop (k + 1) (mb_messages b)))"
proof -
  have "first_after [0, int (k + 1)] (length (mb_messages b)) 0 (mb_messages b) = Inr (k + 1)"
    using first_after_count [of "mb_messages b" 0 "k + 1"] bus_message_id [OF assms(1)] assms(3) by simp
  then show ?thesis
    using bus_message_id [OF assms(1,3)] py_slice_prefix [OF assms(2), of "mb_messages b" "k + 1"]
    by (simp add: replay_def int_parts_memory)
qed

interpretation mem_log: event_log mb_messages replay "bus_inv A" for A
proof (unfold_locales, goal_cases)
  case (1 s)
  have "message_position (mb_messages s ! i) = (0, i + 1)" if "i < length (mb_messages s)" for i
    using bus_message_id [OF 1 that] by (simp add: message_position_def memory_stream_id_text)
  then show ?case by (auto simp: sorted_wrt_iff_nth_less)
next
  case (2 s m)
  then show ?case
    using bus_message_id [OF 2(1)] by (auto simp: in_set_conv_nth memory_stream_id_text)
next
  case (3 s n)
  then show ?case using py_slice_prefix [of n "mb_messages s" 0] by (simp add: replay_def)
next
  case (4 s n k)
  then show ?case by (rule replay_after_id)
qed

section \<open>Idempotent publication\<close>

text \<open>C23. Publication to the stream is idempotent. Whatever was published before, a batch gets one
outcome per event, the stream grows by exactly the outcomes not marked as duplicates and never holds
two messages of one fingerprint, and publishing the batch again changes nothing: every outcome is then
a duplicate with the stream id of the first time.\<close>

theorem publication_idempotent:
  fixes A :: "'e event_api" and earlier es :: "'e list"
  defines "b0 \<equiv> fst (publish_many A earlier empty_bus)"
  defines "b1 \<equiv> fst (publish_many A es b0)" and "rs \<equiv> snd (publish_many A es b0)"
  shows "length rs = length es
    \<and> distinct (map (message_fingerprint A) (mb_messages b1))
    \<and> take (length (mb_messages b0)) (mb_messages b1) = mb_messages b0
    \<and> length (mb_messages b1) = length (mb_messages b0) + length (filter (\<lambda>r. \<not> pr_deduplicated r) rs)
    \<and> publish_many A es b1 = (b1, map (\<lambda>r. r\<lparr>pr_deduplicated := True\<rparr>) rs)"
proof -
  have b0: "bus_inv A b0"
    using publish_many_spec [OF empty_bus_inv, of A earlier] unfolding b0_def by (metis prod.collapse)
  note run = publish_many_spec [OF b0, of es b1 rs, unfolded b1_def rs_def, OF prod.collapse [symmetric],
      folded b1_def rs_def]
  have inv: "bus_inv A b1" and len: "length rs = length es" using run by blast+
  obtain new where new: "mb_messages b1 = mb_messages b0 @ new"
    "length new = length (filter (\<lambda>r. \<not> pr_deduplicated r) rs)" using run by blast
  have "publish_many A es b1 = (b1, map (\<lambda>r. r\<lparr>pr_deduplicated := True\<rparr>) rs)"
    using run by (intro publish_many_again inv len) blast
  moreover have "distinct (map (message_fingerprint A) (mb_messages b1))"
    using inv by (simp add: bus_inv_def)
  ultimately show ?thesis using new len by simp
qed

text \<open>Replay is a gap-free window: after the id of any message of the stream it returns exactly
the next messages in order, up to the limit, and without a cursor the oldest ones.\<close>

theorem replay_resumes:
  assumes "b = fst (publish_many A es empty_bus)" "0 \<le> n" "k < length (mb_messages b)"
  shows "replay b (Some (sm_stream_id (mb_messages b ! k))) n
      = Inr (take (nat n) (drop (k + 1) (mb_messages b)))
    \<and> replay b None n = Inr (take (nat n) (mb_messages b))"
proof -
  have "bus_inv A b"
    using publish_many_spec [OF empty_bus_inv, of A es] unfolding assms(1) by (metis prod.collapse)
  then show ?thesis using mem_log.from_cursor [of A b n k] mem_log.from_start [of A b n] assms(2,3) by blast
qed

text \<open>An event library to run the bus on: events are integers.\<close>

definition sample_api :: "int event_api" where
  "sample_api = \<lparr>ev_dump = JInt, ev_json = int_text, ev_load = py_int, ev_sha256 = (\<lambda>s. s),
     ev_float = sample_float_text\<rparr>"

lemma sample_api_fingerprint [simp]: "event_fingerprint sample_api i = int_text i"
  by (simp add: event_fingerprint_def sample_api_def)

lemma sample_bus: "mb_messages (fst (publish_many sample_api [7, 8, 7] empty_bus)) =
    [\<lparr>sm_stream_id = memory_stream_id 1, sm_event = 7\<rparr>, \<lparr>sm_stream_id = memory_stream_id 2, sm_event = 8\<rparr>]"
  by (simp add: publish_def empty_bus_def Let_def numeral_2_eq_2)

theorem replay_resumes_witness:
  "replay (fst (publish_many sample_api [7, 8, 7] empty_bus))
      (Some (sm_stream_id (mb_messages (fst (publish_many sample_api [7, 8, 7] empty_bus)) ! 0))) 5
      = Inr (take (nat 5) (drop (0 + 1) (mb_messages (fst (publish_many sample_api [7, 8, 7] empty_bus)))))
    \<and> replay (fst (publish_many sample_api [7, 8, 7] empty_bus)) None 5
      = Inr (take (nat 5) (mb_messages (fst (publish_many sample_api [7, 8, 7] empty_bus))))"
  by (rule replay_resumes [OF refl]) (simp_all add: sample_bus del: publish_many.simps)

text \<open>\<open>latest\<close> returns the newest messages first, at most the limit of them, except that the
limit 0 selects the whole stream, because \<open>messages[-0:]\<close> is the whole list.\<close>

theorem latest_newest_first:
  assumes "0 \<le> limit"
  shows "latest b limit = (if limit = 0 then rev (mb_messages b)
    else take (nat limit) (rev (mb_messages b)))"
proof (cases "limit = 0")
  case True
  then show ?thesis by (simp add: latest_def py_slice_def slice_bound_def Let_def)
next
  case False
  then show ?thesis using assms by (simp add: latest_def py_slice_last take_rev)
qed

theorem latest_newest_first_witness:
  "latest (fst (publish_many sample_api [7, 8, 7] empty_bus)) 1 =
    (if (1::int) = 0 then rev (mb_messages (fst (publish_many sample_api [7, 8, 7] empty_bus)))
     else take (nat 1) (rev (mb_messages (fst (publish_many sample_api [7, 8, 7] empty_bus)))))"
  by (rule latest_newest_first) simp

section \<open>The Valkey bus publishes one event at a time\<close>

text \<open>The sequence of single publications a batch stands for.\<close>

fun publish_each ::
  "'db stream_server \<Rightarrow> 'e event_api \<Rightarrow> bus_config \<Rightarrow> 'e list \<Rightarrow> 'db \<Rightarrow> 'db \<times> publish_result list res" where
  "publish_each S A cfg [] db = (db, Inr [])"
| "publish_each S A cfg (e # es) db = (case vk_publish S A cfg e db of
     (db1, Inl x) \<Rightarrow> (db1, Inl x)
   | (db1, Inr r) \<Rightarrow> (case publish_each S A cfg es db1 of (db2, rs) \<Rightarrow> (db2, rbind rs (\<lambda>rs. Inr (r # rs)))))"

lemma pipeline_each:
  "\<exists>rs. rmap decode_publish_result (snd (pipeline_execute S A cfg es db)) = Inr rs
    \<and> length (snd (pipeline_execute S A cfg es db)) = length es
    \<and> publish_each S A cfg es db = (fst (pipeline_execute S A cfg es db), Inr rs)"
proof (induction es arbitrary: db)
  case (Cons e es)
  obtain db1 r where ev: "eval_publish S A cfg e db = (db1, r)" by (cases "eval_publish S A cfg e db")
  then obtain x where "decode_publish_result r = Inr x"
    using decode_script_reply [of S A cfg e db] by auto
  then show ?case using Cons.IH [of db1] ev by (auto simp: vk_publish_def split: prod.splits)
qed simp

lemma publish_each_append:
  "publish_each S A cfg (xs @ ys) db = (case publish_each S A cfg xs db of
     (db1, Inl e) \<Rightarrow> (db1, Inl e)
   | (db1, Inr rs) \<Rightarrow> (case publish_each S A cfg ys db1 of
       (db2, rest) \<Rightarrow> (db2, rbind rest (\<lambda>rs2. Inr (rs @ rs2)))))"
  by (induction xs arbitrary: db) (auto simp: rbind_def split: prod.splits sum.splits)

lemma publish_batches_each:
  "publish_batches S A cfg batches db = publish_each S A cfg (concat batches) db"
proof (induction batches arbitrary: db)
  case (Cons batch batches)
  obtain rs where "rmap decode_publish_result (snd (pipeline_execute S A cfg batch db)) = Inr rs"
    "length (snd (pipeline_execute S A cfg batch db)) = length batch"
    "publish_each S A cfg batch db = (fst (pipeline_execute S A cfg batch db), Inr rs)"
    using pipeline_each [of S A cfg batch db] by blast
  then show ?case
    by (cases "pipeline_execute S A cfg batch db") (simp add: publish_each_append Cons.IH)
qed simp

text \<open>C32. Pipelining is transparent: for any server and any number of events, publishing a batch in
pipelined groups of 500 leaves the same database and returns the same outcomes as publishing its
events one by one, and it never fails on the replies of the script.\<close>

theorem pipelined_publication_sequential:
  "vk_publish_many S A cfg events db = publish_each S A cfg events db
    \<and> is_ok (snd (vk_publish_many S A cfg events db))"
proof -
  have "vk_publish_many S A cfg events db = publish_each S A cfg events db"
    unfolding vk_publish_many_def publish_batches_each
    by (subst concat_chunks) (simp_all add: publish_pipeline_size_def)
  moreover have "is_ok (snd (publish_each S A cfg events db))"
    using pipeline_each [of S A cfg events db] by (auto simp: is_ok_iff)
  ultimately show ?thesis by simp
qed

text \<open>GET after SET while no key expires, and XADD touching no key.\<close>

definition key_laws :: "'db stream_server \<Rightarrow> bool" where
  "key_laws S \<longleftrightarrow> (\<forall>k k' v ttl db. srv_get S k (srv_set_ex S k' v ttl db) = (if k = k' then Some v else srv_get S k db))
     \<and> (\<forall>k stream m fvs db. srv_get S k (fst (srv_xadd S stream m fvs db)) = srv_get S k db)"

lemma dedupe_key_eq [simp]: "dedupe_key A e = dedupe_key A f \<longleftrightarrow> event_fingerprint A e = event_fingerprint A f"
  by (simp add: dedupe_key_def)

lemma vk_publish_new:
  assumes "srv_get S (dedupe_key A e) db = None"
    and "srv_xadd S (bc_stream cfg) (bc_max_length cfg) [(''event'', ev_json A e)] db = (db1, sid)"
  shows "vk_publish S A cfg e db = (srv_set_ex S (dedupe_key A e) sid (bc_dedupe_ttl cfg) db1,
    Inr \<lparr>pr_stream_id = sid, pr_deduplicated = False\<rparr>)"
  by (simp add: vk_publish_def eval_publish_def script_publish_once_def decode_publish_result_def assms)

lemma vk_publish_known:
  assumes "srv_get S (dedupe_key A e) db = Some sid"
  shows "vk_publish S A cfg e db = (db, Inr \<lparr>pr_stream_id = sid, pr_deduplicated = True\<rparr>)"
  by (simp add: vk_publish_def eval_publish_def script_publish_once_def decode_publish_result_def assms)

lemma publish_each_matches:
  assumes "key_laws S"
    and "\<And>e. (srv_get S (dedupe_key A e) db = None) = (mb_dedupe b (event_fingerprint A e) = None)"
  shows "\<exists>rs. snd (publish_each S A cfg es db) = Inr rs
    \<and> map pr_deduplicated rs = map pr_deduplicated (snd (publish_many A es b))"
  using assms(2)
proof (induction es arbitrary: db b)
  case (Cons e es)
  have get: "srv_get S k (srv_set_ex S k' v ttl db) = (if k = k' then Some v else srv_get S k db)"
    "srv_get S k (fst (srv_xadd S stream m fvs db)) = srv_get S k db" for k k' v ttl stream m fvs db
    using assms(1) by (simp_all add: key_laws_def)
  obtain db1 r where vk: "vk_publish S A cfg e db = (db1, Inr r)"
    using decode_script_reply [of S A cfg e db]
    by (cases "eval_publish S A cfg e db") (auto simp: vk_publish_def)
  obtain b1 q where mem: "publish A e b = (b1, q)" by (cases "publish A e b")
  have "pr_deduplicated r = pr_deduplicated q
      \<and> (\<forall>f. (srv_get S (dedupe_key A f) db1 = None) = (mb_dedupe b1 (event_fingerprint A f) = None))"
  proof (cases "srv_get S (dedupe_key A e) db")
    case None
    obtain dbx sid where add: "srv_xadd S (bc_stream cfg) (bc_max_length cfg) [(''event'', ev_json A e)] db
        = (dbx, sid)" by fastforce
    have "mb_dedupe b (event_fingerprint A e) = None" using Cons.prems None by simp
    then have "b1 = \<lparr>mb_messages = mb_messages b @ [\<lparr>sm_stream_id =
          memory_stream_id (length (mb_messages b) + 1), sm_event = e\<rparr>],
        mb_dedupe = (mb_dedupe b)(event_fingerprint A e \<mapsto> memory_stream_id (length (mb_messages b) + 1))\<rparr>"
      "\<not> pr_deduplicated q"
      using mem by (auto simp: publish_def Let_def)
    moreover have "db1 = srv_set_ex S (dedupe_key A e) sid (bc_dedupe_ttl cfg) dbx" "\<not> pr_deduplicated r"
      using vk vk_publish_new [OF None add] by auto
    moreover have "srv_get S k dbx = srv_get S k db" for k
      using get(2) [of k "bc_stream cfg" "bc_max_length cfg" "[(''event'', ev_json A e)]" db] add by simp
    ultimately show ?thesis using Cons.prems by (auto simp: get)
  next
    case (Some sid)
    then obtain sid' where "mb_dedupe b (event_fingerprint A e) = Some sid'" using Cons.prems [of e] by auto
    then have "b1 = b" "pr_deduplicated q" using mem by (auto simp: publish_def)
    moreover have "db1 = db" "pr_deduplicated r" using vk vk_publish_known [OF Some] by auto
    ultimately show ?thesis using Cons.prems by simp
  qed
  then show ?case
    using Cons.IH [of db1 b1] vk mem by (auto split: prod.splits)
qed simp

text \<open>C33. While dedupe keys have not expired, the Valkey bus suppresses exactly the duplicates the
in-memory bus does: starting with no dedupe keys, any batch gets the same duplicate flags from both.\<close>

theorem valkey_bus_dedupes_as_memory:
  assumes "key_laws S" "\<And>e. srv_get S (dedupe_key A e) db = None"
  shows "\<exists>rs. snd (vk_publish_many S A cfg es db) = Inr rs
    \<and> map pr_deduplicated rs = map pr_deduplicated (snd (publish_many A es empty_bus))"
proof -
  have "vk_publish_many S A cfg es db = publish_each S A cfg es db"
    unfolding vk_publish_many_def publish_batches_each
    by (subst concat_chunks) (simp_all add: publish_pipeline_size_def)
  then show ?thesis
    using publish_each_matches [OF assms(1), of A db empty_bus cfg es] assms(2)
    by (simp add: empty_bus_def)
qed

text \<open>A server with keys and one stream of entries.\<close>

definition sample_server :: "((string \<Rightarrow> string option) \<times> (string \<times> string) list list) stream_server" where
  "sample_server = \<lparr>srv_get = \<lambda>k db. fst db k,
     srv_set_ex = \<lambda>k v ttl db. ((fst db)(k \<mapsto> v), snd db),
     srv_xadd = \<lambda>stream m fvs db. ((fst db, snd db @ [fvs]), nat_dec (length (snd db) + 1) @ ''-0''),
     srv_xrevrange = \<lambda>stream n db. RList [], srv_xrange = \<lambda>stream lo n db. RList [],
     srv_ping = \<lambda>db. Inr (RInt 1)\<rparr>"

theorem valkey_bus_dedupes_as_memory_witness:
  "\<exists>rs. snd (vk_publish_many sample_server sample_api
      \<lparr>bc_stream = ''events'', bc_max_length = 1000, bc_dedupe_ttl = 60\<rparr> [7, 8, 7] (Map.empty, [])) = Inr rs
    \<and> map pr_deduplicated rs = map pr_deduplicated (snd (publish_many sample_api [7, 8, 7] empty_bus))"
  by (rule valkey_bus_dedupes_as_memory) (simp_all add: key_laws_def sample_server_def)

end
