(* ===== verification/Ingest.thy ===== *)
theory Ingest
  imports PollStore EventStream
begin

text \<open>
  One ingestion cycle: the content-addressed snapshot store of \<open>ingestion/snapshot.py\<close> and
  \<open>IngestionService.ingest_once\<close> of \<open>ingestion/service.py\<close>, with its stages in order, its failure
  codes, and the poll attempt it records on every path. The source adapter, the clock and the UUID
  are arguments; the bus and the poll store are the operations of the interfaces
  \<open>event_publisher\<close> and \<open>poll_store\<close>, and the lemmas of the service are proved over those.
  Metrics, spans and log lines are left out.
\<close>

section \<open>Raw snapshots\<close>

text \<open>The files written so far, by path.\<close>

type_synonym file_system = "string \<Rightarrow> string option"

record snapshot_result =
  sn_path :: string
  sn_sha256 :: string
  sn_created :: bool
  sn_size :: nat

text \<open>\<open>fetched_at.strftime("%Y/%m/%d")\<close>, and \<open>extension.lstrip(".")\<close>.\<close>

definition day_path :: "datetime \<Rightarrow> string" where
  "day_path t = (case date_of_day (nat (wall_us t div day_us)) of
     (y, m, d) \<Rightarrow> digits 4 y @ ''/'' @ digits 2 m @ ''/'' @ digits 2 d)"

definition strip_dots :: "string \<Rightarrow> string" where
  "strip_dots s = dropWhile (\<lambda>c. c = CHR ''.'') s"

definition snapshot_path :: "string \<Rightarrow> string \<Rightarrow> datetime \<Rightarrow> string \<Rightarrow> string \<Rightarrow> string" where
  "snapshot_path base src t digest extension =
     base @ ''/'' @ src @ ''/'' @ day_path t @ ''/'' @ digest @ ''.'' @ strip_dots extension"

text \<open>\<open>fault\<close> is what the operating system raises for a path, if it refuses it.\<close>

definition write_snapshot ::
  "(string \<Rightarrow> string) \<Rightarrow> (string \<Rightarrow> exn option) \<Rightarrow> string \<Rightarrow> string \<Rightarrow> datetime \<Rightarrow> string \<Rightarrow> string
     \<Rightarrow> file_system \<Rightarrow> file_system \<times> snapshot_result res" where
  "write_snapshot sha fault base src fetched_at raw extension files =
     (let digest = sha raw; path = snapshot_path base src fetched_at digest extension in
      case fault path of Some e \<Rightarrow> (files, Inl e)
      | None \<Rightarrow> (case files path of
          None \<Rightarrow> (files(path \<mapsto> raw),
            Inr \<lparr>sn_path = path, sn_sha256 = digest, sn_created = True, sn_size = length raw\<rparr>)
        | Some old \<Rightarrow> if old \<noteq> raw then (files, Inl (RuntimeError (''snapshot hash collision at '' @ path)))
            else (files, Inr \<lparr>sn_path = path, sn_sha256 = digest, sn_created = False, sn_size = length raw\<rparr>)))"

section \<open>The cycle\<close>

record fetched_source =
  fetched_raw :: string
  fetched_at :: datetime
  fetched_attempts :: int

record 'e source_batch =
  sb_events :: "'e list"
  sb_generated :: datetime
  sb_basis :: timestamp_basis

record 'e source_adapter =
  sa_name :: source_name
  sa_fetch :: "fetched_source res"
  sa_normalize :: "string \<Rightarrow> datetime \<Rightarrow> 'e source_batch res"
  sa_extension :: string

record ingestion_result =
  ir_source :: source_name
  ir_fetched_at :: datetime
  ir_generated :: datetime
  ir_path :: string
  ir_sha256 :: string
  ir_created :: bool
  ir_fetched :: int
  ir_published :: int
  ir_deduplicated :: int
  ir_transport :: int
  ir_basis :: timestamp_basis

definition failure_code_of :: "exn \<Rightarrow> poll_stage \<Rightarrow> failure_code" where
  "failure_code_of e stage = (case e of
     RetryableSourceError n \<Rightarrow> TransportExhausted
   | PermanentSourceError n \<Rightarrow> SourceRejected
   | _ \<Rightarrow> if stage = Snapshot then SnapshotWriteFailed
       else if stage = Normalize then SourcePayloadInvalid
       else if stage = Publish then PublicationUnavailable else UnexpectedFailure)"

text \<open>The attempts a fetch error carries.\<close>

fun error_attempts :: "exn \<Rightarrow> int option" where
  "error_attempts (RetryableSourceError n) = Some (int n)"
| "error_attempts (PermanentSourceError n) = Some (int n)"
| "error_attempts _ = None"

text \<open>The constructor's checks on the poll store and policy.\<close>

definition ingestion_config :: "source_name \<Rightarrow> bool \<Rightarrow> poll_policy option \<Rightarrow> unit res" where
  "ingestion_config src has_store policy = raise_first
     [((\<not> has_store) \<noteq> (policy = None), ''source poll store and policy must be configured together''),
      (case policy of None \<Rightarrow> False | Some p \<Rightarrow> pol_source p \<noteq> src,
       ''source poll policy must match the ingestion source'')] ()"

record ('bus, 'st) world =
  w_files :: file_system
  w_bus :: 'bus
  w_polls :: 'st

record 'e stage_run =
  sg_stage :: poll_stage
  sg_transport :: int
  sg_batch :: "'e source_batch option"
  sg_result :: "(fetched_source \<times> snapshot_result \<times> 'e source_batch \<times> publish_result list) res"

text \<open>The body of the \<open>try\<close>: fetch, snapshot, normalize, publish, with the variables its handler reads.\<close>

definition run_stages ::
  "('e list \<Rightarrow> 'bus \<Rightarrow> 'bus \<times> publish_result list res)
   \<Rightarrow> (string \<Rightarrow> string) \<Rightarrow> (string \<Rightarrow> exn option) \<Rightarrow> string \<Rightarrow> 'e source_adapter
   \<Rightarrow> ('bus, 'st) world \<Rightarrow> ('bus, 'st) world \<times> 'e stage_run" where
  "run_stages publish_batch sha fault base a w = (case sa_fetch a of
     Inl e \<Rightarrow> (w, \<lparr>sg_stage = Fetch, sg_transport = 0, sg_batch = None, sg_result = Inl e\<rparr>)
   | Inr f \<Rightarrow> (case write_snapshot sha fault base (source_string (sa_name a)) (fetched_at f) (fetched_raw f)
         (sa_extension a) (w_files w) of
       (files, Inl e) \<Rightarrow> (w\<lparr>w_files := files\<rparr>, \<lparr>sg_stage = Snapshot, sg_transport = fetched_attempts f,
          sg_batch = None, sg_result = Inl e\<rparr>)
     | (files, Inr snap) \<Rightarrow> (case sa_normalize a (fetched_raw f) (fetched_at f) of
         Inl e \<Rightarrow> (w\<lparr>w_files := files\<rparr>, \<lparr>sg_stage = Normalize, sg_transport = fetched_attempts f,
            sg_batch = None, sg_result = Inl e\<rparr>)
       | Inr batch \<Rightarrow> (case publish_batch (sb_events batch) (w_bus w) of
           (bus, Inl e) \<Rightarrow> (w\<lparr>w_files := files, w_bus := bus\<rparr>, \<lparr>sg_stage = Publish,
              sg_transport = fetched_attempts f, sg_batch = Some batch, sg_result = Inl e\<rparr>)
         | (bus, Inr outcomes) \<Rightarrow> (w\<lparr>w_files := files, w_bus := bus\<rparr>, \<lparr>sg_stage = Publish,
              sg_transport = fetched_attempts f, sg_batch = Some batch,
              sg_result = Inr (f, snap, batch, outcomes)\<rparr>)))))"

definition failed_attempt :: "poll_attempt \<Rightarrow> datetime \<Rightarrow> 'e stage_run \<Rightarrow> exn \<Rightarrow> poll_attempt" where
  "failed_attempt a now run e = \<lparr>att_id = att_id a, att_source = att_source a, att_started = att_started a,
     att_completed = Some now, att_outcome = Failed, att_stage = sg_stage run,
     att_transport = (case error_attempts e of Some n \<Rightarrow> n | None \<Rightarrow> sg_transport run),
     att_generated = map_option sb_generated (sg_batch run), att_basis = map_option sb_basis (sg_batch run),
     att_fetched = None, att_published = None, att_deduplicated = None,
     att_failure = Some (failure_code_of e (sg_stage run)), att_execution_enabled = False\<rparr>"

definition published_count :: "publish_result list \<Rightarrow> int" where
  "published_count outcomes = int (length (filter (\<lambda>r. \<not> pr_deduplicated r) outcomes))"

definition succeeded_attempt ::
  "poll_attempt \<Rightarrow> datetime \<Rightarrow> fetched_source \<Rightarrow> 'e source_batch \<Rightarrow> publish_result list \<Rightarrow> poll_attempt" where
  "succeeded_attempt a now f batch outcomes = \<lparr>att_id = att_id a, att_source = att_source a,
     att_started = att_started a, att_completed = Some now, att_outcome = Succeeded, att_stage = Complete,
     att_transport = fetched_attempts f, att_generated = Some (sb_generated batch),
     att_basis = Some (sb_basis batch), att_fetched = Some (int (length (sb_events batch))),
     att_published = Some (published_count outcomes),
     att_deduplicated = Some (int (length outcomes) - published_count outcomes),
     att_failure = None, att_execution_enabled = False\<rparr>"

definition ingestion_summary ::
  "source_name \<Rightarrow> fetched_source \<Rightarrow> snapshot_result \<Rightarrow> 'e source_batch \<Rightarrow> publish_result list \<Rightarrow> ingestion_result" where
  "ingestion_summary src f snap batch outcomes = \<lparr>ir_source = src, ir_fetched_at = fetched_at f,
     ir_generated = sb_generated batch, ir_path = sn_path snap, ir_sha256 = sn_sha256 snap,
     ir_created = sn_created snap, ir_fetched = int (length (sb_events batch)),
     ir_published = published_count outcomes,
     ir_deduplicated = int (length outcomes) - published_count outcomes,
     ir_transport = fetched_attempts f, ir_basis = sb_basis batch\<rparr>"

text \<open>
  \<open>ingest_once\<close>, with the times \<open>started\<close> and \<open>completed\<close> its two clock readings return. A poll store
  is configured exactly when there is a policy. An error of the attempt's own validation in the
  handler replaces the error being handled; an error of \<open>record_completed\<close> there is logged and
  dropped; on success both propagate.
\<close>

definition ingest_once ::
  "('e list \<Rightarrow> 'bus \<Rightarrow> 'bus \<times> publish_result list res)
   \<Rightarrow> (poll_attempt \<Rightarrow> poll_policy \<Rightarrow> 'st \<Rightarrow> 'st res) \<Rightarrow> (poll_attempt \<Rightarrow> 'st \<Rightarrow> 'st res)
   \<Rightarrow> (string \<Rightarrow> string) \<Rightarrow> (string \<Rightarrow> exn option) \<Rightarrow> string \<Rightarrow> poll_policy option
   \<Rightarrow> 'e source_adapter \<Rightarrow> string \<Rightarrow> datetime \<Rightarrow> datetime
   \<Rightarrow> ('bus, 'st) world \<Rightarrow> ('bus, 'st) world \<times> ingestion_result res" where
  "ingest_once publish_batch start finish sha fault base policy a uuid started completed w =
     (case new_source_poll_attempt uuid (sa_name a) started of Inl e \<Rightarrow> (w, Inl e)
      | Inr attempt \<Rightarrow>
     (case (case policy of None \<Rightarrow> Inr (w_polls w) | Some p \<Rightarrow> start attempt p (w_polls w)) of
        Inl e \<Rightarrow> (w, Inl e)
      | Inr polls \<Rightarrow>
     (case run_stages publish_batch sha fault base a (w\<lparr>w_polls := polls\<rparr>) of (w1, run) \<Rightarrow>
     (case sg_result run of
        Inl e \<Rightarrow> (case policy of
            None \<Rightarrow> (w1, Inl e)
          | Some p \<Rightarrow> (case validate_attempt (failed_attempt attempt completed run e) of
              Inl e' \<Rightarrow> (w1, Inl e')
            | Inr fa \<Rightarrow> (case finish fa (w_polls w1) of
                Inl e' \<Rightarrow> (w1, Inl e)
              | Inr polls' \<Rightarrow> (w1\<lparr>w_polls := polls'\<rparr>, Inl e))))
      | Inr (f, snap, batch, outcomes) \<Rightarrow>
          (let result = ingestion_summary (sa_name a) f snap batch outcomes in
           case policy of
             None \<Rightarrow> (w1, Inr result)
           | Some p \<Rightarrow> (case rbind (validate_attempt (succeeded_attempt attempt completed f batch outcomes))
                 (\<lambda>sa. finish sa (w_polls w1)) of
               Inl e \<Rightarrow> (w1, Inl e)
             | Inr polls' \<Rightarrow> (w1\<lparr>w_polls := polls'\<rparr>, Inr result)))))))"


section \<open>The stages\<close>

lemma run_stages_polls: "w_polls (fst (run_stages pb sha fault base a w)) = w_polls w"
  by (auto simp: run_stages_def split: sum.splits prod.splits)

lemma run_stages_frame:
  "run_stages pb sha fault base a (w\<lparr>w_polls := polls\<rparr>) =
     (case run_stages pb sha fault base a w of (w1, run) \<Rightarrow> (w1\<lparr>w_polls := polls\<rparr>, run))"
  by (auto simp: run_stages_def split: sum.splits prod.splits)

lemma run_stages_stage: "sg_stage (snd (run_stages pb sha fault base a w)) \<noteq> Complete"
  by (auto simp: run_stages_def split: sum.splits prod.splits)

definition adapter_ok :: "'e source_adapter \<Rightarrow> bool" where
  "adapter_ok a \<longleftrightarrow> (\<forall>f. sa_fetch a = Inr f \<longrightarrow> 1 \<le> fetched_attempts f \<and> fetched_attempts f \<le> 20)
     \<and> (\<forall>raw t b. sa_normalize a raw t = Inr b \<longrightarrow> is_utc (sb_generated b))"

lemma run_stages_bounds:
  assumes "adapter_ok a" "snd (run_stages pb sha fault base a w) = run"
  shows "0 \<le> sg_transport run \<and> sg_transport run \<le> 20"
    and "\<And>b. sg_batch run = Some b \<Longrightarrow> is_utc (sb_generated b)"
    and "\<And>f snap b outs. sg_result run = Inr (f, snap, b, outs) \<Longrightarrow>
      1 \<le> fetched_attempts f \<and> fetched_attempts f \<le> 20 \<and> is_utc (sb_generated b)"
  using assms by (auto simp: run_stages_def adapter_ok_def split: sum.splits prod.splits)

lemma run_stages_published:
  assumes "snd (run_stages pb sha fault base a w) = run" "sg_result run = Inr (f, snap, b, outs)"
  shows "\<exists>bus. pb (sb_events b) (w_bus w) = (bus, Inr outs)"
  using assms by (auto simp: run_stages_def split: sum.splits prod.splits)

section \<open>The service over its interfaces\<close>

definition initial_attempt :: "string \<Rightarrow> source_name \<Rightarrow> datetime \<Rightarrow> poll_attempt" where
  "initial_attempt uuid src started = \<lparr>att_id = ''source-poll-'' @ uuid, att_source = src,
     att_started = started, att_completed = None, att_outcome = InProgress, att_stage = Fetch,
     att_transport = 0, att_generated = None, att_basis = None, att_fetched = None,
     att_published = None, att_deduplicated = None, att_failure = None, att_execution_enabled = False\<rparr>"

definition uuid_ok :: "string \<Rightarrow> bool" where
  "uuid_ok u \<longleftrightarrow> length u = 32 \<and> list_all (\<lambda>c. c \<in> set hex_digits) u"

lemma new_attempt_initial:
  "uuid_ok u \<Longrightarrow> is_utc t \<Longrightarrow> new_source_poll_attempt u src t = Inr (initial_attempt u src t)"
  by (simp add: new_source_poll_attempt_eq_Inr initial_attempt_def uuid_ok_def)

lemma initial_attempt_valid: "uuid_ok u \<Longrightarrow> is_utc t \<Longrightarrow> valid_attempt (initial_attempt u src t)"
  by (simp add: valid_attempt_def attempt_fields_def attempt_times_def attempt_shape_def
      negative_count_def initial_attempt_def uuid_ok_def matches_hex_append [of "''source-poll-''", simplified])

lemma initial_attempt_fields [simp]:
  "att_source (initial_attempt u src t) = src" "att_outcome (initial_attempt u src t) = InProgress"
  "att_started (initial_attempt u src t) = t" "att_id (initial_attempt u src t) = ''source-poll-'' @ u"
  by (simp_all add: initial_attempt_def)

text \<open>The attempt a cycle ends with.\<close>

definition terminal_attempt :: "poll_attempt \<Rightarrow> datetime \<Rightarrow> 'e stage_run \<Rightarrow> poll_attempt" where
  "terminal_attempt a now run = (case sg_result run of
     Inl e \<Rightarrow> failed_attempt a now run e
   | Inr (f, snap, b, outs) \<Rightarrow> succeeded_attempt a now f b outs)"

definition cycle_result :: "source_name \<Rightarrow> 'e stage_run \<Rightarrow> ingestion_result res" where
  "cycle_result src run = (case sg_result run of
     Inl e \<Rightarrow> Inl e | Inr (f, snap, b, outs) \<Rightarrow> Inr (ingestion_summary src f snap b outs))"

lemma terminal_attempt_fields [simp]:
  "att_id (terminal_attempt a now run) = att_id a" "att_source (terminal_attempt a now run) = att_source a"
  "att_started (terminal_attempt a now run) = att_started a"
  "att_outcome (terminal_attempt a now run) = (if is_ok (sg_result run) then Succeeded else Failed)"
  by (auto simp: terminal_attempt_def failed_attempt_def succeeded_attempt_def split: sum.split prod.split)

lemma failed_attempt_valid:
  assumes "valid_attempt a" "is_utc now" "dt_us (att_started a) \<le> dt_us now" "sg_stage run \<noteq> Complete"
    and "0 \<le> sg_transport run" "sg_transport run \<le> 20" "\<And>b. sg_batch run = Some b \<Longrightarrow> is_utc (sb_generated b)"
    and "\<And>n. error_attempts e = Some n \<Longrightarrow> n \<le> 20"
  shows "valid_attempt (failed_attempt a now run e)"
proof -
  have "0 \<le> n" if "error_attempts e = Some n" for n using that by (cases e) auto
  then show ?thesis
    using assms by (auto simp: valid_attempt_def attempt_fields_def attempt_times_def attempt_shape_def
        negative_count_def failed_attempt_def split: option.splits)
qed

lemma succeeded_attempt_valid:
  assumes "valid_attempt a" "is_utc now" "dt_us (att_started a) \<le> dt_us now"
    and "1 \<le> fetched_attempts f" "fetched_attempts f \<le> 20" "is_utc (sb_generated b)"
    and "length outs = length (sb_events b)"
  shows "valid_attempt (succeeded_attempt a now f b outs)"
proof -
  have "published_count outs \<le> int (length outs)" by (simp add: published_count_def)
  then show ?thesis
    using assms by (auto simp: valid_attempt_def attempt_fields_def attempt_times_def attempt_shape_def
        negative_count_def succeeded_attempt_def published_count_def)
qed

locale ingestion = event_publisher publish_batch + poll_store start complete view inv
  for publish_batch :: "'e list \<Rightarrow> 'bus \<Rightarrow> 'bus \<times> publish_result list res"
    and start :: "poll_attempt \<Rightarrow> poll_policy \<Rightarrow> 'st \<Rightarrow> 'st res"
    and complete :: "poll_attempt \<Rightarrow> 'st \<Rightarrow> 'st res"
    and view :: "'st \<Rightarrow> source_name \<Rightarrow> poll_state option"
    and inv :: "'st \<Rightarrow> bool"
begin

lemma terminal_attempt_valid:
  assumes "valid_attempt a" "is_utc now" "dt_us (att_started a) \<le> dt_us now" "adapter_ok ad"
    and run: "snd (run_stages publish_batch sha fault base ad w) = run"
    and "\<And>e n. sg_result run = Inl e \<Longrightarrow> error_attempts e = Some n \<Longrightarrow> n \<le> 20"
  shows "valid_attempt (terminal_attempt a now run)"
proof (cases "sg_result run")
  case (Inl e)
  have "sg_stage run \<noteq> Complete" using run run_stages_stage by metis
  then have "valid_attempt (failed_attempt a now run e)"
    using assms(1-3,6) Inl run_stages_bounds [OF assms(4) run] by (intro failed_attempt_valid) auto
  then show ?thesis by (simp add: terminal_attempt_def Inl)
next
  case (Inr x)
  obtain f snap b outs where x: "x = (f, snap, b, outs)" by (cases x)
  obtain bus where "publish_batch (sb_events b) (w_bus w) = (bus, Inr outs)"
    using run_stages_published [OF run] Inr x by blast
  then have "length outs = length (sb_events b)" by (rule outcome_per_event)
  then have "valid_attempt (succeeded_attempt a now f b outs)"
    using assms(1-3) Inr x run_stages_bounds(3) [OF assms(4) run] by (intro succeeded_attempt_valid) auto
  then show ?thesis by (simp add: terminal_attempt_def Inr x)
qed

text \<open>A cycle whose start is not stale always records its end, and returns or raises what its stages
did.\<close>

lemma cycle_recorded:
  fixes w :: "('bus, 'st) world"
  assumes "inv (w_polls w)" "valid_policy p" "pol_source p = sa_name ad" "uuid_ok uuid"
    and times: "is_utc started" "is_utc completed" "dt_us started \<le> dt_us completed"
    and fresh: "\<And>s. view (w_polls w) (sa_name ad) = Some s \<Longrightarrow> dt_us (att_started (st_current s)) < dt_us started"
    and ad: "adapter_ok ad" and run: "run_stages publish_batch sha fault base ad w = (w1, run)"
    and err: "\<And>e n. sg_result run = Inl e \<Longrightarrow> error_attempts e = Some n \<Longrightarrow> n \<le> 20"
  shows "\<exists>polls. ingest_once publish_batch start complete sha fault base (Some p) ad uuid started completed w
        = (w1\<lparr>w_polls := polls\<rparr>, cycle_result (sa_name ad) run) \<and> inv polls
      \<and> view polls = (view (w_polls w))(sa_name ad \<mapsto>
          completed_state (terminal_attempt (initial_attempt uuid (sa_name ad) started) completed run)
            (started_state (initial_attempt uuid (sa_name ad) started) p (view (w_polls w) (sa_name ad))))"
proof -
  let ?a = "initial_attempt uuid (sa_name ad) started"
  let ?b = "terminal_attempt ?a completed run"
  have a: "valid_attempt ?a" using assms(4) times(1) by (rule initial_attempt_valid)
  have new: "new_source_poll_attempt uuid (sa_name ad) started = Inr ?a"
    using assms(4) times(1) by (rule new_attempt_initial)
  have b: "valid_attempt ?b"
    using terminal_attempt_valid [OF a times(2) _ ad, of sha fault base w run] run times(3) err by simp
  have src: "att_source ?a = pol_source p" using assms(3) by simp
  have late: "dt_us (att_started (st_current s)) < dt_us (att_started ?a)"
    if "view (w_polls w) (att_source ?a) = Some s" for s
    using fresh that by simp
  have ne: "att_outcome ?b \<noteq> InProgress" by simp
  have same: "att_id ?b = att_id ?a" "att_source ?b = att_source ?a" "att_started ?b = att_started ?a"
    by (rule terminal_attempt_fields)+
  obtain st1 st2 where st: "start ?a p (w_polls w) = Inr st1" "complete ?b st1 = Inr st2" "inv st2"
    "view st2 = (view (w_polls w))(sa_name ad \<mapsto>
       completed_state ?b (started_state ?a p (view (w_polls w) (sa_name ad))))"
    using poll_cycle [OF assms(1) a assms(2) _ src late b ne same] by simp blast
  have stages: "run_stages publish_batch sha fault base ad (w\<lparr>w_polls := st1\<rparr>) = (w1\<lparr>w_polls := st1\<rparr>, run)"
    by (simp add: run_stages_frame run)
  have "ingest_once publish_batch start complete sha fault base (Some p) ad uuid started completed w
      = (w1\<lparr>w_polls := st2\<rparr>, cycle_result (sa_name ad) run)"
  proof (cases "sg_result run")
    case (Inl e)
    then have "validate_attempt (failed_attempt ?a completed run e) = Inr ?b" "?b = failed_attempt ?a completed run e"
      using b by (simp_all add: terminal_attempt_def guard_simps)
    then show ?thesis using new st stages Inl by (simp add: ingest_once_def cycle_result_def)
  next
    case (Inr x)
    obtain f snap bt outs where x: "x = (f, snap, bt, outs)" by (cases x)
    then have "validate_attempt (succeeded_attempt ?a completed f bt outs) = Inr ?b"
      using b Inr by (simp add: terminal_attempt_def guard_simps)
    then show ?thesis using new st stages Inr x by (simp add: ingest_once_def cycle_result_def Let_def)
  qed
  with st show ?thesis by blast
qed

end

interpretation mem_ingestion: ingestion "mem_publish_batch A" record_started record_completed ms_states store_inv
  for A ..


section \<open>Snapshots are immutable\<close>

text \<open>The snapshot store never alters a file: every file there stays as it was, and a write either
raises and changes nothing, or leaves the raw bytes under the path of their digest, telling truly
whether the file is new; writing the same bytes again changes nothing and is not a creation.\<close>

theorem snapshot_immutable:
  fixes sha :: "string \<Rightarrow> string" and base src extension :: string and day :: datetime
  defines "store files raw \<equiv> write_snapshot sha (\<lambda>_. None) base src day raw extension files"
  shows "files \<subseteq>\<^sub>m fst (store files raw)
    \<and> (case snd (store files raw) of
         Inl e \<Rightarrow> fst (store files raw) = files
       | Inr s \<Rightarrow> sn_path s = snapshot_path base src day (sha raw) extension
           \<and> fst (store files raw) (sn_path s) = Some raw
           \<and> sn_sha256 s = sha raw \<and> (sn_created s \<longleftrightarrow> files (sn_path s) = None)
           \<and> store (fst (store files raw)) raw = (fst (store files raw), Inr (s\<lparr>sn_created := False\<rparr>)))"
  by (auto simp: store_def write_snapshot_def Let_def map_le_def split: option.split)

section \<open>Effects of a cycle by stage\<close>

text \<open>The effects of a cycle stop where it stops. A cycle whose last stage is fetching or the
snapshot has written and published nothing; one that fails to normalize has published nothing, but the
raw document is on disk; one that reaches publication has the raw document on disk.\<close>

theorem stage_effects:
  assumes "run_stages publish_batch sha fault base ad w = (w1, run)"
  shows "case sg_stage run of
      Fetch \<Rightarrow> w_files w1 = w_files w \<and> w_bus w1 = w_bus w
    | Snapshot \<Rightarrow> w_files w1 = w_files w \<and> w_bus w1 = w_bus w
    | Normalize \<Rightarrow> w_bus w1 = w_bus w
        \<and> (\<exists>f. sa_fetch ad = Inr f \<and> w_files w1 (snapshot_path base (source_string (sa_name ad))
              (fetched_at f) (sha (fetched_raw f)) (sa_extension ad)) = Some (fetched_raw f))
    | Publish \<Rightarrow> (\<exists>f. sa_fetch ad = Inr f \<and> w_files w1 (snapshot_path base (source_string (sa_name ad))
              (fetched_at f) (sha (fetched_raw f)) (sa_extension ad)) = Some (fetched_raw f))
    | Complete \<Rightarrow> False"
  using assms
  by (auto simp: run_stages_def write_snapshot_def Let_def split: sum.splits prod.splits option.splits if_splits)

text \<open>An adapter to run: one document of two events.\<close>

definition sample_adapter :: "int source_adapter" where
  "sample_adapter = \<lparr>sa_name = Usgs,
     sa_fetch = Inr \<lparr>fetched_raw = ''raw'', fetched_at = utc 1500000, fetched_attempts = 1\<rparr>,
     sa_normalize = \<lambda>raw t. Inr \<lparr>sb_events = [7, 8], sb_generated = utc 500000, sb_basis = SourceMetadata\<rparr>,
     sa_extension = ''json''\<rparr>"

definition sample_world :: "(int mem_bus, mem_store) world" where
  "sample_world = \<lparr>w_files = Map.empty, w_bus = empty_bus, w_polls = empty_store\<rparr>"

definition sample_stages :: "(int mem_bus, mem_store) world \<times> int stage_run" where
  "sample_stages = run_stages (mem_publish_batch sample_api) (\<lambda>s. s) (\<lambda>_. None) ''/data'' sample_adapter sample_world"

lemma sample_stages_ok: "sg_stage (snd sample_stages) = Publish" "is_ok (sg_result (snd sample_stages))"
  by (simp_all add: sample_stages_def run_stages_def write_snapshot_def sample_adapter_def sample_world_def
      mem_publish_batch_def Let_def split: prod.split)

theorem stage_effects_witness:
  "\<exists>f. sa_fetch sample_adapter = Inr f \<and> w_files (fst sample_stages)
      (snapshot_path ''/data'' (source_string (sa_name sample_adapter)) (fetched_at f) (fetched_raw f)
        (sa_extension sample_adapter)) = Some (fetched_raw f)"
proof -
  have "run_stages (mem_publish_batch sample_api) (\<lambda>s. s) (\<lambda>_. None) ''/data'' sample_adapter sample_world
      = (fst sample_stages, snd sample_stages)" by (simp add: sample_stages_def)
  from stage_effects [OF this] show ?thesis unfolding sample_stages_ok(1) poll_stage.case .
qed

section \<open>Every cycle is recorded\<close>



section \<open>Ingesting the same document again\<close>

text \<open>C36. Ingestion is idempotent: when a cycle has published a document, running the stages on the same
fetched document again writes no file and appends no event. The snapshot is not a creation, and every
event of the batch is suppressed with the stream id it got the first time.\<close>

theorem reingestion_publishes_nothing:
  assumes "bus_inv A (w_bus w)"
    and "run_stages (mem_publish_batch A) sha fault base ad w = (w1, run)" "sg_result run = Inr (f, snap, b, outs)"
  shows "run_stages (mem_publish_batch A) sha fault base ad w1 = (w1, run\<lparr>sg_result :=
      Inr (f, snap\<lparr>sn_created := False\<rparr>, b, map (\<lambda>r. r\<lparr>pr_deduplicated := True\<rparr>) outs)\<rparr>)"
proof -
  let ?path = "snapshot_path base (source_string (sa_name ad)) (fetched_at f) (sha (fetched_raw f)) (sa_extension ad)"
  obtain files bus where r: "sa_fetch ad = Inr f" "sa_normalize ad (fetched_raw f) (fetched_at f) = Inr b"
    "write_snapshot sha fault base (source_string (sa_name ad)) (fetched_at f) (fetched_raw f)
        (sa_extension ad) (w_files w) = (files, Inr snap)"
    "mem_publish_batch A (sb_events b) (w_bus w) = (bus, Inr outs)"
    "w1 = w\<lparr>w_files := files, w_bus := bus\<rparr>"
    "run = \<lparr>sg_stage = Publish, sg_transport = fetched_attempts f, sg_batch = Some b,
        sg_result = Inr (f, snap, b, outs)\<rparr>"
    using assms(2,3) by (auto simp: run_stages_def split: sum.splits prod.splits)
  have pub: "publish_many A (sb_events b) (w_bus w) = (bus, outs)"
    using r(4) by (auto simp: mem_publish_batch_def split: prod.splits)
  note spec = publish_many_spec [OF assms(1) pub]
  have "publish_many A (sb_events b) bus = (bus, map (\<lambda>r. r\<lparr>pr_deduplicated := True\<rparr>) outs)"
    using spec by (intro publish_many_again) auto
  then have again: "mem_publish_batch A (sb_events b) bus = (bus, Inr (map (\<lambda>r. r\<lparr>pr_deduplicated := True\<rparr>) outs))"
    by (simp add: mem_publish_batch_def)
  have "write_snapshot sha fault base (source_string (sa_name ad)) (fetched_at f) (fetched_raw f)
        (sa_extension ad) files = (files, Inr (snap\<lparr>sn_created := False\<rparr>))"
    using r(3) by (auto simp: write_snapshot_def Let_def split: option.splits if_splits)
  then show ?thesis using r again by (simp add: run_stages_def)
qed

theorem reingestion_publishes_nothing_witness:
  "\<exists>run. run_stages (mem_publish_batch sample_api) (\<lambda>s. s) (\<lambda>_. None) ''/data'' sample_adapter (fst sample_stages)
    = (fst sample_stages, run)"
proof -
  have run: "run_stages (mem_publish_batch sample_api) (\<lambda>s. s) (\<lambda>_. None) ''/data'' sample_adapter sample_world
      = (fst sample_stages, snd sample_stages)" by (simp add: sample_stages_def)
  obtain f snap b outs where "sg_result (snd sample_stages) = Inr (f, snap, b, outs)"
    using sample_stages_ok(2) by (auto simp: is_ok_iff)
  from reingestion_publishes_nothing [OF _ run this] show ?thesis
    using empty_bus_inv by (auto simp: sample_world_def)
qed

end
