(* ===== verification/SignalEvent.thy ===== *)
theory SignalEvent
  imports EventStream
begin

text \<open>
  The attributes of an event that the projection, the retrieval index and the correlation read. The
  class itself (\<open>agent_rag_core.Event\<close>) is not part of the repository.
\<close>

record signal_event =
  se_source :: string
  se_id :: string
  se_type :: string
  se_occurred :: datetime
  se_ingested :: datetime
  se_schema_version :: string
  se_location :: "(rat \<times> rat) option"
  se_payload :: "(string \<times> json) list"

text \<open>Events for the witnesses.\<close>

definition sample_event :: "string \<Rightarrow> signal_event" where
  "sample_event i = \<lparr>se_source = ''usgs'', se_id = i, se_type = ''earthquake'', se_occurred = utc 0,
     se_ingested = utc 0, se_schema_version = ''1'', se_location = Some (10, 20),
     se_payload = [(''severity_rank'', JInt 2)]\<rparr>"

definition sample_event_api :: "signal_event event_api" where
  "sample_event_api = \<lparr>ev_dump = \<lambda>e. JStr (se_id e), ev_json = se_id, ev_load = \<lambda>s. Inr (sample_event s),
     ev_sha256 = (\<lambda>s. s), ev_float = sample_float_text\<rparr>"

end
