(* ===== verification/Projection.thy ===== *)
theory Projection
  imports SignalEvent
begin

text \<open>
  The durable current-signal projection: query contracts (\<open>projections/base.py\<close>), the transactional
  store (\<open>projections/postgres.py\<close>) and the cycle that reads the stream strictly after the durable
  checkpoint (\<open>projections/service.py\<close>). The SQL statements are modelled by what they do to three
  tables, with the constraints the migration declares; a statement that violates one raises and the
  transaction rolls back. PostGIS predicates and the event codec are arguments. The correlation query
  is not modelled here.
\<close>

section \<open>Query contracts\<close>

text \<open>Coordinates are finite floats here, so the \<open>isfinite\<close> tests hold.\<close>

record geo_bounds =
  gb_west :: rat
  gb_south :: rat
  gb_east :: rat
  gb_north :: rat

definition validate_bounds :: "geo_bounds \<Rightarrow> geo_bounds res" where
  "validate_bounds b = raise_first
     [(\<not> (- 180 \<le> gb_west b \<and> gb_west b \<le> 180) \<or> \<not> (- 180 \<le> gb_east b \<and> gb_east b \<le> 180),
       ''longitude must be within [-180, 180]''),
      (\<not> (- 90 \<le> gb_south b \<and> gb_south b \<le> 90) \<or> \<not> (- 90 \<le> gb_north b \<and> gb_north b \<le> 90),
       ''latitude must be within [-90, 90]''),
      (gb_east b \<le> gb_west b, ''west must be smaller than east''),
      (gb_north b \<le> gb_south b, ''south must be smaller than north'')] b"

record signal_query =
  sq_limit :: nat
  sq_after :: "string option"
  sq_source :: "string option"
  sq_min_severity :: "int option"
  sq_occurred_after :: "datetime option"
  sq_occurred_before :: "datetime option"
  sq_bounds :: "geo_bounds option"
  sq_include_area_only :: bool
  sq_active_only :: bool

record 'e signal_page =
  sp_items :: "'e stream_message list"
  sp_next_cursor :: "string option"
  sp_has_more :: bool

record correlation_query =
  cq_radius_km :: rat
  cq_time_window_minutes :: int
  cq_lookback_hours :: int
  cq_edge_limit :: int
  cq_bounds :: "geo_bounds option"
  cq_active_only :: bool

definition validate_correlation_query :: "correlation_query \<Rightarrow> correlation_query res" where
  "validate_correlation_query q = raise_first
     [(\<not> (0 < cq_radius_km q \<and> cq_radius_km q \<le> 500), ''correlation radius_km must be within (0, 500]''),
      (\<not> (1 \<le> cq_time_window_minutes q \<and> cq_time_window_minutes q \<le> 1440),
       ''correlation time_window_minutes must be between 1 and 1440''),
      (\<not> (1 \<le> cq_lookback_hours q \<and> cq_lookback_hours q \<le> 168),
       ''correlation lookback_hours must be between 1 and 168''),
      (\<not> (1 \<le> cq_edge_limit q \<and> cq_edge_limit q \<le> 5000),
       ''correlation edge_limit must be between 1 and 5000'')] q"

section \<open>Rows\<close>

record revision =
  rv_stream_id :: string
  rv_position :: "nat \<times> nat"
  rv_source :: string
  rv_event_id :: string
  rv_type :: string
  rv_occurred :: datetime
  rv_ingested :: datetime
  rv_json :: string
  rv_point :: "(rat \<times> rat) option"
  rv_footprint :: "string option"
  rv_severity :: "int option"
  rv_magnitude :: "json option"
  rv_expires :: "datetime option"
  rv_place :: "string option"
  rv_title :: "string option"

definition parse_stream_id :: "string \<Rightarrow> (nat \<times> nat) res" where
  "parse_stream_id s = (case decimal_position s of
     Some p \<Rightarrow> Inr p | None \<Rightarrow> Inl (ValueError (''invalid stream id: '' @ s)))"

definition payload_number :: "json option \<Rightarrow> json option" where
  "payload_number v = (case v of
     Some (JInt i) \<Rightarrow> Some (JFloat (fl (of_int i)))
   | Some (JFloat x) \<Rightarrow> Some (JFloat x)
   | Some (JNonFinite n) \<Rightarrow> Some (JNonFinite n)
   | _ \<Rightarrow> None)"

definition payload_integer :: "json option \<Rightarrow> int option" where
  "payload_integer v = (case v of Some (JInt i) \<Rightarrow> Some i | _ \<Rightarrow> None)"

definition payload_text :: "json option \<Rightarrow> string option" where
  "payload_text v = (case v of Some (JStr s) \<Rightarrow> Some s | _ \<Rightarrow> None)"

text \<open>\<open>datetime.fromisoformat\<close> is an argument; a naive result counts as no timestamp.\<close>

definition payload_datetime :: "(string \<Rightarrow> datetime option) \<Rightarrow> json option \<Rightarrow> datetime option" where
  "payload_datetime fromisoformat v = (case v of
     Some (JStr s) \<Rightarrow> (case fromisoformat (replace_all ''Z'' ''+00:00'' s) of
         Some t \<Rightarrow> if dt_off t = None then None else Some t
       | None \<Rightarrow> None)
   | _ \<Rightarrow> None)"

record event_codec =
  ec_dump :: "signal_event \<Rightarrow> string"
  ec_load :: "string \<Rightarrow> signal_event res"
  ec_float :: "rat \<Rightarrow> string"
  ec_fromisoformat :: "string \<Rightarrow> datetime option"

definition footprint_json :: "(rat \<Rightarrow> string) \<Rightarrow> json option \<Rightarrow> string option" where
  "footprint_json fr geometry = (case geometry of
     Some (JObj members) \<Rightarrow>
       if map_of members ''type'' \<in> {Some (JStr ''Polygon''), Some (JStr ''MultiPolygon'')}
       then Some (dumps True fr (JObj members)) else None
   | _ \<Rightarrow> None)"

definition projection_values :: "event_codec \<Rightarrow> signal_event stream_message \<Rightarrow> revision res" where
  "projection_values C m = (let e = sm_event m; payload = map_of (se_payload e) in
     rbind (parse_stream_id (sm_stream_id m)) (\<lambda>p. Inr
       \<lparr>rv_stream_id = sm_stream_id m, rv_position = p, rv_source = se_source e, rv_event_id = se_id e,
        rv_type = se_type e, rv_occurred = se_occurred e, rv_ingested = se_ingested e,
        rv_json = ec_dump C e, rv_point = se_location e,
        rv_footprint = footprint_json (ec_float C) (payload ''geometry''),
        rv_severity = payload_integer (payload ''severity_rank''),
        rv_magnitude = payload_number (payload ''magnitude''),
        rv_expires = payload_datetime (ec_fromisoformat C) (payload ''expires_at''),
        rv_place = payload_text (payload ''place''), rv_title = payload_text (payload ''title'')\<rparr>))"

section \<open>The tables\<close>

type_synonym signal_key = "string \<times> string"

record tables =
  tb_revisions :: "revision list"
  tb_current :: "(signal_key \<times> string \<times> nat \<times> nat) list"
  tb_checkpoints :: "(string \<times> string \<times> nat \<times> nat) list"

definition empty_tables :: tables where
  "empty_tables = \<lparr>tb_revisions = [], tb_current = [], tb_checkpoints = []\<rparr>"

definition revision_key :: "revision \<Rightarrow> signal_key" where
  "revision_key r = (rv_source r, rv_event_id r)"

text \<open>\<open>ON CONFLICT (stream_id) DO NOTHING\<close>.\<close>

definition insert_revision :: "revision list \<Rightarrow> revision \<Rightarrow> revision list" where
  "insert_revision rs r = (if rv_stream_id r \<in> set (map rv_stream_id rs) then rs else rs @ [r])"

text \<open>\<open>ON CONFLICT ... DO UPDATE ... WHERE\<close> the stored position is before the new one.\<close>

fun upsert_newer :: "('k \<times> string \<times> nat \<times> nat) list \<Rightarrow> 'k \<Rightarrow> string \<times> nat \<times> nat \<Rightarrow> ('k \<times> string \<times> nat \<times> nat) list" where
  "upsert_newer [] k v = [(k, v)]"
| "upsert_newer ((k', v') # rows) k v = (if k' = k then (if snd v' < snd v then (k, v) # rows else (k', v') # rows)
     else (k', v') # upsert_newer rows k v)"

text \<open>The column types and the check constraint of the revision table, and the foreign key from the
current row to its revision.\<close>

definition revision_admissible :: "(string \<Rightarrow> bool) \<Rightarrow> revision \<Rightarrow> bool" where
  "revision_admissible geojson_ok r \<longleftrightarrow> length (rv_stream_id r) \<le> 64 \<and> length (rv_source r) \<le> 64
     \<and> length (rv_event_id r) \<le> 200 \<and> length (rv_type r) \<le> 128
     \<and> fst (rv_position r) < 2 ^ 63 \<and> snd (rv_position r) < 2 ^ 63
     \<and> (case rv_severity r of None \<Rightarrow> True | Some s \<Rightarrow> 0 \<le> s \<and> s \<le> 4)
     \<and> (case rv_footprint r of None \<Rightarrow> True | Some g \<Rightarrow> geojson_ok g)"

definition insert_revisions :: "(string \<Rightarrow> bool) \<Rightarrow> revision list \<Rightarrow> tables \<Rightarrow> tables res" where
  "insert_revisions geojson_ok values t =
     (if list_all (revision_admissible geojson_ok) values
      then Inr (t\<lparr>tb_revisions := foldl insert_revision (tb_revisions t) values\<rparr>)
      else Inl (DatabaseError ''event_revisions row is not admissible''))"

definition references_ok :: "revision list \<Rightarrow> (signal_key \<times> string \<times> nat \<times> nat) list \<Rightarrow> bool" where
  "references_ok revs rows \<longleftrightarrow> list_all (\<lambda>(k, sid, p).
     list_ex (\<lambda>r. rv_stream_id r = sid \<and> revision_key r = k) revs) rows"

definition upsert_current :: "revision list \<Rightarrow> tables \<Rightarrow> tables res" where
  "upsert_current values t =
     (let cur = foldl (\<lambda>c r. upsert_newer c (revision_key r) (rv_stream_id r, rv_position r)) (tb_current t) values in
      if references_ok (tb_revisions t) cur
      then Inr (t\<lparr>tb_current := cur\<rparr>)
      else Inl (DatabaseError ''fk_current_signals_revision_identity''))"

definition upsert_checkpoint :: "string \<Rightarrow> string \<Rightarrow> nat \<times> nat \<Rightarrow> tables \<Rightarrow> tables" where
  "upsert_checkpoint name sid p t = t\<lparr>tb_checkpoints := upsert_newer (tb_checkpoints t) name (sid, p)\<rparr>"

definition checkpoint :: "tables \<Rightarrow> string \<Rightarrow> string option" where
  "checkpoint t name = map_option fst (map_of (tb_checkpoints t) name)"

text \<open>\<open>project\<close>: the three statements in one transaction.\<close>

definition project ::
  "event_codec \<Rightarrow> (string \<Rightarrow> bool) \<Rightarrow> string \<Rightarrow> signal_event stream_message list \<Rightarrow> tables \<Rightarrow> tables \<times> unit res" where
  "project C geojson_ok name messages t =
     (if messages = [] then (t, Inr ())
      else case rmap (\<lambda>m. parse_stream_id (sm_stream_id m)) messages of
        Inl e \<Rightarrow> (t, Inl e)
      | Inr positions \<Rightarrow>
          if positions \<noteq> sorted_set positions
          then (t, Inl (ValueError ''projection batches must contain unique oldest-first stream IDs''))
          else case rbind (rmap (projection_values C) messages) (\<lambda>values.
                 rbind (insert_revisions geojson_ok values t) (\<lambda>t1.
                 rbind (upsert_current values t1) (\<lambda>t2.
                   Inr (upsert_checkpoint name (sm_stream_id (last messages)) (last positions) t2)))) of
            Inl e \<Rightarrow> (t, Inl e)
          | Inr t' \<Rightarrow> (t', Inr ()))"

section \<open>The cycle\<close>

record projection_cycle =
  pc_name :: string
  pc_previous :: "string option"
  pc_checkpoint :: "string option"
  pc_projected :: nat

definition project_once ::
  "('bus \<Rightarrow> string option \<Rightarrow> int \<Rightarrow> 'e stream_message list res)
   \<Rightarrow> ('db \<Rightarrow> string \<Rightarrow> string option) \<Rightarrow> (string \<Rightarrow> 'e stream_message list \<Rightarrow> 'db \<Rightarrow> 'db \<times> unit res)
   \<Rightarrow> string \<Rightarrow> int \<Rightarrow> 'bus \<Rightarrow> 'db \<Rightarrow> 'db \<times> projection_cycle res" where
  "project_once replay_page get_checkpoint project_batch name batch_size bus db =
     (let previous = get_checkpoint db name in
      case replay_page bus previous batch_size of
        Inl e \<Rightarrow> (db, Inl e)
      | Inr messages \<Rightarrow>
          if messages = [] then (db, Inr \<lparr>pc_name = name, pc_previous = previous,
            pc_checkpoint = previous, pc_projected = 0\<rparr>)
          else case project_batch name messages db of
            (db', Inl e) \<Rightarrow> (db', Inl e)
          | (db', Inr u) \<Rightarrow> (db', Inr \<lparr>pc_name = name, pc_previous = previous,
              pc_checkpoint = Some (sm_stream_id (last messages)), pc_projected = length messages\<rparr>))"

section \<open>Reading current signals\<close>

datatype geometry = Footprint string | PointAt "rat \<times> rat"

definition spatial_match :: "(geometry \<Rightarrow> geo_bounds \<Rightarrow> bool) \<Rightarrow> bool \<Rightarrow> geo_bounds \<Rightarrow> revision \<Rightarrow> bool" where
  "spatial_match intersects area_only b r \<longleftrightarrow>
     (case (rv_footprint r, rv_point r) of
        (Some g, _) \<Rightarrow> intersects (Footprint g) b
      | (None, Some p) \<Rightarrow> intersects (PointAt p) b
      | (None, None) \<Rightarrow> area_only)"

definition row_matches ::
  "(geometry \<Rightarrow> geo_bounds \<Rightarrow> bool) \<Rightarrow> datetime \<Rightarrow> signal_query \<Rightarrow> (nat \<times> nat) option \<Rightarrow> nat \<times> nat \<Rightarrow> revision \<Rightarrow> bool" where
  "row_matches intersects now q cursor p r \<longleftrightarrow>
     (case sq_source q of None \<Rightarrow> True | Some s \<Rightarrow> rv_source r = s)
   \<and> (case sq_min_severity q of None \<Rightarrow> True
      | Some k \<Rightarrow> (case rv_severity r of None \<Rightarrow> False | Some s \<Rightarrow> k \<le> s))
   \<and> (case sq_occurred_after q of None \<Rightarrow> True | Some t \<Rightarrow> dt_us t \<le> dt_us (rv_occurred r))
   \<and> (case sq_occurred_before q of None \<Rightarrow> True | Some t \<Rightarrow> dt_us (rv_occurred r) \<le> dt_us t)
   \<and> (sq_active_only q \<longrightarrow> (case rv_expires r of None \<Rightarrow> True | Some t \<Rightarrow> dt_us now < dt_us t))
   \<and> (case cursor of None \<Rightarrow> True | Some c \<Rightarrow> p < c)
   \<and> (case sq_bounds q of None \<Rightarrow> True | Some b \<Rightarrow> spatial_match intersects (sq_include_area_only q) b r)"

text \<open>The join of the current rows with their revisions, newest first.\<close>

definition current_revisions :: "tables \<Rightarrow> ((nat \<times> nat) \<times> revision) list" where
  "current_revisions t = sorted_desc fst (concat (map (\<lambda>(k, sid, p).
     map (\<lambda>r. (p, r)) (filter (\<lambda>r. rv_stream_id r = sid) (tb_revisions t))) (tb_current t)))"

definition query_current ::
  "event_codec \<Rightarrow> (geometry \<Rightarrow> geo_bounds \<Rightarrow> bool) \<Rightarrow> datetime \<Rightarrow> tables \<Rightarrow> signal_query
     \<Rightarrow> signal_event signal_page res" where
  "query_current C intersects now t q =
     rbind (case sq_after q of None \<Rightarrow> Inr None | Some a \<Rightarrow> rbind (parse_stream_id a) (\<lambda>p. Inr (Some p)))
       (\<lambda>cursor.
         let rows = take (sq_limit q + 1)
               (filter (\<lambda>(p, r). row_matches intersects now q cursor p r) (current_revisions t)) in
         rbind (rmap (\<lambda>(p, r). rbind (ec_load C (rv_json r)) (\<lambda>e.
             Inr \<lparr>sm_stream_id = rv_stream_id r, sm_event = e\<rparr>)) (take (sq_limit q) rows)) (\<lambda>messages.
           Inr \<lparr>sp_items = messages,
             sp_next_cursor = (if messages = [] then None else Some (sm_stream_id (last messages))),
             sp_has_more = (sq_limit q < length rows)\<rparr>))"


section \<open>Upserts\<close>

lemma upsert_newer_map: "map_of (upsert_newer rows k v) = (map_of rows)(k \<mapsto>
    (case map_of rows k of None \<Rightarrow> v | Some v' \<Rightarrow> if snd v' < snd v then v else v'))"
  by (induction rows k v rule: upsert_newer.induct) auto

lemma upsert_newer_keys: "set (map fst (upsert_newer rows k v)) = insert k (set (map fst rows))"
  by (induction rows k v rule: upsert_newer.induct) auto

lemma upsert_newer_distinct: "distinct (map fst rows) \<Longrightarrow> distinct (map fst (upsert_newer rows k v))"
proof (induction rows k v rule: upsert_newer.induct)
  case (2 k' v' rows k v)
  then show ?case using upsert_newer_keys [of rows k v] by auto
qed simp

abbreviation upsert_row :: "(signal_key \<times> string \<times> nat \<times> nat) list \<Rightarrow> revision \<Rightarrow> (signal_key \<times> string \<times> nat \<times> nat) list" where
  "upsert_row c r \<equiv> upsert_newer c (revision_key r) (rv_stream_id r, rv_position r)"

lemma fold_upsert_distinct: "distinct (map fst c) \<Longrightarrow> distinct (map fst (foldl upsert_row c rs))"
  by (induction rs arbitrary: c) (simp_all add: upsert_newer_distinct)

lemma fold_upsert_origin:
  "map_of (foldl upsert_row c rs) k = Some v \<Longrightarrow>
   map_of c k = Some v \<or> (\<exists>r \<in> set rs. revision_key r = k \<and> v = (rv_stream_id r, rv_position r))"
proof (induction rs arbitrary: c)
  case (Cons r rs)
  then have "map_of (upsert_row c r) k = Some v
      \<or> (\<exists>r \<in> set rs. revision_key r = k \<and> v = (rv_stream_id r, rv_position r))" by simp
  then show ?case by (auto simp: upsert_newer_map split: if_splits option.splits)
qed simp

lemma upsert_row_grows:
  "map_of c k = Some v \<Longrightarrow> \<exists>v'. map_of (upsert_row c r) k = Some v' \<and> snd v \<le> snd v'"
  by (cases "k = revision_key r"; cases "snd v < rv_position r") (simp_all add: upsert_newer_map less_imp_le)

lemma upsert_row_covers: "\<exists>v. map_of (upsert_row c r) (revision_key r) = Some v \<and> rv_position r \<le> snd v"
proof (cases "map_of c (revision_key r)")
  case None
  then show ?thesis by (simp add: upsert_newer_map)
next
  case (Some v)
  then show ?thesis by (cases "snd v < rv_position r") (simp_all add: upsert_newer_map not_less)
qed

lemma fold_upsert_grows:
  "map_of c k = Some v \<Longrightarrow> \<exists>v'. map_of (foldl upsert_row c rs) k = Some v' \<and> snd v \<le> snd v'"
proof (induction rs arbitrary: c v)
  case (Cons r rs)
  obtain v1 where v1: "map_of (upsert_row c r) k = Some v1" "snd v \<le> snd v1"
    using upsert_row_grows [OF Cons.prems] by blast
  obtain v' where "map_of (foldl upsert_row (upsert_row c r) rs) k = Some v'" "snd v1 \<le> snd v'"
    using Cons.IH [OF v1(1)] by blast
  then show ?case using order_trans [OF v1(2)] unfolding foldl_Cons by blast
qed simp

lemma fold_upsert_covers:
  "r \<in> set rs \<Longrightarrow> \<exists>v. map_of (foldl upsert_row c rs) (revision_key r) = Some v \<and> rv_position r \<le> snd v"
proof (induction rs arbitrary: c)
  case (Cons r' rs)
  show ?case
  proof (cases "r \<in> set rs")
    case True
    then show ?thesis using Cons.IH unfolding foldl_Cons by blast
  next
    case False
    then have r: "r' = r" using Cons.prems by simp
    obtain v where v: "map_of (upsert_row c r) (revision_key r) = Some v" "rv_position r \<le> snd v"
      using upsert_row_covers by blast
    obtain v' where "map_of (foldl upsert_row (upsert_row c r) rs) (revision_key r) = Some v'" "snd v \<le> snd v'"
      using fold_upsert_grows [OF v(1)] by blast
    then show ?thesis using order_trans [OF v(2)] unfolding foldl_Cons r by blast
  qed
qed simp

section \<open>Inserting revisions\<close>

lemma insert_revision_ids: "set (map rv_stream_id (insert_revision rs r)) = insert (rv_stream_id r) (set (map rv_stream_id rs))"
  by (auto simp: insert_revision_def)

lemma fold_insert_prefix: "\<exists>new. foldl insert_revision rs vs = rs @ new \<and> set new \<subseteq> set vs"
proof (induction vs arbitrary: rs)
  case (Cons v vs)
  obtain new where new: "foldl insert_revision (insert_revision rs v) vs = insert_revision rs v @ new"
    "set new \<subseteq> set vs" using Cons by blast
  have "\<exists>n1. insert_revision rs v = rs @ n1 \<and> set n1 \<subseteq> {v}" by (auto simp: insert_revision_def)
  then obtain n1 where n1: "insert_revision rs v = rs @ n1" "set n1 \<subseteq> {v}" by blast
  have "foldl insert_revision rs (v # vs) = rs @ (n1 @ new)" using new(1) n1(1) by simp
  moreover have "set (n1 @ new) \<subseteq> set (v # vs)" using new(2) n1(2) by auto
  ultimately show ?case by blast
qed simp

lemma fold_insert_distinct:
  "distinct (map rv_stream_id rs) \<Longrightarrow> distinct (map rv_stream_id (foldl insert_revision rs vs))"
  by (induction vs arbitrary: rs) (auto simp: insert_revision_def)

lemma fold_insert_covers: "v \<in> set vs \<Longrightarrow> rv_stream_id v \<in> set (map rv_stream_id (foldl insert_revision rs vs))"
proof (induction vs arbitrary: rs)
  case (Cons v' vs)
  show ?case
  proof (cases "v \<in> set vs")
    case True
    then show ?thesis using Cons.IH unfolding foldl_Cons by blast
  next
    case False
    then have "v' = v" using Cons.prems by simp
    moreover obtain new where "foldl insert_revision (insert_revision rs v) vs = insert_revision rs v @ new"
      using fold_insert_prefix by blast
    ultimately show ?thesis using insert_revision_ids [of rs v] unfolding foldl_Cons by auto
  qed
qed simp

lemma fold_insert_fresh:
  "distinct (map rv_stream_id (rs @ vs)) \<Longrightarrow> foldl insert_revision rs vs = rs @ vs"
proof (induction vs arbitrary: rs)
  case (Cons v vs)
  then have "insert_revision rs v = rs @ [v]" by (auto simp: insert_revision_def)
  then show ?case using Cons.IH [of "rs @ [v]"] Cons.prems by simp
qed simp

lemma fold_insert_known:
  "set (map rv_stream_id vs) \<subseteq> set (map rv_stream_id rs) \<Longrightarrow> foldl insert_revision rs vs = rs"
  by (induction vs) (auto simp: insert_revision_def)

section \<open>The tables stay coherent\<close>

definition tables_inv :: "tables \<Rightarrow> bool" where
  "tables_inv t \<longleftrightarrow> distinct (map rv_stream_id (tb_revisions t))
     \<and> (\<forall>r \<in> set (tb_revisions t). decimal_position (rv_stream_id r) = Some (rv_position r))
     \<and> distinct (map fst (tb_current t))
     \<and> (\<forall>k sid p. map_of (tb_current t) k = Some (sid, p) \<longrightarrow>
          (\<exists>r \<in> set (tb_revisions t). rv_stream_id r = sid \<and> rv_position r = p \<and> revision_key r = k))
     \<and> (\<forall>r \<in> set (tb_revisions t). \<exists>v. map_of (tb_current t) (revision_key r) = Some v \<and> rv_position r \<le> snd v)"

lemma empty_tables_inv: "tables_inv empty_tables"
  by (simp add: tables_inv_def empty_tables_def)

lemma projection_values_Inr:
  "projection_values C m = Inr r \<Longrightarrow> rv_stream_id r = sm_stream_id m
    \<and> decimal_position (sm_stream_id m) = Some (rv_position r) \<and> revision_key r = (se_source (sm_event m), se_id (sm_event m))"
  by (auto simp: projection_values_def parse_stream_id_def revision_key_def Let_def split: option.splits)

text \<open>The tables after the three statements.\<close>

definition committed :: "string \<Rightarrow> string \<times> nat \<times> nat \<Rightarrow> revision list \<Rightarrow> tables \<Rightarrow> tables" where
  "committed name v vals t = \<lparr>tb_revisions = foldl insert_revision (tb_revisions t) vals,
     tb_current = foldl upsert_row (tb_current t) vals,
     tb_checkpoints = upsert_newer (tb_checkpoints t) name v\<rparr>"

lemma project_commit:
  "rbind (insert_revisions g vals t) (\<lambda>t1. rbind (upsert_current vals t1) (\<lambda>t2.
     Inr (upsert_checkpoint name sid p t2))) =
   (if \<not> list_all (revision_admissible g) vals then Inl (DatabaseError ''event_revisions row is not admissible'')
    else if \<not> references_ok (foldl insert_revision (tb_revisions t) vals) (foldl upsert_row (tb_current t) vals)
    then Inl (DatabaseError ''fk_current_signals_revision_identity'')
    else Inr (committed name (sid, p) vals t))"
  by (simp add: insert_revisions_def upsert_current_def upsert_checkpoint_def committed_def Let_def)

lemma project_Inr:
  "project C g name ms t = (t', Inr u) \<longleftrightarrow>
     (if ms = [] then t' = t else
       \<exists>positions vals. rmap (\<lambda>m. parse_stream_id (sm_stream_id m)) ms = Inr positions
         \<and> sorted positions \<and> distinct positions \<and> rmap (projection_values C) ms = Inr vals
         \<and> list_all (revision_admissible g) vals
         \<and> references_ok (foldl insert_revision (tb_revisions t) vals) (foldl upsert_row (tb_current t) vals)
         \<and> t' = committed name (sm_stream_id (last ms), last positions) vals t)"
proof (cases "rmap (\<lambda>m. parse_stream_id (sm_stream_id m)) ms")
  case (Inl e)
  then show ?thesis by (auto simp: project_def)
next
  case pos: (Inr positions)
  show ?thesis
  proof (cases "rmap (projection_values C) ms")
    case (Inl e)
    then show ?thesis using pos by (auto simp: project_def)
  next
    case (Inr vals)
    then show ?thesis
      using pos by (auto simp: project_def project_commit sorted_set_fixpoint)
  qed
qed

lemma project_inv:
  assumes "tables_inv t" "project C g name ms t = (t', Inr u)"
  shows "tables_inv t'"
proof (cases "ms = []")
  case True
  then show ?thesis using assms by (simp add: project_Inr)
next
  case False
  let ?revs = "\<lambda>vals. foldl insert_revision (tb_revisions t) vals"
  obtain vals where v: "rmap (projection_values C) ms = Inr vals"
    and ref: "references_ok (?revs vals) (foldl upsert_row (tb_current t) vals)"
    and t': "tb_revisions t' = ?revs vals" "tb_current t' = foldl upsert_row (tb_current t) vals"
    using assms(2) False by (auto simp: project_Inr committed_def)
  have fk: "\<exists>r \<in> set (?revs vals). rv_stream_id r = sid \<and> revision_key r = k"
    if "(k, sid, p) \<in> set (foldl upsert_row (tb_current t) vals)" for k sid p
    using ref that unfolding references_ok_def list_all_iff list_ex_iff by fast
  have vpos: "decimal_position (rv_stream_id r) = Some (rv_position r)" if "r \<in> set vals" for r
    using v that projection_values_Inr by (fastforce simp: rmap_eq_Inr list_all2_conv_all_nth in_set_conv_nth)
  obtain new where new: "?revs vals = tb_revisions t @ new" "set new \<subseteq> set vals"
    using fold_insert_prefix by blast
  have inv: "distinct (map rv_stream_id (tb_revisions t))" "distinct (map fst (tb_current t))"
    "\<And>r. r \<in> set (tb_revisions t) \<Longrightarrow> decimal_position (rv_stream_id r) = Some (rv_position r)"
    "\<And>k sid p. map_of (tb_current t) k = Some (sid, p) \<Longrightarrow>
       \<exists>r \<in> set (tb_revisions t). rv_stream_id r = sid \<and> rv_position r = p \<and> revision_key r = k"
    "\<And>r. r \<in> set (tb_revisions t) \<Longrightarrow> \<exists>v. map_of (tb_current t) (revision_key r) = Some v \<and> rv_position r \<le> snd v"
    using assms(1) unfolding tables_inv_def by blast+
  have rpos: "decimal_position (rv_stream_id r) = Some (rv_position r)" if "r \<in> set (?revs vals)" for r
    using that new inv(3) vpos by auto
  have entry: "\<exists>r \<in> set (?revs vals). rv_stream_id r = sid \<and> rv_position r = p \<and> revision_key r = k"
    if cur: "map_of (foldl upsert_row (tb_current t) vals) k = Some (sid, p)" for k sid p
  proof -
    obtain r where r: "r \<in> set (?revs vals)" "rv_stream_id r = sid" "revision_key r = k"
      using fk [OF map_of_SomeD [OF cur]] by blast
    have "decimal_position sid = Some p"
      using fold_upsert_origin [OF cur]
    proof
      assume "map_of (tb_current t) k = Some (sid, p)"
      from inv(4) [OF this] obtain q where "q \<in> set (tb_revisions t)" "rv_stream_id q = sid" "rv_position q = p"
        by blast
      then show ?thesis using inv(3) by blast
    next
      assume "\<exists>q \<in> set vals. revision_key q = k \<and> (sid, p) = (rv_stream_id q, rv_position q)"
      then show ?thesis using vpos by auto
    qed
    then have "rv_position r = p" using rpos [OF r(1)] r(2) by simp
    then show ?thesis using r by blast
  qed
  have covered: "\<exists>v. map_of (foldl upsert_row (tb_current t) vals) (revision_key r) = Some v \<and> rv_position r \<le> snd v"
    if "r \<in> set (?revs vals)" for r
  proof (cases "r \<in> set vals")
    case True
    then show ?thesis by (rule fold_upsert_covers)
  next
    case False
    then have "r \<in> set (tb_revisions t)" using that new by auto
    then obtain v where "map_of (tb_current t) (revision_key r) = Some v" "rv_position r \<le> snd v"
      using inv(5) by blast
    then show ?thesis using fold_upsert_grows [of "tb_current t" "revision_key r" v vals] order_trans by blast
  qed
  show ?thesis
    unfolding tables_inv_def t'
    using fold_insert_distinct [OF inv(1)] fold_upsert_distinct [OF inv(2)] rpos entry covered by blast
qed


section \<open>Reachable tables\<close>

inductive tables_reachable :: "event_codec \<Rightarrow> (string \<Rightarrow> bool) \<Rightarrow> tables \<Rightarrow> bool" for C g where
  empty: "tables_reachable C g empty_tables"
| project: "tables_reachable C g t \<Longrightarrow> project C g name ms t = (t', r) \<Longrightarrow> tables_reachable C g t'"

lemma project_Inl: "project C g name ms t = (t', Inl e) \<Longrightarrow> t' = t"
  by (auto simp: project_def split: if_splits sum.splits)

lemma tables_reachable_inv: "tables_reachable C g t \<Longrightarrow> tables_inv t"
proof (induction rule: tables_reachable.induct)
  case (project t name ms t' r)
  then show ?case by (cases r) (auto dest: project_Inl project_inv)
qed (rule empty_tables_inv)

text \<open>C25. The current row of a signal is its newest revision, whatever the order, repetition or
failure of the projected batches, and whichever projections wrote them: its revision exists, belongs
to the signal, and no stored revision of the signal has a later position; and every signal with a
revision has a current row.\<close>

theorem current_signal_is_newest_revision:
  assumes "tables_reachable C g t"
  shows "(\<forall>k sid p. map_of (tb_current t) k = Some (sid, p) \<longrightarrow>
      (\<exists>r \<in> set (tb_revisions t). rv_stream_id r = sid \<and> rv_position r = p \<and> revision_key r = k)
      \<and> (\<forall>r \<in> set (tb_revisions t). revision_key r = k \<longrightarrow> rv_position r \<le> p))
    \<and> (\<forall>r \<in> set (tb_revisions t). map_of (tb_current t) (revision_key r) \<noteq> None)"
proof -
  have inv: "tables_inv t" using assms by (rule tables_reachable_inv)
  have cov: "\<exists>v. map_of (tb_current t) (revision_key r) = Some v \<and> rv_position r \<le> snd v"
    if "r \<in> set (tb_revisions t)" for r
    using inv that unfolding tables_inv_def by blast
  have own: "\<exists>r \<in> set (tb_revisions t). rv_stream_id r = sid \<and> rv_position r = p \<and> revision_key r = k"
    if "map_of (tb_current t) k = Some (sid, p)" for k sid p
    using inv that unfolding tables_inv_def by blast
  have "rv_position r \<le> p" if "map_of (tb_current t) k = Some (sid, p)" "r \<in> set (tb_revisions t)" "revision_key r = k" for k sid p r
    using cov [OF that(2)] that(1,3) by auto
  with own cov show ?thesis by fastforce
qed

text \<open>Projecting a committed batch again changes nothing: no revision is added or replaced, no
current row moves, and the checkpoint stays.\<close>

theorem projection_idempotent:
  assumes "project C g name ms t = (t', Inr ())"
  shows "project C g name ms t' = (t', Inr ())"
proof (cases "ms = []")
  case True
  then show ?thesis using assms by (simp add: project_Inr)
next
  case False
  obtain positions vals where p: "rmap (\<lambda>m. parse_stream_id (sm_stream_id m)) ms = Inr positions"
    "sorted positions" "distinct positions" "rmap (projection_values C) ms = Inr vals"
    "list_all (revision_admissible g) vals"
    and ref: "references_ok (foldl insert_revision (tb_revisions t) vals) (foldl upsert_row (tb_current t) vals)"
    and t': "t' = committed name (sm_stream_id (last ms), last positions) vals t"
    using assms False by (auto simp: project_Inr)
  have rows: "foldl upsert_row c rs = c" if "\<forall>r \<in> set rs. \<exists>v. map_of c (revision_key r) = Some v \<and> rv_position r \<le> snd v" for c rs
  proof -
    have same: "upsert_newer c k v = c" if "map_of c k = Some v'" "snd v \<le> snd v'" for c :: "(signal_key \<times> string \<times> nat \<times> nat) list" and k v v'
      using that by (induction c) (auto simp: not_less [symmetric])
    show ?thesis using that by (induction rs) (auto simp: same)
  qed
  have "foldl insert_revision (foldl insert_revision (tb_revisions t) vals) vals
      = foldl insert_revision (tb_revisions t) vals"
    by (rule fold_insert_known) (use fold_insert_covers in force)
  moreover have "foldl upsert_row (foldl upsert_row (tb_current t) vals) vals = foldl upsert_row (tb_current t) vals"
    by (rule rows) (use fold_upsert_covers in blast)
  moreover have "upsert_newer (upsert_newer cs name v) name v = upsert_newer cs name v"
    for cs :: "(string \<times> string \<times> nat \<times> nat) list" and v
    by (induction cs) auto
  ultimately have "committed name (sm_stream_id (last ms), last positions) vals t' = t'"
    by (simp add: committed_def t')
  moreover have "tb_revisions t' = foldl insert_revision (tb_revisions t) vals"
    "tb_current t' = foldl upsert_row (tb_current t) vals" by (simp_all add: t' committed_def)
  ultimately show ?thesis
    using False p ref
      \<open>foldl insert_revision (foldl insert_revision (tb_revisions t) vals) vals = foldl insert_revision (tb_revisions t) vals\<close>
      \<open>foldl upsert_row (foldl upsert_row (tb_current t) vals) vals = foldl upsert_row (tb_current t) vals\<close>
    by (simp add: project_Inr)
qed


section \<open>The cycle over its interfaces\<close>

text \<open>
  What the cycle relies on in its store: a batch of acceptable messages in increasing order, all of them
  beyond what the store has absorbed and beyond the checkpoint, is committed, and then the checkpoint is
  its last id.
\<close>

locale projection_store =
  fixes get_checkpoint :: "'db \<Rightarrow> string \<Rightarrow> string option"
    and project_batch :: "string \<Rightarrow> 'e stream_message list \<Rightarrow> 'db \<Rightarrow> 'db \<times> unit res"
    and accepts :: "'e stream_message \<Rightarrow> bool"
    and absorbed :: "'db \<Rightarrow> 'e stream_message list \<Rightarrow> bool"
  assumes commit: "\<lbrakk>absorbed db old; ms \<noteq> []; list_all accepts ms; sorted_wrt (<) (map message_position (old @ ms));
      \<And>c. get_checkpoint db name = Some c \<Longrightarrow> the (decimal_position c) < message_position (last ms)\<rbrakk> \<Longrightarrow>
      \<exists>db'. project_batch name ms db = (db', Inr ()) \<and> absorbed db' (old @ ms)
        \<and> get_checkpoint db' name = Some (sm_stream_id (last ms))"

locale projection = event_log log replay_page bus_inv
    + projection_store get_checkpoint project_batch accepts absorbed
  for log :: "'bus \<Rightarrow> 'e stream_message list"
    and replay_page :: "'bus \<Rightarrow> string option \<Rightarrow> int \<Rightarrow> 'e stream_message list res"
    and bus_inv :: "'bus \<Rightarrow> bool"
    and get_checkpoint :: "'db \<Rightarrow> string \<Rightarrow> string option"
    and project_batch :: "string \<Rightarrow> 'e stream_message list \<Rightarrow> 'db \<Rightarrow> 'db \<times> unit res"
    and accepts :: "'e stream_message \<Rightarrow> bool"
    and absorbed :: "'db \<Rightarrow> 'e stream_message list \<Rightarrow> bool"
begin

text \<open>The database has absorbed the first \<open>k\<close> messages of the stream, and nothing else.\<close>

definition caught_up :: "string \<Rightarrow> 'bus \<Rightarrow> nat \<Rightarrow> 'db \<Rightarrow> bool" where
  "caught_up name b k db \<longleftrightarrow> k \<le> length (log b) \<and> absorbed db (take k (log b)) \<and> get_checkpoint db name = checkpoint_at b k"

lemma positions_increase:
  assumes "bus_inv b" "i < j" "j < length (log b)"
  shows "message_position (log b ! i) < message_position (log b ! j)"
  using increasing [OF assms(1)] assms(2,3) by (simp add: sorted_wrt_iff_nth_less)

lemma cycle_advances:
  assumes b: "bus_inv b" "list_all accepts (log b)" and up: "caught_up name b k db" and n: "1 \<le> n"
  shows "\<exists>db'. project_once replay_page get_checkpoint project_batch name n b db = (db', Inr
        \<lparr>pc_name = name, pc_previous = checkpoint_at b k,
         pc_checkpoint = checkpoint_at b (min (k + nat n) (length (log b))),
         pc_projected = min (nat n) (length (log b) - k)\<rparr>)
      \<and> caught_up name b (min (k + nat n) (length (log b))) db'"
proof -
  have k: "k \<le> length (log b)" and cp: "get_checkpoint db name = checkpoint_at b k"
    and st: "absorbed db (take k (log b))"
    using up by (auto simp: caught_up_def)
  let ?ms = "take (nat n) (drop k (log b))" and ?k' = "min (k + nat n) (length (log b))"
  have page: "replay_page b (checkpoint_at b k) n = Inr ?ms" using b(1) n k by (intro replay_checkpoint) auto
  show ?thesis
  proof (cases "k = length (log b)")
    case True
    then show ?thesis using page cp up by (simp add: project_once_def caught_up_def Let_def)
  next
    case False
    then have k': "k < length (log b)" using k by simp
    have nonempty: "log b \<noteq> []" using k' by auto
    have ne: "?ms \<noteq> []" using k' n by simp
    have len: "k + length ?ms = ?k'" using k' by simp
    have last: "last ?ms = log b ! (?k' - 1)"
    proof -
      have "last ?ms = ?ms ! (length ?ms - 1)" using ne by (rule last_conv_nth)
      also have "\<dots> = log b ! (k + (length ?ms - 1))" using ne by (subst nth_take) auto
      also have "k + (length ?ms - 1) = ?k' - 1" using ne len by (metis Nat.add_diff_assoc length_greater_0_conv less_eq_Suc_le One_nat_def)
      finally show ?thesis .
    qed
    have take: "take ?k' (log b) = take k (log b) @ ?ms"
      using take_add [of k "nat n" "log b"] by (simp add: min_def)
    have sorted: "sorted_wrt (<) (map message_position (take k (log b) @ ?ms))"
      unfolding take [symmetric] using increasing [OF b(1)] by (simp add: take_map [symmetric] sorted_wrt_take)
    have acc: "list_all accepts ?ms" using b(2) by (auto simp: list_all_iff dest: in_set_takeD in_set_dropD)
    have beyond: "the (decimal_position c) < message_position (last ?ms)" if "get_checkpoint db name = Some c" for c
    proof -
      have "0 < k" "c = sm_stream_id (log b ! (k - 1))"
        using that cp by (auto simp: checkpoint_at_def split: if_splits)
      moreover have "1 \<le> nat n" using n by simp
      then have "k - 1 < ?k' - 1" "?k' - 1 < length (log b)" using \<open>0 < k\<close> k' by (auto simp: min_def)
      then have "message_position (log b ! (k - 1)) < message_position (log b ! (?k' - 1))"
        by (rule positions_increase [OF b(1)])
      ultimately show ?thesis unfolding last by (simp add: message_position_def)
    qed
    obtain db' where db': "project_batch name ?ms db = (db', Inr ())" "absorbed db' (take ?k' (log b))"
      "get_checkpoint db' name = Some (sm_stream_id (last ?ms))"
      using commit [OF st ne acc sorted beyond] unfolding take by blast
    have at': "checkpoint_at b ?k' = Some (sm_stream_id (last ?ms))"
      using k' n nonempty by (simp add: checkpoint_at_def last)
    have "caught_up name b ?k' db'"
      using db' at' by (simp add: caught_up_def)
    moreover have "length ?ms = min (nat n) (length (log b) - k)" by simp
    ultimately show ?thesis using page cp ne db' at' by (auto simp: project_once_def Let_def)
  qed
qed

end

text \<open>A worker that runs cycles until one raises.\<close>

fun project_cycles ::
  "('bus \<Rightarrow> string option \<Rightarrow> int \<Rightarrow> 'e stream_message list res)
   \<Rightarrow> ('db \<Rightarrow> string \<Rightarrow> string option) \<Rightarrow> (string \<Rightarrow> 'e stream_message list \<Rightarrow> 'db \<Rightarrow> 'db \<times> unit res)
   \<Rightarrow> string \<Rightarrow> int \<Rightarrow> 'bus \<Rightarrow> nat \<Rightarrow> 'db \<Rightarrow> 'db \<times> unit res" where
  "project_cycles replay_page get_checkpoint project_batch name n b 0 db = (db, Inr ())"
| "project_cycles replay_page get_checkpoint project_batch name n b (Suc m) db =
     (case project_once replay_page get_checkpoint project_batch name n b db of
        (db', Inl e) \<Rightarrow> (db', Inl e)
      | (db', Inr c) \<Rightarrow> project_cycles replay_page get_checkpoint project_batch name n b m db')"

context projection
begin

lemma cycles_advance:
  assumes "bus_inv b" "list_all accepts (log b)" "1 \<le> n" "caught_up name b k db"
  shows "\<exists>db'. project_cycles replay_page get_checkpoint project_batch name n b m db = (db', Inr ())
      \<and> caught_up name b (min (k + m * nat n) (length (log b))) db'"
  using assms(4)
proof (induction m arbitrary: k db)
  case 0
  then show ?case by (simp add: caught_up_def min_absorb1)
next
  case (Suc m)
  obtain db1 c where one: "project_once replay_page get_checkpoint project_batch name n b db = (db1, Inr c)"
    "caught_up name b (min (k + nat n) (length (log b))) db1"
    using cycle_advances [OF assms(1,2) Suc.prems assms(3)] by blast
  have "min (min (k + nat n) (length (log b)) + m * nat n) (length (log b))
      = min (k + Suc m * nat n) (length (log b))" by (simp add: min_def)
  then show ?case using Suc.IH [OF one(2)] one(1) by simp
qed

end

section \<open>The tables provide the store\<close>

definition storable :: "event_codec \<Rightarrow> (string \<Rightarrow> bool) \<Rightarrow> signal_event stream_message \<Rightarrow> bool" where
  "storable C g m \<longleftrightarrow> (case projection_values C m of Inl e \<Rightarrow> False | Inr r \<Rightarrow> revision_admissible g r)"

definition tables_ok :: "tables \<Rightarrow> bool" where
  "tables_ok t \<longleftrightarrow> tables_inv t
     \<and> (\<forall>name sid p. map_of (tb_checkpoints t) name = Some (sid, p) \<longrightarrow> decimal_position sid = Some p)"

lemma references_fresh:
  assumes "tables_inv t"
  shows "references_ok (tb_revisions t @ vals) (foldl upsert_row (tb_current t) vals)"
proof -
  have dist: "distinct (map fst (foldl upsert_row (tb_current t) vals))"
    using assms by (intro fold_upsert_distinct) (simp add: tables_inv_def)
  have "\<exists>r \<in> set (tb_revisions t @ vals). rv_stream_id r = sid \<and> revision_key r = k"
    if "(k, sid, p) \<in> set (foldl upsert_row (tb_current t) vals)" for k sid p
  proof -
    have "map_of (foldl upsert_row (tb_current t) vals) k = Some (sid, p)"
      using dist that by simp
    from fold_upsert_origin [OF this] show ?thesis
    proof
      assume "map_of (tb_current t) k = Some (sid, p)"
      then show ?thesis using assms unfolding tables_inv_def by fastforce
    qed auto
  qed
  then show ?thesis by (auto simp: references_ok_def list_all_iff list_ex_iff)
qed

lemma project_commits:
  assumes t: "tables_ok t" and ms: "ms \<noteq> []" "list_all (storable C g) ms" "sorted_wrt (<) (map message_position ms)"
    and fresh: "set (map sm_stream_id ms) \<inter> set (map rv_stream_id (tb_revisions t)) = {}"
    and beyond: "\<And>c. checkpoint t name = Some c \<Longrightarrow> the (decimal_position c) < message_position (last ms)"
  shows "\<exists>t'. project C g name ms t = (t', Inr ()) \<and> tables_ok t'
    \<and> map rv_stream_id (tb_revisions t') = map rv_stream_id (tb_revisions t) @ map sm_stream_id ms
    \<and> checkpoint t' name = Some (sm_stream_id (last ms))"
proof -
  have "\<exists>vals. rmap (projection_values C) ms = Inr vals"
    unfolding rmap_ok_iff using ms(2) by (auto simp: list_all_iff storable_def split: sum.splits) (metis sum.exhaust)
  then obtain vals where vals: "rmap (projection_values C) ms = Inr vals" by blast
  then have each: "list_all2 (\<lambda>m r. projection_values C m = Inr r) ms vals" by (simp add: rmap_eq_Inr)
  have adm: "list_all (revision_admissible g) vals"
  proof (unfold list_all_iff, rule ballI)
    fix r assume "r \<in> set vals"
    then obtain i where "i < length vals" "r = vals ! i" by (auto simp: in_set_conv_nth)
    then have "projection_values C (ms ! i) = Inr r" "ms ! i \<in> set ms"
      using each by (auto simp: list_all2_conv_all_nth)
    then show "revision_admissible g r" using ms(2) by (auto simp: list_all_iff storable_def)
  qed
  have ids: "map rv_stream_id vals = map sm_stream_id ms"
    by (rule nth_equalityI) (use each in \<open>auto simp: list_all2_conv_all_nth dest: projection_values_Inr\<close>)
  have parsed: "parse_stream_id (sm_stream_id m) = Inr (message_position m)" if "m \<in> set ms" for m
  proof -
    have "storable C g m" using ms(2) that by (simp add: list_all_iff)
    then obtain r where "projection_values C m = Inr r"
      by (cases "projection_values C m") (simp_all add: storable_def)
    from projection_values_Inr [OF this] show ?thesis by (simp add: parse_stream_id_def message_position_def)
  qed
  then have pos: "rmap (\<lambda>m. parse_stream_id (sm_stream_id m)) ms = Inr (map message_position ms)"
    by (intro rmap_Inr_fun)
  have strict: "sorted (map message_position ms)" "distinct (map message_position ms)"
    using ms(3) by (simp_all add: strict_sorted_iff)
  have dist: "distinct (map sm_stream_id ms)"
    using strict(2) by (auto simp: distinct_map inj_on_def message_position_def)
  have revs: "foldl insert_revision (tb_revisions t) vals = tb_revisions t @ vals"
    using t dist fresh ids by (intro fold_insert_fresh) (auto simp: tables_ok_def tables_inv_def)
  let ?t = "committed name (sm_stream_id (last ms), last (map message_position ms)) vals t"
  have run: "project C g name ms t = (?t, Inr ())"
    using ms(1) pos strict vals adm references_fresh [of t vals] t revs
    by (simp add: project_Inr tables_ok_def)
  have last: "decimal_position (sm_stream_id (last ms)) = Some (message_position (last ms))"
    using parsed [OF last_in_set [OF ms(1)]] by (simp add: parse_stream_id_def split: option.splits)
  have old: "decimal_position sid = Some p" if "map_of (tb_checkpoints t) nm = Some (sid, p)" for nm sid p
    using t that unfolding tables_ok_def by blast
  have cps: "map_of (tb_checkpoints ?t) = (map_of (tb_checkpoints t))(name \<mapsto> (sm_stream_id (last ms), message_position (last ms)))"
  proof (cases "map_of (tb_checkpoints t) name")
    case None
    then show ?thesis using ms(1) by (simp add: committed_def upsert_newer_map last_map)
  next
    case (Some v)
    obtain sid p where v: "v = (sid, p)" by (cases v)
    have "p < message_position (last ms)"
      using beyond [of sid] old Some v by (simp add: checkpoint_def)
    then show ?thesis using Some v ms(1) by (simp add: committed_def upsert_newer_map last_map)
  qed
  have "tables_inv ?t" using project_inv run t unfolding tables_ok_def by blast
  moreover have "decimal_position sid = Some p" if "map_of (tb_checkpoints ?t) nm = Some (sid, p)" for nm sid p
    using that last old unfolding cps by (auto split: if_splits)
  ultimately have "tables_ok ?t" unfolding tables_ok_def by blast
  moreover have "map rv_stream_id (tb_revisions ?t) = map rv_stream_id (tb_revisions t) @ map sm_stream_id ms"
    by (simp add: committed_def revs ids)
  moreover have "checkpoint ?t name = Some (sm_stream_id (last ms))" unfolding checkpoint_def cps by simp
  ultimately show ?thesis using run by blast
qed

text \<open>What the tables have absorbed: the revisions are those of the messages.\<close>

definition projected :: "tables \<Rightarrow> signal_event stream_message list \<Rightarrow> bool" where
  "projected t old \<longleftrightarrow> tables_ok t \<and> map rv_stream_id (tb_revisions t) = map sm_stream_id old"

lemma increasing_ids_fresh:
  assumes "sorted_wrt (<) (map message_position (old @ ms))"
  shows "set (map sm_stream_id ms) \<inter> set (map sm_stream_id old) = {}"
proof -
  have "distinct (map message_position (old @ ms))" using assms by (simp add: strict_sorted_iff)
  moreover have "map message_position (old @ ms) = map (\<lambda>i. the (decimal_position i)) (map sm_stream_id (old @ ms))"
    by (simp add: message_position_def)
  ultimately have "distinct (map sm_stream_id (old @ ms))" by (metis distinct_map)
  then show ?thesis by auto
qed

lemma project_absorbs:
  assumes "projected t old" "ms \<noteq> []" "list_all (storable C g) ms" "sorted_wrt (<) (map message_position (old @ ms))"
    and "\<And>c. checkpoint t name = Some c \<Longrightarrow> the (decimal_position c) < message_position (last ms)"
  shows "\<exists>t'. project C g name ms t = (t', Inr ()) \<and> projected t' (old @ ms)
    \<and> checkpoint t' name = Some (sm_stream_id (last ms))"
proof -
  have t: "tables_ok t" "map rv_stream_id (tb_revisions t) = map sm_stream_id old" using assms(1) by (simp_all add: projected_def)
  have "sorted_wrt (<) (map message_position ms)" using assms(4) by (simp add: sorted_wrt_append)
  from project_commits [OF t(1) assms(2,3) this _ assms(5)] increasing_ids_fresh [OF assms(4)] show ?thesis
    unfolding t(2) by (auto simp: projected_def)
qed

interpretation mem_projection: projection mb_messages replay "bus_inv A" checkpoint "project C g" "storable C g" projected
  for A C g
  by unfold_locales (rule project_absorbs)


section \<open>The projection catches up\<close>

text \<open>C37. The projection catches up without gaps or repetition. From empty tables, over a stream whose
messages are all storable, any number of cycles commits without an error, and afterwards the revision
table holds exactly the oldest messages of the stream in order, as many as the cycles had room for,
and the durable checkpoint is the id of the last of them, from which the next cycle goes on.\<close>

theorem projection_catches_up:
  fixes A :: "signal_event event_api" and es :: "signal_event list"
  defines "b \<equiv> fst (publish_many A es empty_bus)"
  assumes "list_all (storable C g) (mb_messages b)" "1 \<le> n"
  shows "\<exists>t. project_cycles replay checkpoint (project C g) name n b m empty_tables = (t, Inr ())
    \<and> map rv_stream_id (tb_revisions t) = map sm_stream_id (take (m * nat n) (mb_messages b))
    \<and> checkpoint t name = (if take (m * nat n) (mb_messages b) = [] then None
        else Some (sm_stream_id (last (take (m * nat n) (mb_messages b)))))"
proof -
  have b: "bus_inv A b"
    using publish_many_spec [OF empty_bus_inv, of A es] unfolding b_def by (metis prod.collapse)
  have "mem_projection.caught_up name b 0 empty_tables"
    by (simp add: mem_projection.caught_up_def projected_def tables_ok_def empty_tables_inv mem_log.checkpoint_at_def checkpoint_def)
      (simp add: empty_tables_def)
  from mem_projection.cycles_advance [OF b assms(2,3) this, of m]
  obtain t where t: "project_cycles replay checkpoint (project C g) name n b m empty_tables = (t, Inr ())"
    "map rv_stream_id (tb_revisions t) = map sm_stream_id (take (min (m * nat n) (length (mb_messages b))) (mb_messages b))"
    "checkpoint t name = mem_log.checkpoint_at b (min (m * nat n) (length (mb_messages b)))"
    by (auto simp: mem_projection.caught_up_def projected_def)
  have tk: "take (min (m * nat n) (length (mb_messages b))) (mb_messages b) = take (m * nat n) (mb_messages b)"
    by (simp add: min_def)
  have "checkpoint t name = (if take (m * nat n) (mb_messages b) = [] then None
        else Some (sm_stream_id (last (take (m * nat n) (mb_messages b)))))"
    unfolding t(3) mem_log.checkpoint_at_def by (auto simp: last_conv_nth min_def)
  with t(1,2) show ?thesis unfolding tk by blast
qed

definition sample_event_codec :: event_codec where
  "sample_event_codec = \<lparr>ec_dump = se_id, ec_load = \<lambda>s. Inr (sample_event s), ec_float = sample_float_text,
     ec_fromisoformat = \<lambda>s. None\<rparr>"

definition sample_events_bus :: "signal_event mem_bus" where
  "sample_events_bus = fst (publish_many sample_event_api [sample_event ''a'', sample_event ''b''] empty_bus)"

lemma sample_fingerprint: "event_fingerprint sample_event_api (sample_event i) = quoted True i"
  unfolding event_fingerprint_def sample_event_api_def event_api.select_convs dumps.simps sample_event_def
    signal_event.select_convs ..

lemma publish_fresh:
  "mb_dedupe b (event_fingerprint A e) = None \<Longrightarrow> fst (publish A e b) =
     \<lparr>mb_messages = mb_messages b @ [\<lparr>sm_stream_id = memory_stream_id (length (mb_messages b) + 1), sm_event = e\<rparr>],
      mb_dedupe = (mb_dedupe b)(event_fingerprint A e \<mapsto> memory_stream_id (length (mb_messages b) + 1))\<rparr>"
  by (simp add: publish_def Let_def)

lemma sample_events_messages: "mb_messages sample_events_bus =
   [\<lparr>sm_stream_id = memory_stream_id 1, sm_event = sample_event ''a''\<rparr>,
    \<lparr>sm_stream_id = memory_stream_id 2, sm_event = sample_event ''b''\<rparr>]"
proof -
  let ?A = sample_event_api and ?a = "sample_event ''a''" and ?b = "sample_event ''b''"
  have ne: "quoted True ''a'' \<noteq> quoted True ''b''"
    using quoted_split [of True "''a''" "[]" "''b''" "[]"] by blast
  let ?one = "fst (publish ?A ?a empty_bus)"
  have one: "?one = \<lparr>mb_messages = [\<lparr>sm_stream_id = memory_stream_id 1, sm_event = ?a\<rparr>],
      mb_dedupe = [quoted True ''a'' \<mapsto> memory_stream_id 1]\<rparr>"
    by (subst publish_fresh) (simp_all add: empty_bus_def sample_fingerprint)
  have "mb_messages (fst (publish ?A ?b ?one)) = mb_messages ?one @ [\<lparr>sm_stream_id = memory_stream_id 2, sm_event = ?b\<rparr>]"
    by (subst publish_fresh) (simp_all add: one sample_fingerprint ne ne [symmetric] numeral_2_eq_2)
  then show ?thesis by (simp add: sample_events_bus_def one Let_def split_beta)
qed

lemma sample_projection_values: "projection_values sample_event_codec \<lparr>sm_stream_id = memory_stream_id n, sm_event = sample_event i\<rparr>
  = Inr \<lparr>rv_stream_id = memory_stream_id n, rv_position = (0, n), rv_source = ''usgs'', rv_event_id = i,
      rv_type = ''earthquake'', rv_occurred = utc 0, rv_ingested = utc 0, rv_json = i, rv_point = Some (10, 20),
      rv_footprint = None, rv_severity = Some 2, rv_magnitude = None, rv_expires = None, rv_place = None, rv_title = None\<rparr>"
proof -
  have "parse_stream_id (memory_stream_id n) = Inr (0, n)" by (simp add: parse_stream_id_def memory_stream_id_text)
  then show ?thesis
    by (simp add: projection_values_def sample_event_def sample_event_codec_def footprint_json_def
      payload_integer_def payload_number_def payload_datetime_def payload_text_def Let_def)
qed

lemma sample_storable: "list_all (storable sample_event_codec (\<lambda>_. True)) (mb_messages sample_events_bus)"
proof -
  have "length (memory_stream_id 1) \<le> 64" "length (memory_stream_id 2) \<le> 64" by code_simp+
  then show ?thesis
    by (simp add: sample_events_messages storable_def sample_projection_values revision_admissible_def)
qed

theorem projection_catches_up_witness:
  "\<exists>t. project_cycles replay checkpoint (project sample_event_codec (\<lambda>_. True)) ''signals'' 1
      (fst (publish_many sample_event_api [sample_event ''a'', sample_event ''b''] empty_bus)) 2 empty_tables = (t, Inr ())
    \<and> map rv_stream_id (tb_revisions t) = map sm_stream_id (take (2 * nat 1)
        (mb_messages (fst (publish_many sample_event_api [sample_event ''a'', sample_event ''b''] empty_bus))))
    \<and> checkpoint t ''signals'' = (if take (2 * nat 1)
          (mb_messages (fst (publish_many sample_event_api [sample_event ''a'', sample_event ''b''] empty_bus))) = [] then None
        else Some (sm_stream_id (last (take (2 * nat 1)
          (mb_messages (fst (publish_many sample_event_api [sample_event ''a'', sample_event ''b''] empty_bus)))))))"
  by (rule projection_catches_up) (use sample_storable in \<open>simp_all only: sample_events_bus_def order_refl\<close>)

lemma sample_project: "\<exists>t. project sample_event_codec (\<lambda>_. True) ''signals'' (mb_messages sample_events_bus) empty_tables = (t, Inr ())"
proof -
  have "tables_ok empty_tables" by (simp add: tables_ok_def empty_tables_inv) (simp add: empty_tables_def)
  moreover have "sorted_wrt (<) (map message_position (mb_messages sample_events_bus))"
    by (simp add: sample_events_messages message_position_def memory_stream_id_text)
  ultimately show ?thesis
    using project_commits [OF _ _ sample_storable, of empty_tables "''signals''"]
    by (auto simp: sample_events_messages empty_tables_def checkpoint_def)
qed

definition sample_tables :: tables where
  "sample_tables = fst (project sample_event_codec (\<lambda>_. True) ''signals'' (mb_messages sample_events_bus) empty_tables)"

lemma sample_tables: "project sample_event_codec (\<lambda>_. True) ''signals'' (mb_messages sample_events_bus) empty_tables
  = (sample_tables, Inr ())"
  using sample_project by (auto simp: sample_tables_def)

theorem projection_idempotent_witness:
  "project sample_event_codec (\<lambda>_. True) ''signals'' (mb_messages sample_events_bus) sample_tables = (sample_tables, Inr ())"
  by (rule projection_idempotent [OF sample_tables])

theorem current_signal_is_newest_revision_witness:
  "(\<nexists>r. r \<in> set (tb_revisions sample_tables) \<and> map_of (tb_current sample_tables) (revision_key r) = None)"
  using current_signal_is_newest_revision [OF tables_reachable.project [OF tables_reachable.empty sample_tables]]
  by blast

end
