(* ===== verification/PyText.thy ===== *)
theory PyText
  imports Prelude
begin

text \<open>
  The text operations of the retrieval and relationship code: whitespace splitting and collapsing,
  substring tests, and the tokens a regular expression of one repeated class finds. Characters are
  code points below 256. The tables Python takes from Unicode (\<open>casefold\<close> and the class \<open>\w\<close>) are
  arguments.
\<close>

record text_api =
  tx_casefold :: "string \<Rightarrow> string"
  tx_lower :: "string \<Rightarrow> string"
  tx_word :: "char \<Rightarrow> bool"

text \<open>\<open>str.isspace\<close>, which \<open>str.split\<close>, \<open>str.strip\<close> and the class \<open>\s\<close> share.\<close>

definition is_uspace :: "char \<Rightarrow> bool" where
  "is_uspace c \<longleftrightarrow> of_char c \<in> {9..13::nat} \<union> {28..32} \<union> {133, 160}"

definition py_strip :: "string \<Rightarrow> string" where
  "py_strip s = rev (dropWhile is_uspace (rev (dropWhile is_uspace s)))"

text \<open>The maximal runs of characters of a class, from left to right.\<close>

function runs :: "(char \<Rightarrow> bool) \<Rightarrow> string \<Rightarrow> string list" where
  "runs p s = (case dropWhile (\<lambda>c. \<not> p c) s of
     [] \<Rightarrow> []
   | c # r \<Rightarrow> takeWhile p (c # r) # runs p (dropWhile p (c # r)))"
  by pat_completeness auto
termination
proof (relation "measure (\<lambda>(p, s). length s)")
  fix p :: "char \<Rightarrow> bool" and s c r
  assume d: "dropWhile (\<lambda>c. \<not> p c) s = c # r"
  then have pc: "p c" using hd_dropWhile [of "\<lambda>c. \<not> p c" s] by simp
  have "length (dropWhile p (c # r)) \<le> length r" using pc by (simp add: length_dropWhile_le)
  moreover have "length (c # r) \<le> length s" using length_dropWhile_le [of "\<lambda>c. \<not> p c" s] d by simp
  ultimately show "((p, dropWhile p (c # r)), p, s) \<in> measure (\<lambda>(p, s). length s)" by simp
qed simp

declare runs.simps [simp del]

lemma runs_Nil [simp]: "runs p [] = []"
  by (simp add: runs.simps [of p "[]"])

definition py_split :: "string \<Rightarrow> string list" where
  "py_split s = runs (\<lambda>c. \<not> is_uspace c) s"

fun joined :: "string \<Rightarrow> string list \<Rightarrow> string" where
  "joined sep [] = []"
| "joined sep [s] = s"
| "joined sep (s # t # ts) = s @ sep @ joined sep (t # ts)"

text \<open>\<open>" ".join(s.split())\<close>, which is also \<open>re.sub(r"\s+", " ", s).strip()\<close>.\<close>

definition normalize_space :: "string \<Rightarrow> string" where
  "normalize_space s = joined '' '' (py_split s)"

fun contains :: "string \<Rightarrow> string \<Rightarrow> bool" where
  "contains p [] = (p = [])"
| "contains p (c # s) = (is_prefix p (c # s) \<or> contains p s)"

definition ends_with :: "string \<Rightarrow> string \<Rightarrow> bool" where
  "ends_with p s \<longleftrightarrow> is_prefix (rev p) (rev s)"

section \<open>Splitting a normal text again changes nothing\<close>

definition word :: "(char \<Rightarrow> bool) \<Rightarrow> string \<Rightarrow> bool" where
  "word p w \<longleftrightarrow> w \<noteq> [] \<and> list_all p w"

lemma runs_words: "w \<in> set (runs p s) \<Longrightarrow> word p w"
proof (induction p s rule: runs.induct)
  case (1 p s)
  show ?case
  proof (cases "dropWhile (\<lambda>c. \<not> p c) s")
    case Nil
    then have "runs p s = []" by (subst runs.simps) (simp only: list.case)
    then show ?thesis using 1(2) by simp
  next
    case (Cons c r)
    then have "p c" using hd_dropWhile [of "\<lambda>c. \<not> p c" s] by simp
    then have "word p (takeWhile p (c # r))" by (auto simp: word_def list_all_iff dest: set_takeWhileD)
    then show ?thesis using 1 Cons by (auto simp: runs.simps [of p s])
  qed
qed

lemma runs_word: "word p w \<Longrightarrow> rest = [] \<or> \<not> p (hd rest) \<Longrightarrow> runs p (w @ rest) = w # runs p rest"
proof -
  assume w: "word p w" and rest: "rest = [] \<or> \<not> p (hd rest)"
  then obtain c r where c: "w = c # r" "p c" by (cases w) (auto simp: word_def)
  have "takeWhile p (w @ rest) = w" "dropWhile p (w @ rest) = rest"
    using w rest by (cases rest; force simp: word_def list_all_iff takeWhile_append dropWhile_append)+
  then show ?thesis using c by (subst runs.simps) simp
qed

lemma runs_skip: "list_all (\<lambda>c. \<not> p c) x \<Longrightarrow> runs p (x @ s) = runs p s"
proof -
  assume "list_all (\<lambda>c. \<not> p c) x"
  then have "dropWhile (\<lambda>c. \<not> p c) (x @ s) = dropWhile (\<lambda>c. \<not> p c) s"
    by (intro dropWhile_append2) (simp add: list_all_iff)
  then show ?thesis by (simp add: runs.simps [of p "x @ s"] runs.simps [of p s])
qed

lemma runs_joined:
  assumes "list_all (word p) ws" "sep \<noteq> []" "list_all (\<lambda>c. \<not> p c) sep"
  shows "runs p (joined sep ws) = ws"
  using assms(1)
proof (induction ws rule: induct_list012)
  case (2 w)
  then show ?case using runs_word [of p w "[]"] by simp
next
  case (3 w v ws)
  have "runs p (w @ (sep @ joined sep (v # ws))) = w # runs p (sep @ joined sep (v # ws))"
    using 3(3) assms(2,3) by (intro runs_word) (auto simp: list_all_iff)
  then show ?case using 3 by (simp add: runs_skip [OF assms(3)])
qed simp

lemma split_normalized: "py_split (normalize_space s) = py_split s"
  unfolding normalize_space_def py_split_def
proof (rule runs_joined)
  show "list_all (word (\<lambda>c. \<not> is_uspace c)) (runs (\<lambda>c. \<not> is_uspace c) s)"
    by (auto simp: list_all_iff intro: runs_words)
qed (simp_all add: is_uspace_def)

lemma normalize_space_idem [simp]: "normalize_space (normalize_space s) = normalize_space s"
  by (simp add: normalize_space_def [of "normalize_space s"] split_normalized) (simp add: normalize_space_def)

end
