(* ===== verification/ContentId.thy ===== *)
theory ContentId
  imports CanonJson
begin

text \<open>
  What content addresses identify. The artifacts of the repository are addressed by the SHA-256 of
  their canonical JSON; this theory has the lemmas by which equal addresses give equal artifacts, field
  by field, up to an exhibited collision: objects with the same keys, optional members, timestamps in
  UTC, and lists.
\<close>

text \<open>Two values of the same canonical form; the simplifier decides it by the shape of the values.\<close>

definition same_json :: "json \<Rightarrow> json \<Rightarrow> bool" where
  "same_json v w \<longleftrightarrow> canonical v = canonical w"

lemma same_json_refl [simp]: "same_json v v"
  by (simp add: same_json_def)

lemma same_json_scalars [simp]:
  "same_json (JStr a) (JStr b) \<longleftrightarrow> a = b" "same_json (JInt i) (JInt j) \<longleftrightarrow> i = j"
  "same_json (JFloat x) (JFloat y) \<longleftrightarrow> x = y" "same_json (JBool p) (JBool q) \<longleftrightarrow> p = q"
  by (simp_all add: same_json_def)

section \<open>Collisions\<close>

definition collision :: "(string \<Rightarrow> string) \<Rightarrow> (rat \<Rightarrow> string) \<Rightarrow> json \<Rightarrow> json \<Rightarrow> bool" where
  "collision sha fr v w \<longleftrightarrow> (\<exists>s t. canonical_json_bytes fr v = Inr s \<and> canonical_json_bytes fr w = Inr t
     \<and> s \<noteq> t \<and> sha s = sha t)"

lemma same_address:
  assumes "float_text_ok fr"
    and "canonical_json_sha256 sha fr v = Inr d" "canonical_json_sha256 sha fr w = Inr d"
  shows "same_json v w \<or> collision sha fr v w"
proof -
  obtain s t where st: "canonical_json_bytes fr v = Inr s" "canonical_json_bytes fr w = Inr t"
    "sha s = d" "sha t = d" using assms(2,3) by (auto simp: canonical_json_sha256_def)
  then have fin: "plain (canonical v)" "plain (canonical w)"
    and texts: "s = text_of False fr (canonical v)" "t = text_of False fr (canonical w)"
    by (auto simp: canonical_json_bytes_def dumps_canonical plain_canonical split: if_splits)
  have "canonical v = canonical w" if "s = t"
    using text_split [OF assms(1) fin, of "[]" "[]" False] that texts by simp
  then show ?thesis using st by (auto simp: collision_def same_json_def)
qed

lemma canonical_bytes_inj:
  assumes "float_text_ok fr" "canonical_json_bytes fr v = Inr s" "canonical_json_bytes fr w = Inr s"
  shows "same_json v w"
  using same_address [OF assms(1), of id v s w] assms(2,3)
  by (auto simp: canonical_json_sha256_def collision_def)

lemma finite_address: "finite_json v \<Longrightarrow> canonical_json_sha256 sha fr v = Inr (sha (dumps False fr v))"
  by (simp add: canonical_json_sha256_def canonical_json_bytes_def)

section \<open>Objects\<close>

lemma map_of_sort_key: "distinct (map fst kvs) \<Longrightarrow> map_of (sort_key fst kvs) = map_of kvs"
proof -
  assume d: "distinct (map fst kvs)"
  have "mset (map fst (sort_key fst kvs)) = mset (map fst kvs)" by (simp add: mset_map)
  then have "distinct (map fst (sort_key fst kvs))" using d by (metis mset_eq_imp_distinct_iff)
  moreover have "set (sort_key fst kvs) = set kvs" by simp
  ultimately show ?thesis using d by (metis map_of_eq_Some_iff not_None_eq option.exhaust ext)
qed

lemma canonical_object:
  assumes "distinct (map fst kvs)" "map fst kvs = map fst kws"
  shows "canonical (JObj kvs) = canonical (JObj kws)
    \<longleftrightarrow> map (\<lambda>kv. canonical (snd kv)) kvs = map (\<lambda>kv. canonical (snd kv)) kws"
proof
  let ?c = "map (\<lambda>(k, v). (k, canonical v))"
  have keys: "map fst (?c xs) = map fst xs" for xs :: "(string \<times> json) list" by auto
  assume "canonical (JObj kvs) = canonical (JObj kws)"
  then have "sort_key fst (?c kvs) = sort_key fst (?c kws)" by simp
  then have same: "map_of (?c kvs) = map_of (?c kws)"
    using map_of_sort_key [of "?c kvs"] map_of_sort_key [of "?c kws"] assms keys by metis
  show "map (\<lambda>kv. canonical (snd kv)) kvs = map (\<lambda>kv. canonical (snd kv)) kws"
  proof (rule nth_equalityI)
    show len: "length (map (\<lambda>kv. canonical (snd kv)) kvs) = length (map (\<lambda>kv. canonical (snd kv)) kws)"
      using assms(2) by (metis length_map)
    fix i assume "i < length (map (\<lambda>kv. canonical (snd kv)) kvs)"
    then have i: "i < length kvs" "i < length kws" using len by simp_all
    have entry: "map_of (?c xs) (fst (xs ! j)) = Some (canonical (snd (xs ! j)))"
      if "distinct (map fst xs)" "j < length xs" for xs :: "(string \<times> json) list" and j
    proof (rule map_of_is_SomeI)
      show "distinct (map fst (?c xs))" using that(1) by (simp only: keys)
      show "(fst (xs ! j), canonical (snd (xs ! j))) \<in> set (?c xs)"
        using nth_mem [OF that(2)] by force
    qed
    have "fst (kvs ! i) = fst (kws ! i)" using assms(2) i by (metis nth_map)
    then have "canonical (snd (kvs ! i)) = canonical (snd (kws ! i))"
      using entry [OF assms(1) i(1)] entry [of kws i] assms i(2) same by simp
    then show "map (\<lambda>kv. canonical (snd kv)) kvs ! i = map (\<lambda>kv. canonical (snd kv)) kws ! i"
      using i by simp
  qed
next
  assume vals: "map (\<lambda>kv. canonical (snd kv)) kvs = map (\<lambda>kv. canonical (snd kv)) kws"
  have "map (\<lambda>(k, v). (k, canonical v)) xs = zip (map fst xs) (map (\<lambda>kv. canonical (snd kv)) xs)"
    for xs :: "(string \<times> json) list" by (induction xs) auto
  then have "map (\<lambda>(k, v). (k, canonical v)) kvs = map (\<lambda>(k, v). (k, canonical v)) kws"
    using vals assms(2) by metis
  then show "canonical (JObj kvs) = canonical (JObj kws)" by simp
qed

lemma same_object [simp]:
  "map fst kvs = map fst kws \<Longrightarrow> distinct (map fst kvs) \<Longrightarrow>
    same_json (JObj kvs) (JObj kws) \<longleftrightarrow> list_all2 (\<lambda>x y. same_json (snd x) (snd y)) kvs kws"
proof -
  assume keys: "map fst kvs = map fst kws" "distinct (map fst kvs)"
  have "length kvs = length kws" using keys(1) by (metis length_map)
  then have "map (\<lambda>kv. canonical (snd kv)) kvs = map (\<lambda>kv. canonical (snd kv)) kws
      \<longleftrightarrow> list_all2 (\<lambda>x y. same_json (snd x) (snd y)) kvs kws"
    by (auto simp: list_all2_conv_all_nth list_eq_iff_nth_eq same_json_def)
  then show ?thesis using canonical_object [OF keys(2,1)] by (simp only: same_json_def)
qed

text \<open>Objects whose keys may differ are compared key by key.\<close>

lemma same_object_lookup:
  assumes "same_json (JObj kvs) (JObj kws)" "distinct (map fst kvs)" "distinct (map fst kws)"
  shows "map_option canonical (map_of kvs k) = map_option canonical (map_of kws k)"
proof -
  let ?c = "map (\<lambda>(k, v). (k, canonical v))"
  have keys: "map fst (?c xs) = map fst xs" for xs :: "(string \<times> json) list" by auto
  have "sort_key fst (?c kvs) = sort_key fst (?c kws)" using assms(1) by (simp add: same_json_def)
  moreover have "map_of (sort_key fst (?c kvs)) = map_of (?c kvs)"
    by (rule map_of_sort_key) (simp only: keys assms(2))
  moreover have "map_of (sort_key fst (?c kws)) = map_of (?c kws)"
    by (rule map_of_sort_key) (simp only: keys assms(3))
  ultimately have "map_of (?c kvs) k = map_of (?c kws) k" by simp
  then show ?thesis unfolding map_of_map comp_def .
qed

lemma same_list:
  "same_json (JList vs) (JList ws) \<longleftrightarrow> list_all2 same_json vs ws"
  by (auto simp: same_json_def list_all2_conv_all_nth list_eq_iff_nth_eq)

lemma same_list_Cons [simp]:
  "same_json (JList (v # vs)) (JList (w # ws)) \<longleftrightarrow> same_json v w \<and> same_json (JList vs) (JList ws)"
  "\<not> same_json (JList []) (JList (w # ws))" "\<not> same_json (JList (v # vs)) (JList [])"
  by (simp_all add: same_list)

lemma same_list_map:
  assumes "\<And>x y. x \<in> set xs \<Longrightarrow> y \<in> set ys \<Longrightarrow> same_json (f x) (f y) \<Longrightarrow> x = y"
    and "same_json (JList (map f xs)) (JList (map f ys))"
  shows "xs = ys"
proof (rule nth_equalityI)
  have all: "list_all2 same_json (map f xs) (map f ys)" using assms(2) unfolding same_list .
  show len: "length xs = length ys" using list_all2_lengthD [OF all] by simp
  fix i assume i: "i < length xs"
  have "same_json (f (xs ! i)) (f (ys ! i))" using list_all2_nthD [OF all, of i] i len by simp
  then show "xs ! i = ys ! i" by (rule assms(1) [rotated 2]) (use i len in simp_all)
qed

lemma same_strings [simp]: "same_json (JList (map JStr xs)) (JList (map JStr ys)) \<longleftrightarrow> xs = ys"
  using same_list_map [of xs ys JStr] by auto

section \<open>Optional members\<close>

definition jopt :: "('a \<Rightarrow> json) \<Rightarrow> 'a option \<Rightarrow> json" where
  "jopt f x = (case x of None \<Rightarrow> JNull | Some v \<Rightarrow> f v)"

lemma jopt_simps [simp]: "jopt f None = JNull" "jopt f (Some v) = f v"
  by (simp_all add: jopt_def)

lemma finite_jopt: "(\<And>v. x = Some v \<Longrightarrow> finite_json (f v)) \<Longrightarrow> finite_json (jopt f x)"
  by (cases x) simp_all

lemma finite_jopt_simps [simp]: "finite_json (jopt JStr s)" "finite_json (jopt JTime t)"
    "finite_json (jopt JInt i)" "finite_json (jopt JFloat q)" "finite_json (jopt JBool b)"
  by (auto intro: finite_jopt)

lemma same_jopt [simp]:
  "same_json (jopt JStr a) (jopt JStr b) \<longleftrightarrow> a = b" "same_json (jopt JInt i) (jopt JInt j) \<longleftrightarrow> i = j"
  "same_json (jopt JFloat x) (jopt JFloat y) \<longleftrightarrow> x = y" "same_json (jopt JBool p) (jopt JBool q) \<longleftrightarrow> p = q"
  by (simp_all add: same_json_def jopt_def split: option.splits)

section \<open>Timestamps\<close>

text \<open>The text of a UTC timestamp determines it.\<close>

definition utc_time :: "datetime \<Rightarrow> bool" where
  "utc_time t \<longleftrightarrow> is_utc t \<and> representable t"

lemma replace_utc_suffix:
  "CHR ''+'' \<notin> set p \<Longrightarrow> replace_all ''+00:00'' ''Z'' (p @ ''+00:00'') = p @ ''Z''"
proof (induction p)
  case Nil
  show ?case by (subst replace_all.simps) (simp add: is_prefix_def replace_all.simps [of _ _ "[]"])
next
  case (Cons c p)
  have "\<not> is_prefix ''+00:00'' ((c # p) @ ''+00:00'')" using Cons.prems by (auto simp: is_prefix_def)
  then show ?case
    using Cons by (subst replace_all.simps) simp
qed

lemma digits_no_plus: "CHR ''+'' \<notin> set (digits w n)"
proof (induction w arbitrary: n)
  case (Suc w)
  have "digit_char (n mod 10) \<in> set dec_digits" by (rule digit_char_decimal) simp
  then have "digit_char (n mod 10) \<noteq> CHR ''+''" by (auto simp: dec_digits_def)
  with Suc show ?case by auto
qed simp

lemma isoformat_utc_shape:
  assumes "is_utc t"
  obtains p where "isoformat t = p @ ''+00:00''" "CHR ''+'' \<notin> set p"
proof -
  obtain us where t: "t = utc us" using assms by (rule is_utcE)
  obtain y m d where date: "date_of_day (nat (us div day_us)) = (y, m, d)" by (cases "date_of_day (nat (us div day_us))")
  let ?r = "nat (us mod day_us)"
  let ?p = "date_string (y, m, d) @ ''T'' @ clock_string (?r div 1000000) @ micro_string (?r mod 1000000)"
  have "isoformat t = ?p @ ''+00:00''"
    using offset_string_utc by (simp add: isoformat_def t wall_us_def date Let_def)
  moreover have "CHR ''+'' \<notin> set ?p"
    using digits_no_plus by (auto simp: date_string_def clock_string_def micro_string_def)
  ultimately show ?thesis using that by blast
qed

lemma encode_extra_inj:
  assumes "utc_time a" "utc_time b"
  shows "encode_extra a = encode_extra b \<longleftrightarrow> a = b"
proof -
  have ab: "is_utc a" "is_utc b" "representable a" "representable b" using assms by (auto simp: utc_time_def)
  obtain p q where pq: "isoformat a = p @ ''+00:00''" "CHR ''+'' \<notin> set p"
    "isoformat b = q @ ''+00:00''" "CHR ''+'' \<notin> set q"
    using isoformat_utc_shape [OF ab(1)] isoformat_utc_shape [OF ab(2)] by metis
  have "encode_extra a = encode_extra b \<longleftrightarrow> isoformat a = isoformat b"
    by (simp add: encode_extra_def pq replace_utc_suffix)
  then show ?thesis using isoformat_inj [OF ab] by simp
qed

lemma same_time [simp]: "utc_time a \<Longrightarrow> utc_time b \<Longrightarrow> same_json (JTime a) (JTime b) \<longleftrightarrow> a = b"
  by (simp add: encode_extra_inj same_json_def)

definition utc_times :: "datetime option \<Rightarrow> bool" where
  "utc_times t \<longleftrightarrow> (case t of None \<Rightarrow> True | Some d \<Rightarrow> utc_time d)"

lemma same_optional_time [simp]:
  "utc_times a \<Longrightarrow> utc_times b \<Longrightarrow> same_json (jopt JTime a) (jopt JTime b) \<longleftrightarrow> a = b"
  by (cases a; cases b) (simp_all add: utc_times_def, simp_all add: same_json_def)

section \<open>Hexadecimal digests\<close>

text \<open>What is used of \<open>sha256(...).hexdigest()\<close>: 64 lower-case hexadecimal digits.\<close>

definition hex_digest :: "(string \<Rightarrow> string) \<Rightarrow> bool" where
  "hex_digest sha \<longleftrightarrow> (\<forall>s. matches_hex [] 64 (sha s))"

lemma hex_digest_prefixed: "hex_digest sha \<Longrightarrow> matches_hex p 64 (p @ sha s)"
  by (simp add: hex_digest_def matches_hex_def is_prefix_def)

text \<open>An instance, for the witnesses: a sum of the characters in base 16.\<close>

definition sample_sha :: "string \<Rightarrow> string" where
  "sample_sha s = (let n = foldl (\<lambda>a c. (31 * a + of_char c) mod 16 ^ 8) (7 :: nat) s in
     map (\<lambda>i. hex_digits ! (n div 16 ^ i mod 16)) [0..<64])"

lemma sample_sha_ok: "hex_digest sample_sha"
proof -
  have "hex_digits ! (k mod 16) \<in> set hex_digits" for k by (rule nth_mem) (simp add: hex_digits_def)
  then show ?thesis by (auto simp: hex_digest_def matches_hex_def is_prefix_def sample_sha_def list_all_iff Let_def)
qed

end
