(* ===== verification/Retrieval.thy ===== *)
theory Retrieval
  imports Projection PyText ContentId
begin

text \<open>
  Hybrid retrieval without its database: the query and result contracts (\<open>retrieval/base.py\<close>), the
  rendering of events and the citation check (\<open>retrieval/document.py\<close>), and the rank fusion
  (\<open>retrieval/ranking.py\<close>). URL and IP address parsing, float formatting and the Unicode tables are
  arguments.
\<close>

section \<open>Contracts\<close>

datatype citation_status = Traceable | CitationMissing | CitationRejected

datatype ranking_mode = LexicalMode | DenseMode | RrfMode | HybridMode

datatype observation_period = Day | Night

record geo_radius =
  gd_longitude :: rat
  gd_latitude :: rat
  gd_radius_km :: rat

definition validate_radius :: "geo_radius \<Rightarrow> geo_radius res" where
  "validate_radius r = raise_first
     [(\<not> (- 180 \<le> gd_longitude r \<and> gd_longitude r \<le> 180), ''near longitude must be within [-180, 180]''),
      (\<not> (- 90 \<le> gd_latitude r \<and> gd_latitude r \<le> 90), ''near latitude must be within [-90, 90]''),
      (\<not> (0 < gd_radius_km r \<and> gd_radius_km r \<le> 2000), ''radius_km must be within (0, 2000]'')] r"

record search_query =
  qy_text :: string
  qy_limit :: int
  qy_candidate_limit :: int
  qy_source :: "string option"
  qy_occurred_after :: "datetime option"
  qy_occurred_before :: "datetime option"
  qy_bounds :: "geo_bounds option"
  qy_near :: "geo_radius option"
  qy_active_only :: bool
  qy_min_magnitude :: "rat option"
  qy_max_depth_km :: "rat option"
  qy_tsunami :: "bool option"
  qy_alert_type :: "string option"
  qy_min_confidence_rank :: "int option"
  qy_observation_period :: "observation_period option"
  qy_ranking_mode :: ranking_mode

text \<open>The tests of the values' types hold by the types of the fields. The two timestamp filters are
compared only when both have an offset, as the first guard has refused the others.\<close>

definition naive :: "datetime option \<Rightarrow> bool" where
  "naive t \<longleftrightarrow> (case t of None \<Rightarrow> False | Some d \<Rightarrow> dt_off d = None)"

definition validate_query :: "search_query \<Rightarrow> search_query res" where
  "validate_query q = (let normalized = normalize_space (qy_text q);
     alert_type = map_option normalize_space (qy_alert_type q) in
   raise_first
     [(\<not> (2 \<le> length normalized \<and> length normalized \<le> 500), ''query text must contain between 2 and 500 characters''),
      (\<not> (1 \<le> qy_limit q \<and> qy_limit q \<le> 50), ''limit must be between 1 and 50''),
      (\<not> (qy_limit q \<le> qy_candidate_limit q \<and> qy_candidate_limit q \<le> 200),
       ''candidate_limit must be between limit and 200''),
      (naive (qy_occurred_after q) \<or> naive (qy_occurred_before q), ''time filters must include a UTC offset''),
      (case (qy_occurred_after q, qy_occurred_before q) of (Some a, Some b) \<Rightarrow> dt_us b < dt_us a | _ \<Rightarrow> False,
       ''occurred_after must not be later than occurred_before''),
      (case qy_max_depth_km q of None \<Rightarrow> False | Some d \<Rightarrow> d < 0, ''max_depth_km must be non-negative''),
      (case qy_min_confidence_rank q of None \<Rightarrow> False | Some r \<Rightarrow> \<not> (1 \<le> r \<and> r \<le> 3),
       ''min_confidence_rank must be between 1 and 3''),
      (case alert_type of None \<Rightarrow> False | Some a \<Rightarrow> \<not> (1 \<le> length a \<and> length a \<le> 200),
       ''alert_type must contain between 1 and 200 characters'')]
     (q\<lparr>qy_text := normalized, qy_alert_type := alert_type\<rparr>))"

record channel_candidate =
  cc_message :: "signal_event stream_message"
  cc_document_text :: string
  cc_rank :: nat
  cc_score :: rat
  cc_distance_km :: "rat option"

record candidate_batch =
  cb_lexical :: "channel_candidate list"
  cb_dense :: "channel_candidate list"

record citation =
  ct_status :: citation_status
  ct_url :: "string option"
  ct_source_field :: "string option"
  ct_reasons :: "string list"

record ranking_explanation =
  rx_lexical_rank :: "nat option"
  rx_lexical_score :: "rat option"
  rx_dense_rank :: "nat option"
  rx_dense_similarity :: "rat option"
  rx_rrf_score :: rat
  rx_exact_phrase :: bool
  rx_token_coverage :: rat
  rx_rerank_score :: rat

record search_hit =
  sh_message :: "signal_event stream_message"
  sh_document_text :: string
  sh_distance_km :: "rat option"
  sh_ranking :: ranking_explanation
  sh_citation :: citation

record search_result =
  sr_hits :: "search_hit list"
  sr_candidates_considered :: nat
  sr_embedding_model :: string
  sr_ranking_mode :: ranking_mode
  sr_ranking_rule :: string
  sr_caveat :: string

section \<open>Documents\<close>

record render_api =
  rd_general :: "rat \<Rightarrow> string"
  rd_fixed6 :: "rat \<Rightarrow> string"
  rd_nonfinite :: "nonfinite \<Rightarrow> string"
  rd_json_float :: "rat \<Rightarrow> string"

text \<open>\<open>_render_value\<close>; an integer is formatted as the float it converts to.\<close>

fun render_value :: "render_api \<Rightarrow> json \<Rightarrow> string option" where
  "render_value R JNull = None"
| "render_value R (JBool b) = Some (if b then ''yes'' else ''no'')"
| "render_value R (JStr s) = (let rendered = normalize_space s in if rendered = [] then None else Some rendered)"
| "render_value R (JInt i) = Some (rd_general R (fl (of_int i)))"
| "render_value R (JFloat x) = Some (rd_general R x)"
| "render_value R (JNonFinite n) = Some (rd_nonfinite R n)"
| "render_value R (JList vs) = (let rendered_items = concat (map (\<lambda>v. case render_value R v of
       None \<Rightarrow> [] | Some s \<Rightarrow> if s = [] then [] else [s]) vs);
     text = joined '', '' rendered_items in if text = [] then None else Some text)"
| "render_value R (JObj members) = Some (dumps True (rd_json_float R) (JObj members))"
| "render_value R (JTime t) = None"

definition text_fields :: "(string \<times> string) list" where
  "text_fields = [(''title'', ''Title''), (''place'', ''Place''), (''alert_type'', ''Alert type''),
     (''headline'', ''Headline''), (''description'', ''Description''), (''instruction'', ''Instruction''),
     (''severity'', ''Severity''), (''certainty'', ''Certainty''), (''urgency'', ''Urgency''),
     (''response'', ''Response''), (''category'', ''Category''), (''priority'', ''Priority''),
     (''magnitude'', ''Magnitude''), (''magnitude_type'', ''Magnitude type''), (''depth_km'', ''Depth km''),
     (''tsunami'', ''Tsunami flag''), (''satellite'', ''Satellite''), (''instrument'', ''Instrument''),
     (''product'', ''Product''), (''confidence'', ''Confidence''),
     (''fire_radiative_power_mw'', ''Fire radiative power MW''), (''day_night'', ''Observation period''),
     (''quad_class_label'', ''GDELT class''), (''cameo_event_code'', ''CAMEO event code''),
     (''actor1'', ''Actor one''), (''actor2'', ''Actor two''), (''goldstein_scale'', ''Goldstein scale''),
     (''mentions'', ''Media mentions''), (''sources'', ''Media sources''),
     (''verification_status'', ''Verification status''), (''sender_name'', ''Issuing authority'')]"

definition max_document_characters :: nat where
  "max_document_characters = 8000"

definition render_event_document :: "render_api \<Rightarrow> signal_event \<Rightarrow> string" where
  "render_event_document R e = take max_document_characters (joined [CHR 0x0A]
     ([''Source: '' @ se_source e, ''Event type: '' @ se_type e, ''Event ID: '' @ se_id e,
       ''Occurred at: '' @ isoformat (se_occurred e)]
      @ (case se_location e of None \<Rightarrow> []
         | Some (longitude, latitude) \<Rightarrow> [''Coordinates: '' @ rd_fixed6 R latitude @ '', '' @ rd_fixed6 R longitude])
      @ concat (map (\<lambda>(key, label). case map_of (se_payload e) key of None \<Rightarrow> []
           | Some v \<Rightarrow> (case render_value R v of None \<Rightarrow> [] | Some rendered \<Rightarrow> [label @ '': '' @ rendered])) text_fields)))"

definition document_hash :: "(string \<Rightarrow> string) \<Rightarrow> string \<Rightarrow> string" where
  "document_hash sha text = sha text"

section \<open>Citations\<close>

record parsed_url =
  pu_scheme :: string
  pu_username :: "string option"
  pu_password :: "string option"
  pu_hostname :: "string option"
  pu_port :: "int option"
  pu_query :: "(string \<times> string) list"

text \<open>\<open>urlsplit\<close> with the port and the parsed query (\<open>None\<close> is a \<open>ValueError\<close>), and
\<open>ip_address(...).is_global\<close>.\<close>

record url_api =
  ur_split :: "string \<Rightarrow> parsed_url option"
  ur_is_global :: "string \<Rightarrow> bool option"
  ur_casefold :: "string \<Rightarrow> string"

definition sensitive_query_keys :: "string list" where
  "sensitive_query_keys = [''access_token'', ''api-key'', ''api_key'', ''apikey'', ''key'', ''map_key'',
     ''password'', ''secret'', ''signature'', ''token'']"

definition evidence_fields :: "string list" where
  "evidence_fields = [''source_url'', ''detail_url'', ''source_report_url'', ''dataset_url'']"

definition rstrip_dots :: "string \<Rightarrow> string" where
  "rstrip_dots s = rev (dropWhile (\<lambda>c. c = CHR ''.'') (rev s))"

definition public_http_url :: "url_api \<Rightarrow> string \<Rightarrow> bool \<times> string list" where
  "public_http_url U v = (case ur_split U v of
     None \<Rightarrow> (False, [''malformed_url''])
   | Some parsed \<Rightarrow>
       if pu_scheme parsed \<notin> {''http'', ''https''} then (False, [''unsupported_scheme''])
       else if pu_username parsed \<noteq> None \<or> pu_password parsed \<noteq> None then (False, [''embedded_credentials''])
       else (case pu_hostname parsed of
         None \<Rightarrow> (False, [''missing_hostname''])
       | Some [] \<Rightarrow> (False, [''missing_hostname''])
       | Some (c # cs) \<Rightarrow>
           let host = ur_casefold U (rstrip_dots (c # cs)) in
           if (case pu_port parsed of None \<Rightarrow> False | Some p \<Rightarrow> \<not> (1 \<le> p \<and> p \<le> 65535)) then (False, [''invalid_port''])
           else if host = ''localhost'' \<or> ends_with ''.localhost'' host then (False, [''non_public_hostname''])
           else if ur_is_global U host = None \<and> CHR ''.'' \<notin> set host then (False, [''non_public_hostname''])
           else if ur_is_global U host = Some False then (False, [''non_public_address''])
           else if list_ex (\<lambda>(key, value). ur_casefold U key \<in> set sensitive_query_keys) (pu_query parsed)
           then (False, [''credential_like_query_parameter''])
           else (True, [''public_http_url'', ''source_event_identity_attached''])))"

text \<open>The loop over the evidence fields; \<open>dict.fromkeys\<close> keeps the first of equal reasons.\<close>

fun first_occurrences :: "'a list \<Rightarrow> 'a list" where
  "first_occurrences [] = []"
| "first_occurrences (x # xs) = x # filter (\<lambda>y. y \<noteq> x) (first_occurrences xs)"

fun scan_citations :: "url_api \<Rightarrow> signal_event \<Rightarrow> string list \<Rightarrow> string list \<Rightarrow> citation" where
  "scan_citations U e rejected [] =
     (if rejected \<noteq> [] then \<lparr>ct_status = CitationRejected, ct_url = None, ct_source_field = None,
        ct_reasons = first_occurrences rejected\<rparr>
      else \<lparr>ct_status = CitationMissing, ct_url = None, ct_source_field = None,
        ct_reasons = [''no_source_evidence_url'']\<rparr>)"
| "scan_citations U e rejected (field # rest) = (case map_of (se_payload e) field of
     Some (JStr v) \<Rightarrow> (let candidate = py_strip v in
       if candidate = [] then scan_citations U e rejected rest
       else case public_http_url U candidate of
         (True, reasons) \<Rightarrow> \<lparr>ct_status = Traceable, ct_url = Some candidate, ct_source_field = Some field,
           ct_reasons = reasons\<rparr>
       | (False, reasons) \<Rightarrow>
           scan_citations U e (rejected @ map (\<lambda>reason. field @ '':'' @ reason) reasons) rest)
   | _ \<Rightarrow> scan_citations U e rejected rest)"

definition validate_event_citation :: "url_api \<Rightarrow> signal_event \<Rightarrow> citation" where
  "validate_event_citation U e = scan_citations U e [] evidence_fields"

section \<open>Rank fusion\<close>

definition rrf_k :: nat where
  "rrf_k = 60"

definition ranking_rule :: "ranking_mode \<Rightarrow> string" where
  "ranking_rule m = (case m of LexicalMode \<Rightarrow> ''postgres-english-fts-any-v2'' | DenseMode \<Rightarrow> ''bge-cosine-hnsw-v1''
     | RrfMode \<Rightarrow> ''rrf60-v1'' | HybridMode \<Rightarrow> ''rrf60-evidence-tiebreak-v2'')"

record merged_candidate =
  mc_candidate :: channel_candidate
  mc_lexical_rank :: "nat option"
  mc_lexical_score :: "rat option"
  mc_dense_rank :: "nat option"
  mc_dense_similarity :: "rat option"

text \<open>The tokens \<open>[\w'-]+\<close> finds; code 39 is the apostrophe.\<close>

definition token_char :: "text_api \<Rightarrow> char \<Rightarrow> bool" where
  "token_char T c \<longleftrightarrow> tx_word T c \<or> c = CHR 39 \<or> c = CHR ''-''"

definition tokens :: "text_api \<Rightarrow> string \<Rightarrow> string list" where
  "tokens T s = remdups (map (tx_casefold T) (filter (\<lambda>w. 1 < length w) (runs (token_char T) s)))"

definition candidate_key :: "channel_candidate \<Rightarrow> signal_key" where
  "candidate_key c = (se_source (sm_event (cc_message c)), se_id (sm_event (cc_message c)))"

definition fresh_merged :: "channel_candidate \<Rightarrow> merged_candidate" where
  "fresh_merged c = \<lparr>mc_candidate = c, mc_lexical_rank = None, mc_lexical_score = None,
     mc_dense_rank = None, mc_dense_similarity = None\<rparr>"

definition record_channel :: "bool \<Rightarrow> channel_candidate \<Rightarrow> merged_candidate \<Rightarrow> merged_candidate" where
  "record_channel lexical c m = (let m1 = (if lexical
       then m\<lparr>mc_lexical_rank := Some (cc_rank c), mc_lexical_score := Some (cc_score c)\<rparr>
       else m\<lparr>mc_dense_rank := Some (cc_rank c), mc_dense_similarity := Some (cc_score c)\<rparr>) in
     if cc_distance_km (mc_candidate m1) = None \<and> cc_distance_km c \<noteq> None then m1\<lparr>mc_candidate := c\<rparr> else m1)"

text \<open>The dictionary of merged candidates, in insertion order.\<close>

fun merge_into :: "bool \<Rightarrow> channel_candidate \<Rightarrow> (signal_key \<times> merged_candidate) list \<Rightarrow> (signal_key \<times> merged_candidate) list" where
  "merge_into lexical c [] = [(candidate_key c, record_channel lexical c (fresh_merged c))]"
| "merge_into lexical c ((k, m) # ms) = (if k = candidate_key c then (k, record_channel lexical c m) # ms
     else (k, m) # merge_into lexical c ms)"

definition merge :: "candidate_batch \<Rightarrow> (signal_key \<times> merged_candidate) list" where
  "merge b = fold (merge_into False) (cb_dense b) (fold (merge_into True) (cb_lexical b) [])"

definition rank_reciprocal :: "nat option \<Rightarrow> rat" where
  "rank_reciprocal r = (case r of None \<Rightarrow> 0 | Some n \<Rightarrow> fl (1 / of_nat (rrf_k + n)))"

definition rrf_score :: "merged_candidate \<Rightarrow> rat" where
  "rrf_score m = fl (fl (rank_reciprocal (mc_lexical_rank m) + rank_reciprocal (mc_dense_rank m))
     / fl (2 / of_nat (rrf_k + 1)))"

definition merged_hit :: "text_api \<Rightarrow> url_api \<Rightarrow> string \<Rightarrow> merged_candidate \<Rightarrow> search_hit" where
  "merged_hit T U query_text m = (let
     c = mc_candidate m;
     query_normalized = normalize_space (tx_casefold T query_text);
     query_tokens = tokens T query_text;
     document_normalized = normalize_space (tx_casefold T (cc_document_text c));
     document_tokens = tokens T (cc_document_text c);
     coverage = (if query_tokens = [] then 0
       else fl (of_nat (length (filter (\<lambda>t. t \<in> set document_tokens) query_tokens)) / of_nat (length query_tokens))) in
   \<lparr>sh_message = cc_message c, sh_document_text = cc_document_text c, sh_distance_km = cc_distance_km c,
    sh_ranking = \<lparr>rx_lexical_rank = mc_lexical_rank m, rx_lexical_score = mc_lexical_score m,
      rx_dense_rank = mc_dense_rank m, rx_dense_similarity = mc_dense_similarity m,
      rx_rrf_score = py_round 8 (rrf_score m),
      rx_exact_phrase = contains query_normalized document_normalized,
      rx_token_coverage = py_round 8 coverage,
      rx_rerank_score = py_round 8 (rrf_score m)\<rparr>,
    sh_citation = validate_event_citation U (sm_event (cc_message c))\<rparr>)"

definition hit_key :: "search_hit \<Rightarrow> signal_key" where
  "hit_key h = (se_source (sm_event (sh_message h)), se_id (sm_event (sh_message h)))"

definition rank_hits :: "ranking_mode \<Rightarrow> search_hit list \<Rightarrow> search_hit list" where
  "rank_hits mode hits = (case mode of
     LexicalMode \<Rightarrow> sort_key (\<lambda>h. (the (rx_lexical_rank (sh_ranking h)), hit_key h))
       (filter (\<lambda>h. rx_lexical_rank (sh_ranking h) \<noteq> None) hits)
   | DenseMode \<Rightarrow> sort_key (\<lambda>h. (the (rx_dense_rank (sh_ranking h)), hit_key h))
       (filter (\<lambda>h. rx_dense_rank (sh_ranking h) \<noteq> None) hits)
   | RrfMode \<Rightarrow> sort_key (\<lambda>h. (- rx_rrf_score (sh_ranking h), hit_key h)) hits
   | HybridMode \<Rightarrow> sort_key (\<lambda>h. (- rx_rrf_score (sh_ranking h), - of_bool (rx_exact_phrase (sh_ranking h)) :: int,
       - rx_token_coverage (sh_ranking h), hit_key h)) hits)"

definition rank_candidates :: "text_api \<Rightarrow> url_api \<Rightarrow> candidate_batch \<Rightarrow> string \<Rightarrow> int \<Rightarrow> ranking_mode \<Rightarrow> search_hit list" where
  "rank_candidates T U batch query_text limit mode =
     py_slice (rank_hits mode (map (\<lambda>(k, m). merged_hit T U query_text m) (merge batch))) 0 (Some limit)"

section \<open>The search service\<close>

type_synonym embedding = "rat list"

record embedder =
  em_model :: string
  em_query :: "string \<Rightarrow> embedding res"
  em_documents :: "string list \<Rightarrow> embedding list res"

definition retrieval_caveat :: string where
  "retrieval_caveat = ''Results are ranked source events, not a generated answer. A traceable citation validates URL structure and event identity only; it does not independently verify the source claim.''"

text \<open>\<open>HybridSearchService.search\<close>, over any store.\<close>

definition search ::
  "text_api \<Rightarrow> url_api \<Rightarrow> embedder \<Rightarrow> ('db \<Rightarrow> search_query \<Rightarrow> embedding option \<Rightarrow> string \<Rightarrow> candidate_batch res)
     \<Rightarrow> 'db \<Rightarrow> search_query \<Rightarrow> search_result res" where
  "search T U E candidates db q =
     rbind (if qy_ranking_mode q \<noteq> LexicalMode then rbind (em_query E (qy_text q)) (\<lambda>v. Inr (Some v)) else Inr None)
       (\<lambda>embedding. rbind (candidates db q embedding (em_model E)) (\<lambda>batch. Inr
         \<lparr>sr_hits = rank_candidates T U batch (qy_text q) (qy_limit q) (qy_ranking_mode q),
          sr_candidates_considered = length (remdups (map candidate_key (cb_lexical batch @ cb_dense batch))),
          sr_embedding_model = em_model E, sr_ranking_mode = qy_ranking_mode q,
          sr_ranking_rule = ranking_rule (qy_ranking_mode q), sr_caveat = retrieval_caveat\<rparr>))"

section \<open>A validated query is normal\<close>

lemma validate_query_Inr:
  assumes "validate_query q = Inr q'"
  shows "q' = q\<lparr>qy_text := normalize_space (qy_text q), qy_alert_type := map_option normalize_space (qy_alert_type q)\<rparr>"
  using assms by (simp add: validate_query_def Let_def guard_simps)


definition sample_query :: "search_query" where
  "sample_query = \<lparr>qy_text = ''  flood   warning '', qy_limit = 5, qy_candidate_limit = 20, qy_source = None,
     qy_occurred_after = Some (utc 0), qy_occurred_before = Some (utc 5), qy_bounds = None, qy_near = None,
     qy_active_only = True, qy_min_magnitude = None, qy_max_depth_km = Some 10, qy_tsunami = None,
     qy_alert_type = None, qy_min_confidence_rank = Some 2, qy_observation_period = None,
     qy_ranking_mode = HybridMode\<rparr>"

lemma sample_query_valid: "validate_query sample_query = Inr (sample_query\<lparr>qy_text := ''flood warning''\<rparr>)"
  by code_simp


section \<open>Merging the channels\<close>

lemma record_channel_key:
  "candidate_key c = candidate_key (mc_candidate m) \<Longrightarrow> candidate_key (mc_candidate (record_channel l c m)) = candidate_key c"
  by (simp add: record_channel_def Let_def)

definition merged_ok :: "(signal_key \<times> merged_candidate) list \<Rightarrow> bool" where
  "merged_ok ms \<longleftrightarrow> distinct (map fst ms) \<and> (\<forall>(k, m) \<in> set ms. candidate_key (mc_candidate m) = k)"

lemma merge_into_keys: "set (map fst (merge_into l c ms)) = insert (candidate_key c) (set (map fst ms))"
  by (induction l c ms rule: merge_into.induct) auto

lemma merge_into_ok: "merged_ok ms \<Longrightarrow> merged_ok (merge_into l c ms)"
proof (induction l c ms rule: merge_into.induct)
  case (1 l c)
  have "candidate_key (mc_candidate (record_channel l c (fresh_merged c))) = candidate_key c"
    by (rule record_channel_key) (simp add: fresh_merged_def)
  then show ?case by (simp add: merged_ok_def)
next
  case (2 l c k m ms)
  then show ?case
    using merge_into_keys [of l c ms] record_channel_key [of c m l]
    by (cases "k = candidate_key c") (auto simp: merged_ok_def)
qed

lemma fold_merge_ok: "merged_ok ms \<Longrightarrow> merged_ok (fold (merge_into l) cs ms)
    \<and> set (map fst (fold (merge_into l) cs ms)) = candidate_key ` set cs \<union> set (map fst ms)"
proof (induction cs arbitrary: ms)
  case (Cons c cs)
  then show ?case using Cons.IH [OF merge_into_ok [OF Cons.prems]] merge_into_keys [of l c ms] by auto
qed simp

lemma merge_ok: "merged_ok (merge b) \<and> set (map fst (merge b))
    = candidate_key ` (set (cb_lexical b) \<union> set (cb_dense b))"
proof -
  have "merged_ok []" by (simp add: merged_ok_def)
  from fold_merge_ok [OF this, of True "cb_lexical b"] fold_merge_ok [of "fold (merge_into True) (cb_lexical b) []" False "cb_dense b"]
  show ?thesis by (auto simp: merge_def image_Un)
qed

lemma merged_hit_key: "hit_key (merged_hit T U q m) = candidate_key (mc_candidate m)"
  by (simp add: hit_key_def merged_hit_def candidate_key_def Let_def)

section \<open>The order of the hits\<close>

text \<open>The order each mode documents, ties broken by the identity of the event.\<close>

fun ranked_before :: "ranking_mode \<Rightarrow> search_hit \<Rightarrow> search_hit \<Rightarrow> bool" where
  "ranked_before LexicalMode h h' = (rx_lexical_rank (sh_ranking h) \<noteq> None \<and> rx_lexical_rank (sh_ranking h') \<noteq> None
     \<and> (the (rx_lexical_rank (sh_ranking h)) < the (rx_lexical_rank (sh_ranking h'))
       \<or> rx_lexical_rank (sh_ranking h) = rx_lexical_rank (sh_ranking h') \<and> hit_key h < hit_key h'))"
| "ranked_before DenseMode h h' = (rx_dense_rank (sh_ranking h) \<noteq> None \<and> rx_dense_rank (sh_ranking h') \<noteq> None
     \<and> (the (rx_dense_rank (sh_ranking h)) < the (rx_dense_rank (sh_ranking h'))
       \<or> rx_dense_rank (sh_ranking h) = rx_dense_rank (sh_ranking h') \<and> hit_key h < hit_key h'))"
| "ranked_before RrfMode h h' = (rx_rrf_score (sh_ranking h') < rx_rrf_score (sh_ranking h)
     \<or> rx_rrf_score (sh_ranking h') = rx_rrf_score (sh_ranking h) \<and> hit_key h < hit_key h')"
| "ranked_before HybridMode h h' = (rx_rrf_score (sh_ranking h') < rx_rrf_score (sh_ranking h)
     \<or> rx_rrf_score (sh_ranking h') = rx_rrf_score (sh_ranking h)
       \<and> (rx_exact_phrase (sh_ranking h) \<and> \<not> rx_exact_phrase (sh_ranking h')
         \<or> rx_exact_phrase (sh_ranking h) = rx_exact_phrase (sh_ranking h')
           \<and> (rx_token_coverage (sh_ranking h') < rx_token_coverage (sh_ranking h)
             \<or> rx_token_coverage (sh_ranking h') = rx_token_coverage (sh_ranking h) \<and> hit_key h < hit_key h')))"

lemma sort_key_strict:
  fixes f :: "'a \<Rightarrow> 'k::linorder"
  assumes "distinct (map g xs)" "\<And>x y. f x = f y \<Longrightarrow> g x = g y"
    and "\<And>x y. x \<in> set xs \<Longrightarrow> y \<in> set xs \<Longrightarrow> f x < f y \<Longrightarrow> P x y"
  shows "sorted_wrt P (sort_key f xs) \<and> distinct (map g (sort_key f xs))"
proof -
  have "mset (map g (sort_key f xs)) = mset (map g xs)" by (simp add: mset_map)
  then have dist: "distinct (map g (sort_key f xs))" using assms(1) by (metis mset_eq_imp_distinct_iff)
  have "P (sort_key f xs ! i) (sort_key f xs ! j)" if "i < j" "j < length (sort_key f xs)" for i j
  proof (rule assms(3))
    have "f (sort_key f xs ! i) \<le> f (sort_key f xs ! j)"
      using sorted_nth_mono [OF sorted_sort_key [of f xs], of i j] that by simp
    moreover have "g (sort_key f xs ! i) \<noteq> g (sort_key f xs ! j)"
      using nth_eq_iff_index_eq [OF dist, of i j] that by simp
    ultimately show "f (sort_key f xs ! i) < f (sort_key f xs ! j)"
      using assms(2) unfolding less_le by blast
    show "sort_key f xs ! i \<in> set xs" "sort_key f xs ! j \<in> set xs"
      using that nth_mem [of _ "sort_key f xs"] by simp_all
  qed
  then show ?thesis using dist by (simp add: sorted_wrt_iff_nth_less)
qed

lemma rank_hits_sorted:
  assumes "distinct (map hit_key hits)"
  shows "sorted_wrt (ranked_before mode) (rank_hits mode hits) \<and> distinct (map hit_key (rank_hits mode hits))"
proof (cases mode)
  case LexicalMode
  show ?thesis unfolding LexicalMode rank_hits_def ranking_mode.case
    by (rule sort_key_strict) (use assms in \<open>auto simp: distinct_map_filter pair_less_iff\<close>)
next
  case DenseMode
  show ?thesis unfolding DenseMode rank_hits_def ranking_mode.case
    by (rule sort_key_strict) (use assms in \<open>auto simp: distinct_map_filter pair_less_iff\<close>)
next
  case RrfMode
  show ?thesis unfolding RrfMode rank_hits_def ranking_mode.case
    by (rule sort_key_strict [OF assms])
      (simp_all only: prod.inject pair_less_iff neg_less_iff_less neg_equal_iff_equal ranked_before.simps, argo+)
next
  case HybridMode
  show ?thesis unfolding HybridMode rank_hits_def ranking_mode.case
    by (rule sort_key_strict [OF assms])
      (simp_all only: prod.inject pair_less_iff neg_less_iff_less neg_equal_iff_equal ranked_before.simps
        of_bool_less_iff of_bool_eq_iff, argo+)
qed

lemma rank_hits_set: "set (rank_hits mode hits) \<subseteq> set hits"
  by (cases mode) (auto simp: rank_hits_def)

lemma py_slice_take: "0 \<le> n \<Longrightarrow> py_slice xs 0 (Some n) = take (nat n) xs"
  using py_slice_prefix [of n xs 0] by simp

lemma ranking_order:
  assumes "0 \<le> limit"
  shows "sorted_wrt (ranked_before mode) (rank_candidates T U batch query_text limit mode)
    \<and> distinct (map hit_key (rank_candidates T U batch query_text limit mode))
    \<and> hit_key ` set (rank_candidates T U batch query_text limit mode)
        \<subseteq> candidate_key ` (set (cb_lexical batch) \<union> set (cb_dense batch))
    \<and> length (rank_candidates T U batch query_text limit mode) \<le> nat limit"
proof -
  let ?hits = "map (\<lambda>(k, m). merged_hit T U query_text m) (merge batch)"
  have keys: "map hit_key ?hits = map fst (merge batch)"
    using merge_ok [of batch] by (auto simp: merged_ok_def merged_hit_key)
  have dist: "distinct (map hit_key ?hits)" unfolding keys using merge_ok [of batch] by (simp only: merged_ok_def)
  have from_batch: "hit_key ` set ?hits = candidate_key ` (set (cb_lexical batch) \<union> set (cb_dense batch))"
    using keys merge_ok [of batch] by (metis list.set_map)
  have r: "rank_candidates T U batch query_text limit mode = take (nat limit) (rank_hits mode ?hits)"
    using assms by (simp add: rank_candidates_def py_slice_take)
  have "hit_key ` set (take (nat limit) (rank_hits mode ?hits)) \<subseteq> hit_key ` set ?hits"
    using rank_hits_set [of mode ?hits] set_take_subset [of "nat limit" "rank_hits mode ?hits"] by blast
  then show ?thesis
    using rank_hits_sorted [OF dist, of mode] unfolding r from_batch
    by (simp add: sorted_wrt_take take_map [symmetric] distinct_take)
qed

text \<open>C40. A ranking is duplicate-free and strictly ordered: whatever the channels return, every hit
is a candidate of a channel, no event appears twice, at most \<open>limit\<close> hits are returned, and each hit
comes before the next one in the documented order of the mode. In the fused modes no tie-breaking
feature overturns a better fused score; in the hybrid mode phrase match, then token coverage, then the
event identity decide ties, so the order of equal scores is deterministic.\<close>

theorem ranking_strict_order:
  assumes "0 \<le> limit"
  shows "sorted_wrt (ranked_before mode) (rank_candidates T U batch query_text limit mode)
    \<and> distinct (map hit_key (rank_candidates T U batch query_text limit mode))
    \<and> hit_key ` set (rank_candidates T U batch query_text limit mode)
        \<subseteq> candidate_key ` (set (cb_lexical batch) \<union> set (cb_dense batch))
    \<and> length (rank_candidates T U batch query_text limit mode) \<le> nat limit"
  using assms by (rule ranking_order)

lemma rank_hits_from: "h \<in> set (rank_candidates T U batch query_text limit mode) \<Longrightarrow>
    \<exists>k m. (k, m) \<in> set (merge batch) \<and> h = merged_hit T U query_text m"
  using rank_hits_set [of mode "map (\<lambda>(k, m). merged_hit T U query_text m) (merge batch)"]
  by (fastforce simp: rank_candidates_def py_slice_def Let_def dest: in_set_takeD in_set_dropD)

lemma scan_citations_traceable:
  "ct_status (scan_citations U e rejected fs) = Traceable \<Longrightarrow>
    \<exists>url field. ct_url (scan_citations U e rejected fs) = Some url \<and> url \<noteq> []
      \<and> ct_source_field (scan_citations U e rejected fs) = Some field"
proof (induction U e rejected fs rule: scan_citations.induct)
  case (2 U e rejected field rest)
  then show ?case by (auto simp: Let_def split: option.splits json.splits if_splits bool.splits prod.splits)
qed (simp split: if_splits)

lemma search_hits:
  assumes "search T U E candidates db q = Inr r" "0 \<le> qy_limit q"
  shows "distinct (map hit_key (sr_hits r)) \<and> length (sr_hits r) \<le> sr_candidates_considered r
    \<and> (\<forall>h \<in> set (sr_hits r). ct_status (sh_citation h) = Traceable \<longrightarrow> (\<exists>url. ct_url (sh_citation h) = Some url \<and> url \<noteq> []))"
proof -
  obtain batch where hits: "sr_hits r = rank_candidates T U batch (qy_text q) (qy_limit q) (qy_ranking_mode q)"
    and n: "sr_candidates_considered r = length (remdups (map candidate_key (cb_lexical batch @ cb_dense batch)))"
    using assms(1) by (auto simp: search_def)
  note order = ranking_order [OF assms(2), of "qy_ranking_mode q" T U batch "qy_text q", folded hits]
  have "length (sr_hits r) = card (hit_key ` set (sr_hits r))"
    using order by (metis distinct_card length_map list.set_map)
  also have "\<dots> \<le> card (candidate_key ` (set (cb_lexical batch) \<union> set (cb_dense batch)))"
    using order by (intro card_mono) auto
  also have "\<dots> = sr_candidates_considered r" unfolding n by (simp add: length_remdups_card_conv image_Un)
  finally have len: "length (sr_hits r) \<le> sr_candidates_considered r" .
  have "\<exists>url. ct_url (sh_citation h) = Some url \<and> url \<noteq> []"
    if h: "h \<in> set (sr_hits r)" "ct_status (sh_citation h) = Traceable" for h
  proof -
    obtain m where "h = merged_hit T U (qy_text q) m" using rank_hits_from h(1) unfolding hits by blast
    then have "sh_citation h = scan_citations U (sm_event (sh_message h)) [] evidence_fields"
      by (simp add: merged_hit_def validate_event_citation_def Let_def)
    then show ?thesis using scan_citations_traceable h(2) by metis
  qed
  then show ?thesis using order len by blast
qed

text \<open>One event found by both channels.\<close>

definition sample_text_api :: text_api where
  "sample_text_api = \<lparr>tx_casefold = id, tx_lower = id, tx_word = (\<lambda>c. c \<noteq> CHR '' '')\<rparr>"

definition sample_url_api :: url_api where
  "sample_url_api = \<lparr>ur_split = \<lambda>s. Some \<lparr>pu_scheme = ''https'', pu_username = None, pu_password = None,
     pu_hostname = Some ''example.org'', pu_port = None, pu_query = []\<rparr>, ur_is_global = \<lambda>s. None, ur_casefold = id\<rparr>"

definition sample_candidate :: "string \<Rightarrow> nat \<Rightarrow> channel_candidate" where
  "sample_candidate i r = \<lparr>cc_message = \<lparr>sm_stream_id = ''0-'' @ i, sm_event = (sample_event i)\<lparr>se_payload := [(''source_url'', JStr ''https://example.org/1'')]\<rparr>\<rparr>,
     cc_document_text = ''flood warning'', cc_rank = r, cc_score = 1, cc_distance_km = None\<rparr>"

definition sample_batch :: candidate_batch where
  "sample_batch = \<lparr>cb_lexical = [sample_candidate ''1'' 1, sample_candidate ''2'' 2],
     cb_dense = [sample_candidate ''2'' 1]\<rparr>"

theorem ranking_strict_order_witness:
  "sorted_wrt (ranked_before HybridMode) (rank_candidates sample_text_api sample_url_api sample_batch ''flood'' 10 HybridMode)
    \<and> distinct (map hit_key (rank_candidates sample_text_api sample_url_api sample_batch ''flood'' 10 HybridMode))
    \<and> hit_key ` set (rank_candidates sample_text_api sample_url_api sample_batch ''flood'' 10 HybridMode)
        \<subseteq> candidate_key ` (set (cb_lexical sample_batch) \<union> set (cb_dense sample_batch))
    \<and> length (rank_candidates sample_text_api sample_url_api sample_batch ''flood'' 10 HybridMode) \<le> nat 10"
  by (rule ranking_strict_order) simp

end
