(* ===== verification/AgentRun.thy ===== *)
theory AgentRun
  imports EvidencePack
begin

text \<open>
  The fail-closed preflight of an agent run (\<open>agent_runs.py\<close>): the release observation reduced from an
  assessment, the approval observation, the content-addressed proposal, the eleven authorization checks
  and the manifest. The request, its capabilities, the policy and the execution state have one value
  each, so they are constants of the identities.
\<close>

section \<open>Enumerations\<close>

datatype approval_status = NotSupplied | NotFound | NotYetValid | Active | Expired | Revoked
  | ScopeMismatch | UntrustedSigner | LedgerInvalid | LedgerUnavailable

datatype release_status = ReleaseNotSupplied | ReleaseBlocked | EligibleForHumanReview

datatype check_id = EvidencePackIntegrity | TraceableEvidenceCheck | CapabilityScope | ModelAdapter
  | LiveRelationshipBenchmark | GroundedAnswerEvaluation | AgentTrajectoryEvaluation
  | TrajectoryDriftMonitoring | ReleaseThresholdPolicy | HumanRelease | ExecutionRelease

datatype block_reason = NoTraceableEvidenceReason | ModelAdapterNotSelected
  | LiveRelationshipBenchmarkIncomplete | GroundedAnswerEvaluationMissing
  | AgentTrajectoryEvaluationMissing | TrajectoryDriftEvidenceMissing | ReleaseThresholdsNotMet
  | HumanReleaseNotGranted | HumanReleaseNotYetValid | HumanReleaseExpired | HumanReleaseRevoked
  | HumanReleaseScopeMismatch | HumanReleaseUntrusted | ApprovalLedgerInvalid
  | ApprovalLedgerUnavailable | ExecutionDisabled

fun approval_status_text :: "approval_status \<Rightarrow> string" where
  "approval_status_text NotSupplied = ''not_supplied''" | "approval_status_text NotFound = ''not_found''"
| "approval_status_text NotYetValid = ''not_yet_valid''" | "approval_status_text Active = ''active''"
| "approval_status_text Expired = ''expired''" | "approval_status_text Revoked = ''revoked''"
| "approval_status_text ScopeMismatch = ''scope_mismatch''"
| "approval_status_text UntrustedSigner = ''untrusted_signer''"
| "approval_status_text LedgerInvalid = ''ledger_invalid''"
| "approval_status_text LedgerUnavailable = ''ledger_unavailable''"

fun release_status_text :: "release_status \<Rightarrow> string" where
  "release_status_text ReleaseNotSupplied = ''not_supplied''" | "release_status_text ReleaseBlocked = ''blocked''"
| "release_status_text EligibleForHumanReview = ''eligible_for_human_review''"

fun check_id_text :: "check_id \<Rightarrow> string" where
  "check_id_text EvidencePackIntegrity = ''evidence_pack_integrity''"
| "check_id_text TraceableEvidenceCheck = ''traceable_evidence''" | "check_id_text CapabilityScope = ''capability_scope''"
| "check_id_text ModelAdapter = ''model_adapter''"
| "check_id_text LiveRelationshipBenchmark = ''live_relationship_benchmark''"
| "check_id_text GroundedAnswerEvaluation = ''grounded_answer_evaluation''"
| "check_id_text AgentTrajectoryEvaluation = ''agent_trajectory_evaluation''"
| "check_id_text TrajectoryDriftMonitoring = ''trajectory_drift_monitoring''"
| "check_id_text ReleaseThresholdPolicy = ''release_threshold_policy''"
| "check_id_text HumanRelease = ''human_release''" | "check_id_text ExecutionRelease = ''execution_release''"

fun block_reason_text :: "block_reason \<Rightarrow> string" where
  "block_reason_text NoTraceableEvidenceReason = ''no_traceable_evidence''"
| "block_reason_text ModelAdapterNotSelected = ''model_adapter_not_selected''"
| "block_reason_text LiveRelationshipBenchmarkIncomplete = ''live_relationship_benchmark_incomplete''"
| "block_reason_text GroundedAnswerEvaluationMissing = ''grounded_answer_evaluation_missing''"
| "block_reason_text AgentTrajectoryEvaluationMissing = ''agent_trajectory_evaluation_missing''"
| "block_reason_text TrajectoryDriftEvidenceMissing = ''trajectory_drift_evidence_missing''"
| "block_reason_text ReleaseThresholdsNotMet = ''release_thresholds_not_met''"
| "block_reason_text HumanReleaseNotGranted = ''human_release_not_granted''"
| "block_reason_text HumanReleaseNotYetValid = ''human_release_not_yet_valid''"
| "block_reason_text HumanReleaseExpired = ''human_release_expired''"
| "block_reason_text HumanReleaseRevoked = ''human_release_revoked''"
| "block_reason_text HumanReleaseScopeMismatch = ''human_release_scope_mismatch''"
| "block_reason_text HumanReleaseUntrusted = ''human_release_untrusted''"
| "block_reason_text ApprovalLedgerInvalid = ''approval_ledger_invalid''"
| "block_reason_text ApprovalLedgerUnavailable = ''approval_ledger_unavailable''"
| "block_reason_text ExecutionDisabled = ''execution_disabled''"

section \<open>Contracts\<close>

record run_evidence =
  re_pack_id :: string
  re_pack_rule_version :: string
  re_pack_status :: pack_status
  re_item_count :: nat
  re_exclusion_count :: nat
  re_source_text_characters :: int
  re_evidence_ids :: "string list"

record approval_observation =
  ao_status :: approval_status
  ao_approval_id :: "string option"
  ao_approved_proposal_id :: "string option"
  ao_source_manifest_id :: "string option"
  ao_approver_id :: "string option"
  ao_signing_key_id :: "string option"
  ao_issued_at :: "datetime option"
  ao_expires_at :: "datetime option"
  ao_revocation_id :: "string option"
  ao_evaluated_at :: "datetime option"

definition no_approval :: approval_observation where
  "no_approval = \<lparr>ao_status = NotSupplied, ao_approval_id = None, ao_approved_proposal_id = None,
     ao_source_manifest_id = None, ao_approver_id = None, ao_signing_key_id = None, ao_issued_at = None,
     ao_expires_at = None, ao_revocation_id = None, ao_evaluated_at = None\<rparr>"

record release_observation =
  ro_status :: release_status
  ro_assessment_id :: "string option"
  ro_assessment_sha256 :: "string option"
  ro_policy_id :: "string option"
  ro_policy_sha256 :: "string option"
  ro_agent_candidate_id :: "string option"
  ro_relationship_report_id :: "string option"
  ro_trajectory_report_ids :: "string list"
  ro_model_adapter :: bool
  ro_relationship_benchmark :: bool
  ro_grounded_answer :: bool
  ro_agent_trajectory :: bool
  ro_trajectory_drift :: bool
  ro_release_threshold :: bool
  ro_blocking_reasons :: "string list"

definition no_release :: release_observation where
  "no_release = \<lparr>ro_status = ReleaseNotSupplied, ro_assessment_id = None, ro_assessment_sha256 = None,
     ro_policy_id = None, ro_policy_sha256 = None, ro_agent_candidate_id = None, ro_relationship_report_id = None,
     ro_trajectory_report_ids = [], ro_model_adapter = False, ro_relationship_benchmark = False,
     ro_grounded_answer = False, ro_agent_trajectory = False, ro_trajectory_drift = False,
     ro_release_threshold = False, ro_blocking_reasons = []\<rparr>"

record run_proposal =
  rp_proposal_id :: string
  rp_rule_version :: string
  rp_evidence :: run_evidence
  rp_release :: release_observation

record authorization_check =
  ac_check_id :: check_id
  ac_passed :: bool
  ac_observed :: string
  ac_required :: string
  ac_blocking_reason :: "block_reason option"

record authorization =
  au_passed_count :: nat
  au_blocked_count :: nat
  au_blocking_reasons :: "block_reason list"
  au_checks :: "authorization_check list"

record run_manifest =
  rm_manifest_id :: string
  rm_proposal_id :: string
  rm_evidence :: run_evidence
  rm_release :: release_observation
  rm_approval :: approval_observation
  rm_authorization :: authorization

section \<open>The release observation\<close>

text \<open>What is read of an assessment (\<open>agent_trajectory/release.py\<close>); its status is never absent.\<close>

record release_assessment =
  ra_eligible :: bool
  ra_assessment_id :: string
  ra_assessment_sha256 :: string
  ra_policy_id :: string
  ra_policy_sha256 :: string
  ra_agent_candidate_id :: string
  ra_relationship_report_id :: string
  ra_trajectory_report_ids :: "string list"
  ra_gates :: "(string \<times> bool) list"
  ra_blocking_reasons :: "string list"

text \<open>\<open>{gate.gate_id: gate.passed for gate in gates}\<close>: the last gate of an id counts.\<close>

definition every_gate :: "release_assessment \<Rightarrow> string list \<Rightarrow> bool" where
  "every_gate a gate_ids \<longleftrightarrow> list_all (\<lambda>g. case map_of (rev (ra_gates a)) g of None \<Rightarrow> False | Some p \<Rightarrow> p) gate_ids"

definition agent_release_observation :: "release_assessment \<Rightarrow> release_observation" where
  "agent_release_observation a =
     \<lparr>ro_status = (if ra_eligible a then EligibleForHumanReview else ReleaseBlocked),
      ro_assessment_id = Some (ra_assessment_id a), ro_assessment_sha256 = Some (ra_assessment_sha256 a),
      ro_policy_id = Some (ra_policy_id a), ro_policy_sha256 = Some (ra_policy_sha256 a),
      ro_agent_candidate_id = Some (ra_agent_candidate_id a),
      ro_relationship_report_id = Some (ra_relationship_report_id a),
      ro_trajectory_report_ids = ra_trajectory_report_ids a,
      ro_model_adapter = every_gate a [''agent_candidate_identity''],
      ro_relationship_benchmark = every_gate a [''relationship_sample_size'', ''relationship_macro_f1'',
        ''relationship_accuracy_delta'', ''relationship_regression_rate''],
      ro_grounded_answer = every_gate a [''grounded_review_adjudication'', ''grounded_answer_coverage'',
        ''grounded_strict_pass'', ''grounded_unsupported_claims'', ''grounded_complete_citations''],
      ro_agent_trajectory = every_gate a [''trajectory_capture_count'', ''trajectory_total_cases'',
        ''trajectory_capture_sample_size'', ''trajectory_policy_compliance'', ''trajectory_evidence_inspection'',
        ''trajectory_claim_trace'', ''trajectory_strict_pass'', ''trajectory_end_to_end_pass'',
        ''trajectory_step_budget'', ''trajectory_latency_budget''],
      ro_trajectory_drift = every_gate a [''trajectory_drift_chain'', ''trajectory_drift_stability''],
      ro_release_threshold = ra_eligible a, ro_blocking_reasons = ra_blocking_reasons a\<rparr>"

definition release_identity :: "release_observation \<Rightarrow> string option list" where
  "release_identity r = [ro_assessment_id r, ro_assessment_sha256 r, ro_policy_id r, ro_policy_sha256 r,
     ro_agent_candidate_id r, ro_relationship_report_id r]"

definition release_flags :: "release_observation \<Rightarrow> bool list" where
  "release_flags r = [ro_model_adapter r, ro_relationship_benchmark r, ro_grounded_answer r,
     ro_agent_trajectory r, ro_trajectory_drift r, ro_release_threshold r]"

definition validate_release_observation :: "release_observation \<Rightarrow> unit res" where
  "validate_release_observation r = (case ro_status r of
     ReleaseNotSupplied \<Rightarrow> raise_first
       [(list_ex (\<lambda>v. v \<noteq> None) (release_identity r) \<or> ro_trajectory_report_ids r \<noteq> []
          \<or> list_ex id (release_flags r) \<or> ro_blocking_reasons r \<noteq> [],
         ''not_supplied release observation cannot contain assessment fields'')] ()
   | EligibleForHumanReview \<Rightarrow> raise_first
       [(None \<in> set (release_identity r) \<or> ro_trajectory_report_ids r = [],
         ''resolved release observations require complete assessment identity''),
        (\<not> list_all id (release_flags r) \<or> ro_blocking_reasons r \<noteq> [],
         ''eligible release observations require every quality gate to pass'')] ()
   | ReleaseBlocked \<Rightarrow> raise_first
       [(None \<in> set (release_identity r) \<or> ro_trajectory_report_ids r = [],
         ''resolved release observations require complete assessment identity''),
        (ro_release_threshold r \<or> ro_blocking_reasons r = [],
         ''blocked release observations require threshold blocking reasons'')] ())"

section \<open>Approvals and checks\<close>

definition approval_complete :: "approval_observation \<Rightarrow> bool" where
  "approval_complete a \<longleftrightarrow> None \<notin> set [ao_approval_id a, ao_approved_proposal_id a, ao_source_manifest_id a,
     ao_approver_id a, ao_signing_key_id a] \<and> None \<notin> set [ao_issued_at a, ao_expires_at a, ao_evaluated_at a]"

definition in_lifetime :: "approval_observation \<Rightarrow> bool" where
  "in_lifetime a \<longleftrightarrow> (case (ao_issued_at a, ao_evaluated_at a, ao_expires_at a) of
     (Some i, Some e, Some x) \<Rightarrow> dt_us i \<le> dt_us e \<and> dt_us e < dt_us x | _ \<Rightarrow> False)"

definition validate_active_approval :: "approval_observation \<Rightarrow> string \<Rightarrow> unit res" where
  "validate_active_approval a proposal_id = (if ao_status a \<noteq> Active then Inr () else raise_first
     [(\<not> approval_complete a, ''active approval observation is incomplete''),
      (ao_approved_proposal_id a \<noteq> Some proposal_id, ''active approval does not match the run proposal''),
      (ao_revocation_id a \<noteq> None, ''active approval cannot contain a revocation''),
      (\<not> in_lifetime a, ''active approval observation is outside its lifetime'')] ())"

definition check :: "check_id \<Rightarrow> bool \<Rightarrow> string \<Rightarrow> string \<Rightarrow> block_reason option \<Rightarrow> authorization_check res" where
  "check cid passed observed required reason =
     (if passed then Inr \<lparr>ac_check_id = cid, ac_passed = True, ac_observed = observed, ac_required = required,
        ac_blocking_reason = None\<rparr>
      else if reason = None then Inl (ValueError ''blocked authorization checks require a blocking reason'')
      else Inr \<lparr>ac_check_id = cid, ac_passed = False, ac_observed = observed, ac_required = required,
        ac_blocking_reason = reason\<rparr>)"

fun human_release_blocking_reason :: "approval_status \<Rightarrow> block_reason" where
  "human_release_blocking_reason NotYetValid = HumanReleaseNotYetValid"
| "human_release_blocking_reason Expired = HumanReleaseExpired"
| "human_release_blocking_reason Revoked = HumanReleaseRevoked"
| "human_release_blocking_reason ScopeMismatch = HumanReleaseScopeMismatch"
| "human_release_blocking_reason UntrustedSigner = HumanReleaseUntrusted"
| "human_release_blocking_reason LedgerInvalid = ApprovalLedgerInvalid"
| "human_release_blocking_reason LedgerUnavailable = ApprovalLedgerUnavailable"
| "human_release_blocking_reason _ = HumanReleaseNotGranted"

text \<open>\<open>value or release.status\<close>: an absent or empty text gives the status.\<close>

definition or_status :: "string option \<Rightarrow> release_observation \<Rightarrow> string" where
  "or_status v r = (case v of Some (c # s) \<Rightarrow> c # s | _ \<Rightarrow> release_status_text (ro_status r))"

definition authorization_checks :: "evidence_pack \<Rightarrow> release_observation \<Rightarrow> approval_observation \<Rightarrow> authorization_check list res" where
  "authorization_checks p r a = rmap id
     [check EvidencePackIntegrity True ''content_addressed_bounded_pack'' ''content_addressed_bounded_pack'' None,
      check TraceableEvidenceCheck (ep_status p = TraceableEvidence \<and> ep_items p \<noteq> [])
        (pack_status_text (ep_status p)) ''traceable_evidence_available'' (Some NoTraceableEvidenceReason),
      check CapabilityScope True ''read_only_no_network_no_tools_no_side_effects''
        ''read_only_no_network_no_tools_no_side_effects'' None,
      check ModelAdapter (ro_model_adapter r) (or_status (ro_agent_candidate_id r) r) ''evaluated_model_adapter''
        (Some ModelAdapterNotSelected),
      check LiveRelationshipBenchmark (ro_relationship_benchmark r) (or_status (ro_relationship_report_id r) r)
        ''adjudicated_pass'' (Some LiveRelationshipBenchmarkIncomplete),
      check GroundedAnswerEvaluation (ro_grounded_answer r) (or_status (ro_assessment_id r) r) ''evaluated_pass''
        (Some GroundedAnswerEvaluationMissing),
      check AgentTrajectoryEvaluation (ro_agent_trajectory r) (or_status (ro_assessment_id r) r)
        ''observable_trajectory_pass'' (Some AgentTrajectoryEvaluationMissing),
      check TrajectoryDriftMonitoring (ro_trajectory_drift r) (or_status (ro_assessment_id r) r)
        ''complete_stable_drift_chain'' (Some TrajectoryDriftEvidenceMissing),
      check ReleaseThresholdPolicy (ro_release_threshold r) (release_status_text (ro_status r))
        ''eligible_for_human_review'' (Some ReleaseThresholdsNotMet),
      check HumanRelease (ao_status a = Active) (approval_status_text (ao_status a))
        ''active_trusted_unrevoked_approval'' (Some (human_release_blocking_reason (ao_status a))),
      check ExecutionRelease False ''disabled'' ''enabled'' (Some ExecutionDisabled)]"

section \<open>Identities\<close>

definition run_schema_version :: string where "run_schema_version = ''1.2.0''"

definition run_rule_version :: string where "run_rule_version = ''agent-run-manifest-v3''"

definition proposal_rule_version :: string where "proposal_rule_version = ''agent-run-proposal-v2''"

definition authorization_policy_version :: string where "authorization_policy_version = ''agent-authorization-v3''"

definition run_caveat :: string where
  "run_caveat = ''Preflight records a deterministic policy decision bound to one evidence-pack identity. A validated release assessment may satisfy only its measured quality gates, and a trusted, active approval may satisfy only the human-release check. Preflight may perform ordinary local retrieval to assemble the pack, but it does not start the proposed agent, invoke a generative agent model, grant agent network or tool access, generate an answer, or perform agent side effects.''"

definition request_json :: json where
  "request_json = JObj [(''purpose'', JStr ''evidence_triage''), (''mode'', JStr ''read_only''),
     (''requested_output'', JStr ''grounded_evidence_brief''),
     (''capabilities'', JObj [(''read_evidence'', JBool True), (''generate_text'', JBool True),
        (''network_access'', JBool False), (''tool_access'', JBool False), (''external_side_effects'', JBool False)])]"

definition policy_json :: json where
  "policy_json = JObj [(''policy_version'', JStr authorization_policy_version), (''default_decision'', JStr ''deny''),
     (''execution_enabled'', JBool False), (''human_release_required'', JBool True),
     (''evaluated_model_required'', JBool True), (''relationship_benchmark_required'', JBool True),
     (''grounded_answer_evaluation_required'', JBool True), (''agent_trajectory_evaluation_required'', JBool True),
     (''trajectory_drift_monitoring_required'', JBool True), (''release_threshold_policy_required'', JBool True),
     (''network_access_allowed'', JBool False), (''tool_access_allowed'', JBool False),
     (''external_side_effects_allowed'', JBool False)]"

definition execution_json :: json where
  "execution_json = JObj [(''status'', JStr ''not_started''), (''agent_model_invoked'', JBool False),
     (''agent_network_accessed'', JBool False), (''agent_tools_invoked'', JBool False),
     (''answer_generated'', JBool False), (''agent_side_effects_performed'', JBool False)]"

definition evidence_json :: "run_evidence \<Rightarrow> json" where
  "evidence_json e = JObj [(''pack_id'', JStr (re_pack_id e)), (''pack_rule_version'', JStr (re_pack_rule_version e)),
     (''pack_status'', JStr (pack_status_text (re_pack_status e))), (''item_count'', jnat (re_item_count e)),
     (''exclusion_count'', jnat (re_exclusion_count e)),
     (''source_text_characters'', JInt (re_source_text_characters e)),
     (''evidence_ids'', JList (map JStr (re_evidence_ids e)))]"

definition release_json :: "release_observation \<Rightarrow> json" where
  "release_json r = JObj [(''status'', JStr (release_status_text (ro_status r))),
     (''assessment_id'', jopt JStr (ro_assessment_id r)), (''assessment_sha256'', jopt JStr (ro_assessment_sha256 r)),
     (''policy_id'', jopt JStr (ro_policy_id r)), (''policy_sha256'', jopt JStr (ro_policy_sha256 r)),
     (''agent_candidate_id'', jopt JStr (ro_agent_candidate_id r)),
     (''relationship_report_id'', jopt JStr (ro_relationship_report_id r)),
     (''trajectory_report_ids'', JList (map JStr (ro_trajectory_report_ids r))),
     (''model_adapter_evaluated'', JBool (ro_model_adapter r)),
     (''relationship_benchmark_passed'', JBool (ro_relationship_benchmark r)),
     (''grounded_answer_evaluation_passed'', JBool (ro_grounded_answer r)),
     (''agent_trajectory_evaluation_passed'', JBool (ro_agent_trajectory r)),
     (''trajectory_drift_monitoring_passed'', JBool (ro_trajectory_drift r)),
     (''release_threshold_policy_passed'', JBool (ro_release_threshold r)),
     (''blocking_reasons'', JList (map JStr (ro_blocking_reasons r)))]"

definition approval_json :: "approval_observation \<Rightarrow> json" where
  "approval_json a = JObj [(''status'', JStr (approval_status_text (ao_status a))),
     (''approval_id'', jopt JStr (ao_approval_id a)), (''approved_proposal_id'', jopt JStr (ao_approved_proposal_id a)),
     (''source_manifest_id'', jopt JStr (ao_source_manifest_id a)), (''approver_id'', jopt JStr (ao_approver_id a)),
     (''signing_key_id'', jopt JStr (ao_signing_key_id a)), (''issued_at'', jopt JTime (ao_issued_at a)),
     (''expires_at'', jopt JTime (ao_expires_at a)), (''revocation_id'', jopt JStr (ao_revocation_id a)),
     (''evaluated_at'', jopt JTime (ao_evaluated_at a))]"

definition check_json :: "authorization_check \<Rightarrow> json" where
  "check_json c = JObj [(''check_id'', JStr (check_id_text (ac_check_id c))),
     (''status'', JStr (if ac_passed c then ''passed'' else ''blocked'')), (''observed'', JStr (ac_observed c)),
     (''required'', JStr (ac_required c)),
     (''blocking_reason'', jopt JStr (map_option block_reason_text (ac_blocking_reason c)))]"

definition authorization_json :: "authorization \<Rightarrow> json" where
  "authorization_json a = JObj [(''decision'', JStr ''blocked''), (''passed_check_count'', jnat (au_passed_count a)),
     (''blocked_check_count'', jnat (au_blocked_count a)),
     (''blocking_reasons'', JList (map JStr (map block_reason_text (au_blocking_reasons a)))),
     (''checks'', JList (map check_json (au_checks a)))]"

definition proposal_payload :: "run_evidence \<Rightarrow> release_observation \<Rightarrow> json" where
  "proposal_payload e r = JObj [(''schema_version'', JStr run_schema_version),
     (''manifest_rule_version'', JStr run_rule_version), (''proposal_rule_version'', JStr proposal_rule_version),
     (''identity_algorithm'', JStr pack_identity_algorithm), (''request'', request_json),
     (''evidence'', evidence_json e), (''policy'', policy_json), (''release'', release_json r)]"

definition evidence_of_pack :: "evidence_pack \<Rightarrow> run_evidence" where
  "evidence_of_pack p = \<lparr>re_pack_id = ep_pack_id p, re_pack_rule_version = ep_rule_version p,
     re_pack_status = ep_status p, re_item_count = length (ep_items p), re_exclusion_count = length (ep_exclusions p),
     re_source_text_characters = ep_source_text_characters p, re_evidence_ids = map pi_evidence_id (ep_items p)\<rparr>"

definition build_agent_run_proposal :: "address_api \<Rightarrow> evidence_pack \<Rightarrow> release_observation option \<Rightarrow> run_proposal res" where
  "build_agent_run_proposal A p release = (let r = (case release of None \<Rightarrow> no_release | Some r \<Rightarrow> r) in
     rbind (validate_release_observation r) (\<lambda>u.
     rbind (address A ''proposal-'' (proposal_payload (evidence_of_pack p) r)) (\<lambda>i. Inr
       \<lparr>rp_proposal_id = i, rp_rule_version = proposal_rule_version, rp_evidence = evidence_of_pack p, rp_release = r\<rparr>)))"

definition manifest_payload :: "string \<Rightarrow> run_evidence \<Rightarrow> release_observation \<Rightarrow> approval_observation \<Rightarrow> authorization \<Rightarrow> json" where
  "manifest_payload proposal_id e r a au = JObj [(''schema_version'', JStr run_schema_version),
     (''rule_version'', JStr run_rule_version), (''identity_algorithm'', JStr pack_identity_algorithm),
     (''proposal_id'', JStr proposal_id), (''status'', JStr ''blocked''), (''request'', request_json),
     (''evidence'', evidence_json e), (''policy'', policy_json), (''release'', release_json r),
     (''approval'', approval_json a), (''authorization'', authorization_json au), (''execution'', execution_json),
     (''caveat'', JStr run_caveat)]"

definition authorization_of :: "authorization_check list \<Rightarrow> authorization" where
  "authorization_of checks = \<lparr>au_passed_count = length (filter ac_passed checks),
     au_blocked_count = length (filter (\<lambda>c. \<not> ac_passed c) checks),
     au_blocking_reasons = map the (filter (\<lambda>r. r \<noteq> None) (map ac_blocking_reason (filter (\<lambda>c. \<not> ac_passed c) checks))),
     au_checks = checks\<rparr>"

definition build_agent_run_manifest :: "address_api \<Rightarrow> evidence_pack \<Rightarrow> approval_observation option
     \<Rightarrow> run_proposal option \<Rightarrow> release_observation option \<Rightarrow> run_manifest res" where
  "build_agent_run_manifest A p approval proposal release = (let
     r = (case release of None \<Rightarrow> no_release | Some r \<Rightarrow> r);
     a = (case approval of None \<Rightarrow> no_approval | Some a \<Rightarrow> a) in
   rbind (validate_release_observation r) (\<lambda>u.
   rbind (build_agent_run_proposal A p (Some r)) (\<lambda>expected.
   if proposal \<noteq> None \<and> proposal \<noteq> Some expected
   then Inl (ValueError ''agent run proposal does not match the evidence pack'')
   else rbind (validate_active_approval a (rp_proposal_id expected)) (\<lambda>v.
     rbind (authorization_checks p r a) (\<lambda>checks. let au = authorization_of checks in
     rbind (address A ''manifest-'' (manifest_payload (rp_proposal_id expected) (rp_evidence expected)
         (rp_release expected) a au)) (\<lambda>i. Inr
       \<lparr>rm_manifest_id = i, rm_proposal_id = rp_proposal_id expected, rm_evidence = rp_evidence expected,
        rm_release = rp_release expected, rm_approval = a, rm_authorization = au\<rparr>))))))"

section \<open>Identities are injective\<close>

lemma approval_status_text_inj [simp]: "approval_status_text a = approval_status_text b \<longleftrightarrow> a = b"
  by (cases a; cases b) simp_all

lemma release_status_text_inj [simp]: "release_status_text a = release_status_text b \<longleftrightarrow> a = b"
  by (cases a; cases b) simp_all

lemma check_id_text_inj [simp]: "check_id_text a = check_id_text b \<longleftrightarrow> a = b"
  by (cases a; cases b) simp_all

lemma block_reason_text_inj: "inj block_reason_text"
proof (rule injI)
  fix a b assume "block_reason_text a = block_reason_text b"
  then show "a = b" by (cases a; cases b) simp_all
qed

lemma same_evidence [simp]: "same_json (evidence_json e) (evidence_json f) \<longleftrightarrow> e = f"
  by (auto simp: evidence_json_def)

lemma same_release [simp]: "same_json (release_json r) (release_json s) \<longleftrightarrow> r = s"
  by (auto simp: release_json_def)

lemma same_proposal_payload [simp]:
  "same_json (proposal_payload e r) (proposal_payload f s) \<longleftrightarrow> e = f \<and> r = s"
  by (simp add: proposal_payload_def)

lemma finite_run_payloads [simp]:
  "finite_json (evidence_json e)" "finite_json (release_json r)" "finite_json (approval_json a)"
  "finite_json (proposal_payload e r)" "finite_json (authorization_json au)"
  "finite_json (manifest_payload i e r a au)"
proof -
  have c: "finite_json (check_json c)" for c by (simp add: check_json_def)
  show "finite_json (evidence_json e)" "finite_json (release_json r)" "finite_json (approval_json a)"
    "finite_json (proposal_payload e r)" "finite_json (authorization_json au)" "finite_json (manifest_payload i e r a au)"
    by (auto simp: evidence_json_def release_json_def approval_json_def proposal_payload_def authorization_json_def
        manifest_payload_def request_json_def policy_json_def execution_json_def jnat_def c)
qed

section \<open>Proposals\<close>

lemma proposal_Inr:
  "build_agent_run_proposal A p (Some r) = Inr q \<longleftrightarrow> validate_release_observation r = Inr () \<and>
     (\<exists>i. address A ''proposal-'' (proposal_payload (evidence_of_pack p) r) = Inr i \<and>
       q = \<lparr>rp_proposal_id = i, rp_rule_version = proposal_rule_version, rp_evidence = evidence_of_pack p, rp_release = r\<rparr>)"
  by (auto simp: build_agent_run_proposal_def Let_def)

lemma proposal_binds:
  assumes "address_laws A" "build_agent_run_proposal A p (Some r) = Inr q" "build_agent_run_proposal A p' (Some r') = Inr q'"
    and "rp_proposal_id q = rp_proposal_id q'"
  shows "(evidence_of_pack p = evidence_of_pack p' \<and> r = r')
    \<or> json_collision A (proposal_payload (evidence_of_pack p) r) (proposal_payload (evidence_of_pack p') r')"
proof -
  obtain i where "address A ''proposal-'' (proposal_payload (evidence_of_pack p) r) = Inr i"
    "address A ''proposal-'' (proposal_payload (evidence_of_pack p') r') = Inr i"
    using assms(2-4) unfolding proposal_Inr by auto
  from same_content [OF assms(1) this] show ?thesis by simp
qed

section \<open>The manifest\<close>

definition human_release_passed :: "run_manifest \<Rightarrow> bool" where
  "human_release_passed m \<longleftrightarrow> list_ex (\<lambda>c. ac_check_id c = HumanRelease \<and> ac_passed c) (au_checks (rm_authorization m))"

text \<open>What each check requires.\<close>

fun requirement :: "evidence_pack \<Rightarrow> release_observation \<Rightarrow> approval_observation \<Rightarrow> check_id \<Rightarrow> bool" where
  "requirement p r a EvidencePackIntegrity = True"
| "requirement p r a TraceableEvidenceCheck = (ep_status p = TraceableEvidence \<and> ep_items p \<noteq> [])"
| "requirement p r a CapabilityScope = True"
| "requirement p r a ModelAdapter = ro_model_adapter r"
| "requirement p r a LiveRelationshipBenchmark = ro_relationship_benchmark r"
| "requirement p r a GroundedAnswerEvaluation = ro_grounded_answer r"
| "requirement p r a AgentTrajectoryEvaluation = ro_agent_trajectory r"
| "requirement p r a TrajectoryDriftMonitoring = ro_trajectory_drift r"
| "requirement p r a ReleaseThresholdPolicy = ro_release_threshold r"
| "requirement p r a HumanRelease = (ao_status a = Active)"
| "requirement p r a ExecutionRelease = False"

definition all_checks :: "check_id list" where
  "all_checks = [EvidencePackIntegrity, TraceableEvidenceCheck, CapabilityScope, ModelAdapter,
     LiveRelationshipBenchmark, GroundedAnswerEvaluation, AgentTrajectoryEvaluation,
     TrajectoryDriftMonitoring, ReleaseThresholdPolicy, HumanRelease, ExecutionRelease]"

lemma check_Inr: "reason \<noteq> None \<or> passed \<Longrightarrow> check cid passed observed required reason =
    Inr \<lparr>ac_check_id = cid, ac_passed = passed, ac_observed = observed, ac_required = required,
      ac_blocking_reason = (if passed then None else reason)\<rparr>"
  by (cases reason) (auto simp: check_def)

lemma authorization_checks_Inr:
  "\<exists>checks. authorization_checks p r a = Inr checks \<and> map ac_check_id checks = all_checks
    \<and> (\<forall>c \<in> set checks. ac_passed c = requirement p r a (ac_check_id c)
          \<and> (ac_blocking_reason c = None \<longleftrightarrow> ac_passed c))"
  by (simp add: authorization_checks_def check_Inr all_checks_def)

abbreviation supplied_release :: "release_observation option \<Rightarrow> release_observation" where
  "supplied_release release \<equiv> (case release of None \<Rightarrow> no_release | Some r \<Rightarrow> r)"

abbreviation supplied_approval :: "approval_observation option \<Rightarrow> approval_observation" where
  "supplied_approval approval \<equiv> (case approval of None \<Rightarrow> no_approval | Some a \<Rightarrow> a)"

lemma manifest_Inr:
  assumes "build_agent_run_manifest A p approval proposal release = Inr m"
  obtains q checks where "build_agent_run_proposal A p (Some (supplied_release release)) = Inr q"
    "proposal = None \<or> proposal = Some q" "validate_active_approval (supplied_approval approval) (rp_proposal_id q) = Inr ()"
    "authorization_checks p (supplied_release release) (supplied_approval approval) = Inr checks"
    "rm_authorization m = authorization_of checks" "rm_proposal_id m = rp_proposal_id q" "rm_evidence m = rp_evidence q"
    "rm_release m = supplied_release release" "rm_approval m = supplied_approval approval"
    "address A ''manifest-'' (manifest_payload (rp_proposal_id q) (rp_evidence q) (supplied_release release)
       (supplied_approval approval) (authorization_of checks)) = Inr (rm_manifest_id m)"
proof -
  let ?a = "supplied_approval approval" and ?r = "supplied_release release"
  obtain q where q: "build_agent_run_proposal A p (Some ?r) = Inr q" "proposal = None \<or> proposal = Some q"
    and rest: "rbind (validate_active_approval ?a (rp_proposal_id q)) (\<lambda>v.
      rbind (authorization_checks p ?r ?a) (\<lambda>checks. let au = authorization_of checks in
      rbind (address A ''manifest-'' (manifest_payload (rp_proposal_id q) (rp_evidence q) (rp_release q) ?a au)) (\<lambda>i. Inr
       \<lparr>rm_manifest_id = i, rm_proposal_id = rp_proposal_id q, rm_evidence = rp_evidence q,
        rm_release = rp_release q, rm_approval = ?a, rm_authorization = au\<rparr>))) = Inr m"
    using assms unfolding build_agent_run_manifest_def Let_def rbind_eq_Inr by (auto split: if_splits)
  have rel: "rp_release q = ?r" using q(1) by (auto simp: proposal_Inr)
  obtain checks i where "validate_active_approval ?a (rp_proposal_id q) = Inr ()" "authorization_checks p ?r ?a = Inr checks"
    "address A ''manifest-'' (manifest_payload (rp_proposal_id q) (rp_evidence q) ?r ?a (authorization_of checks)) = Inr i"
    "m = \<lparr>rm_manifest_id = i, rm_proposal_id = rp_proposal_id q, rm_evidence = rp_evidence q,
        rm_release = ?r, rm_approval = ?a, rm_authorization = authorization_of checks\<rparr>"
    using rest unfolding rel Let_def rbind_eq_Inr by auto
  then show ?thesis using q by (intro that) simp_all
qed

lemma authorization_of_counts:
  "au_passed_count (authorization_of cs) + au_blocked_count (authorization_of cs) = length cs"
  by (simp add: authorization_of_def sum_length_filter_compl)

lemma authorization_of_reasons:
  assumes "\<forall>c \<in> set cs. (ac_blocking_reason c = None) = ac_passed c"
  shows "map Some (au_blocking_reasons (authorization_of cs)) = map ac_blocking_reason (filter (\<lambda>c. \<not> ac_passed c) cs)"
proof -
  have "filter (\<lambda>r. r \<noteq> None) (map ac_blocking_reason (filter (\<lambda>c. \<not> ac_passed c) cs))
      = map ac_blocking_reason (filter (\<lambda>c. \<not> ac_passed c) cs)"
    by (rule filter_True) (use assms in auto)
  moreover have "map Some (map the rs) = rs" if "None \<notin> set rs" for rs :: "block_reason option list"
    using that by (induction rs) auto
  moreover have "None \<notin> set (map ac_blocking_reason (filter (\<lambda>c. \<not> ac_passed c) cs))" using assms by auto
  ultimately show ?thesis by (simp only: authorization_of_def authorization.select_convs)
qed

text \<open>C21. Preflight fails closed. Every manifest carries the eleven checks in order; each passes exactly
when its requirement holds of the pack, the release and the approval; passed and blocked counts add up;
the blocking reasons are those of the blocked checks, in order; and since the execution switch is never
on, at least one check is blocked, whatever is supplied: no input yields an authorized run.\<close>

theorem manifest_fails_closed:
  assumes "build_agent_run_manifest A p approval proposal release = Inr m"
  shows "map ac_check_id (au_checks (rm_authorization m)) = all_checks
    \<and> (\<forall>c \<in> set (au_checks (rm_authorization m)).
          ac_passed c = requirement p (rm_release m) (rm_approval m) (ac_check_id c))
    \<and> au_passed_count (rm_authorization m) + au_blocked_count (rm_authorization m) = 11
    \<and> map Some (au_blocking_reasons (rm_authorization m))
        = map ac_blocking_reason (filter (\<lambda>c. \<not> ac_passed c) (au_checks (rm_authorization m)))
    \<and> length (au_blocking_reasons (rm_authorization m)) = au_blocked_count (rm_authorization m)
    \<and> 1 \<le> au_blocked_count (rm_authorization m)
    \<and> ac_blocking_reason (last (au_checks (rm_authorization m))) \<noteq> None"
proof -
  obtain checks where c: "authorization_checks p (rm_release m) (rm_approval m) = Inr checks"
    and m: "rm_authorization m = authorization_of checks"
    using manifest_Inr [OF assms] by metis
  have spec: "map ac_check_id checks = all_checks"
    "\<forall>c \<in> set checks. ac_passed c = requirement p (rm_release m) (rm_approval m) (ac_check_id c)
      \<and> (ac_blocking_reason c = None) = ac_passed c"
    using authorization_checks_Inr [of p "rm_release m" "rm_approval m"] c by auto
  have len: "length checks = 11" using arg_cong [OF spec(1), of length] by (simp add: all_checks_def)
  have au: "au_checks (rm_authorization m) = checks" by (simp add: m authorization_of_def)
  have ne: "checks \<noteq> []" using len by auto
  have "ac_check_id (last checks) = ExecutionRelease"
    using last_map [OF ne, of ac_check_id] unfolding spec(1) by (simp add: all_checks_def)
  then have exec: "\<not> ac_passed (last checks)" "ac_blocking_reason (last checks) \<noteq> None"
    using spec(2) last_in_set [OF ne] by auto
  then have "filter (\<lambda>c. \<not> ac_passed c) checks \<noteq> []" using last_in_set [OF ne] by (auto simp: filter_empty_conv)
  then have blocked: "1 \<le> au_blocked_count (rm_authorization m)"
    unfolding m authorization_of_def authorization.select_convs by (cases "filter (\<lambda>c. \<not> ac_passed c) checks") simp_all
  have reasons: "map Some (au_blocking_reasons (rm_authorization m)) = map ac_blocking_reason (filter (\<lambda>c. \<not> ac_passed c) checks)"
    unfolding m by (rule authorization_of_reasons) (use spec(2) in blast)
  have "length (au_blocking_reasons (rm_authorization m)) = au_blocked_count (rm_authorization m)"
    using arg_cong [OF reasons, of length] by (simp add: m authorization_of_def)
  then show ?thesis
    using spec authorization_of_counts [of checks] len blocked reasons exec unfolding au by (simp add: m)
qed

lemma human_release_iff:
  assumes "build_agent_run_manifest A p approval proposal release = Inr m"
  shows "human_release_passed m \<longleftrightarrow> ao_status (rm_approval m) = Active"
proof -
  obtain checks where m: "authorization_checks p (rm_release m) (rm_approval m) = Inr checks"
    "rm_authorization m = authorization_of checks"
    using manifest_Inr [OF assms(1)] by metis
  have spec: "map ac_check_id checks = all_checks" "\<And>c. c \<in> set checks \<Longrightarrow>
      ac_passed c = requirement p (rm_release m) (rm_approval m) (ac_check_id c)"
    using authorization_checks_Inr [of p "rm_release m" "rm_approval m"] m(1) by auto
  have "HumanRelease \<in> set (map ac_check_id checks)" unfolding spec(1) by (simp add: all_checks_def)
  then obtain c where "c \<in> set checks" "ac_check_id c = HumanRelease" by auto
  then show ?thesis
    using spec(2) by (auto simp: human_release_passed_def m(2) authorization_of_def list_ex_iff)
qed

lemma live_approval:
  assumes "build_agent_run_manifest A p approval proposal release = Inr m" "human_release_passed m"
  shows "ao_approved_proposal_id (rm_approval m) = Some (rm_proposal_id m)
    \<and> ao_revocation_id (rm_approval m) = None \<and> approval_complete (rm_approval m) \<and> in_lifetime (rm_approval m)"
proof -
  have "validate_active_approval (rm_approval m) (rm_proposal_id m) = Inr ()"
    using manifest_Inr [OF assms(1)] by metis
  then show ?thesis
    using human_release_iff [OF assms(1)] assms(2) by (simp add: validate_active_approval_def guard_simps)
qed

lemma manifest_exists:
  assumes "validate_release_observation (supplied_release release) = Inr ()"
    and "\<And>q. build_agent_run_proposal A p (Some (supplied_release release)) = Inr q \<Longrightarrow>
      validate_active_approval (supplied_approval approval) (rp_proposal_id q) = Inr ()"
  shows "\<exists>m. build_agent_run_manifest A p approval None release = Inr m
    \<and> rm_approval m = supplied_approval approval \<and> rm_release m = supplied_release release"
proof -
  obtain q where q: "build_agent_run_proposal A p (Some (supplied_release release)) = Inr q"
    using assms(1) by (simp add: proposal_Inr address_finite)
  obtain checks where checks: "authorization_checks p (supplied_release release) (supplied_approval approval) = Inr checks"
    using authorization_checks_Inr by blast
  have rel: "rp_release q = supplied_release release" using q by (auto simp: proposal_Inr)
  show ?thesis
    using assms(1) assms(2) [OF q] q checks rel
    by (simp add: build_agent_run_manifest_def Let_def address_finite)
qed


text \<open>The sample pack, with an approval of its proposal.\<close>

definition sample_proposal_id :: string where
  "sample_proposal_id = (case build_agent_run_proposal sample_address_api sample_pack (Some no_release) of
     Inr q \<Rightarrow> rp_proposal_id q | Inl e \<Rightarrow> [])"

definition sample_approval :: approval_observation where
  "sample_approval = \<lparr>ao_status = Active, ao_approval_id = Some ''approval-1'',
     ao_approved_proposal_id = Some sample_proposal_id, ao_source_manifest_id = Some ''manifest-1'',
     ao_approver_id = Some ''github:1'', ao_signing_key_id = Some ''ed25519-1'', ao_issued_at = Some (utc 0),
     ao_expires_at = Some (utc 10), ao_revocation_id = None, ao_evaluated_at = Some (utc 5)\<rparr>"

lemma sample_manifest: "\<exists>m. build_agent_run_manifest sample_address_api sample_pack (Some sample_approval) None None = Inr m
    \<and> rm_approval m = sample_approval"
proof -
  have "\<exists>m. build_agent_run_manifest sample_address_api sample_pack (Some sample_approval) None None = Inr m
    \<and> rm_approval m = supplied_approval (Some sample_approval) \<and> rm_release m = supplied_release None"
  proof (rule manifest_exists)
    show "validate_release_observation (supplied_release None) = Inr ()"
      by (simp add: validate_release_observation_def no_release_def guard_simps release_identity_def release_flags_def)
    show "validate_active_approval (supplied_approval (Some sample_approval)) (rp_proposal_id q) = Inr ()"
      if "build_agent_run_proposal sample_address_api sample_pack (Some (supplied_release None)) = Inr q" for q
      using that by (simp add: validate_active_approval_def guard_simps sample_approval_def sample_proposal_id_def
          approval_complete_def in_lifetime_def)
  qed
  then show ?thesis by auto
qed

theorem manifest_fails_closed_witness:
  "\<exists>m. build_agent_run_manifest sample_address_api sample_pack (Some sample_approval) None None = Inr m
    \<and> 1 \<le> au_blocked_count (rm_authorization m) \<and> human_release_passed m"
proof -
  obtain m where m: "build_agent_run_manifest sample_address_api sample_pack (Some sample_approval) None None = Inr m"
    "rm_approval m = sample_approval" using sample_manifest by blast
  have "human_release_passed m" using human_release_iff [OF m(1)] m(2) by (simp add: sample_approval_def)
  with manifest_fails_closed [OF m(1)] m(1) show ?thesis by blast
qed


end
