(* ===== verification/Base64.thy ===== *)
theory Base64
  imports Prelude
begin

text \<open>
  \<open>base64.b64encode\<close> and \<open>base64.b64decode(..., validate=True)\<close> as \<open>agent_governance.py\<close> uses them,
  over bytes written as characters: encoding by groups of three bytes, and the strict decoder, which
  takes padded groups of four only, with no character outside the alphabet and padding only at the
  end. The bits a padded group leaves over are ignored by the decoder, which is why the caller
  compares the re-encoding.
\<close>

definition b64_alphabet :: string where
  "b64_alphabet = ''ABCDEFGHIJKLMNOPQRSTUVWXYZabcdefghijklmnopqrstuvwxyz0123456789+/''"

definition b64_char :: "nat \<Rightarrow> char" where
  "b64_char n = b64_alphabet ! n"

fun index_of :: "'a \<Rightarrow> 'a list \<Rightarrow> nat option" where
  "index_of x [] = None"
| "index_of x (y # ys) = (if x = y then Some 0 else map_option Suc (index_of x ys))"

definition b64_value :: "char \<Rightarrow> nat option" where
  "b64_value c = index_of c b64_alphabet"

fun b64encode :: "string \<Rightarrow> string" where
  "b64encode [] = []"
| "b64encode [a] = (let x = of_char a in [b64_char (x div 4), b64_char (x mod 4 * 16), CHR ''='', CHR ''=''])"
| "b64encode [a, b] = (let x = of_char a; y = of_char b in
     [b64_char (x div 4), b64_char (x mod 4 * 16 + y div 16), b64_char (y mod 16 * 4), CHR ''=''])"
| "b64encode (a # b # c # r) = (let x = of_char a; y = of_char b; z = of_char c in
     b64_char (x div 4) # b64_char (x mod 4 * 16 + y div 16) # b64_char (y mod 16 * 4 + z div 64)
     # b64_char (z mod 64) # b64encode r)"

fun b64decode :: "string \<Rightarrow> string option" where
  "b64decode [] = Some []"
| "b64decode (w # x # y # z # r) = (case (b64_value w, b64_value x) of
     (Some i, Some j) \<Rightarrow>
       (case (b64_value y, b64_value z) of
          (Some k, Some l) \<Rightarrow> map_option (\<lambda>s. char_of (i * 4 + j div 16) # char_of (j mod 16 * 16 + k div 4)
              # char_of (k mod 4 * 64 + l) # s) (b64decode r)
        | (Some k, None) \<Rightarrow> if z = CHR ''='' \<and> r = []
            then Some [char_of (i * 4 + j div 16), char_of (j mod 16 * 16 + k div 4)] else None
        | (None, _) \<Rightarrow> if y = CHR ''='' \<and> z = CHR ''='' \<and> r = []
            then Some [char_of (i * 4 + j div 16)] else None)
   | _ \<Rightarrow> None)"
| "b64decode _ = None"

lemma index_of_nth: "distinct xs \<Longrightarrow> i < length xs \<Longrightarrow> index_of (xs ! i) xs = Some i"
  by (induction xs arbitrary: i) (auto simp: nth_Cons' in_set_conv_nth)

lemma b64_value_char: "i < 64 \<Longrightarrow> b64_value (b64_char i) = Some i"
  unfolding b64_value_def b64_char_def by (rule index_of_nth) (simp_all add: b64_alphabet_def)

lemma b64_value_pad: "b64_value (CHR ''='') = None"
  by (simp add: b64_value_def b64_alphabet_def)

lemma byte_less: "of_char c < (256 :: nat)"
  using of_char_mod_256 [of c, where 'a = nat] by (metis mod_less_divisor zero_less_numeral)

lemma b64_group:
  fixes x y z :: nat
  assumes "x < 256" "y < 256" "z < 256"
  shows "x div 4 < 64" "x mod 4 * 16 + y div 16 < 64" "y mod 16 * 4 + z div 64 < 64" "z mod 64 < 64"
    and "x div 4 * 4 + (x mod 4 * 16 + y div 16) div 16 = x"
    and "(x mod 4 * 16 + y div 16) mod 16 * 16 + (y mod 16 * 4 + z div 64) div 4 = y"
    and "(y mod 16 * 4 + z div 64) mod 4 * 64 + z mod 64 = z"
proof -
  have s: "y div 16 < 16" "z div 64 < 4" using assms by auto
  show "x div 4 < 64" using assms by auto
  have "x mod 4 < 4" "y mod 16 < 16" by simp_all
  then show "x mod 4 * 16 + y div 16 < 64" "y mod 16 * 4 + z div 64 < 64" "z mod 64 < 64"
    using s by simp_all
  have d: "(x mod 4 * 16 + y div 16) div 16 = x mod 4" "(x mod 4 * 16 + y div 16) mod 16 = y div 16"
    "(y mod 16 * 4 + z div 64) div 4 = y mod 16" "(y mod 16 * 4 + z div 64) mod 4 = z div 64"
    using s by (simp_all add: div_mult_self3 mod_mult_self3)
  show "x div 4 * 4 + (x mod 4 * 16 + y div 16) div 16 = x" by (simp only: d div_mult_mod_eq)
  show "(x mod 4 * 16 + y div 16) mod 16 * 16 + (y mod 16 * 4 + z div 64) div 4 = y" by (simp only: d div_mult_mod_eq)
  show "(y mod 16 * 4 + z div 64) mod 4 * 64 + z mod 64 = z" by (simp only: d div_mult_mod_eq)
qed

lemma b64decode_encode: "b64decode (b64encode s) = Some s"
proof (induction s rule: b64encode.induct)
  case (2 a)
  show ?case using b64_group [OF byte_less [of a], of 0 0]
    by (simp add: Let_def b64_value_char b64_value_pad)
next
  case (3 a b)
  show ?case using b64_group [OF byte_less [of a] byte_less [of b], of 0]
    by (simp add: Let_def b64_value_char b64_value_pad)
next
  case (4 a b c r)
  show ?case using b64_group [OF byte_less [of a] byte_less [of b] byte_less [of c]] 4
    by (simp add: Let_def b64_value_char)
qed simp

section \<open>\<open>_decode_base64\<close>\<close>

definition decode_base64 :: "string \<Rightarrow> string \<Rightarrow> string res" where
  "decode_base64 v field = (case b64decode v of
     None \<Rightarrow> Inl (ValueError (field @ '' must be canonical base64''))
   | Some decoded \<Rightarrow> if b64encode decoded \<noteq> v then Inl (ValueError (field @ '' must be canonical base64''))
       else Inr decoded)"

lemma decode_base64_eq: "decode_base64 v field = Inr bs \<longleftrightarrow> v = b64encode bs"
  by (auto simp: decode_base64_def b64decode_encode split: option.splits if_splits)

lemma decode_base64_encode [simp]: "decode_base64 (b64encode bs) field = Inr bs"
  by (simp add: decode_base64_eq)

text \<open>C38. A base64 field of a signature is read back as exactly the bytes that were written, and only
the encoder's own output is accepted: the decoder returns bytes for a text precisely when the text is
their encoding, so no second spelling of a key or signature passes, and every other text is a
\<open>ValueError\<close> that names the field.\<close>

theorem base64_fields_canonical:
  "decode_base64 (b64encode bs) field = Inr bs
   \<and> (decode_base64 v field = Inr bs \<longleftrightarrow> v = b64encode bs)
   \<and> ((\<nexists>cs. v = b64encode cs) \<longleftrightarrow> decode_base64 v field = Inl (ValueError (field @ '' must be canonical base64'')))"
proof -
  have "(\<nexists>cs. v = b64encode cs) \<longleftrightarrow> decode_base64 v field = Inl (ValueError (field @ '' must be canonical base64''))"
    using decode_base64_eq [of v field]
    by (auto simp: decode_base64_def b64decode_encode split: option.splits if_splits)
  then show ?thesis by (simp add: decode_base64_eq)
qed

end
