(* ===== verification/Governance.thy ===== *)
theory Governance
  imports AgentRun Base64
begin

text \<open>
  Signed approval artifacts and the hash-linked agent-run ledger (\<open>agent_governance.py\<close>): the three
  content-addressed artifacts with their validators and builders, signed ledger entries, the
  verification of a chain, the resolution of an approval, and the in-memory ledger. Ed25519, SHA-256
  and the JSON parser of Pydantic are arguments; base64 is modelled. Fields of a single \<open>Literal\<close> value
  are constants of the payloads. A validation error of Pydantic is the \<open>ValueError\<close> of its first message.
\<close>

section \<open>Parameters\<close>

datatype actor_role = HumanReleaseApprover | HumanReleaseRevoker | PreflightRecorder

record governance_actor =
  ga_actor_id :: string
  ga_role :: actor_role

record approval_grant =
  gr_approval_id :: string
  gr_proposal_id :: string
  gr_manifest_id :: string
  gr_policy_version :: string
  gr_approver :: governance_actor
  gr_issued_at :: datetime
  gr_expires_at :: datetime
  gr_reason :: string

record approval_revocation =
  rv_revocation_id :: string
  rv_approval_id :: string
  rv_proposal_id :: string
  rv_manifest_id :: string
  rv_revoked_by :: governance_actor
  rv_revoked_at :: datetime
  rv_reason :: string

record preflight_record =
  pf_record_id :: string
  pf_manifest_id :: string
  pf_proposal_id :: string
  pf_blocking_reasons :: "string list"
  pf_recorded_by :: governance_actor
  pf_recorded_at :: datetime

datatype governance_event = Grant approval_grant | Revocation approval_revocation | Preflight preflight_record

text \<open>\<open>cr_load\<close> is \<open>model_validate_json\<close> of the class of the event, up to the validators of the class.\<close>

record 'k crypto_api =
  cr_address :: address_api
  cr_public :: "'k \<Rightarrow> string"
  cr_sign :: "'k \<Rightarrow> string \<Rightarrow> string"
  cr_verify :: "string \<Rightarrow> string \<Rightarrow> string \<Rightarrow> bool"
  cr_load :: "string \<Rightarrow> governance_event res"

section \<open>Field checks\<close>

definition is_hash_id :: "string \<Rightarrow> string \<Rightarrow> bool" where
  "is_hash_id prefix v \<longleftrightarrow> matches_hex prefix 64 v"

definition prefixed_hash :: "string \<Rightarrow> string \<Rightarrow> string \<Rightarrow> string res" where
  "prefixed_hash v prefix field = (if \<not> is_hash_id prefix v
     then Inl (ValueError (field @ '' must use '' @ prefix @ ''<sha256>'')) else Inr v)"

definition to_utc :: "datetime \<Rightarrow> string \<Rightarrow> datetime res" where
  "to_utc t field = (if dt_off t = None then Inl (ValueError (field @ '' must be timezone-aware''))
     else Inr (utc (dt_us t)))"

definition checked_reason :: "string \<Rightarrow> string \<Rightarrow> string res" where
  "checked_reason v field = (if v \<noteq> py_strip v \<or> \<not> (8 \<le> length v \<and> length v \<le> 1000)
     then Inl (ValueError (field @ '' must contain 8 to 1000 non-whitespace characters'')) else Inr v)"

text \<open>The issuer pattern: a lower-case scheme up to the first colon, then one character that is neither
white space nor a colon and at most 179 that are not white space.\<close>

definition scheme_char :: "char \<Rightarrow> bool" where
  "scheme_char c \<longleftrightarrow> c \<in> set ''abcdefghijklmnopqrstuvwxyz0123456789+.-''"

definition actor_id_ok :: "string \<Rightarrow> bool" where
  "actor_id_ok v = (let scheme = takeWhile (\<lambda>c. c \<noteq> CHR '':'') v; rest = dropWhile (\<lambda>c. c \<noteq> CHR '':'') v in
     scheme \<noteq> [] \<and> hd scheme \<in> set ''abcdefghijklmnopqrstuvwxyz'' \<and> list_all scheme_char scheme
     \<and> 2 \<le> length rest \<and> length rest \<le> 181 \<and> \<not> is_uspace (rest ! 1) \<and> rest ! 1 \<noteq> CHR '':''
     \<and> list_all (\<lambda>c. \<not> is_uspace c) (drop 2 rest))"

definition validate_actor :: "governance_actor \<Rightarrow> governance_actor res" where
  "validate_actor a = raise_first
     [(\<not> actor_id_ok (ga_actor_id a), ''actor_id must be an issuer-qualified value such as github:12345'')] a"

fun role_text :: "actor_role \<Rightarrow> string" where
  "role_text HumanReleaseApprover = ''human_release_approver''"
| "role_text HumanReleaseRevoker = ''human_release_revoker''"
| "role_text PreflightRecorder = ''preflight_recorder''"

section \<open>Payloads\<close>

definition ledger_identity_algorithm :: string where
  "ledger_identity_algorithm = ''sha256-canonical-json-v1''"

definition approval_max_ttl_us :: int where
  "approval_max_ttl_us = 24 * 3600 * 1000000"

definition approval_caveat :: string where
  "approval_caveat = ''This approval applies only to the exact proposal identity until expiry or revocation. It can satisfy only the human-release check and does not enable execution.''"

definition revocation_caveat :: string where
  "revocation_caveat = ''Revocation is immutable and applies only to the referenced approval and proposal.''"

definition preflight_caveat :: string where
  "preflight_caveat = ''This ledger event records a no-execution preflight decision; it is not a run receipt.''"

definition actor_json :: "governance_actor \<Rightarrow> json" where
  "actor_json a = JObj [(''actor_id'', JStr (ga_actor_id a)), (''role'', JStr (role_text (ga_role a)))]"

definition approval_members :: "approval_grant \<Rightarrow> (string \<times> json) list" where
  "approval_members g = [(''artifact_type'', JStr ''approval''), (''schema_version'', JStr ''1.0.0''),
     (''rule_version'', JStr ''agent-approval-v1''), (''identity_algorithm'', JStr ledger_identity_algorithm),
     (''proposal_id'', JStr (gr_proposal_id g)), (''source_manifest_id'', JStr (gr_manifest_id g)),
     (''policy_version'', JStr (gr_policy_version g)), (''approver'', actor_json (gr_approver g)),
     (''issued_at'', JTime (gr_issued_at g)), (''expires_at'', JTime (gr_expires_at g)),
     (''reason'', JStr (gr_reason g)), (''caveat'', JStr approval_caveat)]"

definition approval_payload :: "approval_grant \<Rightarrow> json" where
  "approval_payload g = JObj (approval_members g)"

definition revocation_members :: "approval_revocation \<Rightarrow> (string \<times> json) list" where
  "revocation_members r = [(''artifact_type'', JStr ''revocation''), (''schema_version'', JStr ''1.0.0''),
     (''rule_version'', JStr ''agent-approval-revocation-v1''), (''identity_algorithm'', JStr ledger_identity_algorithm),
     (''approval_id'', JStr (rv_approval_id r)), (''proposal_id'', JStr (rv_proposal_id r)),
     (''source_manifest_id'', JStr (rv_manifest_id r)), (''revoked_by'', actor_json (rv_revoked_by r)),
     (''revoked_at'', JTime (rv_revoked_at r)), (''reason'', JStr (rv_reason r)),
     (''caveat'', JStr revocation_caveat)]"

definition revocation_payload :: "approval_revocation \<Rightarrow> json" where
  "revocation_payload r = JObj (revocation_members r)"

definition preflight_members :: "preflight_record \<Rightarrow> (string \<times> json) list" where
  "preflight_members p = [(''artifact_type'', JStr ''preflight_record''), (''schema_version'', JStr ''1.0.0''),
     (''rule_version'', JStr ''agent-preflight-record-v1''), (''identity_algorithm'', JStr ledger_identity_algorithm),
     (''manifest_id'', JStr (pf_manifest_id p)), (''proposal_id'', JStr (pf_proposal_id p)),
     (''decision'', JStr ''blocked''), (''blocking_reasons'', JList (map JStr (pf_blocking_reasons p))),
     (''execution_status'', JStr ''not_started''), (''recorded_by'', actor_json (pf_recorded_by p)),
     (''recorded_at'', JTime (pf_recorded_at p)), (''caveat'', JStr preflight_caveat)]"

definition preflight_payload :: "preflight_record \<Rightarrow> json" where
  "preflight_payload p = JObj (preflight_members p)"

text \<open>\<open>event.model_dump(mode="python")\<close>.\<close>

fun event_json :: "governance_event \<Rightarrow> json" where
  "event_json (Grant g) = JObj ((''approval_id'', JStr (gr_approval_id g)) # approval_members g)"
| "event_json (Revocation r) = JObj ((''revocation_id'', JStr (rv_revocation_id r)) # revocation_members r)"
| "event_json (Preflight p) = JObj ((''record_id'', JStr (pf_record_id p)) # preflight_members p)"

section \<open>Validators\<close>

definition validate_grant :: "address_api \<Rightarrow> approval_grant \<Rightarrow> approval_grant res" where
  "validate_grant A g =
     rbind (raise_first
       [(\<not> is_hash_id ''approval-'' (gr_approval_id g), ''approval_id does not match its pattern''),
        (\<not> is_hash_id ''proposal-'' (gr_proposal_id g), ''proposal_id does not match its pattern''),
        (\<not> is_hash_id ''manifest-'' (gr_manifest_id g), ''source_manifest_id does not match its pattern''),
        (gr_policy_version g \<notin> {''agent-authorization-v2'', ''agent-authorization-v3''},
         ''policy_version is not supported'')] ()) (\<lambda>u.
     rbind (validate_actor (gr_approver g)) (\<lambda>actor.
     rbind (to_utc (gr_issued_at g) ''issued_at'') (\<lambda>issued.
     rbind (to_utc (gr_expires_at g) ''expires_at'') (\<lambda>expires.
     rbind (checked_reason (gr_reason g) ''reason'') (\<lambda>reason.
     let g' = g\<lparr>gr_issued_at := issued, gr_expires_at := expires\<rparr> in
     rbind (raise_first
       [(ga_role (gr_approver g') \<noteq> HumanReleaseApprover, ''approval actor must have the human_release_approver role''),
        (dt_us (gr_expires_at g') \<le> dt_us (gr_issued_at g'), ''approval expiry must be later than issue time''),
        (approval_max_ttl_us < dt_us (gr_expires_at g') - dt_us (gr_issued_at g'),
         ''approval lifetime must not exceed 24 hours'')] ()) (\<lambda>v.
     rbind (address A ''approval-'' (approval_payload g')) (\<lambda>expected.
     raise_first [(gr_approval_id g' \<noteq> expected, ''approval identity does not match its canonical content'')] g')))))))"

definition validate_revocation :: "address_api \<Rightarrow> approval_revocation \<Rightarrow> approval_revocation res" where
  "validate_revocation A r =
     rbind (raise_first
       [(\<not> is_hash_id ''revocation-'' (rv_revocation_id r), ''revocation_id does not match its pattern''),
        (\<not> is_hash_id ''approval-'' (rv_approval_id r), ''approval_id does not match its pattern''),
        (\<not> is_hash_id ''proposal-'' (rv_proposal_id r), ''proposal_id does not match its pattern''),
        (\<not> is_hash_id ''manifest-'' (rv_manifest_id r), ''source_manifest_id does not match its pattern'')] ()) (\<lambda>u.
     rbind (validate_actor (rv_revoked_by r)) (\<lambda>actor.
     rbind (to_utc (rv_revoked_at r) ''revoked_at'') (\<lambda>revoked.
     rbind (checked_reason (rv_reason r) ''reason'') (\<lambda>reason.
     let r' = r\<lparr>rv_revoked_at := revoked\<rparr> in
     rbind (raise_first
       [(ga_role (rv_revoked_by r') \<noteq> HumanReleaseRevoker, ''revocation actor must have the human_release_revoker role'')] ()) (\<lambda>v.
     rbind (address A ''revocation-'' (revocation_payload r')) (\<lambda>expected.
     raise_first [(rv_revocation_id r' \<noteq> expected, ''revocation identity does not match its canonical content'')] r'))))))"

definition validate_preflight :: "address_api \<Rightarrow> preflight_record \<Rightarrow> preflight_record res" where
  "validate_preflight A p =
     rbind (raise_first
       [(\<not> is_hash_id ''preflight-'' (pf_record_id p), ''record_id does not match its pattern''),
        (\<not> is_hash_id ''manifest-'' (pf_manifest_id p), ''manifest_id does not match its pattern''),
        (\<not> is_hash_id ''proposal-'' (pf_proposal_id p), ''proposal_id does not match its pattern''),
        (pf_blocking_reasons p = [], ''blocking_reasons should have at least 1 item''),
        ([] \<in> set (pf_blocking_reasons p), ''blocking reasons cannot be empty'')] ()) (\<lambda>u.
     rbind (validate_actor (pf_recorded_by p)) (\<lambda>actor.
     rbind (to_utc (pf_recorded_at p) ''recorded_at'') (\<lambda>recorded.
     let p' = p\<lparr>pf_recorded_at := recorded\<rparr> in
     rbind (raise_first
       [(ga_role (pf_recorded_by p') \<noteq> PreflightRecorder, ''preflight actor must have the preflight_recorder role'')] ()) (\<lambda>v.
     rbind (address A ''preflight-'' (preflight_payload p')) (\<lambda>expected.
     raise_first [(pf_record_id p' \<noteq> expected, ''preflight record identity does not match its canonical content'')] p')))))"

fun validate_event :: "address_api \<Rightarrow> governance_event \<Rightarrow> governance_event res" where
  "validate_event A (Grant g) = rbind (validate_grant A g) (\<lambda>g. Inr (Grant g))"
| "validate_event A (Revocation r) = rbind (validate_revocation A r) (\<lambda>r. Inr (Revocation r))"
| "validate_event A (Preflight p) = rbind (validate_preflight A p) (\<lambda>p. Inr (Preflight p))"

section \<open>Builders\<close>

definition build_agent_approval :: "address_api \<Rightarrow> string \<Rightarrow> string \<Rightarrow> string \<Rightarrow> datetime \<Rightarrow> datetime \<Rightarrow> string \<Rightarrow> string \<Rightarrow> approval_grant res" where
  "build_agent_approval A proposal_id manifest_id approver_id issued_at expires_at reason policy_version =
     rbind (prefixed_hash proposal_id ''proposal-'' ''proposal_id'') (\<lambda>pid.
     rbind (prefixed_hash manifest_id ''manifest-'' ''source_manifest_id'') (\<lambda>mid.
     rbind (to_utc issued_at ''issued_at'') (\<lambda>issued.
     rbind (to_utc expires_at ''expires_at'') (\<lambda>expires.
     rbind (checked_reason (py_strip reason) ''reason'') (\<lambda>why.
     rbind (validate_actor \<lparr>ga_actor_id = approver_id, ga_role = HumanReleaseApprover\<rparr>) (\<lambda>actor.
     let g = \<lparr>gr_approval_id = [], gr_proposal_id = pid, gr_manifest_id = mid, gr_policy_version = policy_version,
       gr_approver = actor, gr_issued_at = issued, gr_expires_at = expires, gr_reason = why\<rparr> in
     rbind (address A ''approval-'' (approval_payload g)) (\<lambda>i. validate_grant A (g\<lparr>gr_approval_id := i\<rparr>))))))))"

definition build_agent_approval_revocation :: "address_api \<Rightarrow> approval_grant \<Rightarrow> string \<Rightarrow> datetime \<Rightarrow> string \<Rightarrow> approval_revocation res" where
  "build_agent_approval_revocation A g revoker_id revoked_at reason =
     rbind (to_utc revoked_at ''revoked_at'') (\<lambda>revoked.
     if dt_us revoked < dt_us (gr_issued_at g) then Inl (ValueError ''revocation cannot predate the approval'')
     else rbind (validate_actor \<lparr>ga_actor_id = revoker_id, ga_role = HumanReleaseRevoker\<rparr>) (\<lambda>actor.
     rbind (checked_reason (py_strip reason) ''reason'') (\<lambda>why.
     let r = \<lparr>rv_revocation_id = [], rv_approval_id = gr_approval_id g, rv_proposal_id = gr_proposal_id g,
       rv_manifest_id = gr_manifest_id g, rv_revoked_by = actor, rv_revoked_at = revoked, rv_reason = why\<rparr> in
     rbind (address A ''revocation-'' (revocation_payload r)) (\<lambda>i. validate_revocation A (r\<lparr>rv_revocation_id := i\<rparr>)))))"

definition build_agent_preflight_record :: "address_api \<Rightarrow> string \<Rightarrow> string \<Rightarrow> string list \<Rightarrow> string \<Rightarrow> datetime \<Rightarrow> preflight_record res" where
  "build_agent_preflight_record A manifest_id proposal_id reasons recorder_id recorded_at =
     rbind (prefixed_hash manifest_id ''manifest-'' ''manifest_id'') (\<lambda>mid.
     rbind (prefixed_hash proposal_id ''proposal-'' ''proposal_id'') (\<lambda>pid.
     rbind (validate_actor \<lparr>ga_actor_id = recorder_id, ga_role = PreflightRecorder\<rparr>) (\<lambda>actor.
     rbind (to_utc recorded_at ''recorded_at'') (\<lambda>recorded.
     let p = \<lparr>pf_record_id = [], pf_manifest_id = mid, pf_proposal_id = pid, pf_blocking_reasons = reasons,
       pf_recorded_by = actor, pf_recorded_at = recorded\<rparr> in
     rbind (address A ''preflight-'' (preflight_payload p)) (\<lambda>i. validate_preflight A (p\<lparr>pf_record_id := i\<rparr>))))))"

section \<open>Ledger entries\<close>

datatype ledger_event_type = ApprovalGranted | ApprovalRevoked | PreflightRecorded

fun event_type_text :: "ledger_event_type \<Rightarrow> string" where
  "event_type_text ApprovalGranted = ''approval_granted''"
| "event_type_text ApprovalRevoked = ''approval_revoked''"
| "event_type_text PreflightRecorded = ''preflight_recorded''"

record ledger_signature =
  ls_key_id :: string
  ls_public_key :: string
  ls_value :: string

record event_metadata =
  em_type :: ledger_event_type
  em_occurred_at :: datetime
  em_artifact_id :: string
  em_manifest_id :: string
  em_proposal_id :: string

record ledger_entry =
  le_entry_id :: string
  le_sequence :: int
  le_previous :: "string option"
  le_metadata :: event_metadata
  le_event :: governance_event
  le_signature :: ledger_signature

fun event_metadata_of :: "governance_event \<Rightarrow> event_metadata" where
  "event_metadata_of (Grant g) = \<lparr>em_type = ApprovalGranted, em_occurred_at = gr_issued_at g,
     em_artifact_id = gr_approval_id g, em_manifest_id = gr_manifest_id g, em_proposal_id = gr_proposal_id g\<rparr>"
| "event_metadata_of (Revocation r) = \<lparr>em_type = ApprovalRevoked, em_occurred_at = rv_revoked_at r,
     em_artifact_id = rv_revocation_id r, em_manifest_id = rv_manifest_id r, em_proposal_id = rv_proposal_id r\<rparr>"
| "event_metadata_of (Preflight p) = \<lparr>em_type = PreflightRecorded, em_occurred_at = pf_recorded_at p,
     em_artifact_id = pf_record_id p, em_manifest_id = pf_manifest_id p, em_proposal_id = pf_proposal_id p\<rparr>"

definition entry_members :: "int \<Rightarrow> string option \<Rightarrow> governance_event \<Rightarrow> (string \<times> json) list" where
  "entry_members sequence previous e = (let m = event_metadata_of e in
     [(''schema_version'', JStr ''1.0.0''), (''rule_version'', JStr ''signed-agent-run-ledger-v1''),
      (''identity_algorithm'', JStr ledger_identity_algorithm), (''sequence'', JInt sequence),
      (''previous_entry_id'', jopt JStr previous), (''event_type'', JStr (event_type_text (em_type m))),
      (''occurred_at'', JTime (em_occurred_at m)), (''artifact_id'', JStr (em_artifact_id m)),
      (''manifest_id'', JStr (em_manifest_id m)), (''proposal_id'', JStr (em_proposal_id m)),
      (''event'', event_json e)])"

definition entry_payload :: "int \<Rightarrow> string option \<Rightarrow> governance_event \<Rightarrow> json" where
  "entry_payload sequence previous e = JObj (entry_members sequence previous e)"

definition signature_json :: "ledger_signature \<Rightarrow> json" where
  "signature_json s = JObj [(''algorithm'', JStr ''ed25519-v1''), (''key_id'', JStr (ls_key_id s)),
     (''public_key'', JStr (ls_public_key s)), (''value'', JStr (ls_value s))]"

definition signed_payload :: "int \<Rightarrow> string option \<Rightarrow> governance_event \<Rightarrow> ledger_signature \<Rightarrow> json" where
  "signed_payload sequence previous e s = JObj (entry_members sequence previous e @ [(''signature'', signature_json s)])"

definition key_id_for_public_key :: "address_api \<Rightarrow> string \<Rightarrow> string res" where
  "key_id_for_public_key A public_key = (if length public_key \<noteq> 32
     then Inl (ValueError ''Ed25519 public keys must contain exactly 32 raw bytes'')
     else Inr (''ed25519-'' @ ad_sha256 A public_key))"

text \<open>\<open>Ed25519LedgerSigner.sign\<close>.\<close>

definition signer_sign :: "'k crypto_api \<Rightarrow> 'k \<Rightarrow> string \<Rightarrow> ledger_signature res" where
  "signer_sign K k payload = rbind (key_id_for_public_key (cr_address K) (cr_public K k)) (\<lambda>i. Inr
     \<lparr>ls_key_id = i, ls_public_key = b64encode (cr_public K k), ls_value = b64encode (cr_sign K k payload)\<rparr>)"

definition check_previous :: "int \<Rightarrow> string option \<Rightarrow> unit res" where
  "check_previous sequence previous =
     (if (sequence = 1) \<noteq> (previous = None) then Inl (ValueError ''only ledger sequence 1 may omit previous_entry_id'')
      else case previous of None \<Rightarrow> Inr ()
        | Some p \<Rightarrow> rbind (prefixed_hash p ''ledger-'' ''previous_entry_id'') (\<lambda>u. Inr ()))"

definition address_bytes :: "address_api \<Rightarrow> json \<Rightarrow> string res" where
  "address_bytes A v = canonical_json_bytes (ad_float A) v"

text \<open>\<open>_verify_entry\<close>; the version fields have one value each.\<close>

definition verify_entry :: "'k crypto_api \<Rightarrow> ledger_entry \<Rightarrow> unit res" where
  "verify_entry K e = (let A = cr_address K; s = le_signature e in
     rbind (prefixed_hash (le_entry_id e) ''ledger-'' ''entry_id'') (\<lambda>u.
     rbind (check_previous (le_sequence e) (le_previous e)) (\<lambda>u.
     rbind (address_bytes A (event_json (le_event e))) (\<lambda>bytes.
     rbind (cr_load K bytes) (\<lambda>loaded.
     rbind (validate_event A loaded) (\<lambda>u.
     if event_metadata_of (le_event e) \<noteq> le_metadata e
     then Inl (ValueError ''ledger metadata does not match its embedded event'')
     else rbind (decode_base64 (ls_public_key s) ''signature.public_key'') (\<lambda>public_key.
     rbind (key_id_for_public_key A public_key) (\<lambda>key_id.
     if ls_key_id s \<noteq> key_id then Inl (ValueError ''ledger signature key ID does not match its public key'')
     else rbind (decode_base64 (ls_value s) ''signature.value'') (\<lambda>signature.
     if length signature \<noteq> 64 then Inl (ValueError ''Ed25519 signatures must contain exactly 64 bytes'')
     else rbind (address_bytes A (entry_payload (le_sequence e) (le_previous e) (le_event e))) (\<lambda>payload.
     if \<not> cr_verify K public_key signature payload then Inl (ValueError ''ledger entry signature is invalid'')
     else rbind (address A ''ledger-'' (signed_payload (le_sequence e) (le_previous e) (le_event e) s)) (\<lambda>expected.
     if le_entry_id e \<noteq> expected then Inl (ValueError ''ledger entry identity does not match its signed content'')
     else Inr ())))))))))))"

text \<open>\<open>AgentRunLedgerEntry.model_validate\<close> of the members of an entry: the field patterns, the event's
own validators, the UTC time, then \<open>_verify_entry\<close>.\<close>

definition validate_entry :: "'k crypto_api \<Rightarrow> ledger_entry \<Rightarrow> ledger_entry res" where
  "validate_entry K e = (let m = le_metadata e in
     rbind (raise_first
       [(\<not> is_hash_id ''ledger-'' (le_entry_id e), ''entry_id does not match its pattern''),
        (le_sequence e < 1, ''sequence must be at least 1''),
        (case le_previous e of None \<Rightarrow> False | Some p \<Rightarrow> \<not> is_hash_id ''ledger-'' p,
         ''previous_entry_id does not match its pattern'')] ()) (\<lambda>u.
     rbind (to_utc (em_occurred_at m) ''occurred_at'') (\<lambda>occurred.
     rbind (raise_first
       [(\<not> is_hash_id ''manifest-'' (em_manifest_id m), ''manifest_id does not match its pattern''),
        (\<not> is_hash_id ''proposal-'' (em_proposal_id m), ''proposal_id does not match its pattern'')] ()) (\<lambda>u.
     rbind (validate_event (cr_address K) (le_event e)) (\<lambda>event.
     rbind (raise_first
       [(\<not> is_hash_id ''ed25519-'' (ls_key_id (le_signature e)), ''key_id does not match its pattern'')] ()) (\<lambda>u.
     let e' = e\<lparr>le_metadata := m\<lparr>em_occurred_at := occurred\<rparr>, le_event := event\<rparr> in
     rbind (verify_entry K e') (\<lambda>u. Inr e')))))))"

definition build_signed_ledger_entry :: "'k crypto_api \<Rightarrow> governance_event \<Rightarrow> int \<Rightarrow> string option \<Rightarrow> 'k \<Rightarrow> ledger_entry res" where
  "build_signed_ledger_entry K event sequence previous signer = (let A = cr_address K in
     rbind (check_previous sequence previous) (\<lambda>u.
     rbind (address_bytes A (entry_payload sequence previous event)) (\<lambda>payload.
     rbind (signer_sign K signer payload) (\<lambda>s.
     rbind (address A ''ledger-'' (signed_payload sequence previous event s)) (\<lambda>i.
     validate_entry K \<lparr>le_entry_id = i, le_sequence = sequence, le_previous = previous,
       le_metadata = event_metadata_of event, le_event = event, le_signature = s\<rparr>)))))"

section \<open>Verifying a ledger\<close>

record ledger_verification =
  lv_valid :: bool
  lv_entry_count :: nat
  lv_head :: "string option"
  lv_errors :: "string list"

fun exn_text :: "exn \<Rightarrow> string" where
  "exn_text (ValueError m) = m"
| "exn_text (TypeError m) = m"
| "exn_text (KeyError m) = m"
| "exn_text (RuntimeError m) = m"
| "exn_text _ = []"

record verify_state =
  vs_previous :: "string option"
  vs_entries :: "string list"
  vs_artifacts :: "string list"

text \<open>The errors of one entry, and the loop.\<close>

definition entry_errors :: "'k crypto_api \<Rightarrow> string list option \<Rightarrow> verify_state \<Rightarrow> int \<Rightarrow> ledger_entry \<Rightarrow> string list" where
  "entry_errors K trusted s expected e = (let at_entry = ''entry '' @ int_text expected @ '': '' in
     map (\<lambda>m. at_entry @ m)
       ((if le_sequence e \<noteq> expected
         then [''sequence is '' @ int_text (le_sequence e) @ '', expected '' @ int_text expected] else [])
        @ (if le_previous e \<noteq> vs_previous s then [''previous entry does not match the chain head''] else [])
        @ (if le_entry_id e \<in> set (vs_entries s) then [''duplicate entry identity''] else [])
        @ (if em_artifact_id (le_metadata e) \<in> set (vs_artifacts s) then [''duplicate artifact identity''] else [])
        @ (case trusted of None \<Rightarrow> [] | Some ks \<Rightarrow>
             if ls_key_id (le_signature e) \<notin> set ks then [''signing key is not trusted''] else [])
        @ (case verify_entry K e of Inr u \<Rightarrow> [] | Inl x \<Rightarrow> [exn_text x])))"

fun ledger_errors :: "'k crypto_api \<Rightarrow> string list option \<Rightarrow> verify_state \<Rightarrow> int \<Rightarrow> ledger_entry list \<Rightarrow> string list" where
  "ledger_errors K trusted s expected [] = []"
| "ledger_errors K trusted s expected (e # es) = entry_errors K trusted s expected e
     @ ledger_errors K trusted \<lparr>vs_previous = Some (le_entry_id e), vs_entries = le_entry_id e # vs_entries s,
         vs_artifacts = em_artifact_id (le_metadata e) # vs_artifacts s\<rparr> (expected + 1) es"

definition chain_start :: verify_state where
  "chain_start = \<lparr>vs_previous = None, vs_entries = [], vs_artifacts = []\<rparr>"

definition verify_agent_run_ledger :: "'k crypto_api \<Rightarrow> ledger_entry list \<Rightarrow> string list option \<Rightarrow> ledger_verification" where
  "verify_agent_run_ledger K entries trusted = (let errors = ledger_errors K trusted chain_start 1 entries in
     \<lparr>lv_valid = (errors = []), lv_entry_count = length entries,
      lv_head = (if entries = [] then None else Some (le_entry_id (last entries))), lv_errors = errors\<rparr>)"

section \<open>Resolving an approval\<close>

definition observation :: "approval_status \<Rightarrow> string \<Rightarrow> datetime \<Rightarrow> approval_grant option \<Rightarrow> string option \<Rightarrow> string option \<Rightarrow> approval_observation" where
  "observation status approval_id evaluated_at approval key_id revocation_id =
     \<lparr>ao_status = status, ao_approval_id = Some approval_id,
      ao_approved_proposal_id = map_option gr_proposal_id approval,
      ao_source_manifest_id = map_option gr_manifest_id approval,
      ao_approver_id = map_option (\<lambda>g. ga_actor_id (gr_approver g)) approval, ao_signing_key_id = key_id,
      ao_issued_at = map_option gr_issued_at approval, ao_expires_at = map_option gr_expires_at approval,
      ao_revocation_id = revocation_id, ao_evaluated_at = Some evaluated_at\<rparr>"

definition grants_of :: "string \<Rightarrow> ledger_entry list \<Rightarrow> (approval_grant \<times> string) list" where
  "grants_of approval_id entries = concat (map (\<lambda>e. case le_event e of
     Grant g \<Rightarrow> if gr_approval_id g = approval_id then [(g, ls_key_id (le_signature e))] else [] | _ \<Rightarrow> []) entries)"

definition revocations_of :: "string \<Rightarrow> ledger_entry list \<Rightarrow> approval_revocation list" where
  "revocations_of approval_id entries = concat (map (\<lambda>e. case le_event e of
     Revocation r \<Rightarrow> if rv_approval_id r = approval_id then [r] else [] | _ \<Rightarrow> []) entries)"

definition lifetime_status :: "approval_grant \<Rightarrow> datetime \<Rightarrow> approval_status" where
  "lifetime_status g t = (if dt_us t < dt_us (gr_issued_at g) then NotYetValid
     else if dt_us (gr_expires_at g) \<le> dt_us t then Expired else Active)"

definition resolve_agent_approval :: "'k crypto_api \<Rightarrow> ledger_entry list \<Rightarrow> string \<Rightarrow> string \<Rightarrow> datetime \<Rightarrow> string list \<Rightarrow> approval_observation res" where
  "resolve_agent_approval K entries approval_id proposal_id evaluated_at trusted =
     rbind (prefixed_hash approval_id ''approval-'' ''approval_id'') (\<lambda>u.
     rbind (prefixed_hash proposal_id ''proposal-'' ''proposal_id'') (\<lambda>u.
     rbind (to_utc evaluated_at ''evaluated_at'') (\<lambda>t. Inr (
       if \<not> lv_valid (verify_agent_run_ledger K entries None) then observation LedgerInvalid approval_id t None None None
       else if list_ex (\<lambda>e. ls_key_id (le_signature e) \<notin> set trusted) entries
       then observation UntrustedSigner approval_id t None None None
       else case grants_of approval_id entries of
         [] \<Rightarrow> observation NotFound approval_id t None None None
       | [(g, key_id)] \<Rightarrow>
           if gr_proposal_id g \<noteq> proposal_id then observation ScopeMismatch approval_id t (Some g) (Some key_id) None
           else (case revocations_of approval_id entries of
             [] \<Rightarrow> observation (lifetime_status g t) approval_id t (Some g) (Some key_id) None
           | [r] \<Rightarrow>
               if rv_proposal_id r \<noteq> gr_proposal_id g \<or> rv_manifest_id r \<noteq> gr_manifest_id g
                 \<or> dt_us (rv_revoked_at r) < dt_us (gr_issued_at g)
               then observation LedgerInvalid approval_id t None None None
               else if dt_us (rv_revoked_at r) \<le> dt_us t
               then observation Revoked approval_id t (Some g) (Some key_id) (Some (rv_revocation_id r))
               else observation (lifetime_status g t) approval_id t (Some g) (Some key_id) None
           | _ \<Rightarrow> observation LedgerInvalid approval_id t None None None)
       | _ \<Rightarrow> observation LedgerInvalid approval_id t None None None))))"

section \<open>The in-memory ledger\<close>

record mem_ledger =
  ml_entries :: "ledger_entry list"
  ml_trusted :: "string list"

definition next_link :: "ledger_entry list \<Rightarrow> int \<times> string option" where
  "next_link es = (int (length es) + 1, if es = [] then None else Some (le_entry_id (last es)))"

definition mem_append :: "'k crypto_api \<Rightarrow> governance_event \<Rightarrow> 'k \<Rightarrow> mem_ledger \<Rightarrow> mem_ledger \<times> ledger_entry res" where
  "mem_append K event signer l = (case next_link (ml_entries l) of (sequence, previous) \<Rightarrow>
     case build_signed_ledger_entry K event sequence previous signer of
       Inl x \<Rightarrow> (l, Inl x)
     | Inr e \<Rightarrow>
         if list_ex (\<lambda>e'. em_artifact_id (le_metadata e') = em_artifact_id (le_metadata e)) (ml_entries l)
         then (l, Inl (ValueError ''ledger artifact identity already exists''))
         else (l\<lparr>ml_entries := ml_entries l @ [e]\<rparr>, Inr e))"

definition mem_resolve :: "'k crypto_api \<Rightarrow> mem_ledger \<Rightarrow> string \<Rightarrow> string \<Rightarrow> datetime \<Rightarrow> approval_observation res" where
  "mem_resolve K l approval_id proposal_id evaluated_at =
     resolve_agent_approval K (ml_entries l) approval_id proposal_id evaluated_at (ml_trusted l)"

section \<open>Entries and their text\<close>

lemma role_text_inj [simp]: "role_text a = role_text b \<longleftrightarrow> a = b"
  by (cases a; cases b) simp_all

lemma event_type_text_inj [simp]: "event_type_text a = event_type_text b \<longleftrightarrow> a = b"
  by (cases a; cases b) simp_all

lemma same_actor [simp]: "same_json (actor_json a) (actor_json b) \<longleftrightarrow> a = b"
  by (auto simp: actor_json_def)

lemma same_signature [simp]: "same_json (signature_json s) (signature_json t) \<longleftrightarrow> s = t"
  by (auto simp: signature_json_def)

lemma finite_governance [simp]:
  "finite_json (approval_payload g)" "finite_json (revocation_payload r)" "finite_json (preflight_payload p)"
  "finite_json (event_json e)" "finite_json (entry_payload n prev e)" "finite_json (signed_payload n prev e s)"
proof -
  have actor: "finite_json (actor_json a)" for a by (simp add: actor_json_def)
  have members: "\<forall>kv \<in> set (approval_members g). finite_json (snd kv)" "\<forall>kv \<in> set (revocation_members r). finite_json (snd kv)"
    "\<forall>kv \<in> set (preflight_members p). finite_json (snd kv)" for g r p
    by (auto simp: approval_members_def revocation_members_def preflight_members_def actor)
  show "finite_json (approval_payload g)" "finite_json (revocation_payload r)" "finite_json (preflight_payload p)"
    using members by (simp_all add: approval_payload_def revocation_payload_def preflight_payload_def)
  have event: "finite_json (event_json e)" for e using members by (cases e) simp_all
  then show "finite_json (event_json e)" .
  have entry: "\<forall>kv \<in> set (entry_members n prev e). finite_json (snd kv)" for n prev e
    by (simp add: entry_members_def Let_def event)
  then show "finite_json (entry_payload n prev e)" by (simp add: entry_payload_def)
  show "finite_json (signed_payload n prev e s)"
    using entry by (auto simp: signed_payload_def signature_json_def)
qed

fun event_times_utc :: "governance_event \<Rightarrow> bool" where
  "event_times_utc (Grant g) = (utc_time (gr_issued_at g) \<and> utc_time (gr_expires_at g))"
| "event_times_utc (Revocation r) = utc_time (rv_revoked_at r)"
| "event_times_utc (Preflight p) = utc_time (pf_recorded_at p)"

lemma event_artifact_type:
  "event_json e = JObj kvs \<Longrightarrow> distinct (map fst kvs) \<and> map_of kvs ''artifact_type'' = Some (JStr (case e of
     Grant g \<Rightarrow> ''approval'' | Revocation r \<Rightarrow> ''revocation'' | Preflight p \<Rightarrow> ''preflight_record''))"
  by (cases e) (auto simp: approval_members_def revocation_members_def preflight_members_def)

lemma same_event:
  assumes "event_times_utc e" "event_times_utc f" "same_json (event_json e) (event_json f)"
  shows "e = f"
proof -
  obtain kvs kws where kv: "event_json e = JObj kvs" "event_json f = JObj kws" by (cases e; cases f) auto
  have "map_option canonical (map_of kvs ''artifact_type'') = map_option canonical (map_of kws ''artifact_type'')"
    using same_object_lookup [of kvs kws] assms(3) event_artifact_type [OF kv(1)] event_artifact_type [OF kv(2)]
    unfolding kv by blast
  then have kind: "(case e of Grant g \<Rightarrow> ''approval'' | Revocation r \<Rightarrow> ''revocation'' | Preflight p \<Rightarrow> ''preflight_record'')
      = (case f of Grant g \<Rightarrow> ''approval'' | Revocation r \<Rightarrow> ''revocation'' | Preflight p \<Rightarrow> ''preflight_record'')"
    using event_artifact_type [OF kv(1)] event_artifact_type [OF kv(2)] by simp
  show ?thesis
    using assms kind
    by (cases e; cases f) (simp_all add: approval_members_def revocation_members_def preflight_members_def)
qed

definition entry_signed :: "ledger_entry \<Rightarrow> json" where
  "entry_signed e = signed_payload (le_sequence e) (le_previous e) (le_event e) (le_signature e)"

lemma same_signed_link:
  "same_json (entry_signed e) (entry_signed f) \<Longrightarrow> le_sequence e = le_sequence f \<and> le_previous e = le_previous f
    \<and> same_json (event_json (le_event e)) (event_json (le_event f)) \<and> le_signature e = le_signature f"
  by (simp add: entry_signed_def signed_payload_def entry_members_def Let_def)

lemma verify_entry_Inr:
  assumes "verify_entry K e = Inr ()"
  shows "is_hash_id ''ledger-'' (le_entry_id e)" "check_previous (le_sequence e) (le_previous e) = Inr ()"
    and "le_metadata e = event_metadata_of (le_event e)"
    and "address (cr_address K) ''ledger-'' (entry_signed e) = Inr (le_entry_id e)"
    and "\<exists>bytes loaded v. address_bytes (cr_address K) (event_json (le_event e)) = Inr bytes
      \<and> cr_load K bytes = Inr loaded \<and> validate_event (cr_address K) loaded = Inr v"
    and "\<exists>public_key signature payload. ls_public_key (le_signature e) = b64encode public_key
      \<and> ls_value (le_signature e) = b64encode signature \<and> length public_key = 32 \<and> length signature = 64
      \<and> key_id_for_public_key (cr_address K) public_key = Inr (ls_key_id (le_signature e))
      \<and> address_bytes (cr_address K) (entry_payload (le_sequence e) (le_previous e) (le_event e)) = Inr payload
      \<and> cr_verify K public_key signature payload"
  using assms
  by (auto simp: verify_entry_def Let_def prefixed_hash_def entry_signed_def decode_base64_eq key_id_for_public_key_def
      split: if_splits)

section \<open>What a valid ledger is\<close>

definition valid_ledger :: "'k crypto_api \<Rightarrow> ledger_entry list \<Rightarrow> bool" where
  "valid_ledger K es \<longleftrightarrow> lv_valid (verify_agent_run_ledger K es None)"

definition advance :: "verify_state \<Rightarrow> ledger_entry list \<Rightarrow> verify_state" where
  "advance s es = \<lparr>vs_previous = (if es = [] then vs_previous s else Some (le_entry_id (last es))),
     vs_entries = rev (map le_entry_id es) @ vs_entries s,
     vs_artifacts = rev (map (\<lambda>e. em_artifact_id (le_metadata e)) es) @ vs_artifacts s\<rparr>"

lemma ledger_errors_append:
  "ledger_errors K tr s n (es @ fs) = ledger_errors K tr s n es @ ledger_errors K tr (advance s es) (n + int (length es)) fs"
proof (induction es arbitrary: s n)
  case (Cons e es)
  have "advance \<lparr>vs_previous = Some (le_entry_id e), vs_entries = le_entry_id e # vs_entries s,
         vs_artifacts = em_artifact_id (le_metadata e) # vs_artifacts s\<rparr> es = advance s (e # es)"
    by (simp add: advance_def)
  then show ?case by (simp add: Cons add.assoc add.commute [of 1])
next
  case Nil
  have "advance s [] = s" by (cases s) (simp add: advance_def)
  then show ?case by simp
qed

lemma entry_errors_Nil: "entry_errors K None s n e = [] \<longleftrightarrow> le_sequence e = n \<and> le_previous e = vs_previous s
    \<and> le_entry_id e \<notin> set (vs_entries s) \<and> em_artifact_id (le_metadata e) \<notin> set (vs_artifacts s)
    \<and> verify_entry K e = Inr ()"
  by (cases "verify_entry K e") (auto simp: entry_errors_def Let_def)

lemma valid_ledger_Nil [simp]: "valid_ledger K []"
  by (simp add: valid_ledger_def verify_agent_run_ledger_def)

lemma valid_ledger_snoc:
  "valid_ledger K (es @ [e]) \<longleftrightarrow> valid_ledger K es \<and> (le_sequence e, le_previous e) = next_link es
    \<and> le_entry_id e \<notin> set (map le_entry_id es)
    \<and> em_artifact_id (le_metadata e) \<notin> set (map (\<lambda>e. em_artifact_id (le_metadata e)) es)
    \<and> verify_entry K e = Inr ()"
  by (auto simp: valid_ledger_def verify_agent_run_ledger_def Let_def ledger_errors_append entry_errors_Nil
      advance_def chain_start_def next_link_def)

lemma valid_ledger_prefix: "valid_ledger K (es @ fs) \<Longrightarrow> valid_ledger K es"
proof (induction fs rule: rev_induct)
  case (snoc f fs)
  then show ?case using valid_ledger_snoc [of K "es @ fs" f] by simp
qed simp

lemma valid_ledger_entry: "valid_ledger K es \<Longrightarrow> e \<in> set es \<Longrightarrow> verify_entry K e = Inr ()"
  by (induction es rule: rev_induct) (auto simp: valid_ledger_snoc)

section \<open>The chain determines itself from its head\<close>

definition entries_utc :: "ledger_entry list \<Rightarrow> bool" where
  "entries_utc es \<longleftrightarrow> list_all (\<lambda>e. event_times_utc (le_event e)) es"

lemma same_entry:
  assumes "address_laws (cr_address K)" "verify_entry K e = Inr ()" "verify_entry K f = Inr ()"
    and "event_times_utc (le_event e)" "event_times_utc (le_event f)" "le_entry_id e = le_entry_id f"
  shows "e = f \<or> json_collision (cr_address K) (entry_signed e) (entry_signed f)"
proof -
  have "same_json (entry_signed e) (entry_signed f) \<or> json_collision (cr_address K) (entry_signed e) (entry_signed f)"
    using same_content [OF assms(1)] verify_entry_Inr(4) [OF assms(2)] verify_entry_Inr(4) [OF assms(3)] assms(6) by metis
  moreover have "e = f" if "same_json (entry_signed e) (entry_signed f)"
  proof -
    note link = same_signed_link [OF that]
    have "le_event e = le_event f" using same_event assms(4,5) link by blast
    then show ?thesis using link verify_entry_Inr(3) [OF assms(2)] verify_entry_Inr(3) [OF assms(3)] assms(6) by simp
  qed
  ultimately show ?thesis by blast
qed

text \<open>C18. The ledger is tamper-evident: its head commits to its whole history. Two ledgers that verify
and have the same head id are equal entry by entry (same length, events, order, links and signatures),
or a SHA-256 collision between two of their entries is exhibited.\<close>

theorem ledger_head_commits:
  assumes "address_laws (cr_address K)" "valid_ledger K es" "valid_ledger K fs" "entries_utc es" "entries_utc fs"
    and "lv_head (verify_agent_run_ledger K es None) = lv_head (verify_agent_run_ledger K fs None)"
  shows "es = fs \<or> (\<exists>e \<in> set es. \<exists>f \<in> set fs. json_collision (cr_address K) (entry_signed e) (entry_signed f))"
  using assms(2-6)
proof (induction es arbitrary: fs rule: rev_induct)
  case Nil
  then show ?case by (simp add: verify_agent_run_ledger_def Let_def split: if_splits)
next
  case (snoc e es)
  have "fs \<noteq> []" using snoc.prems(5) by (auto simp: verify_agent_run_ledger_def Let_def)
  then obtain gs f where fs: "fs = gs @ [f]" by (cases fs rule: rev_cases) auto
  have id: "le_entry_id e = le_entry_id f" using snoc.prems(5) by (simp add: verify_agent_run_ledger_def Let_def fs)
  note e = snoc.prems(1) [unfolded valid_ledger_snoc] and f = snoc.prems(2) [unfolded fs valid_ledger_snoc]
  have utc: "event_times_utc (le_event e)" "event_times_utc (le_event f)" "entries_utc es" "entries_utc gs"
    using snoc.prems(3,4) by (simp_all add: entries_utc_def fs)
  have "e = f \<or> json_collision (cr_address K) (entry_signed e) (entry_signed f)"
    using same_entry [OF assms(1) _ _ utc(1,2) id] e f by blast
  moreover have "es = gs \<or> (\<exists>e \<in> set es. \<exists>f \<in> set gs. json_collision (cr_address K) (entry_signed e) (entry_signed f))" if "e = f"
  proof (rule snoc.IH)
    have "next_link es = next_link gs" using e f that by metis
    then show "lv_head (verify_agent_run_ledger K es None) = lv_head (verify_agent_run_ledger K gs None)"
      by (simp add: next_link_def verify_agent_run_ledger_def Let_def)
  qed (use e f utc in blast)+
  ultimately show ?case unfolding fs by fastforce
qed

section \<open>Appending\<close>

text \<open>The laws of Ed25519 and of the parser: a signature verifies under its key's public part, keys and
signatures have their fixed lengths, and the parser returns an event from the canonical text of its dump.\<close>

definition crypto_laws :: "'k crypto_api \<Rightarrow> bool" where
  "crypto_laws K \<longleftrightarrow> address_laws (cr_address K)
     \<and> (\<forall>k m. cr_verify K (cr_public K k) (cr_sign K k m) m)
     \<and> (\<forall>k. length (cr_public K k) = 32) \<and> (\<forall>k m. length (cr_sign K k m) = 64)"

definition event_parses :: "'k crypto_api \<Rightarrow> governance_event \<Rightarrow> bool" where
  "event_parses K e \<longleftrightarrow> cr_load K (dumps False (ad_float (cr_address K)) (event_json e)) = Inr e"

lemma address_bytes_finite: "finite_json v \<Longrightarrow> address_bytes A v = Inr (dumps False (ad_float A) v)"
  by (simp add: address_bytes_def canonical_json_bytes_def)

lemma validate_entry_Inr:
  assumes "validate_entry K e = Inr e'"
  shows "verify_entry K e' = Inr ()" "le_entry_id e' = le_entry_id e" "le_sequence e' = le_sequence e"
    and "le_previous e' = le_previous e" "le_signature e' = le_signature e"
    and "validate_event (cr_address K) (le_event e) = Inr (le_event e')"
  using assms by (auto simp: validate_entry_def Let_def)

lemma build_entry_Inr:
  assumes "build_signed_ledger_entry K event n prev k = Inr e"
  shows "verify_entry K e = Inr ()" "le_sequence e = n" "le_previous e = prev"
    "validate_event (cr_address K) event = Inr (le_event e)"
  using assms validate_entry_Inr by (fastforce simp: build_signed_ledger_entry_def Let_def)+

definition ledger_collision :: "'k crypto_api \<Rightarrow> ledger_entry list \<Rightarrow> bool" where
  "ledger_collision K es \<longleftrightarrow> (\<exists>e \<in> set es. \<exists>f \<in> set es. e \<noteq> f \<and> json_collision (cr_address K) (entry_signed e) (entry_signed f))"

lemma ledger_collision_mono: "ledger_collision K es \<Longrightarrow> ledger_collision K (es @ fs)"
  by (auto simp: ledger_collision_def)

lemma valid_sequences: "valid_ledger K es \<Longrightarrow> map le_sequence es = map int [1..<Suc (length es)]"
proof (induction es rule: rev_induct)
  case (snoc e es)
  then show ?case by (simp add: valid_ledger_snoc next_link_def)
qed simp

lemma append_valid:
  assumes K: "address_laws (cr_address K)" and l: "valid_ledger K (ml_entries l)"
    and run: "mem_append K event k l = (l', Inr e)"
  shows "ml_entries l' = ml_entries l @ [e] \<and> (valid_ledger K (ml_entries l') \<or> ledger_collision K (ml_entries l'))"
proof -
  obtain n prev where link: "next_link (ml_entries l) = (n, prev)" by (cases "next_link (ml_entries l)")
  have e: "build_signed_ledger_entry K event n prev k = Inr e" and l': "ml_entries l' = ml_entries l @ [e]"
    and fresh: "em_artifact_id (le_metadata e) \<notin> set (map (\<lambda>e. em_artifact_id (le_metadata e)) (ml_entries l))"
    using run by (auto simp: mem_append_def link list_ex_iff split: sum.splits if_splits)
  note built = build_entry_Inr [OF e]
  show ?thesis
  proof (cases "le_entry_id e \<in> set (map le_entry_id (ml_entries l))")
    case False
    then have "valid_ledger K (ml_entries l')"
      using l built fresh link unfolding l' valid_ledger_snoc by simp
    then show ?thesis using l' by blast
  next
    case True
    then obtain f where f: "f \<in> set (ml_entries l)" "le_entry_id f = le_entry_id e" by auto
    have "le_sequence f \<in> set (map int [1..<Suc (length (ml_entries l))])"
      using f(1) valid_sequences [OF l] by (metis image_eqI list.set_map)
    then have "le_sequence f \<noteq> le_sequence e" using link by (auto simp: built(2) next_link_def)
    moreover have "same_json (entry_signed f) (entry_signed e) \<or> json_collision (cr_address K) (entry_signed f) (entry_signed e)"
      using same_content [OF K] verify_entry_Inr(4) [OF valid_ledger_entry [OF l f(1)]] verify_entry_Inr(4) [OF built(1)] f(2)
      by metis
    ultimately have "f \<noteq> e" "json_collision (cr_address K) (entry_signed f) (entry_signed e)"
      using same_signed_link by blast+
    then have "ledger_collision K (ml_entries l')" using f(1) unfolding ledger_collision_def l' by auto
    then show ?thesis using l' by blast
  qed
qed

lemma mem_append_Inl: "mem_append K event k l = (l', Inl x) \<Longrightarrow> l' = l"
  by (auto simp: mem_append_def split: prod.splits sum.splits if_splits)

lemma mem_append_grows: "mem_append K event k l = (l', Inr e) \<Longrightarrow>
    ml_entries l' = ml_entries l @ [e] \<and> ml_trusted l' = ml_trusted l"
  by (auto simp: mem_append_def split: prod.splits sum.splits if_splits)

inductive ledger_reachable :: "'k crypto_api \<Rightarrow> mem_ledger \<Rightarrow> bool" for K where
  empty: "ledger_reachable K \<lparr>ml_entries = [], ml_trusted = trusted\<rparr>"
| append: "ledger_reachable K l \<Longrightarrow> mem_append K event k l = (l', r) \<Longrightarrow> ledger_reachable K l'"

text \<open>C19. The in-memory ledger is append-only and always verifies. In every reachable ledger, whichever
keys signed and whatever was refused, the entries verify as a chain (or exhibit a collision of entry
addresses), and one more append either leaves the ledger as it was and raises, or adds exactly the
returned entry at the end.\<close>

theorem ledger_always_verifies:
  assumes "address_laws (cr_address K)" "ledger_reachable K l"
  shows "(valid_ledger K (ml_entries l) \<or> ledger_collision K (ml_entries l))
    \<and> (case mem_append K event k l of (l', Inl x) \<Rightarrow> l' = l
        | (l', Inr e) \<Rightarrow> ml_entries l' = ml_entries l @ [e] \<and> ml_trusted l' = ml_trusted l)"
proof
  show "valid_ledger K (ml_entries l) \<or> ledger_collision K (ml_entries l)"
    using assms(2)
  proof (induction rule: ledger_reachable.induct)
    case (append l event k l' r)
    show ?case
    proof (cases r)
      case (Inl x)
      then show ?thesis using append.IH mem_append_Inl [OF append.hyps(2) [unfolded Inl]] by simp
    next
      case (Inr e)
      note run = append.hyps(2) [unfolded Inr]
      from append.IH show ?thesis
      proof
        assume "valid_ledger K (ml_entries l)"
        from append_valid [OF assms(1) this run] show ?thesis by blast
      next
        assume "ledger_collision K (ml_entries l)"
        then show ?thesis unfolding conjunct1 [OF mem_append_grows [OF run]] by (rule disjI2 [OF ledger_collision_mono])
      qed
    qed
  qed simp
  obtain l' r where run: "mem_append K event k l = (l', r)" by (cases "mem_append K event k l")
  then show "case mem_append K event k l of (l', Inl x) \<Rightarrow> l' = l
        | (l', Inr e) \<Rightarrow> ml_entries l' = ml_entries l @ [e] \<and> ml_trusted l' = ml_trusted l"
    by (cases r) (simp_all add: mem_append_Inl mem_append_grows)
qed

section \<open>Appending succeeds\<close>

lemma validated_event_ids:
  "validate_event A e = Inr e' \<Longrightarrow> is_hash_id ''manifest-'' (em_manifest_id (event_metadata_of e'))
     \<and> is_hash_id ''proposal-'' (em_proposal_id (event_metadata_of e')) \<and> dt_off (em_occurred_at (event_metadata_of e')) = Some 0"
  by (cases e) (auto simp: validate_grant_def validate_revocation_def validate_preflight_def guard_simps Let_def to_utc_def
      split: if_splits)

lemma build_entry_total:
  assumes K: "crypto_laws K" and v: "validate_event (cr_address K) event = Inr event" and parses: "event_parses K event"
    and link: "check_previous n prev = Inr ()" and n: "1 \<le> n"
  shows "\<exists>e. build_signed_ledger_entry K event n prev k = Inr e \<and> le_event e = event
    \<and> le_metadata e = event_metadata_of event \<and> ls_key_id (le_signature e) = ''ed25519-'' @ ad_sha256 (cr_address K) (cr_public K k)"
proof -
  let ?A = "cr_address K" and ?m = "event_metadata_of event"
  let ?payload = "dumps False (ad_float ?A) (entry_payload n prev event)"
  let ?s = "\<lparr>ls_key_id = ''ed25519-'' @ ad_sha256 ?A (cr_public K k), ls_public_key = b64encode (cr_public K k),
      ls_value = b64encode (cr_sign K k ?payload)\<rparr>"
  have laws: "address_laws ?A" "cr_verify K (cr_public K k) (cr_sign K k ?payload) ?payload"
    "length (cr_public K k) = 32" "length (cr_sign K k ?payload) = 64"
    using K by (auto simp: crypto_laws_def)
  have key: "key_id_for_public_key ?A (cr_public K k) = Inr (ls_key_id ?s)"
    by (simp add: key_id_for_public_key_def laws)
  have sign: "signer_sign K k ?payload = Inr ?s" by (simp add: signer_sign_def key)
  obtain i where i: "address ?A ''ledger-'' (signed_payload n prev event ?s) = Inr i"
    by (simp add: address_finite)
  have hash: "is_hash_id ''ledger-'' i" using address_matches [OF laws(1) i] by (simp add: is_hash_id_def)
  have sig: "is_hash_id ''ed25519-'' (ls_key_id ?s)"
    using laws(1) hex_digest_prefixed [of "ad_sha256 ?A" "''ed25519-''" "cr_public K k"]
    by (simp add: is_hash_id_def address_laws_def)
  have prev: "case prev of None \<Rightarrow> True | Some p \<Rightarrow> is_hash_id ''ledger-'' p"
    using link by (auto simp: check_previous_def prefixed_hash_def split: if_splits option.splits)
  note ids = validated_event_ids [OF v]
  have time: "to_utc (em_occurred_at ?m) f = Inr (em_occurred_at ?m)" for f
    using ids by (simp add: to_utc_def utc_def)
  let ?e = "\<lparr>le_entry_id = i, le_sequence = n, le_previous = prev, le_metadata = ?m, le_event = event, le_signature = ?s\<rparr>"
  have "verify_entry K ?e = Inr ()"
    using hash link parses v laws key i
    by (simp add: verify_entry_def Let_def prefixed_hash_def address_bytes_finite event_parses_def)
  then have "validate_entry K ?e = Inr ?e"
    using hash n prev ids v sig by (simp add: validate_entry_def Let_def guard_simps time split: option.splits)
  then show ?thesis
    using link sign i by (simp add: build_signed_ledger_entry_def Let_def address_bytes_finite)
qed

section \<open>When an approval is active\<close>

definition approval_live :: "'k crypto_api \<Rightarrow> ledger_entry list \<Rightarrow> string \<Rightarrow> string \<Rightarrow> int \<Rightarrow> string list \<Rightarrow> bool" where
  "approval_live K es approval_id proposal_id now trusted \<longleftrightarrow>
     valid_ledger K es \<and> list_all (\<lambda>e. ls_key_id (le_signature e) \<in> set trusted) es
     \<and> (\<exists>g k. grants_of approval_id es = [(g, k)] \<and> gr_proposal_id g = proposal_id
        \<and> dt_us (gr_issued_at g) \<le> now \<and> now < dt_us (gr_expires_at g)
        \<and> (revocations_of approval_id es = [] \<or> (\<exists>r. revocations_of approval_id es = [r]
             \<and> rv_proposal_id r = gr_proposal_id g \<and> rv_manifest_id r = gr_manifest_id g
             \<and> dt_us (gr_issued_at g) \<le> dt_us (rv_revoked_at r) \<and> now < dt_us (rv_revoked_at r))))"

lemma observation_simps [simp]:
  "ao_status (observation st i t g k r) = st" "ao_approval_id (observation st i t g k r) = Some i"
  "ao_approved_proposal_id (observation st i t g k r) = map_option gr_proposal_id g"
  "ao_evaluated_at (observation st i t g k r) = Some t"
  by (simp_all add: observation_def)

lemma lifetime_status_active: "lifetime_status g t = Active \<longleftrightarrow> dt_us (gr_issued_at g) \<le> dt_us t \<and> dt_us t < dt_us (gr_expires_at g)"
  by (simp add: lifetime_status_def)

lemma resolve_active:
  assumes "resolve_agent_approval K es approval_id proposal_id t trusted = Inr a"
  shows "ao_status a = Active \<longleftrightarrow> approval_live K es approval_id proposal_id (dt_us t) trusted"
proof -
  let ?gs = "grants_of approval_id es" and ?rs = "revocations_of approval_id es" and ?t = "utc (dt_us t)"
  have a: "a = (if \<not> valid_ledger K es then observation LedgerInvalid approval_id ?t None None None
       else if list_ex (\<lambda>e. ls_key_id (le_signature e) \<notin> set trusted) es
       then observation UntrustedSigner approval_id ?t None None None
       else case ?gs of
         [] \<Rightarrow> observation NotFound approval_id ?t None None None
       | [(g, key_id)] \<Rightarrow>
           if gr_proposal_id g \<noteq> proposal_id then observation ScopeMismatch approval_id ?t (Some g) (Some key_id) None
           else (case ?rs of
             [] \<Rightarrow> observation (lifetime_status g ?t) approval_id ?t (Some g) (Some key_id) None
           | [r] \<Rightarrow>
               if rv_proposal_id r \<noteq> gr_proposal_id g \<or> rv_manifest_id r \<noteq> gr_manifest_id g
                 \<or> dt_us (rv_revoked_at r) < dt_us (gr_issued_at g)
               then observation LedgerInvalid approval_id ?t None None None
               else if dt_us (rv_revoked_at r) \<le> dt_us ?t
               then observation Revoked approval_id ?t (Some g) (Some key_id) (Some (rv_revocation_id r))
               else observation (lifetime_status g ?t) approval_id ?t (Some g) (Some key_id) None
           | _ \<Rightarrow> observation LedgerInvalid approval_id ?t None None None)
       | _ \<Rightarrow> observation LedgerInvalid approval_id ?t None None None)"
    using assms by (auto simp: resolve_agent_approval_def to_utc_def valid_ledger_def [symmetric] split: if_splits)
  consider "?gs = []" | g k where "?gs = [(g, k)]" | x y zs where "?gs = x # y # zs"
    by (cases ?gs; cases "tl ?gs") auto
  then show ?thesis
  proof cases
    case 2
    consider "?rs = []" | r where "?rs = [r]" | x y zs where "?rs = x # y # zs"
      by (cases ?rs; cases "tl ?rs") auto
    then show ?thesis
      by cases (auto simp: a 2 approval_live_def list_all_iff list_ex_iff lifetime_status_active split: if_splits)
  qed (auto simp: a approval_live_def split: if_splits prod.splits)
qed

text \<open>C20. An approval resolves as active exactly when it is live: the ledger verifies, every entry is
signed by a trusted key, the ledger holds one grant with the id and it is for this proposal, the time is
inside its lifetime (start inclusive, end exclusive), and there is no revocation, or one of the same
scope that takes effect later. Every other ledger, in particular a damaged one, yields a status that the
preflight blocks.\<close>

theorem approval_active_iff:
  assumes "mem_resolve K l approval_id proposal_id t = Inr a"
  shows "ao_status a = Active \<longleftrightarrow> approval_live K (ml_entries l) approval_id proposal_id (dt_us t) (ml_trusted l)"
  using assms unfolding mem_resolve_def by (rule resolve_active)

lemma revocations_of_append: "revocations_of i (es @ fs) = revocations_of i es @ revocations_of i fs"
  by (simp add: revocations_of_def)

text \<open>C27. Revocation is final: once the ledger holds a revocation of an approval, no later state of the
ledger, whatever is appended to it, resolves the approval as active at any time from the revocation on.\<close>

theorem revocation_is_final:
  assumes "r \<in> set (revocations_of approval_id (ml_entries l))" "dt_us (rv_revoked_at r) \<le> dt_us t"
    and "ml_entries l' = ml_entries l @ later" "mem_resolve K l' approval_id proposal_id t = Inr a"
  shows "ao_status a \<noteq> Active"
proof
  assume "ao_status a = Active"
  then have "approval_live K (ml_entries l @ later) approval_id proposal_id (dt_us t) (ml_trusted l')"
    using resolve_active assms(3,4) unfolding mem_resolve_def by metis
  then have "revocations_of approval_id (ml_entries l @ later) = [] \<or>
      (\<exists>r. revocations_of approval_id (ml_entries l @ later) = [r] \<and> dt_us t < dt_us (rv_revoked_at r))"
    unfolding approval_live_def by blast
  then show False using assms(1,2) by (auto simp: revocations_of_append Cons_eq_append_conv append_eq_Cons_conv)
qed

section \<open>The preflight over the ledger\<close>

text \<open>The parser returns no other event than the one whose dump it reads.\<close>

definition load_faithful :: "'k crypto_api \<Rightarrow> bool" where
  "load_faithful K \<longleftrightarrow> (\<forall>e x. event_times_utc e \<longrightarrow>
     cr_load K (dumps False (ad_float (cr_address K)) (event_json e)) = Inr x \<longrightarrow> x = e)"

lemma grants_of_member: "(g, k) \<in> set (grants_of i es) \<Longrightarrow> \<exists>e \<in> set es. le_event e = Grant g \<and> ls_key_id (le_signature e) = k
    \<and> gr_approval_id g = i"
  by (auto simp: grants_of_def split: governance_event.splits if_splits)

lemma valid_grant:
  assumes "load_faithful K" "valid_ledger K es" "entries_utc es" "e \<in> set es" "le_event e = Grant g"
  shows "ga_role (gr_approver g) = HumanReleaseApprover" "dt_us (gr_issued_at g) < dt_us (gr_expires_at g)"
    and "dt_us (gr_expires_at g) - dt_us (gr_issued_at g) \<le> approval_max_ttl_us"
proof -
  have "event_times_utc (Grant g)" using assms(3-5) unfolding entries_utc_def list_all_iff by metis
  moreover have bytes: "address_bytes (cr_address K) (event_json (Grant g))
      = Inr (dumps False (ad_float (cr_address K)) (event_json (Grant g)))"
    by (rule address_bytes_finite) (rule finite_governance)
  moreover obtain loaded v where loaded: "cr_load K (dumps False (ad_float (cr_address K)) (event_json (Grant g))) = Inr loaded"
    "validate_event (cr_address K) loaded = Inr v"
    using verify_entry_Inr(5) [OF valid_ledger_entry [OF assms(2,4)]] unfolding assms(5) bytes sum.inject by blast
  ultimately have "loaded = Grant g" using assms(1) unfolding load_faithful_def by blast
  then show "ga_role (gr_approver g) = HumanReleaseApprover" "dt_us (gr_issued_at g) < dt_us (gr_expires_at g)"
    "dt_us (gr_expires_at g) - dt_us (gr_issued_at g) \<le> approval_max_ttl_us"
    using loaded(2) by (auto simp: validate_grant_def guard_simps Let_def to_utc_def split: if_splits)
qed

text \<open>C15. A passed human-release check is backed by the ledger. If a manifest built with an approval
resolved from the ledger passes the check, then the ledger verifies, all its signers are trusted, and it
holds exactly one grant under the approval id: given by a human release approver, for the very proposal
of the manifest, issued no later than and expiring after the evaluation time with a lifetime of at most
24 hours, and not revoked by then.\<close>

theorem human_release_backed_by_ledger:
  assumes "load_faithful K" "entries_utc (ml_entries l)" "mem_resolve K l approval_id proposal_id t = Inr a"
    and "build_agent_run_manifest A p (Some a) proposal release = Inr m" "human_release_passed m"
  shows "valid_ledger K (ml_entries l) \<and> list_all (\<lambda>e. ls_key_id (le_signature e) \<in> set (ml_trusted l)) (ml_entries l)
    \<and> (\<exists>g k. grants_of approval_id (ml_entries l) = [(g, k)] \<and> gr_proposal_id g = rm_proposal_id m
        \<and> ga_role (gr_approver g) = HumanReleaseApprover
        \<and> dt_us (gr_issued_at g) \<le> dt_us t \<and> dt_us t < dt_us (gr_expires_at g)
        \<and> dt_us (gr_expires_at g) - dt_us (gr_issued_at g) \<le> approval_max_ttl_us)
    \<and> (\<forall>r \<in> set (revocations_of approval_id (ml_entries l)). dt_us t < dt_us (rv_revoked_at r))"
proof -
  have approval: "rm_approval m = a" using manifest_Inr [OF assms(4)] by auto
  have "ao_status a = Active" using human_release_iff [OF assms(4)] assms(5) approval by simp
  then have live: "approval_live K (ml_entries l) approval_id proposal_id (dt_us t) (ml_trusted l)"
    using resolve_active assms(3) unfolding mem_resolve_def by metis
  then obtain g k where g: "grants_of approval_id (ml_entries l) = [(g, k)]" "gr_proposal_id g = proposal_id"
    "dt_us (gr_issued_at g) \<le> dt_us t" "dt_us t < dt_us (gr_expires_at g)"
    unfolding approval_live_def by blast
  obtain e where e: "e \<in> set (ml_entries l)" "le_event e = Grant g"
    using grants_of_member [of g k approval_id "ml_entries l"] g(1) by auto
  have valid: "valid_ledger K (ml_entries l)" using live by (simp add: approval_live_def)
  note grant = valid_grant [OF assms(1) valid assms(2) e]
  have "ao_approved_proposal_id a = Some proposal_id"
    using assms(3) \<open>ao_status a = Active\<close> g(1,2) unfolding mem_resolve_def resolve_agent_approval_def
    by (auto simp: g(1,2) split: if_splits list.splits)
  then have "gr_proposal_id g = rm_proposal_id m"
    using live_approval [OF assms(4,5)] approval g(2) by simp
  then show ?thesis using live g grant unfolding approval_live_def by auto
qed

section \<open>A sample ledger\<close>

definition sample_public :: string where
  "sample_public = replicate 32 (CHR ''k'')"

definition sample_draft :: approval_grant where
  "sample_draft = \<lparr>gr_approval_id = [], gr_proposal_id = sample_proposal_id,
     gr_manifest_id = ''manifest-'' @ sample_sha [], gr_policy_version = ''agent-authorization-v3'',
     gr_approver = \<lparr>ga_actor_id = ''github:1'', ga_role = HumanReleaseApprover\<rparr>, gr_issued_at = utc 0,
     gr_expires_at = utc 10, gr_reason = ''reviewed the evidence''\<rparr>"

definition sample_grant :: approval_grant where
  "sample_grant = sample_draft\<lparr>gr_approval_id :=
     ''approval-'' @ sample_sha (dumps False sample_float_text (approval_payload sample_draft))\<rparr>"

definition sample_revocation_draft :: approval_revocation where
  "sample_revocation_draft = \<lparr>rv_revocation_id = [], rv_approval_id = gr_approval_id sample_grant,
     rv_proposal_id = sample_proposal_id, rv_manifest_id = ''manifest-'' @ sample_sha [],
     rv_revoked_by = \<lparr>ga_actor_id = ''github:2'', ga_role = HumanReleaseRevoker\<rparr>, rv_revoked_at = utc 7,
     rv_reason = ''superseded evidence''\<rparr>"

definition sample_revocation :: approval_revocation where
  "sample_revocation = sample_revocation_draft\<lparr>rv_revocation_id :=
     ''revocation-'' @ sample_sha (dumps False sample_float_text (revocation_payload sample_revocation_draft))\<rparr>"

text \<open>A signature that is a digest of the key and the message, and a parser that knows two events.\<close>

definition sample_crypto :: "unit crypto_api" where
  "sample_crypto = \<lparr>cr_address = sample_address_api, cr_public = (\<lambda>k. sample_public),
     cr_sign = (\<lambda>k m. sample_sha (sample_public @ m)), cr_verify = (\<lambda>pk s m. s = sample_sha (pk @ m)),
     cr_load = (\<lambda>b. if b = dumps False sample_float_text (event_json (Grant sample_grant)) then Inr (Grant sample_grant)
       else if b = dumps False sample_float_text (event_json (Revocation sample_revocation)) then Inr (Revocation sample_revocation)
       else Inl (ValueError ''not JSON''))\<rparr>"

lemma sample_crypto_laws: "crypto_laws sample_crypto"
  by (simp add: crypto_laws_def sample_crypto_def sample_address_laws sample_public_def)
    (simp add: sample_sha_def Let_def)

lemma sample_crypto_address [simp]: "cr_address sample_crypto = sample_address_api"
  by (simp add: sample_crypto_def)

lemma sample_hash: "is_hash_id p (p @ sample_sha s)"
  unfolding is_hash_id_def by (rule hex_digest_prefixed [OF sample_sha_ok])

lemma sample_ids:
  "is_hash_id ''proposal-'' sample_proposal_id" "is_hash_id ''approval-'' (gr_approval_id sample_grant)"
  "is_hash_id ''revocation-'' (rv_revocation_id sample_revocation)"
proof -
  obtain m where "build_agent_run_manifest sample_address_api sample_pack (Some sample_approval) None None = Inr m"
    using sample_manifest by blast
  then obtain q where "build_agent_run_proposal sample_address_api sample_pack (Some (supplied_release None)) = Inr q"
    by (rule manifest_Inr)
  then have q: "build_agent_run_proposal sample_address_api sample_pack (Some no_release) = Inr q" by simp
  then obtain v where "address sample_address_api ''proposal-'' v = Inr (rp_proposal_id q)"
    unfolding proposal_Inr by fastforce
  moreover have "sample_proposal_id = rp_proposal_id q" unfolding sample_proposal_id_def q sum.case ..
  ultimately show "is_hash_id ''proposal-'' sample_proposal_id"
    unfolding is_hash_id_def using address_matches [OF sample_address_laws] by metis
  show "is_hash_id ''approval-'' (gr_approval_id sample_grant)"
    unfolding sample_grant_def sample_draft_def approval_grant.update_convs approval_grant.select_convs by (rule sample_hash)
  show "is_hash_id ''revocation-'' (rv_revocation_id sample_revocation)"
    unfolding sample_revocation_def sample_revocation_draft_def approval_revocation.update_convs approval_revocation.select_convs by (rule sample_hash)
qed

lemma sample_actors: "validate_actor \<lparr>ga_actor_id = ''github:1'', ga_role = r\<rparr> = Inr \<lparr>ga_actor_id = ''github:1'', ga_role = r\<rparr>"
  "validate_actor \<lparr>ga_actor_id = ''github:2'', ga_role = r\<rparr> = Inr \<lparr>ga_actor_id = ''github:2'', ga_role = r\<rparr>"
  by (simp_all add: validate_actor_def guard_simps actor_id_ok_def scheme_char_def is_uspace_def Let_def)

lemma sample_reasons: "checked_reason ''reviewed the evidence'' f = Inr ''reviewed the evidence''"
  "checked_reason ''superseded evidence'' f = Inr ''superseded evidence''"
  by (simp_all add: checked_reason_def py_strip_def is_uspace_def)

lemma approval_payload_id [simp]: "approval_payload (g\<lparr>gr_approval_id := i\<rparr>) = approval_payload g"
  by (simp add: approval_payload_def approval_members_def)

lemma revocation_payload_id [simp]: "revocation_payload (r\<lparr>rv_revocation_id := i\<rparr>) = revocation_payload r"
  by (simp add: revocation_payload_def revocation_members_def)

lemma sample_grant_fields:
  "gr_proposal_id sample_grant = sample_proposal_id" "gr_manifest_id sample_grant = ''manifest-'' @ sample_sha []"
  "gr_policy_version sample_grant = ''agent-authorization-v3''"
  "gr_approver sample_grant = \<lparr>ga_actor_id = ''github:1'', ga_role = HumanReleaseApprover\<rparr>"
  "gr_issued_at sample_grant = utc 0" "gr_expires_at sample_grant = utc 10" "gr_reason sample_grant = ''reviewed the evidence''"
  by (simp_all add: sample_grant_def sample_draft_def)

lemma sample_grant_address: "address sample_address_api ''approval-'' (approval_payload sample_grant) = Inr (gr_approval_id sample_grant)"
  unfolding address_finite [OF finite_governance(1)]
  by (simp add: sample_grant_def sample_address_api_def del: append_Cons append_Nil)

lemma sample_grant_valid: "validate_grant sample_address_api sample_grant = Inr sample_grant"
proof -
  have same: "sample_grant\<lparr>gr_issued_at := utc 0, gr_expires_at := utc 10\<rparr> = sample_grant"
    by (simp add: sample_grant_def sample_draft_def)
  show ?thesis
    unfolding validate_grant_def sample_grant_fields Let_def
    by (simp add: guard_simps sample_ids sample_hash sample_actors sample_reasons to_utc_def same sample_grant_address
        sample_grant_fields approval_max_ttl_us_def del: append_Cons append_Nil)
qed

lemma sample_revocation_fields:
  "rv_approval_id sample_revocation = gr_approval_id sample_grant" "rv_proposal_id sample_revocation = sample_proposal_id"
  "rv_manifest_id sample_revocation = ''manifest-'' @ sample_sha []"
  "rv_revoked_by sample_revocation = \<lparr>ga_actor_id = ''github:2'', ga_role = HumanReleaseRevoker\<rparr>"
  "rv_revoked_at sample_revocation = utc 7" "rv_reason sample_revocation = ''superseded evidence''"
  by (simp_all add: sample_revocation_def sample_revocation_draft_def)

lemma sample_revocation_address:
  "address sample_address_api ''revocation-'' (revocation_payload sample_revocation) = Inr (rv_revocation_id sample_revocation)"
  unfolding address_finite [OF finite_governance(2)]
  by (simp add: sample_revocation_def sample_address_api_def del: append_Cons append_Nil)

lemma sample_revocation_valid: "validate_revocation sample_address_api sample_revocation = Inr sample_revocation"
proof -
  have same: "sample_revocation\<lparr>rv_revoked_at := utc 7\<rparr> = sample_revocation"
    by (simp add: sample_revocation_def sample_revocation_draft_def)
  show ?thesis
    unfolding validate_revocation_def sample_revocation_fields Let_def
    by (simp add: guard_simps sample_ids sample_hash sample_actors sample_reasons to_utc_def same sample_revocation_address
        sample_revocation_fields del: append_Cons append_Nil)
qed

lemma sample_times: "utc_time (utc 0)" "utc_time (utc 7)" "utc_time (utc 10)"
  by (rule utc_time_0, simp add: utc_time_def representable_def wall_us_def, code_simp,
      simp add: utc_time_def representable_def wall_us_def, code_simp)

lemma sample_events_utc: "event_times_utc (Grant sample_grant)" "event_times_utc (Revocation sample_revocation)"
  by (simp_all add: sample_grant_fields sample_revocation_fields sample_times)

lemma dumps_event_inj:
  assumes "float_text_ok fr" "event_times_utc e" "event_times_utc f" "dumps False fr (event_json e) = dumps False fr (event_json f)"
  shows "e = f"
proof (rule same_event [OF assms(2,3)])
  have "canonical_json_bytes fr (event_json x) = Inr (dumps False fr (event_json x))" for x
    using finite_governance(4) by (simp add: canonical_json_bytes_def)
  then show "same_json (event_json e) (event_json f)" using canonical_bytes_inj [OF assms(1)] assms(4) by metis
qed

lemma sample_float_api [simp]: "ad_float sample_address_api = sample_float_text"
  by (simp add: sample_address_api_def)

lemma sample_load_faithful: "load_faithful sample_crypto"
  unfolding load_faithful_def
proof (intro allI impI)
  fix e x
  assume e: "event_times_utc e" and "cr_load sample_crypto (dumps False (ad_float (cr_address sample_crypto)) (event_json e)) = Inr x"
  then consider "dumps False sample_float_text (event_json e) = dumps False sample_float_text (event_json (Grant sample_grant))" "x = Grant sample_grant"
    | "dumps False sample_float_text (event_json e) = dumps False sample_float_text (event_json (Revocation sample_revocation))"
      "x = Revocation sample_revocation"
    unfolding sample_crypto_address sample_float_api by (auto simp: sample_crypto_def simp del: event_json.simps split: if_splits)
  then show "x = e"
    using dumps_event_inj [OF sample_float_text_ok e] sample_events_utc by cases blast+
qed

lemma sample_parses: "event_parses sample_crypto (Grant sample_grant)" "event_parses sample_crypto (Revocation sample_revocation)"
proof -
  have "dumps False sample_float_text (event_json (Revocation sample_revocation)) \<noteq> dumps False sample_float_text (event_json (Grant sample_grant))"
    using dumps_event_inj [OF sample_float_text_ok sample_events_utc(2,1)] by blast
  then show "event_parses sample_crypto (Grant sample_grant)" "event_parses sample_crypto (Revocation sample_revocation)"
    unfolding event_parses_def sample_crypto_address sample_float_api
    by (simp_all add: sample_crypto_def del: event_json.simps)
qed

lemma sample_append:
  assumes "validate_event sample_address_api event = Inr event" "event_parses sample_crypto event"
    and "check_previous (fst (next_link (ml_entries l))) (snd (next_link (ml_entries l))) = Inr ()"
    and "em_artifact_id (event_metadata_of event) \<notin> set (map (\<lambda>e. em_artifact_id (le_metadata e)) (ml_entries l))"
  shows "\<exists>e. mem_append sample_crypto event () l = (l\<lparr>ml_entries := ml_entries l @ [e]\<rparr>, Inr e)
    \<and> le_event e = event \<and> le_metadata e = event_metadata_of event
    \<and> ls_key_id (le_signature e) = ''ed25519-'' @ sample_sha sample_public"
proof -
  have public: "cr_public sample_crypto () = sample_public" "ad_sha256 sample_address_api = sample_sha"
    by (simp_all add: sample_crypto_def sample_address_api_def)
  have seq: "1 \<le> fst (next_link (ml_entries l))" by (simp add: next_link_def)
  obtain e where e: "build_signed_ledger_entry sample_crypto event (fst (next_link (ml_entries l))) (snd (next_link (ml_entries l))) () = Inr e"
    "le_event e = event" "le_metadata e = event_metadata_of event"
    "ls_key_id (le_signature e) = ''ed25519-'' @ sample_sha sample_public"
    using build_entry_total [OF sample_crypto_laws, of event, unfolded sample_crypto_address, OF assms(1,2,3) seq, of "()"]
    unfolding public by blast
  have "mem_append sample_crypto event () l = (l\<lparr>ml_entries := ml_entries l @ [e]\<rparr>, Inr e)"
    unfolding mem_append_def by (cases "next_link (ml_entries l)") (use assms(4) e(1,3) in \<open>auto simp: list_ex_iff image_iff dest: sym\<close>)
  then show ?thesis using e by blast
qed

definition empty_ledger :: mem_ledger where
  "empty_ledger = \<lparr>ml_entries = [], ml_trusted = [''ed25519-'' @ sample_sha sample_public]\<rparr>"

lemma sample_ledger:
  obtains l1 l2 e1 e2 where "mem_append sample_crypto (Grant sample_grant) () empty_ledger = (l1, Inr e1)"
    "mem_append sample_crypto (Revocation sample_revocation) () l1 = (l2, Inr e2)"
    "ml_entries l1 = [e1]" "ml_entries l2 = [e1, e2]" "ml_trusted l1 = ml_trusted empty_ledger"
    "le_event e1 = Grant sample_grant" "le_event e2 = Revocation sample_revocation"
    "valid_ledger sample_crypto [e1]" "valid_ledger sample_crypto [e1, e2] \<or> ledger_collision sample_crypto [e1, e2]"
    "ls_key_id (le_signature e1) \<in> set (ml_trusted empty_ledger)"
proof -
  have v: "validate_event sample_address_api (Grant sample_grant) = Inr (Grant sample_grant)"
    "validate_event sample_address_api (Revocation sample_revocation) = Inr (Revocation sample_revocation)"
    by (simp_all add: sample_grant_valid sample_revocation_valid)
  obtain e1 where e1: "mem_append sample_crypto (Grant sample_grant) () empty_ledger
      = (empty_ledger\<lparr>ml_entries := ml_entries empty_ledger @ [e1]\<rparr>, Inr e1)"
    "le_event e1 = Grant sample_grant" "le_metadata e1 = event_metadata_of (Grant sample_grant)"
    "ls_key_id (le_signature e1) = ''ed25519-'' @ sample_sha sample_public"
    using sample_append [OF v(1) sample_parses(1), of empty_ledger] by (auto simp: empty_ledger_def next_link_def check_previous_def)
  let ?l1 = "empty_ledger\<lparr>ml_entries := ml_entries empty_ledger @ [e1]\<rparr>"
  have l1: "ml_entries ?l1 = [e1]" by (simp add: empty_ledger_def)
  have laws: "address_laws (cr_address sample_crypto)" by (simp add: sample_address_laws)
  have built: "build_signed_ledger_entry sample_crypto (Grant sample_grant) 1 None () = Inr e1"
    using e1(1) by (auto simp: mem_append_def empty_ledger_def next_link_def split: sum.splits)
  note b = build_entry_Inr [OF built]
  have valid1: "valid_ledger sample_crypto [e1]"
    using valid_ledger_snoc [of sample_crypto "[]" e1] b by (simp add: next_link_def)
  have id: "is_hash_id ''ledger-'' (le_entry_id e1)" by (rule verify_entry_Inr(1) [OF b(1)])
  have differ: "rv_revocation_id sample_revocation \<noteq> gr_approval_id sample_grant"
    using sample_ids(2,3) unfolding is_hash_id_def matches_hex_def is_prefix_def by auto
  have "check_previous (fst (next_link (ml_entries ?l1))) (snd (next_link (ml_entries ?l1))) = Inr ()"
    using id by (simp add: l1 next_link_def check_previous_def prefixed_hash_def)
  moreover have "em_artifact_id (event_metadata_of (Revocation sample_revocation)) \<notin> set (map (\<lambda>e. em_artifact_id (le_metadata e)) (ml_entries ?l1))"
    using differ by (simp add: l1 e1(3))
  ultimately obtain e2 where e2: "mem_append sample_crypto (Revocation sample_revocation) () ?l1
      = (?l1\<lparr>ml_entries := ml_entries ?l1 @ [e2]\<rparr>, Inr e2)" "le_event e2 = Revocation sample_revocation"
    using sample_append [OF v(2) sample_parses(2), of ?l1] by blast
  have l2: "ml_entries (?l1\<lparr>ml_entries := ml_entries ?l1 @ [e2]\<rparr>) = [e1, e2]" by (simp add: empty_ledger_def)
  have "valid_ledger sample_crypto [e1, e2] \<or> ledger_collision sample_crypto [e1, e2]"
    using append_valid [OF laws _ e2(1)] valid1 by (simp add: empty_ledger_def)
  moreover have "ls_key_id (le_signature e1) \<in> set (ml_trusted empty_ledger)" using e1(4) by (simp add: empty_ledger_def)
  moreover have "ml_trusted ?l1 = ml_trusted empty_ledger" by simp
  ultimately show ?thesis using that [OF e1(1) e2(1) l1 l2] e1(2) e2(2) valid1 by blast
qed

text \<open>The sample ledger through its resolutions.\<close>

lemma sample_resolve: "\<exists>a. mem_resolve sample_crypto l (gr_approval_id sample_grant) sample_proposal_id (utc t) = Inr a"
  by (simp add: mem_resolve_def resolve_agent_approval_def prefixed_hash_def sample_ids to_utc_def)

lemma sample_active:
  assumes "ml_entries l = [e1]" "ml_trusted l = ml_trusted empty_ledger" "le_event e1 = Grant sample_grant"
    and "valid_ledger sample_crypto [e1]" "ls_key_id (le_signature e1) \<in> set (ml_trusted empty_ledger)"
  shows "approval_live sample_crypto (ml_entries l) (gr_approval_id sample_grant) sample_proposal_id 5 (ml_trusted l)"
  using assms by (simp add: approval_live_def grants_of_def revocations_of_def sample_grant_fields)

theorem ledger_head_commits_witness:
  "\<exists>e l. mem_append sample_crypto (Grant sample_grant) () empty_ledger = (l, Inr e) \<and> valid_ledger sample_crypto [e]
    \<and> ([e] = [e] \<or> (\<exists>x \<in> set [e]. \<exists>y \<in> set [e]. json_collision (cr_address sample_crypto) (entry_signed x) (entry_signed y)))"
proof -
  obtain l l2 e e2 where e: "mem_append sample_crypto (Grant sample_grant) () empty_ledger = (l, Inr e)"
    "le_event e = Grant sample_grant" "valid_ledger sample_crypto [e]"
    by (rule sample_ledger)
  have "entries_utc [e]" using e(2) sample_events_utc by (simp add: entries_utc_def)
  from ledger_head_commits [OF _ e(3,3) this this refl] e(1,3) sample_address_laws
  show ?thesis unfolding sample_crypto_address by blast
qed

theorem ledger_always_verifies_witness:
  "\<exists>l e. mem_append sample_crypto (Grant sample_grant) () empty_ledger = (l, Inr e)
    \<and> (valid_ledger sample_crypto (ml_entries l) \<or> ledger_collision sample_crypto (ml_entries l))"
proof -
  obtain l l2 e e2 where run: "mem_append sample_crypto (Grant sample_grant) () empty_ledger = (l, Inr e)"
    by (rule sample_ledger)
  have "ledger_reachable sample_crypto l"
    using ledger_reachable.append [OF _ run] ledger_reachable.empty unfolding empty_ledger_def by blast
  from ledger_always_verifies [OF _ this, of "Grant sample_grant" "()"] run sample_address_laws
  show ?thesis unfolding sample_crypto_address by blast
qed

theorem approval_active_iff_witness:
  "\<exists>l a. mem_resolve sample_crypto l (gr_approval_id sample_grant) sample_proposal_id (utc 5) = Inr a
    \<and> ao_status a = Active"
proof -
  obtain l l2 e e2 where run: "mem_append sample_crypto (Grant sample_grant) () empty_ledger = (l, Inr e)"
    and e: "ml_entries l = [e]" "ml_trusted l = ml_trusted empty_ledger" "le_event e = Grant sample_grant"
    "valid_ledger sample_crypto [e]" "ls_key_id (le_signature e) \<in> set (ml_trusted empty_ledger)"
    by (rule sample_ledger)
  obtain a where a: "mem_resolve sample_crypto l (gr_approval_id sample_grant) sample_proposal_id (utc 5) = Inr a"
    using sample_resolve by blast
  from approval_active_iff [OF a] sample_active [OF e] a show ?thesis by auto
qed

theorem revocation_is_final_witness:
  "\<exists>l a. mem_resolve sample_crypto l (gr_approval_id sample_grant) sample_proposal_id (utc 8) = Inr a
    \<and> length (ml_entries l) = 2 \<and> ao_status a \<noteq> Active"
proof -
  obtain l1 l e1 e2 where runs: "mem_append sample_crypto (Grant sample_grant) () empty_ledger = (l1, Inr e1)"
      "mem_append sample_crypto (Revocation sample_revocation) () l1 = (l, Inr e2)"
    and e: "ml_entries l1 = [e1]" "ml_entries l = [e1, e2]" "le_event e1 = Grant sample_grant" "le_event e2 = Revocation sample_revocation"
    by (rule sample_ledger)
  have r: "sample_revocation \<in> set (revocations_of (gr_approval_id sample_grant) (ml_entries l))"
    by (simp add: e(2-4) revocations_of_def sample_revocation_fields)
  obtain a where a: "mem_resolve sample_crypto l (gr_approval_id sample_grant) sample_proposal_id (utc 8) = Inr a"
    using sample_resolve by blast
  have "dt_us (rv_revoked_at sample_revocation) \<le> dt_us (utc 8)" by (simp add: sample_revocation_fields)
  from revocation_is_final [OF r this _ a, of "[]"] have "ao_status a \<noteq> Active" by simp
  moreover have "length (ml_entries l) = 2" by (simp add: e(2))
  ultimately show ?thesis using a by blast
qed

theorem human_release_backed_by_ledger_witness:
  "\<exists>l a m. mem_resolve sample_crypto l (gr_approval_id sample_grant) sample_proposal_id (utc 5) = Inr a
    \<and> build_agent_run_manifest sample_address_api sample_pack (Some a) None None = Inr m
    \<and> human_release_passed m \<and> valid_ledger sample_crypto (ml_entries l)"
proof -
  obtain l l2 e e2 where run: "mem_append sample_crypto (Grant sample_grant) () empty_ledger = (l, Inr e)"
    and e: "ml_entries l = [e]" "ml_trusted l = ml_trusted empty_ledger" "le_event e = Grant sample_grant"
    "valid_ledger sample_crypto [e]" "ls_key_id (le_signature e) \<in> set (ml_trusted empty_ledger)"
    by (rule sample_ledger)
  obtain a where a: "mem_resolve sample_crypto l (gr_approval_id sample_grant) sample_proposal_id (utc 5) = Inr a"
    using sample_resolve by blast
  have active: "ao_status a = Active"
    using resolve_active [OF a [unfolded mem_resolve_def]] sample_active [OF e] by simp
  then have obs: "a = observation Active (gr_approval_id sample_grant) (utc 5) (Some sample_grant) (Some (ls_key_id (le_signature e))) None"
    using a e by (auto simp: mem_resolve_def resolve_agent_approval_def grants_of_def revocations_of_def to_utc_def
        lifetime_status_def sample_grant_fields prefixed_hash_def split: if_splits)
  have "\<exists>m. build_agent_run_manifest sample_address_api sample_pack (Some a) None None = Inr m
    \<and> rm_approval m = supplied_approval (Some a) \<and> rm_release m = supplied_release None"
  proof (rule manifest_exists)
    show "validate_release_observation (supplied_release None) = Inr ()"
      by (simp add: validate_release_observation_def no_release_def guard_simps release_identity_def release_flags_def)
    show "validate_active_approval (supplied_approval (Some a)) (rp_proposal_id q) = Inr ()"
      if "build_agent_run_proposal sample_address_api sample_pack (Some (supplied_release None)) = Inr q" for q
      using that by (simp add: validate_active_approval_def guard_simps obs observation_def sample_grant_fields
          sample_proposal_id_def approval_complete_def in_lifetime_def)
  qed
  then obtain m where m: "build_agent_run_manifest sample_address_api sample_pack (Some a) None None = Inr m" "rm_approval m = a"
    by auto
  have passed: "human_release_passed m" using human_release_iff [OF m(1)] m(2) active by simp
  have "entries_utc (ml_entries l)" using e(1,3) sample_events_utc by (simp add: entries_utc_def)
  from human_release_backed_by_ledger [OF sample_load_faithful this a m(1) passed] a m(1) passed
  show ?thesis by blast
qed

end
