(* ===== verification/Ledger.thy ===== *)
theory Ledger
  imports Governance
begin

text \<open>
  The PostgreSQL ledger (\<open>agent_ledger.py\<close>) over the table of migration \<open>20260914_0024\<close>: the columns
  of a row, its CHECK and UNIQUE constraints, the serialized append, the verified reads and the
  resolution that fails closed. An append holds the advisory lock for its whole transaction, so it is
  one atomic function on the rows. A \<open>jsonb\<close> column is the JSON value its text denotes; what the driver
  returns for it, the JSON parser of Pydantic and the cast to \<open>timestamptz\<close> are arguments. The
  interface the preflight relies on is the locale \<open>approval_ledger\<close>, interpreted on the in-memory and on
  the PostgreSQL ledger.
\<close>

section \<open>Rows\<close>

record ledger_row =
  lr_sequence :: int
  lr_entry_id :: string
  lr_previous :: "string option"
  lr_event_type :: string
  lr_occurred :: datetime
  lr_artifact_id :: string
  lr_manifest_id :: string
  lr_proposal_id :: string
  lr_key_id :: string
  lr_json :: json

datatype stored_json = StoredText string | StoredObject "(string \<times> json) list" | StoredOther

text \<open>\<open>pg_parse\<close> is \<open>model_validate_json\<close> of an entry up to its patterns and validators, \<open>pg_read\<close> the
value the driver returns for a \<open>jsonb\<close> column.\<close>

record 'k ledger_api =
  pg_crypto :: "'k crypto_api"
  pg_parse :: "string \<Rightarrow> ledger_entry res"
  pg_read :: "json \<Rightarrow> stored_json"
  pg_timestamptz :: "string \<Rightarrow> int option"

text \<open>\<open>entry.model_dump(mode="python")\<close>.\<close>

definition entry_dump :: "ledger_entry \<Rightarrow> json" where
  "entry_dump e = (let m = le_metadata e in JObj
     [(''entry_id'', JStr (le_entry_id e)), (''schema_version'', JStr ''1.0.0''),
      (''rule_version'', JStr ''signed-agent-run-ledger-v1''),
      (''identity_algorithm'', JStr ledger_identity_algorithm), (''sequence'', JInt (le_sequence e)),
      (''previous_entry_id'', jopt JStr (le_previous e)), (''event_type'', JStr (event_type_text (em_type m))),
      (''occurred_at'', JTime (em_occurred_at m)), (''artifact_id'', JStr (em_artifact_id m)),
      (''manifest_id'', JStr (em_manifest_id m)), (''proposal_id'', JStr (em_proposal_id m)),
      (''event'', event_json (le_event e)), (''signature'', signature_json (le_signature e))])"

text \<open>\<open>ledger_entry_json\<close>.\<close>

definition ledger_entry_json :: "'k ledger_api \<Rightarrow> ledger_entry \<Rightarrow> string res" where
  "ledger_entry_json P e = address_bytes (cr_address (pg_crypto P)) (entry_dump e)"

definition ledger_entry_from_json :: "'k ledger_api \<Rightarrow> string \<Rightarrow> ledger_entry res" where
  "ledger_entry_from_json P s = rbind (pg_parse P s) (validate_entry (pg_crypto P))"

definition ledger_entry_from_mapping :: "'k ledger_api \<Rightarrow> (string \<times> json) list \<Rightarrow> ledger_entry res" where
  "ledger_entry_from_mapping P kvs = ledger_entry_from_json P (dumps True (ad_float (cr_address (pg_crypto P))) (JObj kvs))"

fun entry_from_database :: "'k ledger_api \<Rightarrow> stored_json \<Rightarrow> ledger_entry res" where
  "entry_from_database P (StoredText s) = ledger_entry_from_json P s"
| "entry_from_database P (StoredObject kvs) = ledger_entry_from_mapping P kvs"
| "entry_from_database P StoredOther = Inl (ValueError ''ledger entry JSON must be an object, string, or bytes'')"

definition row_of :: "ledger_entry \<Rightarrow> ledger_row" where
  "row_of e = \<lparr>lr_sequence = le_sequence e, lr_entry_id = le_entry_id e, lr_previous = le_previous e,
     lr_event_type = event_type_text (em_type (le_metadata e)), lr_occurred = em_occurred_at (le_metadata e),
     lr_artifact_id = em_artifact_id (le_metadata e), lr_manifest_id = em_manifest_id (le_metadata e),
     lr_proposal_id = em_proposal_id (le_metadata e), lr_key_id = ls_key_id (le_signature e), lr_json = entry_dump e\<rparr>"

section \<open>The table\<close>

text \<open>The text of \<open>->>\<close> and \<open>#>>\<close> for the members the constraint compares.\<close>

fun scalar_text :: "json \<Rightarrow> string option" where
  "scalar_text (JStr s) = Some s"
| "scalar_text (JInt i) = Some (int_text i)"
| "scalar_text (JTime t) = Some (encode_extra t)"
| "scalar_text _ = None"

fun member_at :: "json \<Rightarrow> string list \<Rightarrow> json option" where
  "member_at v [] = Some v"
| "member_at (JObj kvs) (k # ks) = (case map_of kvs k of None \<Rightarrow> None | Some v \<Rightarrow> member_at v ks)"
| "member_at _ (k # ks) = None"

definition text_at :: "json \<Rightarrow> string list \<Rightarrow> string option" where
  "text_at v ks = (case member_at v ks of None \<Rightarrow> None | Some w \<Rightarrow> scalar_text w)"

definition columns_match :: "'k ledger_api \<Rightarrow> ledger_row \<Rightarrow> bool" where
  "columns_match P r \<longleftrightarrow> (case lr_json r of JObj kvs \<Rightarrow> True | _ \<Rightarrow> False)
     \<and> text_at (lr_json r) [''sequence''] = Some (int_text (lr_sequence r))
     \<and> text_at (lr_json r) [''entry_id''] = Some (lr_entry_id r)
     \<and> text_at (lr_json r) [''previous_entry_id''] = lr_previous r
     \<and> text_at (lr_json r) [''event_type''] = Some (lr_event_type r)
     \<and> (case text_at (lr_json r) [''occurred_at''] of None \<Rightarrow> False
          | Some s \<Rightarrow> pg_timestamptz P s = Some (dt_us (lr_occurred r)))
     \<and> text_at (lr_json r) [''artifact_id''] = Some (lr_artifact_id r)
     \<and> text_at (lr_json r) [''manifest_id''] = Some (lr_manifest_id r)
     \<and> text_at (lr_json r) [''proposal_id''] = Some (lr_proposal_id r)
     \<and> text_at (lr_json r) [''signature'', ''key_id''] = Some (lr_key_id r)"

definition row_admissible :: "'k ledger_api \<Rightarrow> ledger_row \<Rightarrow> bool" where
  "row_admissible P r \<longleftrightarrow> 0 < lr_sequence r \<and> lr_sequence r < 2 ^ 63
     \<and> (lr_sequence r = 1) = (lr_previous r = None)
     \<and> is_hash_id ''ledger-'' (lr_entry_id r) \<and> is_hash_id ''manifest-'' (lr_manifest_id r)
     \<and> is_hash_id ''proposal-'' (lr_proposal_id r) \<and> is_hash_id ''ed25519-'' (lr_key_id r)
     \<and> lr_event_type r \<in> {''approval_granted'', ''approval_revoked'', ''preflight_recorded''}
     \<and> length (lr_entry_id r) \<le> 71 \<and> (case lr_previous r of None \<Rightarrow> True | Some p \<Rightarrow> length p \<le> 71)
     \<and> length (lr_event_type r) \<le> 32 \<and> length (lr_artifact_id r) \<le> 80
     \<and> length (lr_manifest_id r) \<le> 73 \<and> length (lr_proposal_id r) \<le> 73 \<and> length (lr_key_id r) \<le> 72
     \<and> columns_match P r"

text \<open>The primary key, the unique columns (nulls are distinct), the single genesis index and the foreign
key to the previous entry.\<close>

definition table_accepts :: "ledger_row list \<Rightarrow> ledger_row \<Rightarrow> bool" where
  "table_accepts rows r \<longleftrightarrow> lr_sequence r \<notin> set (map lr_sequence rows)
     \<and> lr_entry_id r \<notin> set (map lr_entry_id rows) \<and> lr_artifact_id r \<notin> set (map lr_artifact_id rows)
     \<and> (case lr_previous r of
          None \<Rightarrow> list_all (\<lambda>r'. lr_previous r' \<noteq> None) rows
        | Some p \<Rightarrow> Some p \<notin> set (map lr_previous rows) \<and> p \<in> insert (lr_entry_id r) (set (map lr_entry_id rows)))"

definition insert_entry :: "'k ledger_api \<Rightarrow> ledger_row \<Rightarrow> ledger_row list \<Rightarrow> ledger_row list res" where
  "insert_entry P r rows = (if row_admissible P r \<and> table_accepts rows r then Inr (rows @ [r])
     else Inl (DatabaseError ''agent_run_ledger_entries''))"

section \<open>The ledger\<close>

record pg_ledger =
  pl_rows :: "ledger_row list"
  pl_trusted :: "string list"

text \<open>\<open>fault\<close> is the error the connection raises, if any.\<close>

definition pg_entries :: "'k ledger_api \<Rightarrow> exn option \<Rightarrow> pg_ledger \<Rightarrow> ledger_entry list res" where
  "pg_entries P fault d = (case fault of Some x \<Rightarrow> Inl x
     | None \<Rightarrow> rmap (\<lambda>r. entry_from_database P (pg_read P (lr_json r))) (sort_key lr_sequence (pl_rows d)))"

definition pg_append :: "'k ledger_api \<Rightarrow> exn option \<Rightarrow> governance_event \<Rightarrow> 'k \<Rightarrow> pg_ledger \<Rightarrow> pg_ledger \<times> ledger_entry res" where
  "pg_append P fault event signer d = (case pg_entries P fault d of
     Inl x \<Rightarrow> (d, Inl x)
   | Inr entries \<Rightarrow> (let verification = verify_agent_run_ledger (pg_crypto P) entries None in
       if \<not> lv_valid verification
       then (d, Inl (ValueError (''cannot append to an invalid agent-run ledger: '' @ joined ''; '' (lv_errors verification))))
       else case next_link entries of (sequence, previous) \<Rightarrow>
         (case rbind (build_signed_ledger_entry (pg_crypto P) event sequence previous signer) (\<lambda>e.
                 rbind (ledger_entry_json P e) (\<lambda>s.
                 rbind (insert_entry P (row_of e) (pl_rows d)) (\<lambda>rows. Inr (rows, e)))) of
            Inl x \<Rightarrow> (d, Inl x) | Inr (rows, e) \<Rightarrow> (d\<lparr>pl_rows := rows\<rparr>, Inr e))))"

fun database_error :: "exn \<Rightarrow> bool" where
  "database_error (OSError m) = True"
| "database_error (ConnectionError m) = True"
| "database_error (DatabaseError m) = True"
| "database_error _ = False"

fun is_value_error :: "exn \<Rightarrow> bool" where
  "is_value_error (ValueError m) = True"
| "is_value_error _ = False"

definition pg_resolve :: "'k ledger_api \<Rightarrow> exn option \<Rightarrow> pg_ledger \<Rightarrow> string \<Rightarrow> string \<Rightarrow> datetime \<Rightarrow> approval_observation res" where
  "pg_resolve P fault d approval_id proposal_id evaluated_at = (case pg_entries P fault d of
     Inl x \<Rightarrow> if database_error x then Inr (observation LedgerUnavailable approval_id evaluated_at None None None)
       else if is_value_error x then Inr (observation LedgerInvalid approval_id evaluated_at None None None)
       else Inl x
   | Inr entries \<Rightarrow> resolve_agent_approval (pg_crypto P) entries approval_id proposal_id evaluated_at (pl_trusted d))"

definition pg_is_ready :: "exn option \<Rightarrow> bool res" where
  "pg_is_ready fault = (case fault of None \<Rightarrow> Inr True | Some x \<Rightarrow> if database_error x then Inr False else Inl x)"

section \<open>What a row is\<close>

lemma to_utc_Inr: "to_utc t f = Inr u \<longleftrightarrow> dt_off t \<noteq> None \<and> u = utc (dt_us t)"
  by (auto simp: to_utc_def)

lemma to_utc_utc [simp]: "to_utc (utc us) f = Inr (utc us)"
  by (simp add: to_utc_def)

lemma validate_grant_idem:
  assumes "validate_grant A g = Inr g'"
  shows "validate_grant A g' = Inr g'"
proof -
  let ?h = "g\<lparr>gr_issued_at := utc (dt_us (gr_issued_at g)), gr_expires_at := utc (dt_us (gr_expires_at g))\<rparr>"
  have g': "g' = ?h" using assms by (auto simp: validate_grant_def guard_simps Let_def to_utc_Inr)
  have same: "?h\<lparr>gr_issued_at := utc (dt_us (gr_issued_at g)), gr_expires_at := utc (dt_us (gr_expires_at g))\<rparr> = ?h" by simp
  show ?thesis using assms unfolding g' by (auto simp: validate_grant_def guard_simps Let_def to_utc_Inr same)
qed

lemma validate_revocation_idem:
  assumes "validate_revocation A r = Inr r'"
  shows "validate_revocation A r' = Inr r'"
proof -
  let ?h = "r\<lparr>rv_revoked_at := utc (dt_us (rv_revoked_at r))\<rparr>"
  have r': "r' = ?h" using assms by (auto simp: validate_revocation_def guard_simps Let_def to_utc_Inr)
  have same: "?h\<lparr>rv_revoked_at := utc (dt_us (rv_revoked_at r))\<rparr> = ?h" by simp
  show ?thesis using assms unfolding r' by (auto simp: validate_revocation_def guard_simps Let_def to_utc_Inr same)
qed

lemma validate_preflight_idem:
  assumes "validate_preflight A p = Inr p'"
  shows "validate_preflight A p' = Inr p'"
proof -
  let ?h = "p\<lparr>pf_recorded_at := utc (dt_us (pf_recorded_at p))\<rparr>"
  have p': "p' = ?h" using assms by (auto simp: validate_preflight_def guard_simps Let_def to_utc_Inr)
  have same: "?h\<lparr>pf_recorded_at := utc (dt_us (pf_recorded_at p))\<rparr> = ?h" by simp
  show ?thesis using assms unfolding p' by (auto simp: validate_preflight_def guard_simps Let_def to_utc_Inr same)
qed

lemma validate_event_idem: "validate_event A e = Inr e' \<Longrightarrow> validate_event A e' = Inr e'"
  by (cases e) (auto dest: validate_grant_idem validate_revocation_idem validate_preflight_idem)

lemma validate_entry_idem:
  assumes "validate_entry K e = Inr e'"
  shows "validate_entry K e' = Inr e'"
proof -
  note v = validate_entry_Inr [OF assms]
  have meta: "le_metadata e' = (le_metadata e)\<lparr>em_occurred_at := utc (dt_us (em_occurred_at (le_metadata e)))\<rparr>"
    using assms by (auto simp: validate_entry_def Let_def to_utc_Inr)
  have occ: "to_utc (em_occurred_at (le_metadata e')) f = Inr (em_occurred_at (le_metadata e'))" for f
    by (simp add: meta)
  have guards: "is_hash_id ''ledger-'' (le_entry_id e')" "\<not> le_sequence e' < 1"
    "\<not> (case le_previous e' of None \<Rightarrow> False | Some p \<Rightarrow> \<not> is_hash_id ''ledger-'' p)"
    "is_hash_id ''manifest-'' (em_manifest_id (le_metadata e'))" "is_hash_id ''proposal-'' (em_proposal_id (le_metadata e'))"
    "is_hash_id ''ed25519-'' (ls_key_id (le_signature e'))"
    using assms unfolding v(2-5) meta by (auto simp: validate_entry_def Let_def guard_simps)
  have same: "e'\<lparr>le_metadata := (le_metadata e')\<lparr>em_occurred_at := em_occurred_at (le_metadata e')\<rparr>, le_event := le_event e'\<rparr> = e'"
    by simp
  show ?thesis
    unfolding validate_entry_def Let_def occ rbind_simps validate_event_idem [OF v(6)] same v(1)
    using guards by (simp add: guard_simps)
qed

lemma built_entry:
  assumes "build_signed_ledger_entry K event n prev k = Inr e"
  shows "validate_entry K e = Inr e" "is_hash_id ''ledger-'' (le_entry_id e)" "1 \<le> le_sequence e"
    "case le_previous e of None \<Rightarrow> True | Some p \<Rightarrow> is_hash_id ''ledger-'' p"
    "is_hash_id ''manifest-'' (em_manifest_id (le_metadata e))" "is_hash_id ''proposal-'' (em_proposal_id (le_metadata e))"
    "is_hash_id ''ed25519-'' (ls_key_id (le_signature e))"
proof -
  obtain x where "validate_entry K x = Inr e" using assms by (auto simp: build_signed_ledger_entry_def Let_def)
  then show idem: "validate_entry K e = Inr e" by (rule validate_entry_idem)
  then show "is_hash_id ''ledger-'' (le_entry_id e)" "1 \<le> le_sequence e"
    "case le_previous e of None \<Rightarrow> True | Some p \<Rightarrow> is_hash_id ''ledger-'' p"
    "is_hash_id ''manifest-'' (em_manifest_id (le_metadata e))" "is_hash_id ''proposal-'' (em_proposal_id (le_metadata e))"
    "is_hash_id ''ed25519-'' (ls_key_id (le_signature e))"
    by (auto simp: validate_entry_def Let_def guard_simps split: option.splits)
qed

lemma artifact_length:
  assumes "validate_event A e = Inr e'"
  shows "length (em_artifact_id (event_metadata_of e')) \<le> 75"
  using assms
  by (cases e) (auto simp: validate_grant_def validate_revocation_def validate_preflight_def guard_simps Let_def
      is_hash_id_def matches_hex_def)

text \<open>The documented behaviour of the driver, the parser and PostgreSQL on the dump of one entry: the
stored document is read back as the entry, and its timestamp is cast to the instant it denotes.\<close>

definition reads_back :: "'k ledger_api \<Rightarrow> ledger_entry \<Rightarrow> bool" where
  "reads_back P e \<longleftrightarrow> (case pg_read P (entry_dump e) of
       StoredText s \<Rightarrow> pg_parse P s = Inr e
     | StoredObject kvs \<Rightarrow> pg_parse P (dumps True (ad_float (cr_address (pg_crypto P))) (JObj kvs)) = Inr e
     | StoredOther \<Rightarrow> False)
   \<and> pg_timestamptz P (encode_extra (em_occurred_at (le_metadata e))) = Some (dt_us (em_occurred_at (le_metadata e)))"

lemma read_entry:
  "reads_back P e \<Longrightarrow> validate_entry (pg_crypto P) e = Inr e \<Longrightarrow> entry_from_database P (pg_read P (entry_dump e)) = Inr e"
  by (auto simp: reads_back_def ledger_entry_from_json_def ledger_entry_from_mapping_def split: stored_json.splits)

lemma columns_of_entry: "reads_back P e \<Longrightarrow> columns_match P (row_of e)"
  by (cases "le_previous e") (simp_all add: columns_match_def text_at_def row_of_def entry_dump_def Let_def signature_json_def reads_back_def)

lemma built_row_admissible:
  assumes e: "build_signed_ledger_entry (pg_crypto P) event n prev k = Inr e" and r: "reads_back P e" and n: "n < 2 ^ 63"
  shows "row_admissible P (row_of e)"
proof -
  note b = built_entry [OF e] and i = build_entry_Inr [OF e]
  have prev: "(le_sequence e = 1) = (le_previous e = None)"
    using verify_entry_Inr(2) [OF i(1)] by (auto simp: check_previous_def split: if_splits)
  have meta: "le_metadata e = event_metadata_of (le_event e)" by (rule verify_entry_Inr(3) [OF i(1)])
  have art: "length (em_artifact_id (le_metadata e)) \<le> 80"
    using artifact_length [OF i(4)] meta by simp
  have type: "event_type_text (em_type (le_metadata e)) \<in> {''approval_granted'', ''approval_revoked'', ''preflight_recorded''}"
    "length (event_type_text (em_type (le_metadata e))) \<le> 32"
    by (cases "em_type (le_metadata e)"; simp)+
  have len: "length v = length p + 64" if "is_hash_id p v" for p v
    using that by (simp add: is_hash_id_def matches_hex_def)
  have prevlen: "case le_previous e of None \<Rightarrow> True | Some p \<Rightarrow> length p \<le> 71"
    using b(4) len by (auto split: option.splits)
  show ?thesis
    using b prev art type prevlen columns_of_entry [OF r] i(2) n len [OF b(2)] len [OF b(5)] len [OF b(6)] len [OF b(7)]
    by (simp add: row_admissible_def row_of_def)
qed

section \<open>The interface of a ledger\<close>

text \<open>The states reached by appends, accepted (and readable) or refused.\<close>

inductive extends :: "(governance_event \<Rightarrow> 'k \<Rightarrow> 's \<Rightarrow> 's \<times> ledger_entry res) \<Rightarrow> (ledger_entry \<Rightarrow> bool) \<Rightarrow> 's \<Rightarrow> 's \<Rightarrow> bool"
  for add :: "governance_event \<Rightarrow> 'k \<Rightarrow> 's \<Rightarrow> 's \<times> ledger_entry res" and readable :: "ledger_entry \<Rightarrow> bool" where
  refl: "extends add readable s s"
| entry: "extends add readable s s' \<Longrightarrow> add ev k s' = (s'', Inr e) \<Longrightarrow> readable e \<Longrightarrow> extends add readable s s''"
| refused: "extends add readable s s' \<Longrightarrow> add ev k s' = (s'', Inl x) \<Longrightarrow> extends add readable s s''"

text \<open>What the preflight relies on: an append adds the returned entry at the end of the history or leaves
the ledger as it was, and an approval is resolved over the history. \<open>readable\<close> is what the store asks of
an entry to read it back.\<close>

locale approval_ledger =
  fixes K :: "'k crypto_api"
    and history :: "'s \<Rightarrow> ledger_entry list"
    and add :: "governance_event \<Rightarrow> 'k \<Rightarrow> 's \<Rightarrow> 's \<times> ledger_entry res"
    and look :: "'s \<Rightarrow> string \<Rightarrow> string \<Rightarrow> datetime \<Rightarrow> approval_observation res"
    and trusted :: "'s \<Rightarrow> string list"
    and readable :: "ledger_entry \<Rightarrow> bool"
    and sound :: "'s \<Rightarrow> bool"
  assumes add_entry: "\<lbrakk>sound s; add ev k s = (s', Inr e); readable e\<rbrakk> \<Longrightarrow>
      sound s' \<and> history s' = history s @ [e] \<and> trusted s' = trusted s"
    and add_refused: "\<lbrakk>sound s; add ev k s = (s', Inl x)\<rbrakk> \<Longrightarrow> s' = s"
    and add_verified: "\<lbrakk>sound s; add ev k s = (s', Inr e)\<rbrakk> \<Longrightarrow> verify_entry K e = Inr ()"
    and look_history: "sound s \<Longrightarrow> look s i p t = resolve_agent_approval K (history s) i p t (trusted s)"
begin

lemma extends_history:
  assumes "extends add readable s s'" "sound s"
  shows "sound s' \<and> (\<exists>later. history s' = history s @ later) \<and> trusted s' = trusted s"
  using assms
proof induction
  case (entry s s' ev k s'' e)
  then obtain later where "sound s'" "history s' = history s @ later" "trusted s' = trusted s" by blast
  moreover from this have "sound s'' \<and> history s'' = history s' @ [e] \<and> trusted s'' = trusted s'"
    using add_entry entry.hyps by blast
  ultimately show ?case by simp
next
  case (refused s s' ev k s'' x)
  then show ?case using add_refused [of s' ev k s'' x] by auto
qed auto

lemma active_iff:
  assumes "sound s" "look s i p t = Inr a"
  shows "ao_status a = Active \<longleftrightarrow> approval_live K (history s) i p (dt_us t) (trusted s)"
  using resolve_active assms(2) unfolding look_history [OF assms(1)] by blast

lemma revoked_forever:
  assumes "sound s" "r \<in> set (revocations_of i (history s))" "extends add readable s s'"
    and "look s' i p t = Inr a" "dt_us (rv_revoked_at r) \<le> dt_us t"
  shows "ao_status a \<noteq> Active"
proof
  assume act: "ao_status a = Active"
  obtain later where s': "sound s'" "history s' = history s @ later" using extends_history [OF assms(3,1)] by blast
  have live: "approval_live K (history s @ later) i p (dt_us t) (trusted s')"
    using active_iff [OF s'(1) assms(4)] act unfolding s'(2) by blast
  have "revocations_of i (history s @ later) = [] \<or>
      (\<exists>r. revocations_of i (history s @ later) = [r] \<and> dt_us t < dt_us (rv_revoked_at r))"
    using live unfolding approval_live_def by blast
  then show False using assms(2,5) by (auto simp: revocations_of_append Cons_eq_append_conv append_eq_Cons_conv)
qed

end

interpretation mem: approval_ledger K ml_entries "mem_append K" "mem_resolve K" ml_trusted "\<lambda>e. True" "\<lambda>l. True" for K
proof (unfold_locales, goal_cases)
  case (1 s ev k s' e)
  then show ?case by (simp add: mem_append_grows)
next
  case (2 s ev k s' x)
  then show ?case by (blast dest: mem_append_Inl)
next
  case (3 s ev k s' e)
  then show ?case by (auto simp: mem_append_def dest: build_entry_Inr(1) split: prod.splits sum.splits if_splits)
qed (simp add: mem_resolve_def)

section \<open>The PostgreSQL ledger implements the interface\<close>

definition pg_history :: "'k ledger_api \<Rightarrow> pg_ledger \<Rightarrow> ledger_entry list" where
  "pg_history P d = (case pg_entries P None d of Inl x \<Rightarrow> [] | Inr es \<Rightarrow> es)"

definition pg_ok :: "'k ledger_api \<Rightarrow> pg_ledger \<Rightarrow> bool" where
  "pg_ok P d \<longleftrightarrow> (\<exists>es. pl_rows d = map row_of es \<and> map le_sequence es = map int [1..<Suc (length es)]
     \<and> list_all (\<lambda>e. entry_from_database P (pg_read P (entry_dump e)) = Inr e) es)"

lemma row_of_simps [simp]: "lr_sequence (row_of e) = le_sequence e" "lr_json (row_of e) = entry_dump e"
  "lr_entry_id (row_of e) = le_entry_id e" "lr_previous (row_of e) = le_previous e"
  "lr_artifact_id (row_of e) = em_artifact_id (le_metadata e)"
  by (simp_all add: row_of_def)

lemma pg_okI:
  assumes "pl_rows d = map row_of es" "map le_sequence es = map int [1..<Suc (length es)]"
    and "list_all (\<lambda>e. entry_from_database P (pg_read P (entry_dump e)) = Inr e) es"
  shows "pg_ok P d" "pg_entries P None d = Inr es" "pg_history P d = es"
proof -
  show ok: "pg_ok P d" using assms by (auto simp: pg_ok_def)
  have "map lr_sequence (map row_of es) = map le_sequence es" by (induction es) simp_all
  then have "sorted (map lr_sequence (map row_of es))" unfolding assms(2) by (simp add: sorted_map del: upt_Suc)
  then have "sort_key lr_sequence (pl_rows d) = map row_of es" unfolding assms(1) by (rule sort_key_id_if_sorted)
  moreover have "rmap (\<lambda>r. entry_from_database P (pg_read P (lr_json r))) (map row_of es) = Inr es"
    using assms(3) by (induction es) simp_all
  ultimately show "pg_entries P None d = Inr es" "pg_history P d = es" by (simp_all add: pg_history_def pg_entries_def)
qed

lemma pg_ok_entries:
  assumes "pg_ok P d"
  shows "pg_entries P None d = Inr (pg_history P d)" "pl_rows d = map row_of (pg_history P d)"
    and "map le_sequence (pg_history P d) = map int [1..<Suc (length (pg_history P d))]"
    and "list_all (\<lambda>e. entry_from_database P (pg_read P (entry_dump e)) = Inr e) (pg_history P d)"
proof -
  obtain es where es: "pl_rows d = map row_of es" "map le_sequence es = map int [1..<Suc (length es)]"
    "list_all (\<lambda>e. entry_from_database P (pg_read P (entry_dump e)) = Inr e) es"
    using assms by (auto simp: pg_ok_def)
  show "pg_entries P None d = Inr (pg_history P d)" "pl_rows d = map row_of (pg_history P d)"
    "map le_sequence (pg_history P d) = map int [1..<Suc (length (pg_history P d))]"
    "list_all (\<lambda>e. entry_from_database P (pg_read P (entry_dump e)) = Inr e) (pg_history P d)"
    using pg_okI [OF es] es by simp_all
qed

lemma pg_append_Inr:
  assumes "pg_ok P d" "pg_append P None ev k d = (d', Inr e)"
  shows "valid_ledger (pg_crypto P) (pg_history P d)"
    and "build_signed_ledger_entry (pg_crypto P) ev (fst (next_link (pg_history P d))) (snd (next_link (pg_history P d))) k = Inr e"
    and "pl_rows d' = pl_rows d @ [row_of e]" "pl_trusted d' = pl_trusted d"
  using assms(2) unfolding pg_append_def pg_ok_entries(1) [OF assms(1)]
  by (auto simp: Let_def insert_entry_def valid_ledger_def split: if_splits prod.splits sum.splits)

lemma pg_append_Inl: "pg_append P fault ev k d = (d', Inl x) \<Longrightarrow> d' = d"
  by (auto simp: pg_append_def Let_def split: sum.splits prod.splits if_splits)

lemma pg_append_keeps:
  assumes "pg_ok P d" "pg_append P None ev k d = (d', Inr e)" "reads_back P e"
  shows "pg_ok P d' \<and> pg_history P d' = pg_history P d @ [e] \<and> pl_trusted d' = pl_trusted d"
proof -
  note app = pg_append_Inr [OF assms(1,2)] and es = pg_ok_entries [OF assms(1)]
  have "le_sequence e = int (length (pg_history P d)) + 1"
    using build_entry_Inr(2) [OF app(2)] by (simp add: next_link_def)
  then have seq: "map le_sequence (pg_history P d @ [e]) = map int [1..<Suc (length (pg_history P d @ [e]))]"
    using es(3) by simp
  have "entry_from_database P (pg_read P (entry_dump e)) = Inr e"
    by (rule read_entry [OF assms(3) built_entry(1) [OF app(2)]])
  then have "pg_ok P d'" "pg_history P d' = pg_history P d @ [e]"
    using pg_okI [of d' "pg_history P d @ [e]" P] app(3) es(2,4) seq by simp_all
  then show ?thesis using app(4) by simp
qed

interpretation pg: approval_ledger "pg_crypto P" "pg_history P" "pg_append P None" "pg_resolve P None" pl_trusted
    "reads_back P" "pg_ok P" for P
proof (unfold_locales, goal_cases)
  case (1 d ev k d' e)
  then show ?case by (rule pg_append_keeps)
next
  case (2 d ev k d' x)
  then show ?case by (blast dest: pg_append_Inl)
next
  case (3 d ev k d' e)
  then show ?case by (blast dest: pg_append_Inr(2) build_entry_Inr(1))
next
  case (4 d i p t)
  then show ?case by (simp add: pg_resolve_def pg_ok_entries(1))
qed

section \<open>The two ledgers agree\<close>

lemma accepted_row:
  assumes "valid_ledger K es" "(le_sequence e, le_previous e) = next_link es"
    and "le_entry_id e \<notin> set (map le_entry_id es)"
  shows "table_accepts (map row_of es) (row_of e)
    \<longleftrightarrow> em_artifact_id (le_metadata e) \<notin> set (map (\<lambda>e. em_artifact_id (le_metadata e)) es)"
proof -
  have seqs: "map le_sequence es = map int [1..<Suc (length es)]" by (rule valid_sequences [OF assms(1)])
  then have "set (map le_sequence es) = int ` {1..length es}" by (simp add: atLeastLessThanSuc_atLeastAtMost del: upt_Suc)
  then have fresh: "le_sequence e \<notin> le_sequence ` set es" using assms(2) by (auto simp: next_link_def)
  have links: "le_previous f \<noteq> le_previous e" if f: "f \<in> set es" for f
  proof -
    obtain xs ys where es: "es = xs @ f # ys" using f by (meson split_list)
    have "valid_ledger K (xs @ [f])" using valid_ledger_prefix [of K "xs @ [f]" ys] assms(1) es by simp
    then have prev: "le_previous f = snd (next_link xs)" unfolding valid_ledger_snoc by (metis snd_conv)
    have "le_previous e = Some (le_entry_id (last es))" using assms(2) es by (simp add: next_link_def)
    moreover have "le_previous f = Some (le_entry_id (last es)) \<Longrightarrow> False"
    proof -
      assume a: "le_previous f = Some (le_entry_id (last es))"
      then have xs: "xs \<noteq> []" "le_entry_id (last xs) = le_entry_id (last es)" using prev by (auto simp: next_link_def split: if_splits)
      have "butlast es @ [last es] = es" by (rule append_butlast_last_id) (simp add: es)
      then have "le_entry_id (last es) \<notin> set (map le_entry_id (butlast es))"
        using assms(1) valid_ledger_snoc [of K "butlast es" "last es"] by metis
      moreover have "last xs \<in> set (butlast es)" using xs(1) by (cases ys rule: rev_cases) (auto simp: es butlast_append)
      ultimately show False using xs(2) by (metis image_eqI list.set_map)
    qed
    ultimately show ?thesis by metis
  qed
  have head: "case le_previous e of None \<Rightarrow> es = [] | Some p \<Rightarrow> p \<in> set (map le_entry_id es)"
    using assms(2) by (cases "es = []") (auto simp: next_link_def)
  have linkset: "le_previous e \<notin> le_previous ` set es" using links by force
  have cols: "map lr_sequence (map row_of es) = map le_sequence es" "map lr_entry_id (map row_of es) = map le_entry_id es"
    "map lr_previous (map row_of es) = map le_previous es"
    "map lr_artifact_id (map row_of es) = map (\<lambda>e. em_artifact_id (le_metadata e)) es"
    by simp_all
  show ?thesis
    unfolding table_accepts_def cols row_of_simps
    using fresh linkset head assms(3) by (cases "le_previous e") (auto simp: list_all_iff)
qed

definition ledgers_match :: "'k ledger_api \<Rightarrow> pg_ledger \<Rightarrow> mem_ledger \<Rightarrow> bool" where
  "ledgers_match P d l \<longleftrightarrow> pg_ok P d \<and> pg_history P d = ml_entries l \<and> pl_trusted d = ml_trusted l
     \<and> valid_ledger (pg_crypto P) (ml_entries l)"

text \<open>C14. The PostgreSQL ledger refines the in-memory one. From matching ledgers, one append of the same
event with the same key has the same outcome in both: refused by both, leaving both as they were, or
accepted by both with the same entry, after which the ledgers match again. The one exception is an entry
whose id already occurs in the chain, a SHA-256 collision, which the table refuses.\<close>

theorem postgres_ledger_refines_memory:
  assumes "ledgers_match P d l" "length (ml_entries l) + 1 < 2 ^ 63"
    and "\<And>l' e. mem_append (pg_crypto P) event k l = (l', Inr e) \<Longrightarrow> reads_back P e"
  shows "case mem_append (pg_crypto P) event k l of
      (l', Inl x) \<Rightarrow> l' = l \<and> fst (pg_append P None event k d) = d \<and> \<not> is_ok (snd (pg_append P None event k d))
    | (l', Inr e) \<Rightarrow> le_entry_id e \<in> set (map le_entry_id (ml_entries l))
        \<or> (\<exists>d'. pg_append P None event k d = (d', Inr e) \<and> ledgers_match P d' l')"
proof -
  let ?K = "pg_crypto P" and ?es = "ml_entries l"
  have m: "pg_ok P d" "pg_history P d = ?es" "valid_ledger ?K ?es" "pl_trusted d = ml_trusted l"
    using assms(1) by (auto simp: ledgers_match_def)
  have read: "pg_entries P None d = Inr ?es" "pl_rows d = map row_of ?es" using pg_ok_entries [OF m(1)] m(2) by simp_all
  obtain n prev where link: "next_link ?es = (n, prev)" by (cases "next_link ?es")
  have run: "pg_append P None event k d =
      (case rbind (build_signed_ledger_entry ?K event n prev k) (\<lambda>e.
          rbind (ledger_entry_json P e) (\<lambda>s. rbind (insert_entry P (row_of e) (pl_rows d)) (\<lambda>rows. Inr (rows, e)))) of
        Inl x \<Rightarrow> (d, Inl x) | Inr (rows, e) \<Rightarrow> (d\<lparr>pl_rows := rows\<rparr>, Inr e))"
    using m(3) by (simp add: pg_append_def read link valid_ledger_def)
  show ?thesis
  proof (cases "build_signed_ledger_entry ?K event n prev k")
    case (Inl x)
    then show ?thesis by (simp add: mem_append_def link run)
  next
    case (Inr e)
    note built = build_entry_Inr [OF Inr]
    let ?dup = "em_artifact_id (le_metadata e) \<in> set (map (\<lambda>e. em_artifact_id (le_metadata e)) ?es)"
    have chain: "(le_sequence e, le_previous e) = next_link ?es" using built(2,3) link by simp
    have json: "is_ok (ledger_entry_json P e)"
      by (simp add: ledger_entry_json_def address_bytes_def canonical_json_bytes_def is_ok_iff entry_dump_def Let_def signature_json_def)
    show ?thesis
    proof (cases "le_entry_id e \<in> set (map le_entry_id ?es)")
      case True
      then have "lr_entry_id (row_of e) \<in> set (map lr_entry_id (pl_rows d))" by (simp add: read(2) image_image)
      then have "insert_entry P (row_of e) (pl_rows d) = Inl (DatabaseError ''agent_run_ledger_entries'')"
        by (simp add: insert_entry_def table_accepts_def)
      then show ?thesis using True Inr json by (auto simp: mem_append_def link list_ex_iff image_iff run is_ok_iff)
    next
      case fresh: False
      note acc = accepted_row [OF m(3) chain fresh]
      show ?thesis
      proof (cases ?dup)
        case True
        then have "mem_append ?K event k l = (l, Inl (ValueError ''ledger artifact identity already exists''))"
          by (auto simp: mem_append_def link Inr list_ex_iff)
        moreover have "insert_entry P (row_of e) (pl_rows d) = Inl (DatabaseError ''agent_run_ledger_entries'')"
          using True acc by (simp add: insert_entry_def read(2))
        ultimately show ?thesis using json by (auto simp: run Inr is_ok_iff)
      next
        case False
        then have mem: "mem_append ?K event k l = (l\<lparr>ml_entries := ?es @ [e]\<rparr>, Inr e)"
          by (auto simp: mem_append_def link Inr list_ex_iff image_iff)
        have rb: "reads_back P e" by (rule assms(3) [OF mem])
        have "n = int (length ?es) + 1" using link by (simp add: next_link_def)
        then have "n < 2 ^ 63" using assms(2) by (simp flip: of_nat_less_iff)
        then have "row_admissible P (row_of e)" by (rule built_row_admissible [OF Inr rb])
        then have "insert_entry P (row_of e) (pl_rows d) = Inr (pl_rows d @ [row_of e])"
          using False acc by (simp add: insert_entry_def read(2))
        then have pg: "pg_append P None event k d = (d\<lparr>pl_rows := pl_rows d @ [row_of e]\<rparr>, Inr e)"
          using json by (auto simp: run Inr is_ok_iff)
        from pg_append_keeps [OF m(1) pg rb] have "ledgers_match P (d\<lparr>pl_rows := pl_rows d @ [row_of e]\<rparr>) (l\<lparr>ml_entries := ?es @ [e]\<rparr>)"
          using m False fresh chain built(1) by (simp add: ledgers_match_def valid_ledger_snoc)
        then show ?thesis using mem pg by simp
      qed
    qed
  qed
qed

text \<open>Resolution from PostgreSQL fails closed. If an approval is reported active, the database was
read without error, every stored entry parsed and passed its checks, and the approval is live over the
entries read, signed by the trusted keys only. A database error yields ledger_unavailable and an
unreadable entry ledger_invalid, never an exception.\<close>

theorem postgres_resolution_fails_closed:
  assumes "pg_resolve P fault d approval_id proposal_id t = Inr a"
  shows "(ao_status a = Active \<longrightarrow> (\<exists>es. pg_entries P fault d = Inr es \<and> fault = None
        \<and> approval_live (pg_crypto P) es approval_id proposal_id (dt_us t) (pl_trusted d)))
    \<and> (\<forall>x. pg_entries P fault d = Inl x \<longrightarrow> ao_status a = (if database_error x then LedgerUnavailable else LedgerInvalid))"
proof (cases "pg_entries P fault d")
  case (Inl x)
  then show ?thesis using assms by (auto simp: pg_resolve_def split: if_splits)
next
  case (Inr es)
  then have "fault = None" by (auto simp: pg_entries_def split: option.splits)
  moreover have "ao_status a = Active \<longleftrightarrow> approval_live (pg_crypto P) es approval_id proposal_id (dt_us t) (pl_trusted d)"
    by (rule resolve_active) (use assms Inr in \<open>simp add: pg_resolve_def\<close>)
  ultimately show ?thesis using Inr by simp
qed

text \<open>Revocation is final in PostgreSQL too: once a readable ledger holds a revocation of an approval,
no state it reaches by further appends, accepted or refused, reports the approval active at any time
from the revocation on.\<close>

theorem postgres_revocation_is_final:
  assumes "pg_ok P d" "r \<in> set (revocations_of approval_id (pg_history P d))" "extends (pg_append P None) (reads_back P) d d'"
    and "pg_resolve P None d' approval_id proposal_id t = Inr a" "dt_us (rv_revoked_at r) \<le> dt_us t"
  shows "ao_status a \<noteq> Active"
  using assms by (rule pg.revoked_forever)

section \<open>A sample database\<close>

definition grant_entry :: ledger_entry where
  "grant_entry = projr (snd (mem_append sample_crypto (Grant sample_grant) () empty_ledger))"

definition revocation_entry :: ledger_entry where
  "revocation_entry = projr (snd (mem_append sample_crypto (Revocation sample_revocation) ()
     (fst (mem_append sample_crypto (Grant sample_grant) () empty_ledger))))"

definition sample_pg :: "unit ledger_api" where
  "sample_pg = \<lparr>pg_crypto = sample_crypto,
     pg_parse = (\<lambda>s. if s = dumps False sample_float_text (entry_dump grant_entry) then Inr grant_entry
       else Inr revocation_entry),
     pg_read = (\<lambda>v. StoredText (dumps False sample_float_text v)),
     pg_timestamptz = (\<lambda>s. if s = encode_extra (utc 0) then Some 0 else Some 7)\<rparr>"

definition empty_pg :: pg_ledger where
  "empty_pg = \<lparr>pl_rows = [], pl_trusted = ml_trusted empty_ledger\<rparr>"

lemma sample_pg_simps [simp]: "pg_crypto sample_pg = sample_crypto"
  "pg_parse sample_pg s = (if s = dumps False sample_float_text (entry_dump grant_entry) then Inr grant_entry else Inr revocation_entry)"
  "pg_read sample_pg v = StoredText (dumps False sample_float_text v)"
  "pg_timestamptz sample_pg s = (if s = encode_extra (utc 0) then Some 0 else Some 7)"
  by (simp_all add: sample_pg_def)

lemma sample_entries:
  obtains l1 l2 where "mem_append sample_crypto (Grant sample_grant) () empty_ledger = (l1, Inr grant_entry)"
    "mem_append sample_crypto (Revocation sample_revocation) () l1 = (l2, Inr revocation_entry)"
    "ml_entries l1 = [grant_entry]" "ml_trusted l1 = ml_trusted empty_ledger" "le_event grant_entry = Grant sample_grant"
    "le_event revocation_entry = Revocation sample_revocation" "valid_ledger sample_crypto [grant_entry]"
    "ls_key_id (le_signature grant_entry) \<in> set (ml_trusted empty_ledger)"
proof -
  obtain l1 l2 e1 e2 where r: "mem_append sample_crypto (Grant sample_grant) () empty_ledger = (l1, Inr e1)"
    "mem_append sample_crypto (Revocation sample_revocation) () l1 = (l2, Inr e2)"
    "ml_entries l1 = [e1]" "ml_entries l2 = [e1, e2]" "ml_trusted l1 = ml_trusted empty_ledger" "le_event e1 = Grant sample_grant"
    "le_event e2 = Revocation sample_revocation" "valid_ledger sample_crypto [e1]"
    "ls_key_id (le_signature e1) \<in> set (ml_trusted empty_ledger)"
    by (rule sample_ledger)
  have e: "e1 = grant_entry" "e2 = revocation_entry" by (simp_all add: grant_entry_def revocation_entry_def r(1,2))
  show ?thesis by (rule that [OF r(1-3,5-9) [unfolded e]])
qed

lemma sample_entry_events:
  "le_event grant_entry = Grant sample_grant" "le_event revocation_entry = Revocation sample_revocation"
  by (rule sample_entries, assumption) (rule sample_entries, assumption)

lemma sample_built:
  "build_signed_ledger_entry sample_crypto (Grant sample_grant) 1 None () = Inr grant_entry"
  "build_signed_ledger_entry sample_crypto (Revocation sample_revocation) 2 (Some (le_entry_id grant_entry)) () = Inr revocation_entry"
proof -
  obtain l1 l2 where e: "mem_append sample_crypto (Grant sample_grant) () empty_ledger = (l1, Inr grant_entry)"
    "mem_append sample_crypto (Revocation sample_revocation) () l1 = (l2, Inr revocation_entry)" "ml_entries l1 = [grant_entry]"
    by (rule sample_entries)
  show "build_signed_ledger_entry sample_crypto (Grant sample_grant) 1 None () = Inr grant_entry"
    using e(1) by (auto simp: mem_append_def empty_ledger_def next_link_def split: sum.splits if_splits)
  show "build_signed_ledger_entry sample_crypto (Revocation sample_revocation) 2 (Some (le_entry_id grant_entry)) () = Inr revocation_entry"
    using e(2,3) by (auto simp: mem_append_def next_link_def split: sum.splits if_splits)
qed

lemma sample_reads_back: "reads_back sample_pg grant_entry"
proof -
  have "em_occurred_at (le_metadata grant_entry) = utc 0"
    using verify_entry_Inr(3) [OF build_entry_Inr(1) [OF sample_built(1)]] by (simp add: sample_entry_events sample_grant_fields)
  then show ?thesis by (simp add: reads_back_def)
qed

theorem postgres_ledger_refines_memory_witness:
  "\<exists>d l. pg_append sample_pg None (Grant sample_grant) () empty_pg = (d, Inr grant_entry) \<and> ledgers_match sample_pg d l"
proof -
  obtain l1 l2 where run: "mem_append sample_crypto (Grant sample_grant) () empty_ledger = (l1, Inr grant_entry)"
    "mem_append sample_crypto (Revocation sample_revocation) () l1 = (l2, Inr revocation_entry)"
    by (rule sample_entries)
  have "ledgers_match sample_pg empty_pg empty_ledger"
    using pg_okI [of empty_pg "[]" sample_pg] by (simp add: ledgers_match_def empty_pg_def empty_ledger_def)
  moreover have "length (ml_entries empty_ledger) + 1 < 2 ^ 63" by (simp add: empty_ledger_def)
  moreover have "reads_back sample_pg e" if "mem_append (pg_crypto sample_pg) (Grant sample_grant) () empty_ledger = (l', Inr e)" for l' e
    using that run(1) sample_reads_back by simp
  ultimately have "case mem_append (pg_crypto sample_pg) (Grant sample_grant) () empty_ledger of
      (l', Inl x) \<Rightarrow> l' = empty_ledger \<and> fst (pg_append sample_pg None (Grant sample_grant) () empty_pg) = empty_pg
        \<and> \<not> is_ok (snd (pg_append sample_pg None (Grant sample_grant) () empty_pg))
    | (l', Inr e) \<Rightarrow> le_entry_id e \<in> set (map le_entry_id (ml_entries empty_ledger))
        \<or> (\<exists>d'. pg_append sample_pg None (Grant sample_grant) () empty_pg = (d', Inr e) \<and> ledgers_match sample_pg d' l')"
    by (rule postgres_ledger_refines_memory)
  then show ?thesis using run(1) by (auto simp: empty_ledger_def)
qed

definition grant_pg :: pg_ledger where
  "grant_pg = \<lparr>pl_rows = [row_of grant_entry], pl_trusted = ml_trusted empty_ledger\<rparr>"

lemma grant_pg: "pg_ok sample_pg grant_pg" "pg_entries sample_pg None grant_pg = Inr [grant_entry]" "pg_history sample_pg grant_pg = [grant_entry]"
proof -
  have "entry_from_database sample_pg (pg_read sample_pg (entry_dump grant_entry)) = Inr grant_entry"
    by (rule read_entry [OF sample_reads_back]) (simp add: built_entry(1) [OF sample_built(1)])
  moreover have "le_sequence grant_entry = 1" by (rule build_entry_Inr(2) [OF sample_built(1)])
  ultimately show "pg_ok sample_pg grant_pg" "pg_entries sample_pg None grant_pg = Inr [grant_entry]" "pg_history sample_pg grant_pg = [grant_entry]"
    using pg_okI [of grant_pg "[grant_entry]" sample_pg] by (simp_all add: grant_pg_def)
qed

theorem postgres_resolution_fails_closed_witness:
  "\<exists>a. pg_resolve sample_pg None grant_pg (gr_approval_id sample_grant) sample_proposal_id (utc 5) = Inr a
    \<and> ao_status a = Active \<and> approval_live sample_crypto [grant_entry] (gr_approval_id sample_grant) sample_proposal_id 5 (pl_trusted grant_pg)"
proof -
  obtain l1 l2 where e: "mem_append sample_crypto (Grant sample_grant) () empty_ledger = (l1, Inr grant_entry)"
    "mem_append sample_crypto (Revocation sample_revocation) () l1 = (l2, Inr revocation_entry)"
    "ml_entries l1 = [grant_entry]" "ml_trusted l1 = ml_trusted empty_ledger" "le_event grant_entry = Grant sample_grant"
    "valid_ledger sample_crypto [grant_entry]" "ls_key_id (le_signature grant_entry) \<in> set (ml_trusted empty_ledger)"
    by (rule sample_entries)
  have live: "approval_live sample_crypto [grant_entry] (gr_approval_id sample_grant) sample_proposal_id 5 (pl_trusted grant_pg)"
    using sample_active [OF e(3-7)] e(3,4) by (simp add: grant_pg_def)
  have read: "pg_resolve sample_pg None grant_pg (gr_approval_id sample_grant) sample_proposal_id (utc 5)
      = resolve_agent_approval sample_crypto [grant_entry] (gr_approval_id sample_grant) sample_proposal_id (utc 5) (pl_trusted grant_pg)"
    by (simp add: pg_resolve_def grant_pg(2))
  obtain a where a: "pg_resolve sample_pg None grant_pg (gr_approval_id sample_grant) sample_proposal_id (utc 5) = Inr a"
    unfolding read by (simp add: resolve_agent_approval_def prefixed_hash_def sample_ids)
  have "ao_status a = Active" using resolve_active a live unfolding read by fastforce
  moreover have "approval_live sample_crypto [grant_entry] (gr_approval_id sample_grant) sample_proposal_id 5 (pl_trusted grant_pg)"
    using postgres_resolution_fails_closed [OF a] calculation by (simp add: grant_pg(2))
  ultimately show ?thesis using a by blast
qed

definition revoked_pg :: pg_ledger where
  "revoked_pg = \<lparr>pl_rows = [row_of grant_entry, row_of revocation_entry], pl_trusted = ml_trusted empty_ledger\<rparr>"

lemma revoked_pg: "pg_ok sample_pg revoked_pg" "pg_history sample_pg revoked_pg = [grant_entry, revocation_entry]"
proof -
  have grant: "entry_from_database sample_pg (pg_read sample_pg (entry_dump grant_entry)) = Inr grant_entry"
    by (rule read_entry [OF sample_reads_back]) (simp add: built_entry(1) [OF sample_built(1)])
  have seq: "le_sequence grant_entry = 1" "le_sequence revocation_entry = 2"
    by (rule build_entry_Inr(2) [OF sample_built(1)], rule build_entry_Inr(2) [OF sample_built(2)])
  have "canonical_json_bytes sample_float_text (entry_dump x) = Inr (dumps False sample_float_text (entry_dump x))" for x
    by (simp add: canonical_json_bytes_def entry_dump_def Let_def signature_json_def)
  then have "same_json (entry_dump grant_entry) (entry_dump revocation_entry)"
    if "dumps False sample_float_text (entry_dump grant_entry) = dumps False sample_float_text (entry_dump revocation_entry)"
    using canonical_bytes_inj [OF sample_float_text_ok] that by metis
  then have "dumps False sample_float_text (entry_dump grant_entry) \<noteq> dumps False sample_float_text (entry_dump revocation_entry)"
    using seq by (auto simp: entry_dump_def Let_def)
  then have "entry_from_database sample_pg (pg_read sample_pg (entry_dump revocation_entry)) = Inr revocation_entry"
    using built_entry(1) [OF sample_built(2)] by (simp add: ledger_entry_from_json_def)
  with grant seq show "pg_ok sample_pg revoked_pg" "pg_history sample_pg revoked_pg = [grant_entry, revocation_entry]"
    using pg_okI [of revoked_pg "[grant_entry, revocation_entry]" sample_pg] by (simp_all add: revoked_pg_def upt_rec)
qed

theorem postgres_revocation_is_final_witness:
  "\<exists>a. pg_resolve sample_pg None revoked_pg (gr_approval_id sample_grant) sample_proposal_id (utc 8) = Inr a \<and> ao_status a \<noteq> Active"
proof -
  have r: "sample_revocation \<in> set (revocations_of (gr_approval_id sample_grant) (pg_history sample_pg revoked_pg))"
    by (simp add: revoked_pg revocations_of_def sample_entry_events sample_revocation_fields)
  have read: "pg_resolve sample_pg None revoked_pg (gr_approval_id sample_grant) sample_proposal_id (utc 8)
      = resolve_agent_approval sample_crypto [grant_entry, revocation_entry] (gr_approval_id sample_grant) sample_proposal_id (utc 8) (pl_trusted revoked_pg)"
    using pg_ok_entries(1) [OF revoked_pg(1)] by (simp add: pg_resolve_def revoked_pg(2))
  obtain a where a: "pg_resolve sample_pg None revoked_pg (gr_approval_id sample_grant) sample_proposal_id (utc 8) = Inr a"
    unfolding read by (simp add: resolve_agent_approval_def prefixed_hash_def sample_ids)
  have late: "dt_us (rv_revoked_at sample_revocation) \<le> dt_us (utc 8)" by (simp add: sample_revocation_fields)
  show ?thesis using a postgres_revocation_is_final [OF revoked_pg(1) r extends.refl a late] by blast
qed

end
