(* ===== verification/Correlation.thy ===== *)
theory Correlation
  imports SignalEvent PyText ContentId "HOL-Library.AList"
begin

text \<open>
  Incident candidates (\<open>correlation.py\<close>): evidence edges from the pairs PostGIS measured, a union-find
  over the node ids with path halving, and the components as incidents. The parents are a map, the
  other dictionaries are association lists in insertion order. A run is \<open>None\<close> if it does not return,
  an exception or a value; the halving loop is a \<open>partial_function\<close>, and that it always returns is
  proved. SHA-256, the trigonometric functions and the floating-point \<open>sum\<close> of the standard library
  are arguments.
\<close>

section \<open>Runs\<close>

type_synonym 'a run = "'a res option"

definition run_bind :: "'a run \<Rightarrow> ('a \<Rightarrow> 'b run) \<Rightarrow> 'b run" where
  "run_bind m f = (case m of None \<Rightarrow> None | Some (Inl e) \<Rightarrow> Some (Inl e) | Some (Inr x) \<Rightarrow> f x)"

lemma run_bind_simps [simp]: "run_bind None f = None" "run_bind (Some (Inl e)) f = Some (Inl e)"
  "run_bind (Some (Inr x)) f = f x"
  by (simp_all add: run_bind_def)

fun run_fold :: "('s \<Rightarrow> 'a \<Rightarrow> 's run) \<Rightarrow> 's \<Rightarrow> 'a list \<Rightarrow> 's run" where
  "run_fold f s [] = Some (Inr s)"
| "run_fold f s (x # xs) = run_bind (f s x) (\<lambda>s'. run_fold f s' xs)"

section \<open>Pairs, nodes and edges\<close>

type_synonym message = "signal_event stream_message"

datatype geometry_basis = PointBasis | PolygonBasis

datatype spatial_relation = Intersects | WithinRadius

definition evidence_node_id :: "message \<Rightarrow> string" where
  "evidence_node_id m = se_source (sm_event m) @ '':'' @ se_id (sm_event m)"

record correlation_pair =
  cp_left :: message
  cp_right :: message
  cp_distance_km :: rat
  cp_time_delta_minutes :: rat
  cp_left_basis :: geometry_basis
  cp_right_basis :: geometry_basis

text \<open>Measurements are finite by their type.\<close>

definition validate_pair :: "correlation_pair \<Rightarrow> correlation_pair res" where
  "validate_pair p = raise_first
     [(se_source (sm_event (cp_left p)) = se_source (sm_event (cp_right p)), ''correlation pairs must come from different sources''),
      (cp_distance_km p < 0, ''distance_km must be a finite non-negative number''),
      (cp_time_delta_minutes p < 0, ''time_delta_minutes must be a finite non-negative number'')] p"

record correlation_batch =
  cb_pairs :: "correlation_pair list"
  cb_truncated :: bool

record evidence_node =
  en_node_id :: string
  en_message :: message

record evidence_edge =
  ee_edge_id :: string
  ee_from :: string
  ee_to :: string
  ee_spatial :: spatial_relation
  ee_distance_km :: rat
  ee_time_delta_minutes :: rat
  ee_from_basis :: geometry_basis
  ee_to_basis :: geometry_basis

record incident =
  in_incident_id :: string
  in_title :: string
  in_started_at :: datetime
  in_latest_signal_at :: datetime
  in_center :: "(rat \<times> rat) option"
  in_sources :: "string list"
  in_nodes :: "evidence_node list"
  in_edges :: "evidence_edge list"
  in_max_distance_km :: rat
  in_time_span_minutes :: rat

record correlation_result =
  cr_incidents :: "incident list"
  cr_total_incidents :: nat
  cr_incidents_truncated :: bool
  cr_candidate_edges_truncated :: bool

record math_api =
  mt_sha256 :: "string \<Rightarrow> string"
  mt_sum :: "rat list \<Rightarrow> rat"
  mt_sin :: "rat \<Rightarrow> rat"
  mt_cos :: "rat \<Rightarrow> rat"
  mt_atan2 :: "rat \<Rightarrow> rat \<Rightarrow> rat"
  mt_hypot :: "rat \<Rightarrow> rat \<Rightarrow> rat"
  mt_radians :: "rat \<Rightarrow> rat"
  mt_degrees :: "rat \<Rightarrow> rat"

definition correlation_rule_version :: string where
  "correlation_rule_version = ''spatiotemporal-v1''"

definition newline :: string where
  "newline = [CHR 0x0A]"

definition content_id :: "math_api \<Rightarrow> string \<Rightarrow> string list \<Rightarrow> string" where
  "content_id M prefix parts = prefix @ ''-'' @
     take 20 (mt_sha256 M (correlation_rule_version @ newline @ joined newline parts))"

definition edge_from_pair :: "math_api \<Rightarrow> correlation_pair \<Rightarrow> evidence_edge" where
  "edge_from_pair M p = (case sort_key fst
       [(evidence_node_id (cp_left p), cp_left_basis p), (evidence_node_id (cp_right p), cp_right_basis p)] of
     [(from_id, from_basis), (to_id, to_basis)] \<Rightarrow>
       \<lparr>ee_edge_id = content_id M ''edge'' [from_id, to_id], ee_from = from_id, ee_to = to_id,
        ee_spatial = (if cp_distance_km p \<le> fl (1 / 1000) then Intersects else WithinRadius),
        ee_distance_km = py_round 3 (cp_distance_km p), ee_time_delta_minutes = py_round 3 (cp_time_delta_minutes p),
        ee_from_basis = from_basis, ee_to_basis = to_basis\<rparr>)"

text \<open>Locations are pairs of longitude and latitude.\<close>

definition center :: "math_api \<Rightarrow> evidence_node list \<Rightarrow> (rat \<times> rat) option" where
  "center M nodes = (let locations = List.map_filter (\<lambda>n. se_location (sm_event (en_message n))) nodes in
     if locations = [] then None
     else let
       lat = (\<lambda>l. mt_radians M (snd l)); lon = (\<lambda>l. mt_radians M (fst l)); n = of_nat (length locations);
       x = fl (mt_sum M (map (\<lambda>l. fl (mt_cos M (lat l) * mt_cos M (lon l))) locations) / n);
       y = fl (mt_sum M (map (\<lambda>l. fl (mt_cos M (lat l) * mt_sin M (lon l))) locations) / n);
       z = fl (mt_sum M (map (\<lambda>l. mt_sin M (lat l)) locations) / n);
       horizontal = mt_hypot M x y in
     if horizontal < fl (1 / 10 ^ 12) \<and> \<bar>z\<bar> < fl (1 / 10 ^ 12) then Some (snd (hd locations), fst (hd locations))
     else Some (py_round 6 (mt_degrees M (mt_atan2 M z horizontal)), py_round 6 (mt_degrees M (mt_atan2 M y x))))"

fun first_place :: "evidence_node list \<Rightarrow> string" where
  "first_place [] = ''mapped area''"
| "first_place (n # ns) = (case map_of (se_payload (sm_event (en_message n))) ''place'' of
     Some (JStr place) \<Rightarrow> if py_strip place \<noteq> [] then py_strip place else first_place ns
   | _ \<Rightarrow> first_place ns)"

definition place_for :: "evidence_node list \<Rightarrow> string" where
  "place_for nodes = first_place (sort_key (\<lambda>n. (dt_us (se_occurred (sm_event (en_message n))), en_node_id n)) nodes)"

section \<open>Union-find\<close>

type_synonym parents = "string \<rightharpoonup> string"

text \<open>The loop \<open>while parent != parents[parent]\<close>, from the first parent on.\<close>

partial_function (option) halve :: "parents \<Rightarrow> string \<Rightarrow> (parents \<times> string) run" where
  "halve ps parent = (case ps parent of
     None \<Rightarrow> Some (Inl (KeyError parent))
   | Some q \<Rightarrow> if parent = q then Some (Inr (ps, parent))
       else (case ps q of
         None \<Rightarrow> Some (Inl (KeyError q))
       | Some r \<Rightarrow> halve (ps(parent \<mapsto> r)) r))"

declare halve.simps [code]

definition find_root :: "parents \<Rightarrow> string \<Rightarrow> (parents \<times> string) run" where
  "find_root ps node_id = (case ps node_id of
     None \<Rightarrow> Some (Inl (KeyError node_id))
   | Some parent \<Rightarrow> run_bind (halve ps parent) (\<lambda>(ps', root). Some (Inr (ps'(node_id \<mapsto> root), root))))"

definition union_nodes :: "parents \<Rightarrow> string \<Rightarrow> string \<Rightarrow> parents run" where
  "union_nodes ps left_id right_id =
     run_bind (find_root ps left_id) (\<lambda>(ps1, left_root).
     run_bind (find_root ps1 right_id) (\<lambda>(ps2, right_root).
       if left_root = right_root then Some (Inr ps2)
       else if left_root < right_root then Some (Inr (ps2(right_root \<mapsto> left_root)))
       else Some (Inr (ps2(left_root \<mapsto> right_root)))))"

section \<open>The candidates\<close>

record graph_state =
  gs_parents :: parents
  gs_messages :: "(string \<times> message) list"
  gs_edges :: "(string \<times> evidence_edge) list"

definition add_node :: "graph_state \<Rightarrow> message \<Rightarrow> graph_state run" where
  "add_node g m = (let node_id = evidence_node_id m in
     if (case map_of (gs_messages g) node_id of None \<Rightarrow> False | Some e \<Rightarrow> sm_stream_id e \<noteq> sm_stream_id m)
     then Some (Inl (ValueError ''one evidence node resolved to multiple current revisions''))
     else Some (Inr (g\<lparr>gs_messages := AList.update node_id m (gs_messages g),
       gs_parents := (case gs_parents g node_id of None \<Rightarrow> (gs_parents g)(node_id \<mapsto> node_id) | Some q \<Rightarrow> gs_parents g)\<rparr>)))"

definition add_pair :: "math_api \<Rightarrow> graph_state \<Rightarrow> correlation_pair \<Rightarrow> graph_state run" where
  "add_pair M g p = (let edge = edge_from_pair M p in
     run_bind (run_fold add_node g [cp_left p, cp_right p]) (\<lambda>g.
     if (case map_of (gs_edges g) (ee_edge_id edge) of None \<Rightarrow> False | Some e \<Rightarrow> e \<noteq> edge)
     then Some (Inl (ValueError ''one evidence edge resolved to conflicting measurements''))
     else let g = g\<lparr>gs_edges := AList.update (ee_edge_id edge) edge (gs_edges g)\<rparr> in
       run_bind (union_nodes (gs_parents g) (ee_from edge) (ee_to edge)) (\<lambda>ps. Some (Inr (g\<lparr>gs_parents := ps\<rparr>)))))"

text \<open>\<open>components.setdefault(root, []).append(node_id)\<close>.\<close>

fun append_to :: "string \<Rightarrow> string \<Rightarrow> (string \<times> string list) list \<Rightarrow> (string \<times> string list) list" where
  "append_to r n [] = [(r, [n])]"
| "append_to r n ((r', ns) # cs) = (if r' = r then (r', ns @ [n]) # cs else (r', ns) # append_to r n cs)"

definition component_step :: "parents \<times> (string \<times> string list) list \<Rightarrow> string \<Rightarrow> (parents \<times> (string \<times> string list) list) run" where
  "component_step s n = (case s of (ps, cs) \<Rightarrow>
     run_bind (find_root ps n) (\<lambda>(ps', r). Some (Inr (ps', append_to r n cs))))"

fun earliest :: "datetime \<Rightarrow> datetime list \<Rightarrow> datetime" where
  "earliest t [] = t"
| "earliest t (u # us) = earliest (if dt_us u < dt_us t then u else t) us"

fun newest :: "datetime \<Rightarrow> datetime list \<Rightarrow> datetime" where
  "newest t [] = t"
| "newest t (u # us) = newest (if dt_us t < dt_us u then u else t) us"

definition component_edges :: "(string \<times> evidence_edge) list \<Rightarrow> string list \<Rightarrow> evidence_edge list" where
  "component_edges edges ids = sort_key ee_edge_id
     (filter (\<lambda>e. ee_from e \<in> set ids \<and> ee_to e \<in> set ids) (map snd edges))"

text \<open>\<open>min\<close> and \<open>max\<close> of an empty sequence raise.\<close>

definition incident_of :: "math_api \<Rightarrow> graph_state \<Rightarrow> string list \<Rightarrow> incident run" where
  "incident_of M g node_ids = (let ids = sort node_ids;
     nodes = map (\<lambda>i. \<lparr>en_node_id = i, en_message = the (map_of (gs_messages g) i)\<rparr>) ids;
     edges = component_edges (gs_edges g) ids;
     times = map (\<lambda>n. se_occurred (sm_event (en_message n))) nodes in
     if times = [] then Some (Inl (ValueError ''min() iterable argument is empty''))
     else let started = earliest (hd times) (tl times); latest = newest (hd times) (tl times);
       sources = sort (remdups (map (\<lambda>n. se_source (sm_event (en_message n))) nodes)) in
     if edges = [] then Some (Inl (ValueError ''max() iterable argument is empty''))
     else Some (Inr
       \<lparr>in_incident_id = content_id M ''incident'' ids,
        in_title = nat_dec (length sources) @ ''-source signal cluster near '' @ place_for nodes,
        in_started_at = started, in_latest_signal_at = latest, in_center = center M nodes, in_sources = sources,
        in_nodes = nodes, in_edges = edges, in_max_distance_km = Max (set (map ee_distance_km edges)),
        in_time_span_minutes = py_round 3 (fl (total_seconds (dt_us latest - dt_us started) / 60))\<rparr>))"

definition build_incident_candidates :: "math_api \<Rightarrow> correlation_batch \<Rightarrow> int \<Rightarrow> correlation_result run" where
  "build_incident_candidates M b limit =
     (if \<not> (1 \<le> limit \<and> limit \<le> 100) then Some (Inl (ValueError ''incident limit must be between 1 and 100''))
      else run_bind (run_fold (add_pair M) \<lparr>gs_parents = Map.empty, gs_messages = [], gs_edges = []\<rparr> (cb_pairs b)) (\<lambda>g.
      run_bind (run_fold component_step (gs_parents g, []) (sort (map fst (gs_messages g)))) (\<lambda>(ps, components).
      run_bind (run_fold (\<lambda>acc c. run_bind (incident_of M g (snd c)) (\<lambda>i. Some (Inr (acc @ [i])))) [] components) (\<lambda>incidents.
        let ordered = rev (sort_key (\<lambda>i. (dt_us (in_latest_signal_at i), in_incident_id i)) (rev incidents)) in
        Some (Inr \<lparr>cr_incidents = take (nat limit) ordered, cr_total_incidents = length incidents,
          cr_incidents_truncated = (limit < int (length incidents)), cr_candidate_edges_truncated = cb_truncated b\<rparr>)))))"

section \<open>Roots\<close>

text \<open>Every parent is a known node and is not larger: a union keeps the smaller root, and compression only
climbs. So a chain of parents ends, at the root of its nodes.\<close>

definition forest :: "parents \<Rightarrow> bool" where
  "forest ps \<longleftrightarrow> finite (dom ps) \<and> (\<forall>x y. ps x = Some y \<longrightarrow> y \<le> x \<and> y \<in> dom ps)"

inductive root_of :: "parents \<Rightarrow> string \<Rightarrow> string \<Rightarrow> bool" for ps where
  here: "ps x = Some x \<Longrightarrow> root_of ps x x"
| up: "ps x = Some y \<Longrightarrow> y \<noteq> x \<Longrightarrow> root_of ps y r \<Longrightarrow> root_of ps x r"

inductive_cases root_ofE: "root_of ps x r"

lemma root_of_unique: "root_of ps x r \<Longrightarrow> root_of ps x s \<Longrightarrow> r = s"
proof (induction arbitrary: s rule: root_of.induct)
  case (here x)
  then show ?case by (auto elim: root_ofE)
next
  case (up x y r)
  from up.prems up.hyps have "root_of ps y s" by (auto elim: root_ofE)
  then show ?case by (rule up.IH)
qed

lemma root_of_root: "root_of ps x r \<Longrightarrow> ps r = Some r"
  by (induction rule: root_of.induct) auto

lemma root_of_dom: "root_of ps x r \<Longrightarrow> x \<in> dom ps \<and> r \<in> dom ps"
  by (induction rule: root_of.induct) auto

lemma root_of_le: "forest ps \<Longrightarrow> root_of ps x r \<Longrightarrow> r \<le> x"
  by (rotate_tac, induction rule: root_of.induct) (force simp: forest_def)+

lemma forest_induct [consumes 2, case_names node]:
  assumes f: "forest ps" and x: "x \<in> dom ps"
    and step: "\<And>x. x \<in> dom ps \<Longrightarrow> (\<And>y. y \<in> dom ps \<Longrightarrow> y < x \<Longrightarrow> P y) \<Longrightarrow> P x"
  shows "P x"
  using x
proof (induction "card {z \<in> dom ps. z < x}" arbitrary: x rule: less_induct)
  case less
  have fin: "finite {z \<in> dom ps. z < x}" using f by (simp add: forest_def)
  show ?case
  proof (rule step [OF less.prems])
    fix y assume y: "y \<in> dom ps" "y < x"
    then have "{z \<in> dom ps. z < y} \<subset> {z \<in> dom ps. z < x}" by auto
    then show "P y" using less.hyps y(1) psubset_card_mono [OF fin] by blast
  qed
qed

lemma root_exists:
  assumes "forest ps" "x \<in> dom ps"
  shows "\<exists>r. root_of ps x r"
  using assms
proof (induction rule: forest_induct)
  case (node x)
  then obtain y where y: "ps x = Some y" "y \<le> x" "y \<in> dom ps" using assms(1) by (auto simp: forest_def)
  show ?case
  proof (cases "y = x")
    case False
    then have "y < x" using y(2) by simp
    then obtain r where "root_of ps y r" using node y(3) by blast
    then show ?thesis using root_of.up y(1) False by blast
  qed (use y in \<open>auto intro: root_of.here\<close>)
qed

text \<open>Re-parenting a node below another node of its tree keeps every root.\<close>

lemma reparent:
  assumes f: "forest ps" and s: "root_of ps p s" "root_of ps t s" and t: "t < p"
  shows "forest (ps(p \<mapsto> t)) \<and> (\<forall>x r. root_of (ps(p \<mapsto> t)) x r \<longleftrightarrow> root_of ps x r)"
proof -
  let ?ps = "ps(p \<mapsto> t)"
  have p: "p \<in> dom ps" and td: "t \<in> dom ps" using s root_of_dom by blast+
  have f': "forest ?ps" using f t td by (auto simp: forest_def)
  have dom: "dom ?ps = dom ps" using p by auto
  have keep: "root_of ?ps x r" if "root_of ps x r" for x r
    using f conjunct1 [OF root_of_dom [OF that]] that
  proof (induction x arbitrary: r rule: forest_induct)
    case (node x)
    show ?case
    proof (cases "x = p")
      case True
      then have r: "r = s" using node.prems s(1) root_of_unique by blast
      have up: "root_of ?ps t r" using node.IH [OF td] t True s(2) r by blast
      show ?thesis unfolding True by (rule root_of.up [OF _ _ up]) (use t in simp_all)
    next
      case False
      from node.prems show ?thesis
      proof (cases rule: root_of.cases)
        case here
        have "root_of ?ps x x" by (rule root_of.here) (use here False in simp)
        then show ?thesis unfolding here(1) .
      next
        case (up y)
        then have "y < x" "y \<in> dom ps" using f by (force simp: forest_def)+
        then have yr: "root_of ?ps y r" using node.IH up by blast
        show ?thesis by (rule root_of.up [OF _ up(2) yr]) (use up False in simp)
      qed
    qed
  qed
  moreover have "root_of ps x r" if "root_of ?ps x r" for x r
  proof -
    have "x \<in> dom ps" using root_of_dom [OF that] dom by blast
    then obtain r' where r': "root_of ps x r'" using root_exists [OF f] by blast
    then have "r' = r" using keep root_of_unique that by blast
    then show ?thesis using r' by simp
  qed
  ultimately show ?thesis using f' by blast
qed

section \<open>Finding and joining\<close>

definition same_roots :: "parents \<Rightarrow> parents \<Rightarrow> bool" where
  "same_roots ps ps' \<longleftrightarrow> forest ps' \<and> dom ps' = dom ps \<and> (\<forall>x r. root_of ps' x r \<longleftrightarrow> root_of ps x r)"

lemma same_roots_trans: "same_roots a b \<Longrightarrow> same_roots b c \<Longrightarrow> same_roots a c"
  by (simp add: same_roots_def)

lemma same_roots_refl: "forest ps \<Longrightarrow> same_roots ps ps"
  by (simp add: same_roots_def)

lemma reparent_same:
  "forest ps \<Longrightarrow> root_of ps p s \<Longrightarrow> root_of ps t s \<Longrightarrow> t < p \<Longrightarrow> same_roots ps (ps(p \<mapsto> t))"
  using reparent [of ps p s t] root_of_dom [of ps p s] by (auto simp: same_roots_def)

lemma halve_returns:
  assumes "forest ps" "root_of ps p s"
  shows "\<exists>ps'. halve ps p = Some (Inr (ps', s)) \<and> same_roots ps ps'"
  using assms
proof (induction "card {z \<in> dom ps. z < p}" arbitrary: ps p rule: less_induct)
  case less
  obtain q where q: "ps p = Some q" "q \<le> p" "q \<in> dom ps"
    using less.prems root_of_dom [of ps p s] by (auto simp: forest_def)
  show ?case
  proof (cases "q = p")
    case True
    then have "s = p" using less.prems(2) q(1) root_of.here root_of_unique by blast
    then show ?thesis using True q(1) less.prems(1) by (subst halve.simps) (simp add: same_roots_refl)
  next
    case False
    then have qs: "root_of ps q s" using less.prems(2) q(1) by (auto elim: root_ofE)
    obtain r where r: "ps q = Some r" "r \<le> q" "r \<in> dom ps"
      using less.prems(1) q(3) by (auto simp: forest_def)
    have rs: "root_of ps r s" using qs r(1) by (cases "r = q") (auto elim: root_ofE)
    have lt: "r < p" using r(2) q(2) False by (metis order.not_eq_order_implies_strict order.trans order.antisym)
    let ?ps = "ps(p \<mapsto> r)"
    have same: "same_roots ps ?ps" by (rule reparent_same [OF less.prems(1,2) rs lt])
    then have f': "forest ?ps" "root_of ?ps r s" "dom ?ps = dom ps" using rs by (auto simp: same_roots_def)
    have "{z \<in> dom ?ps. z < r} \<subset> {z \<in> dom ps. z < p}" using f'(3) lt r(3) by auto
    moreover have "finite {z \<in> dom ps. z < p}" using less.prems(1) by (simp add: forest_def)
    ultimately have "card {z \<in> dom ?ps. z < r} < card {z \<in> dom ps. z < p}" by (rule psubset_card_mono [rotated])
    from less.hyps [OF this f'(1,2)] obtain ps' where "halve ?ps r = Some (Inr (ps', s))" "same_roots ?ps ps'" by blast
    then show ?thesis using q(1) r(1) False same same_roots_trans by (subst halve.simps) auto
  qed
qed

lemma find_root_returns:
  assumes "forest ps" "x \<in> dom ps"
  shows "\<exists>ps' r. find_root ps x = Some (Inr (ps', r)) \<and> root_of ps x r \<and> same_roots ps ps'"
proof -
  obtain r where r: "root_of ps x r" using root_exists assms by blast
  obtain p where p: "ps x = Some p" using assms(2) by auto
  have "root_of ps p r" using r p by (cases "p = x") (auto elim: root_ofE)
  then obtain ps' where ps': "halve ps p = Some (Inr (ps', r))" "same_roots ps ps'"
    using halve_returns [OF assms(1)] by blast
  have x: "root_of ps' x r" "forest ps'" "root_of ps' r r"
    using ps'(2) r root_of_root [OF r] by (auto simp: same_roots_def intro: root_of.here)
  have "same_roots ps' (ps'(x \<mapsto> r))"
  proof (cases "r = x")
    case True
    then have "ps'(x \<mapsto> r) = ps'" using root_of_root [OF x(1)] by auto
    then show ?thesis using x(2) by (simp add: same_roots_refl)
  next
    case False
    then have "r < x" using root_of_le [OF x(2,1)] by simp
    then show ?thesis using reparent_same [OF x(2,1,3)] by blast
  qed
  then show ?thesis using ps' p r same_roots_trans by (fastforce simp: find_root_def)
qed

lemma link_roots:
  assumes f: "forest ps" and roots: "ps a = Some a" "ps b = Some b" and lt: "a < b"
  shows "forest (ps(b \<mapsto> a))" "root_of (ps(b \<mapsto> a)) x r \<longleftrightarrow> (\<exists>s. root_of ps x s \<and> r = (if s = b then a else s))"
proof -
  let ?ps = "ps(b \<mapsto> a)"
  show f': "forest ?ps" using f roots lt by (auto simp: forest_def)
  have keep: "root_of ?ps x (if s = b then a else s)" if "root_of ps x s" for x s
    using that
  proof (induction rule: root_of.induct)
    case (here x)
    have aa: "root_of ?ps a a" by (rule root_of.here) (use roots lt in simp)
    have ba: "root_of ?ps b a" by (rule root_of.up [OF _ _ aa]) (use lt in simp_all)
    show ?case
    proof (cases "x = b")
      case False
      then have "root_of ?ps x x" by (intro root_of.here) (use here in simp)
      then show ?thesis by (simp only: False if_False)
    next
      case True
      show ?thesis unfolding True by (simp only: ba if_True simp_thms)
    qed
  next
    case (up x y r)
    then have "x \<noteq> b" using roots by auto
    show ?case by (rule root_of.up [OF _ up.hyps(2) up.IH]) (use up.hyps(1) \<open>x \<noteq> b\<close> in simp)
  qed
  show "root_of ?ps x r \<longleftrightarrow> (\<exists>s. root_of ps x s \<and> r = (if s = b then a else s))"
  proof
    assume r: "root_of ?ps x r"
    have "dom ?ps = dom ps" using roots by auto
    then have "x \<in> dom ps" using root_of_dom [OF r] by auto
    then obtain s where "root_of ps x s" using root_exists [OF f] by blast
    then show "\<exists>s. root_of ps x s \<and> r = (if s = b then a else s)" using keep root_of_unique r by blast
  qed (use keep in blast)
qed

definition joined_in :: "parents \<Rightarrow> string \<Rightarrow> string \<Rightarrow> bool" where
  "joined_in ps u v \<longleftrightarrow> (\<exists>r. root_of ps u r \<and> root_of ps v r)"

lemma joined_in_iff: "root_of ps u r \<Longrightarrow> root_of ps v s \<Longrightarrow> joined_in ps u v \<longleftrightarrow> r = s"
  unfolding joined_in_def by (metis root_of_unique)

lemma joined_in_sym: "joined_in ps u v \<Longrightarrow> joined_in ps v u"
  by (auto simp: joined_in_def)

lemma joined_in_trans: "joined_in ps u v \<Longrightarrow> joined_in ps v w \<Longrightarrow> joined_in ps u w"
  unfolding joined_in_def by (metis root_of_unique)

lemma joined_in_dom: "joined_in ps u v \<Longrightarrow> u \<in> dom ps \<and> v \<in> dom ps"
  using root_of_dom by (auto simp: joined_in_def)

lemma same_roots_joined: "same_roots ps ps' \<Longrightarrow> joined_in ps' u v \<longleftrightarrow> joined_in ps u v"
  by (simp add: same_roots_def joined_in_def)

lemma link_joined:
  assumes "forest ps" "ps a = Some a" "ps b = Some b" "a < b"
  shows "joined_in (ps(b \<mapsto> a)) u v \<longleftrightarrow> joined_in ps u v \<or> (joined_in ps u a \<and> joined_in ps b v) \<or> (joined_in ps u b \<and> joined_in ps a v)"
proof (cases "u \<in> dom ps \<and> v \<in> dom ps")
  case True
  then obtain r s where rs: "root_of ps u r" "root_of ps v s" using root_exists [OF assms(1)] by blast
  have ab: "root_of ps a a" "root_of ps b b" using assms by (auto intro: root_of.here)
  have "root_of (ps(b \<mapsto> a)) u (if r = b then a else r)" "root_of (ps(b \<mapsto> a)) v (if s = b then a else s)"
    using link_roots(2) [OF assms] rs by blast+
  note new = joined_in_iff [OF this]
  show ?thesis
    unfolding new joined_in_iff [OF rs] joined_in_iff [OF rs(1) ab(1)] joined_in_iff [OF rs(1) ab(2)]
      joined_in_iff [OF ab(1) rs(2)] joined_in_iff [OF ab(2) rs(2)] by auto
next
  case False
  have "dom (ps(b \<mapsto> a)) = dom ps" using assms by auto
  then show ?thesis using False joined_in_dom [of "ps(b \<mapsto> a)" u v] joined_in_dom [of ps] by metis
qed

lemma union_returns:
  assumes "forest ps" "x \<in> dom ps" "y \<in> dom ps"
  shows "\<exists>ps'. union_nodes ps x y = Some (Inr ps') \<and> forest ps' \<and> dom ps' = dom ps
    \<and> (\<forall>u v. joined_in ps' u v \<longleftrightarrow> joined_in ps u v \<or> (joined_in ps u x \<and> joined_in ps y v) \<or> (joined_in ps u y \<and> joined_in ps x v))"
proof -
  obtain ps1 a where 1: "find_root ps x = Some (Inr (ps1, a))" "root_of ps x a" "same_roots ps ps1"
    using find_root_returns [OF assms(1,2)] by blast
  have "forest ps1" "y \<in> dom ps1" using 1(3) assms(3) by (auto simp: same_roots_def)
  then obtain ps2 b where 2: "find_root ps1 y = Some (Inr (ps2, b))" "root_of ps1 y b" "same_roots ps1 ps2"
    using find_root_returns by blast
  have b: "root_of ps y b" using 2(2) 1(3) by (simp add: same_roots_def)
  have same: "same_roots ps ps2" using 1(3) 2(3) by (rule same_roots_trans)
  then have f: "forest ps2" "dom ps2 = dom ps" "root_of ps2 x a" "root_of ps2 y b"
    using 1(2) b by (auto simp: same_roots_def)
  have roots: "ps2 a = Some a" "ps2 b = Some b" using f(3,4) root_of_root by blast+
  have xa: "joined_in ps x a" "joined_in ps y b" using root_of_root [OF 1(2)] root_of_root [OF b] 1(2) b
    by (auto simp: joined_in_def intro: root_of.here)
  note tr = joined_in_trans [of ps] and sy = joined_in_sym [of ps]
  consider "a = b" | "a < b" | "b < a" by (metis linorder_less_linear)
  then show ?thesis
  proof cases
    case 1
    then have "joined_in ps x y" using xa sy tr by blast
    then have "joined_in ps u v \<longleftrightarrow> joined_in ps u v \<or> (joined_in ps u x \<and> joined_in ps y v) \<or> (joined_in ps u y \<and> joined_in ps x v)" for u v
      using tr sy by blast
    then show ?thesis
      using 1 \<open>find_root ps x = _\<close> 2(1) f same_roots_joined [OF same] by (simp add: union_nodes_def)
  next
    case lt: 2
    note link = link_joined [OF f(1) roots lt, unfolded same_roots_joined [OF same]]
    have "(joined_in ps u a \<and> joined_in ps b v) \<or> (joined_in ps u b \<and> joined_in ps a v)
        \<longleftrightarrow> (joined_in ps u x \<and> joined_in ps y v) \<or> (joined_in ps u y \<and> joined_in ps x v)" for u v
      using xa sy tr by blast
    moreover have "forest (ps2(b \<mapsto> a))" by (rule link_roots(1) [OF f(1) roots lt])
    moreover have "dom (ps2(b \<mapsto> a)) = dom ps" using f(2) roots by auto
    moreover have "union_nodes ps x y = Some (Inr (ps2(b \<mapsto> a)))" using 1(1) 2(1) lt by (simp add: union_nodes_def less_imp_neq)
    ultimately show ?thesis using link by blast
  next
    case gt: 3
    note link = link_joined [OF f(1) roots(2,1) gt, unfolded same_roots_joined [OF same]]
    have "(joined_in ps u b \<and> joined_in ps a v) \<or> (joined_in ps u a \<and> joined_in ps b v)
        \<longleftrightarrow> (joined_in ps u x \<and> joined_in ps y v) \<or> (joined_in ps u y \<and> joined_in ps x v)" for u v
      using xa sy tr by blast
    moreover have "forest (ps2(a \<mapsto> b))" by (rule link_roots(1) [OF f(1) roots(2,1) gt])
    moreover have "dom (ps2(a \<mapsto> b)) = dom ps" using f(2) roots by auto
    moreover have "union_nodes ps x y = Some (Inr (ps2(a \<mapsto> b)))"
    proof -
      have "\<not> a < b" "a \<noteq> b" using gt by auto
      then show ?thesis using 1(1) 2(1) by (simp add: union_nodes_def)
    qed
    ultimately show ?thesis using link by blast
  qed
qed

section \<open>The graph of the pairs\<close>

definition pair_links :: "correlation_pair list \<Rightarrow> (string \<times> string) set" where
  "pair_links ps = (\<lambda>p. (evidence_node_id (cp_left p), evidence_node_id (cp_right p))) ` set ps"

definition pair_nodes :: "correlation_pair list \<Rightarrow> string set" where
  "pair_nodes ps = fst ` pair_links ps \<union> snd ` pair_links ps"

definition connected :: "(string \<times> string) set \<Rightarrow> (string \<times> string) set" where
  "connected L = (L \<union> L\<inverse>)\<^sup>*"

lemma connected_sym: "(u, v) \<in> connected L \<Longrightarrow> (v, u) \<in> connected L"
  unfolding connected_def by (rule symD [OF sym_rtrancl]) (auto simp: sym_def)

lemma connected_trans: "(u, v) \<in> connected L \<Longrightarrow> (v, w) \<in> connected L \<Longrightarrow> (u, w) \<in> connected L"
  unfolding connected_def by (rule rtrancl_trans)

lemma connected_insert: "(u, v) \<in> connected (insert (a, b) L) \<longleftrightarrow> (u, v) \<in> connected L
    \<or> ((u, a) \<in> connected L \<and> (b, v) \<in> connected L) \<or> ((u, b) \<in> connected L \<and> (a, v) \<in> connected L)"
proof -
  have "insert (a, b) L \<union> (insert (a, b) L)\<inverse> = insert (a, b) (insert (b, a) (L \<union> L\<inverse>))" by auto
  then have eq: "connected (insert (a, b) L) = (insert (a, b) (insert (b, a) (L \<union> L\<inverse>)))\<^sup>*" by (simp add: connected_def)
  note sy = connected_sym [of _ _ L] and tr = connected_trans [of _ _ L]
  show ?thesis
    unfolding eq rtrancl_insert connected_def [symmetric] using sy tr by blast
qed

lemma edge_from_pair_shape:
  "ee_edge_id (edge_from_pair M p) = content_id M ''edge'' [ee_from (edge_from_pair M p), ee_to (edge_from_pair M p)]"
  "{ee_from (edge_from_pair M p), ee_to (edge_from_pair M p)} = {evidence_node_id (cp_left p), evidence_node_id (cp_right p)}"
  by (auto simp: edge_from_pair_def)

definition graph_inv :: "math_api \<Rightarrow> correlation_pair list \<Rightarrow> graph_state \<Rightarrow> bool" where
  "graph_inv M ps g \<longleftrightarrow> forest (gs_parents g) \<and> dom (gs_parents g) = pair_nodes ps
     \<and> set (map fst (gs_messages g)) = pair_nodes ps \<and> distinct (map fst (gs_messages g))
     \<and> snd ` set (gs_edges g) = edge_from_pair M ` set ps
     \<and> (\<forall>u v. joined_in (gs_parents g) u v \<longleftrightarrow> u \<in> pair_nodes ps \<and> v \<in> pair_nodes ps \<and> (u, v) \<in> connected (pair_links ps))"

definition conflict_errors :: "exn set" where
  "conflict_errors = {ValueError ''one evidence node resolved to multiple current revisions'',
     ValueError ''one evidence edge resolved to conflicting measurements''}"

lemma pair_links_snoc: "pair_links (ps @ [p]) = insert (evidence_node_id (cp_left p), evidence_node_id (cp_right p)) (pair_links ps)"
  by (simp add: pair_links_def)

lemma pair_nodes_snoc: "pair_nodes (ps @ [p]) = {evidence_node_id (cp_left p), evidence_node_id (cp_right p)} \<union> pair_nodes ps"
  by (auto simp: pair_nodes_def pair_links_snoc)

text \<open>Adding a node: a known one changes nothing but its message, a new one is its own root.\<close>

definition with_node :: "graph_state \<Rightarrow> message \<Rightarrow> graph_state" where
  "with_node g m = g\<lparr>gs_messages := AList.update (evidence_node_id m) m (gs_messages g),
     gs_parents := (case gs_parents g (evidence_node_id m) of
       None \<Rightarrow> (gs_parents g)(evidence_node_id m \<mapsto> evidence_node_id m) | Some q \<Rightarrow> gs_parents g)\<rparr>"

lemma add_node_cases: "add_node g m = Some (Inr (with_node g m)) \<or> (\<exists>e \<in> conflict_errors. add_node g m = Some (Inl e))"
  by (simp add: add_node_def with_node_def Let_def conflict_errors_def)

lemma new_root:
  assumes f: "forest ps" and x: "ps x = None"
  shows "forest (ps(x \<mapsto> x))" "joined_in (ps(x \<mapsto> x)) u v \<longleftrightarrow> joined_in ps u v \<or> (u = x \<and> v = x)"
proof -
  let ?ps = "ps(x \<mapsto> x)"
  show f': "forest ?ps" using f by (auto simp: forest_def)
  have xx: "root_of ?ps x x" by (rule root_of.here) simp
  have keep: "root_of ?ps y r" if "root_of ps y r" for y r
    using that
  proof (induction rule: root_of.induct)
    case (here y)
    then show ?case using x by (intro root_of.here) auto
  next
    case (up y z r)
    show ?case by (rule root_of.up [OF _ up.hyps(2) up.IH]) (use up.hyps(1) x in auto)
  qed
  have below: "root_of ps y r" if "root_of ?ps y r" "y \<noteq> x" for y r
  proof -
    have "y \<in> dom ps" using root_of_dom [OF that(1)] that(2) by auto
    then obtain r' where "root_of ps y r'" using root_exists [OF f] by blast
    then show ?thesis using keep root_of_unique that(1) by metis
  qed
  have older: "r \<noteq> x" if "root_of ps y r" for y r using root_of_root [OF that] x by auto
  show "joined_in ?ps u v \<longleftrightarrow> joined_in ps u v \<or> (u = x \<and> v = x)"
  proof
    assume "joined_in ?ps u v"
    then obtain r where r: "root_of ?ps u r" "root_of ?ps v r" by (auto simp: joined_in_def)
    show "joined_in ps u v \<or> (u = x \<and> v = x)"
    proof (cases "u = x \<or> v = x")
      case True
      then have "r = x" using r xx root_of_unique by metis
      then have "u = x \<and> v = x" using r below older by metis
      then show ?thesis by blast
    qed (use r below in \<open>auto simp: joined_in_def\<close>)
  qed (use keep xx in \<open>unfold joined_in_def, blast\<close>)
qed

text \<open>What the nodes of a pair add before they are joined.\<close>

definition nodes_inv :: "math_api \<Rightarrow> correlation_pair list \<Rightarrow> string set \<Rightarrow> graph_state \<Rightarrow> bool" where
  "nodes_inv M ps ns g \<longleftrightarrow> forest (gs_parents g) \<and> dom (gs_parents g) = ns
     \<and> set (map fst (gs_messages g)) = ns \<and> distinct (map fst (gs_messages g))
     \<and> snd ` set (gs_edges g) = edge_from_pair M ` set ps
     \<and> (\<forall>u v. joined_in (gs_parents g) u v \<longleftrightarrow> u \<in> ns \<and> v \<in> ns \<and> (u, v) \<in> connected (pair_links ps))"

lemma graph_inv_nodes: "graph_inv M ps g \<longleftrightarrow> nodes_inv M ps (pair_nodes ps) g"
  by (simp add: graph_inv_def nodes_inv_def)

lemma connected_outside:
  assumes "(u, v) \<in> connected (pair_links ps)" "u \<notin> pair_nodes ps \<or> v \<notin> pair_nodes ps"
  shows "u = v"
proof -
  have out: "u = v" if "(u, v) \<in> connected (pair_links ps)" "u \<notin> pair_nodes ps" for u v
    using that unfolding connected_def
  proof (cases rule: converse_rtranclE)
    case (step y)
    then show ?thesis using that(2) by (force simp: pair_nodes_def)
  qed
  then show ?thesis using assms connected_sym by metis
qed

lemma with_node_inv:
  assumes "nodes_inv M ps ns g" "pair_nodes ps \<subseteq> ns"
  shows "nodes_inv M ps (insert (evidence_node_id m) ns) (with_node g m)"
proof -
  let ?i = "evidence_node_id m"
  have g: "forest (gs_parents g)" "dom (gs_parents g) = ns" "set (map fst (gs_messages g)) = ns"
    "distinct (map fst (gs_messages g))" "snd ` set (gs_edges g) = edge_from_pair M ` set ps"
    and j: "\<And>u v. joined_in (gs_parents g) u v \<longleftrightarrow> u \<in> ns \<and> v \<in> ns \<and> (u, v) \<in> connected (pair_links ps)"
    using assms(1) by (simp_all add: nodes_inv_def)
  have keys: "set (map fst (AList.update ?i m (gs_messages g))) = insert ?i ns" "distinct (map fst (AList.update ?i m (gs_messages g)))"
    using g(3,4) dom_update [of ?i m "gs_messages g"] distinct_update [of "gs_messages g"] by auto
  show ?thesis
  proof (cases "gs_parents g ?i")
    case None
    then have i: "?i \<notin> ns" using g(2) by auto
    have "joined_in ((gs_parents g)(?i \<mapsto> ?i)) u v \<longleftrightarrow>
        u \<in> insert ?i ns \<and> v \<in> insert ?i ns \<and> (u, v) \<in> connected (pair_links ps)" for u v
      unfolding new_root(2) [OF g(1) None] j
      using i assms(2) connected_outside [of u v ps] by (auto simp: connected_def)
    then show ?thesis
      using new_root(1) [OF g(1) None] keys g(2,5) None by (auto simp: nodes_inv_def with_node_def)
  next
    case (Some q)
    then have "insert ?i ns = ns" using g(2) by auto
    then show ?thesis using Some g j keys by (simp add: nodes_inv_def with_node_def)
  qed
qed

lemma values_update:
  assumes "map_of al k = None \<or> map_of al k = Some v"
  shows "snd ` set (AList.update k v al) = insert v (snd ` set al)"
  using assms
proof
  assume "map_of al k = None"
  then have "AList.update k v al = al @ [(k, v)]" by (induction al) (auto split: if_splits)
  then show ?thesis by simp
next
  assume *: "map_of al k = Some v"
  then have "v \<in> snd ` set al" by (force dest: map_of_SomeD)
  then show ?thesis using update_triv [OF *] by auto
qed

lemma add_pair_step:
  assumes "graph_inv M ps g"
  shows "(\<exists>g'. add_pair M g p = Some (Inr g') \<and> graph_inv M (ps @ [p]) g') \<or> (\<exists>e \<in> conflict_errors. add_pair M g p = Some (Inl e))"
proof -
  let ?l = "evidence_node_id (cp_left p)" and ?r = "evidence_node_id (cp_right p)" and ?e = "edge_from_pair M p"
  let ?g1 = "with_node g (cp_left p)" and ?g2 = "with_node (with_node g (cp_left p)) (cp_right p)"
  let ?ns = "insert ?r (insert ?l (pair_nodes ps))"
  have n1: "nodes_inv M ps (insert ?l (pair_nodes ps)) ?g1"
    by (rule with_node_inv) (use assms graph_inv_nodes in auto)
  have n2: "nodes_inv M ps ?ns ?g2" by (rule with_node_inv [OF n1]) blast
  have ns: "?ns = pair_nodes (ps @ [p])" by (auto simp: pair_nodes_snoc)
  show ?thesis
  proof (cases "add_node g (cp_left p) = Some (Inr ?g1) \<and> add_node ?g1 (cp_right p) = Some (Inr ?g2)")
    case False
    then obtain e where "e \<in> conflict_errors" "run_fold add_node g [cp_left p, cp_right p] = Some (Inl e)"
      using add_node_cases [of g "cp_left p"] add_node_cases [of ?g1 "cp_right p"] by auto
    then show ?thesis by (auto simp: add_pair_def Let_def)
  next
    case True
    then have nodes: "run_fold add_node g [cp_left p, cp_right p] = Some (Inr ?g2)" by simp
    show ?thesis
    proof (cases "case map_of (gs_edges ?g2) (ee_edge_id ?e) of None \<Rightarrow> False | Some e \<Rightarrow> e \<noteq> ?e")
      case True
      then show ?thesis using nodes by (auto simp: add_pair_def Let_def conflict_errors_def)
    next
      case False
      let ?g3 = "?g2\<lparr>gs_edges := AList.update (ee_edge_id ?e) ?e (gs_edges ?g2)\<rparr>"
      have edges: "snd ` set (AList.update (ee_edge_id ?e) ?e (gs_edges ?g2)) = insert ?e (snd ` set (gs_edges ?g2))"
        by (rule values_update) (use False in \<open>auto split: option.splits\<close>)
      have ends: "ee_from ?e \<in> dom (gs_parents ?g2)" "ee_to ?e \<in> dom (gs_parents ?g2)"
        using edge_from_pair_shape(2) [of M p] n2 by (auto simp: nodes_inv_def doubleton_eq_iff)
      obtain ps' where u: "union_nodes (gs_parents ?g2) (ee_from ?e) (ee_to ?e) = Some (Inr ps')" "forest ps'"
        "dom ps' = dom (gs_parents ?g2)"
        "\<And>u v. joined_in ps' u v \<longleftrightarrow> joined_in (gs_parents ?g2) u v
            \<or> (joined_in (gs_parents ?g2) u (ee_from ?e) \<and> joined_in (gs_parents ?g2) (ee_to ?e) v)
            \<or> (joined_in (gs_parents ?g2) u (ee_to ?e) \<and> joined_in (gs_parents ?g2) (ee_from ?e) v)"
        using union_returns [OF _ ends] n2 by (auto simp: nodes_inv_def)
      have "add_pair M g p = Some (Inr (?g3\<lparr>gs_parents := ps'\<rparr>))"
        using nodes False u(1) by (simp add: add_pair_def Let_def)
      moreover have "joined_in ps' u v \<longleftrightarrow> u \<in> ?ns \<and> v \<in> ?ns \<and> (u, v) \<in> connected (pair_links (ps @ [p]))" for u v
      proof -
        have j: "\<And>u v. joined_in (gs_parents ?g2) u v \<longleftrightarrow> u \<in> ?ns \<and> v \<in> ?ns \<and> (u, v) \<in> connected (pair_links ps)"
          using n2 by (simp add: nodes_inv_def)
        consider "ee_from ?e = ?l" "ee_to ?e = ?r" | "ee_from ?e = ?r" "ee_to ?e = ?l"
          using edge_from_pair_shape(2) [of M p] by (auto simp: doubleton_eq_iff)
        then show ?thesis
        proof cases
          case 1
          show ?thesis unfolding u(4) j pair_links_snoc connected_insert 1 by blast
        next
          case 2
          show ?thesis unfolding u(4) j pair_links_snoc connected_insert 2 by blast
        qed
      qed
      ultimately show ?thesis
        using n2 u(2,3) edges unfolding ns by (auto simp: graph_inv_def nodes_inv_def)
    qed
  qed
qed

lemma run_fold_snoc: "run_fold f s (xs @ [x]) = run_bind (run_fold f s xs) (\<lambda>s'. f s' x)"
proof (induction xs arbitrary: s)
  case (Cons y ys)
  then show ?case by (cases "f s y" rule: option.exhaust; simp) (auto simp: run_bind_def split: option.splits sum.splits)
next
  case Nil
  show ?case by (simp add: run_bind_def split: option.splits sum.splits)
qed

lemma graph_built:
  "(\<exists>g. run_fold (add_pair M) \<lparr>gs_parents = Map.empty, gs_messages = [], gs_edges = []\<rparr> ps = Some (Inr g) \<and> graph_inv M ps g)
   \<or> (\<exists>e \<in> conflict_errors. run_fold (add_pair M) \<lparr>gs_parents = Map.empty, gs_messages = [], gs_edges = []\<rparr> ps = Some (Inl e))"
proof (induction ps rule: rev_induct)
  case Nil
  have "\<not> root_of Map.empty x r" for x r using root_of_dom [of Map.empty x r] by auto
  then show ?case
    by (simp add: graph_inv_def forest_def pair_nodes_def pair_links_def joined_in_def)
next
  case (snoc p ps)
  from snoc.IH show ?case
  proof
    assume "\<exists>g. run_fold (add_pair M) \<lparr>gs_parents = Map.empty, gs_messages = [], gs_edges = []\<rparr> ps = Some (Inr g) \<and> graph_inv M ps g"
    then obtain g where g: "run_fold (add_pair M) \<lparr>gs_parents = Map.empty, gs_messages = [], gs_edges = []\<rparr> ps = Some (Inr g)"
      "graph_inv M ps g" by blast
    from add_pair_step [OF g(2), of p] show ?thesis by (auto simp: run_fold_snoc g(1))
  qed (auto simp: run_fold_snoc)
qed

section \<open>Components\<close>

lemma append_to_map: "map_of (append_to r n cs) = (map_of cs)(r \<mapsto> (case map_of cs r of None \<Rightarrow> [n] | Some ns \<Rightarrow> ns @ [n]))"
  by (induction r n cs rule: append_to.induct) auto

lemma append_to_keys: "map fst (append_to r n cs) = (if r \<in> set (map fst cs) then map fst cs else map fst cs @ [r])"
  by (induction r n cs rule: append_to.induct) auto

definition grouped :: "parents \<Rightarrow> string list \<Rightarrow> (string \<times> string list) list \<Rightarrow> bool" where
  "grouped ps ns cs \<longleftrightarrow> distinct (map fst cs)
     \<and> (\<forall>r. map_of cs r = (let l = filter (\<lambda>n. root_of ps n r) ns in if l = [] then None else Some l))"

lemma components_of:
  assumes f: "forest ps" and ns: "set ns \<subseteq> dom ps"
  shows "\<exists>ps' cs. run_fold component_step (ps, []) ns = Some (Inr (ps', cs)) \<and> same_roots ps ps' \<and> grouped ps ns cs"
  using ns
proof (induction ns rule: rev_induct)
  case Nil
  then show ?case using same_roots_refl [OF f] by (simp add: grouped_def)
next
  case (snoc n ns)
  then obtain ps1 cs where 1: "run_fold component_step (ps, []) ns = Some (Inr (ps1, cs))" "same_roots ps ps1" "grouped ps ns cs"
    by auto
  have "forest ps1" "n \<in> dom ps1" using 1(2) snoc.prems by (auto simp: same_roots_def)
  then obtain ps2 r where 2: "find_root ps1 n = Some (Inr (ps2, r))" "root_of ps1 n r" "same_roots ps1 ps2"
    using find_root_returns by blast
  have r: "root_of ps n r" using 1(2) 2(2) by (simp add: same_roots_def)
  then have "root_of ps n s \<longleftrightarrow> s = r" for s using root_of_unique by blast
  then have "grouped ps (ns @ [n]) (append_to r n cs)"
    using 1(3) by (auto simp: grouped_def append_to_map append_to_keys Let_def)
  moreover have "run_fold component_step (ps, []) (ns @ [n]) = Some (Inr (ps2, append_to r n cs))"
    using 1(1) 2(1) by (simp add: run_fold_snoc component_step_def)
  ultimately show ?case using same_roots_trans [OF 1(2) 2(3)] by blast
qed

lemma grouped_list:
  assumes "grouped ps ns cs" "(r, l) \<in> set cs"
  shows "l = filter (\<lambda>n. root_of ps n r) ns \<and> l \<noteq> []"
proof -
  have "map_of cs r = Some l" using assms unfolding grouped_def by (blast intro: map_of_is_SomeI)
  then show ?thesis using assms(1) by (auto simp: grouped_def Let_def split: if_splits)
qed

section \<open>Incidents\<close>

lemma component_edge:
  assumes inv: "graph_inv M ps g" and n: "n \<in> pair_nodes ps" and l: "\<And>m. joined_in (gs_parents g) n m \<Longrightarrow> m \<in> set l"
  shows "component_edges (gs_edges g) (sort l) \<noteq> []"
proof -
  obtain p where p: "p \<in> set ps" "n = evidence_node_id (cp_left p) \<or> n = evidence_node_id (cp_right p)"
    using n by (auto simp: pair_nodes_def pair_links_def)
  let ?e = "edge_from_pair M p"
  have link: "(evidence_node_id (cp_left p), evidence_node_id (cp_right p)) \<in> pair_links ps"
    using p(1) by (auto simp: pair_links_def)
  have "joined_in (gs_parents g) n m" if "m \<in> {evidence_node_id (cp_left p), evidence_node_id (cp_right p)}" for m
  proof -
    have "m \<in> pair_nodes ps" using that link by (force simp: pair_nodes_def)
    moreover have "(n, m) \<in> connected (pair_links ps)"
      using p(2) that link by (auto simp: connected_def)
    ultimately show ?thesis using inv n by (simp add: graph_inv_def)
  qed
  then have "ee_from ?e \<in> set l" "ee_to ?e \<in> set l" using l edge_from_pair_shape(2) [of M p] by blast+
  moreover have "?e \<in> snd ` set (gs_edges g)" using inv p(1) by (simp add: graph_inv_def)
  ultimately have "?e \<in> set (component_edges (gs_edges g) (sort l))" by (auto simp: component_edges_def)
  then show ?thesis by auto
qed

lemma incident_returns:
  assumes "graph_inv M ps g" "n \<in> set l" "n \<in> pair_nodes ps" "\<And>m. joined_in (gs_parents g) n m \<Longrightarrow> m \<in> set l"
  shows "\<exists>i. incident_of M g l = Some (Inr i) \<and> map en_node_id (in_nodes i) = sort l
    \<and> in_edges i = component_edges (gs_edges g) (sort l)"
proof -
  have "sort l \<noteq> []" using assms(2) by (metis empty_iff list.set(1) set_sort)
  then show ?thesis
    using component_edge [OF assms(1,3,4)] by (simp add: incident_of_def Let_def comp_def)
qed

lemma incidents_return:
  assumes "\<And>c. c \<in> set cs \<Longrightarrow> \<exists>i. incident_of M g (snd c) = Some (Inr i) \<and> P (snd c) i"
  shows "\<exists>out. run_fold (\<lambda>acc c. run_bind (incident_of M g (snd c)) (\<lambda>i. Some (Inr (acc @ [i])))) [] cs = Some (Inr out)
    \<and> list_all2 P (map snd cs) out"
  using assms
proof (induction cs rule: rev_induct)
  case (snoc c cs)
  have "\<exists>i. incident_of M g (snd c') = Some (Inr i) \<and> P (snd c') i" if "c' \<in> set cs" for c'
    using snoc.prems [of c'] that by simp
  from snoc.IH [OF this] obtain out
    where 1: "run_fold (\<lambda>acc c. run_bind (incident_of M g (snd c)) (\<lambda>i. Some (Inr (acc @ [i])))) [] cs = Some (Inr out)"
      "list_all2 P (map snd cs) out" by blast
  obtain i where 2: "incident_of M g (snd c) = Some (Inr i)" "P (snd c) i" using snoc.prems [of c] by auto
  have "list_all2 P (map snd (cs @ [c])) (out @ [i])" using 1(2) 2(2) by (simp add: list_all2_appendI)
  then show ?case unfolding run_fold_snoc 1(1) run_bind_simps 2(1) by blast
qed simp

definition class_of :: "correlation_pair list \<Rightarrow> string \<Rightarrow> string set" where
  "class_of ps n = {m. (n, m) \<in> connected (pair_links ps)}"

lemma joined_class:
  assumes "graph_inv M ps g" "n \<in> pair_nodes ps"
  shows "{m. joined_in (gs_parents g) n m} = class_of ps n"
  using assms connected_outside by (fastforce simp: graph_inv_def class_of_def)

lemma group_class:
  assumes inv: "graph_inv M ps g" and gr: "grouped (gs_parents g) ns cs" and ns: "set ns = pair_nodes ps" and c: "(r, l) \<in> set cs"
  shows "l \<noteq> []" "set l = {n. root_of (gs_parents g) n r}" "n \<in> set l \<Longrightarrow> n \<in> pair_nodes ps \<and> set l = class_of ps n"
proof -
  have l: "l = filter (\<lambda>n. root_of (gs_parents g) n r) ns" "l \<noteq> []" using grouped_list [OF gr c] by blast+
  have dom: "n \<in> pair_nodes ps" if "root_of (gs_parents g) n r" for n
    using root_of_dom [OF that] inv by (auto simp: graph_inv_def)
  show "l \<noteq> []" by (rule l(2))
  show set: "set l = {n. root_of (gs_parents g) n r}" using l(1) ns dom by auto
  assume n: "n \<in> set l"
  then have nr: "root_of (gs_parents g) n r" using set by auto
  then have "joined_in (gs_parents g) n m \<longleftrightarrow> root_of (gs_parents g) m r" for m
    using root_of_unique by (auto simp: joined_in_def)
  then show "n \<in> pair_nodes ps \<and> set l = class_of ps n"
    using joined_class [OF inv dom [OF nr]] dom [OF nr] set by simp
qed

lemma groups_distinct:
  assumes inv: "graph_inv M ps g" and gr: "grouped (gs_parents g) ns cs" and ns: "set ns = pair_nodes ps" "distinct ns"
  shows "distinct (concat (map snd cs))" "distinct (map (\<lambda>c. set (snd c)) cs)"
    and "set (map (\<lambda>c. set (snd c)) cs) = class_of ps ` pair_nodes ps"
proof -
  note gc = group_class [OF inv gr ns(1)]
  have disj: "c = d" if "c \<in> set cs" "d \<in> set cs" "n \<in> set (snd c)" "n \<in> set (snd d)" for c d n
  proof -
    have "root_of (gs_parents g) n (fst c)" "root_of (gs_parents g) n (fst d)"
      using gc(2) that by (metis mem_Collect_eq prod.collapse)+
    then have "fst c = fst d" by (rule root_of_unique)
    then show ?thesis using gr that(1,2) by (metis eq_key_imp_eq_value grouped_def prod.collapse)
  qed
  have ne: "snd c \<noteq> []" if "c \<in> set cs" for c using gc(1) [of "fst c" "snd c"] that by simp
  have dcs: "distinct cs" using gr by (auto simp: grouped_def distinct_map)
  have inj: "c = d" if h: "c \<in> set cs" "d \<in> set cs" "set (snd c) = set (snd d)" for c d
  proof -
    have "hd (snd c) \<in> set (snd c)" using ne [OF h(1)] by simp
    then show ?thesis using disj h by metis
  qed
  show "distinct (map (\<lambda>c. set (snd c)) cs)" using dcs inj by (auto simp: distinct_map inj_on_def)
  show "distinct (concat (map snd cs))"
  proof (rule distinct_concat)
    show "distinct (map snd cs)" using dcs inj by (auto simp: distinct_map inj_on_def)
    show "distinct ys" if h: "ys \<in> set (map snd cs)" for ys
    proof -
      obtain r where "(r, ys) \<in> set cs" using h by auto
      then have "ys = filter (\<lambda>n. root_of (gs_parents g) n r) ns" using grouped_list [OF gr] by blast
      then show ?thesis using ns(2) by simp
    qed
    show "set ys \<inter> set zs = {}" if "ys \<in> set (map snd cs)" "zs \<in> set (map snd cs)" "ys \<noteq> zs" for ys zs
      using that disj by fastforce
  qed
  show "set (map (\<lambda>c. set (snd c)) cs) = class_of ps ` pair_nodes ps"
  proof (intro equalityI subsetI)
    fix x assume "x \<in> set (map (\<lambda>c. set (snd c)) cs)"
    then obtain c where c: "c \<in> set cs" "x = set (snd c)" by auto
    have "hd (snd c) \<in> set (snd c)" using ne [OF c(1)] by simp
    then show "x \<in> class_of ps ` pair_nodes ps" using gc(3) [of "fst c" "snd c" "hd (snd c)"] c by auto
  next
    fix x assume "x \<in> class_of ps ` pair_nodes ps"
    then obtain n where n: "n \<in> pair_nodes ps" "x = class_of ps n" by auto
    then obtain r where r: "root_of (gs_parents g) n r" using root_exists [of "gs_parents g" n] inv by (auto simp: graph_inv_def)
    have "filter (\<lambda>n. root_of (gs_parents g) n r) ns \<noteq> []" using r n(1) ns(1) by (auto simp: filter_empty_conv)
    then obtain l where "map_of cs r = Some l" using gr by (auto simp: grouped_def Let_def)
    then have c: "(r, l) \<in> set cs" by (rule map_of_SomeD)
    then have "n \<in> set l" using gc(2) r by auto
    then have "x = set (snd (r, l))" using gc(3) [OF c] n(2) by simp
    then show "x \<in> set (map (\<lambda>c. set (snd c)) cs)" using c by force
  qed
qed

definition node_ids :: "incident \<Rightarrow> string list" where
  "node_ids i = map en_node_id (in_nodes i)"

definition incident_for :: "graph_state \<Rightarrow> string list \<Rightarrow> incident \<Rightarrow> bool" where
  "incident_for g l i \<longleftrightarrow> node_ids i = sort l \<and> in_edges i = component_edges (gs_edges g) (sort l)"

lemma build_candidates_from:
  assumes "1 \<le> limit" "limit \<le> 100"
    and g: "run_fold (add_pair M) \<lparr>gs_parents = Map.empty, gs_messages = [], gs_edges = []\<rparr> (cb_pairs b) = Some (Inr g)"
      "graph_inv M (cb_pairs b) g"
  shows "\<exists>cs out. grouped (gs_parents g) (sort (map fst (gs_messages g))) cs
      \<and> list_all2 (incident_for g) (map snd cs) out
      \<and> build_incident_candidates M b limit = Some (Inr
        \<lparr>cr_incidents = take (nat limit) (rev (sort_key (\<lambda>i. (dt_us (in_latest_signal_at i), in_incident_id i)) (rev out))),
         cr_total_incidents = length out, cr_incidents_truncated = (limit < int (length out)),
         cr_candidate_edges_truncated = cb_truncated b\<rparr>)"
proof -
  let ?ns = "sort (map fst (gs_messages g))"
  have ns: "set ?ns = pair_nodes (cb_pairs b)" "set ?ns \<subseteq> dom (gs_parents g)" "forest (gs_parents g)"
    using g(2) by (auto simp: graph_inv_def)
  obtain ps' cs where c: "run_fold component_step (gs_parents g, []) ?ns = Some (Inr (ps', cs))" "grouped (gs_parents g) ?ns cs"
    using components_of [OF ns(3,2)] by blast
  have "\<exists>i. incident_of M g (snd x) = Some (Inr i) \<and> incident_for g (snd x) i" if x: "x \<in> set cs" for x
  proof -
    note gc = group_class [OF g(2) c(2) ns(1), of "fst x" "snd x"]
    obtain n where n: "n \<in> set (snd x)" using gc(1) x by (metis list.set_sel(1) prod.collapse)
    have cls: "n \<in> pair_nodes (cb_pairs b)" "set (snd x) = class_of (cb_pairs b) n" using gc(3) [OF _ n] x by auto
    have "m \<in> set (snd x)" if "joined_in (gs_parents g) n m" for m
      using joined_class [OF g(2) cls(1)] cls(2) that by blast
    from incident_returns [OF g(2) n cls(1) this] show ?thesis by (auto simp: incident_for_def node_ids_def)
  qed
  from incidents_return [OF this] obtain out where
    "run_fold (\<lambda>acc c. run_bind (incident_of M g (snd c)) (\<lambda>i. Some (Inr (acc @ [i])))) [] cs = Some (Inr out)"
    "list_all2 (incident_for g) (map snd cs) out" by blast
  then show ?thesis
    using assms(1,2) g(1) c by (auto simp: build_incident_candidates_def Let_def)
qed

lemma build_candidates:
  assumes "1 \<le> limit" "limit \<le> 100"
  shows "(\<exists>g cs out. graph_inv M (cb_pairs b) g \<and> grouped (gs_parents g) (sort (map fst (gs_messages g))) cs
      \<and> list_all2 (incident_for g) (map snd cs) out
      \<and> build_incident_candidates M b limit = Some (Inr
        \<lparr>cr_incidents = take (nat limit) (rev (sort_key (\<lambda>i. (dt_us (in_latest_signal_at i), in_incident_id i)) (rev out))),
         cr_total_incidents = length out, cr_incidents_truncated = (limit < int (length out)),
         cr_candidate_edges_truncated = cb_truncated b\<rparr>))
    \<or> (\<exists>e \<in> conflict_errors. build_incident_candidates M b limit = Some (Inl e))"
  using graph_built [of M "cb_pairs b"]
proof
  assume "\<exists>g. run_fold (add_pair M) \<lparr>gs_parents = Map.empty, gs_messages = [], gs_edges = []\<rparr> (cb_pairs b) = Some (Inr g)
    \<and> graph_inv M (cb_pairs b) g"
  then show ?thesis using build_candidates_from [OF assms] by blast
qed (use assms in \<open>auto simp: build_incident_candidates_def\<close>)

section \<open>Batches without conflicts\<close>

text \<open>A batch is coherent when a node id stands for one revision and an edge id for one edge.\<close>

definition endpoints :: "correlation_pair list \<Rightarrow> message set" where
  "endpoints ps = cp_left ` set ps \<union> cp_right ` set ps"

definition coherent :: "math_api \<Rightarrow> correlation_pair list \<Rightarrow> bool" where
  "coherent M ps \<longleftrightarrow>
     (\<forall>m \<in> endpoints ps. \<forall>m' \<in> endpoints ps. evidence_node_id m = evidence_node_id m' \<longrightarrow> sm_stream_id m = sm_stream_id m')
   \<and> (\<forall>p \<in> set ps. \<forall>p' \<in> set ps. ee_edge_id (edge_from_pair M p) = ee_edge_id (edge_from_pair M p') \<longrightarrow>
        edge_from_pair M p = edge_from_pair M p')"

definition origins :: "math_api \<Rightarrow> correlation_pair list \<Rightarrow> graph_state \<Rightarrow> bool" where
  "origins M ps g \<longleftrightarrow> (\<forall>(k, m) \<in> set (gs_messages g). m \<in> endpoints ps \<and> evidence_node_id m = k)
     \<and> (\<forall>(k, e) \<in> set (gs_edges g). ee_edge_id e = k \<and> (\<exists>p \<in> set ps. e = edge_from_pair M p))"

lemma update_entries: "set (AList.update k v al) \<subseteq> insert (k, v) (set al)"
  by (induction al) auto

lemma with_node_origins:
  assumes "origins M ps g" "m \<in> endpoints ps"
  shows "origins M ps (with_node g m)"
proof -
  have "m' \<in> endpoints ps \<and> evidence_node_id m' = k" if "(k, m') \<in> set (AList.update (evidence_node_id m) m (gs_messages g))" for k m'
    using subsetD [OF update_entries that] assms by (auto simp: origins_def)
  then show ?thesis using assms(1) by (auto simp: origins_def with_node_def)
qed

lemma add_node_coherent:
  assumes "coherent M ps" "origins M ps g" "m \<in> endpoints ps"
  shows "add_node g m = Some (Inr (with_node g m))"
proof -
  have same: "sm_stream_id e = sm_stream_id m" if "map_of (gs_messages g) (evidence_node_id m) = Some e" for e
  proof -
    have "e \<in> endpoints ps" "evidence_node_id e = evidence_node_id m"
      using map_of_SomeD [OF that] assms(2) by (auto simp: origins_def)
    then show ?thesis using assms(1,3) unfolding coherent_def by blast
  qed
  have "\<not> (case map_of (gs_messages g) (evidence_node_id m) of None \<Rightarrow> False | Some e \<Rightarrow> sm_stream_id e \<noteq> sm_stream_id m)"
  proof (cases "map_of (gs_messages g) (evidence_node_id m)")
    case (Some e)
    from same [OF Some] show ?thesis by (simp only: Some option.case)
  qed simp
  then show ?thesis by (simp add: add_node_def with_node_def Let_def)
qed

lemma add_pair_coherent:
  assumes c: "coherent M ps" and o: "origins M ps g" and p: "p \<in> set ps" and inv: "graph_inv M qs g"
  shows "\<exists>g'. add_pair M g p = Some (Inr g') \<and> graph_inv M (qs @ [p]) g' \<and> origins M ps g'"
proof -
  let ?g1 = "with_node g (cp_left p)" and ?e = "edge_from_pair M p"
  let ?g2 = "with_node ?g1 (cp_right p)"
  have ends: "cp_left p \<in> endpoints ps" "cp_right p \<in> endpoints ps" using p by (auto simp: endpoints_def)
  have o1: "origins M ps ?g1" by (rule with_node_origins [OF o ends(1)])
  have o2: "origins M ps ?g2" by (rule with_node_origins [OF o1 ends(2)])
  have nodes: "run_fold add_node g [cp_left p, cp_right p] = Some (Inr ?g2)"
    using add_node_coherent [OF c o ends(1)] add_node_coherent [OF c o1 ends(2)] by simp
  have edge: "e = ?e" if h: "map_of (gs_edges ?g2) (ee_edge_id ?e) = Some e" for e
  proof -
    obtain p' where "p' \<in> set ps" "e = edge_from_pair M p'" "ee_edge_id e = ee_edge_id ?e"
      using map_of_SomeD [OF h] o2 by (auto simp: origins_def)
    then show ?thesis using c p unfolding coherent_def by metis
  qed
  have known: "\<not> (case map_of (gs_edges ?g2) (ee_edge_id ?e) of None \<Rightarrow> False | Some e \<Rightarrow> e \<noteq> ?e)"
  proof (cases "map_of (gs_edges ?g2) (ee_edge_id ?e)")
    case (Some e)
    from edge [OF Some] show ?thesis by (simp add: Some)
  qed simp
  let ?g3 = "?g2\<lparr>gs_edges := AList.update (ee_edge_id ?e) ?e (gs_edges ?g2)\<rparr>"
  have run: "add_pair M g p = run_bind (union_nodes (gs_parents ?g2) (ee_from ?e) (ee_to ?e)) (\<lambda>ps. Some (Inr (?g3\<lparr>gs_parents := ps\<rparr>)))"
    using nodes known by (simp add: add_pair_def Let_def)
  have "ee_edge_id e = k \<and> (\<exists>p \<in> set ps. e = edge_from_pair M p)"
    if "(k, e) \<in> set (AList.update (ee_edge_id ?e) ?e (gs_edges ?g2))" for k e
    using subsetD [OF update_entries that] o2 p by (auto simp: origins_def)
  then have o3: "origins M ps (?g3\<lparr>gs_parents := q\<rparr>)" for q
    using o2 by (auto simp: origins_def)
  from add_pair_step [OF inv, of p] show ?thesis
  proof
    assume "\<exists>g'. add_pair M g p = Some (Inr g') \<and> graph_inv M (qs @ [p]) g'"
    then obtain g' where g': "add_pair M g p = Some (Inr g')" "graph_inv M (qs @ [p]) g'" by blast
    then have "\<exists>q. g' = ?g3\<lparr>gs_parents := q\<rparr>"
      unfolding run by (auto simp: run_bind_def split: option.splits sum.splits)
    then show ?thesis using g' o3 by auto
  next
    assume "\<exists>e \<in> conflict_errors. add_pair M g p = Some (Inl e)"
    moreover have "dom (gs_parents ?g2) = pair_nodes (qs @ [p])" "forest (gs_parents ?g2)"
    proof -
      have n1: "nodes_inv M qs (insert (evidence_node_id (cp_left p)) (pair_nodes qs)) ?g1"
        by (rule with_node_inv) (use inv graph_inv_nodes in auto)
      have "nodes_inv M qs (insert (evidence_node_id (cp_right p)) (insert (evidence_node_id (cp_left p)) (pair_nodes qs))) ?g2"
        by (rule with_node_inv [OF n1]) blast
      then show "dom (gs_parents ?g2) = pair_nodes (qs @ [p])" "forest (gs_parents ?g2)"
        by (auto simp: nodes_inv_def pair_nodes_snoc)
    qed
    moreover have "ee_from ?e \<in> pair_nodes (qs @ [p])" "ee_to ?e \<in> pair_nodes (qs @ [p])"
      using edge_from_pair_shape(2) [of M p] by (auto simp: pair_nodes_snoc doubleton_eq_iff)
    ultimately have "\<exists>q. union_nodes (gs_parents ?g2) (ee_from ?e) (ee_to ?e) = Some (Inr q)"
      using union_returns [of "gs_parents ?g2" "ee_from ?e" "ee_to ?e"] by blast
    then show ?thesis using \<open>\<exists>e \<in> conflict_errors. add_pair M g p = Some (Inl e)\<close> run by auto
  qed
qed

lemma graph_built_coherent:
  assumes "coherent M ps"
  shows "\<exists>g. run_fold (add_pair M) \<lparr>gs_parents = Map.empty, gs_messages = [], gs_edges = []\<rparr> ps = Some (Inr g) \<and> graph_inv M ps g"
proof -
  have "\<exists>g. run_fold (add_pair M) \<lparr>gs_parents = Map.empty, gs_messages = [], gs_edges = []\<rparr> qs = Some (Inr g)
      \<and> graph_inv M qs g \<and> origins M ps g" if "set qs \<subseteq> set ps" for qs
    using that
  proof (induction qs rule: rev_induct)
    case Nil
    have "origins M ps \<lparr>gs_parents = Map.empty, gs_messages = [], gs_edges = []\<rparr>" by (simp add: origins_def)
    then show ?case using graph_built [of M "[]"] by auto
  next
    case (snoc p qs)
    then obtain g where g: "run_fold (add_pair M) \<lparr>gs_parents = Map.empty, gs_messages = [], gs_edges = []\<rparr> qs = Some (Inr g)"
      "graph_inv M qs g" "origins M ps g" by auto
    have "p \<in> set ps" using snoc.prems by simp
    from add_pair_coherent [OF assms g(3) this g(2)] show ?case by (auto simp: run_fold_snoc g(1))
  qed
  then show ?thesis by blast
qed

lemma coherent_returns:
  assumes "coherent M (cb_pairs b)" "1 \<le> limit" "limit \<le> 100"
  shows "\<exists>r. build_incident_candidates M b limit = Some (Inr r) \<and> cr_candidate_edges_truncated r = cb_truncated b"
proof -
  obtain g where "run_fold (add_pair M) \<lparr>gs_parents = Map.empty, gs_messages = [], gs_edges = []\<rparr> (cb_pairs b) = Some (Inr g)"
    "graph_inv M (cb_pairs b) g" using graph_built_coherent [OF assms(1)] by blast
  from build_candidates_from [OF assms(2,3) this] show ?thesis by auto
qed

text \<open>C22. Correlation always returns. For every batch and limit the union-find loops end and the only
exceptions are the limit check and the two conflict checks; no lookup of a parent and no \<open>min\<close> or \<open>max\<close>
of an empty component is ever reached.\<close>

theorem correlation_always_returns:
  "\<exists>r \<in> range Inr \<union> Inl ` ({ValueError ''incident limit must be between 1 and 100''} \<union> conflict_errors).
     build_incident_candidates M b limit = Some r"
proof (cases "1 \<le> limit \<and> limit \<le> 100")
  case True
  then show ?thesis using build_candidates [of limit M b] by auto
next
  case False
  then show ?thesis by (auto simp: build_incident_candidates_def)
qed

lemma distinct_concat_perm: "mset xs = mset ys \<Longrightarrow> distinct (concat (map f xs)) \<Longrightarrow> distinct (concat (map f ys))"
proof -
  assume "mset xs = mset ys" "distinct (concat (map f xs))"
  then have "mset (map (mset \<circ> f) xs) = mset (map (mset \<circ> f) ys)" by simp
  then have "mset (concat (map f xs)) = mset (concat (map f ys))"
    by (metis (no_types) map_map mset_concat sum_mset_sum_list)
  then show ?thesis using \<open>distinct (concat (map f xs))\<close> mset_eq_imp_distinct_iff by blast
qed

lemma component_edges_class:
  assumes "graph_inv M ps g" "set l = class_of ps n"
  shows "set (component_edges (gs_edges g) (sort l)) = edge_from_pair M ` {p \<in> set ps. evidence_node_id (cp_left p) \<in> set l}"
proof -
  have "(ee_from (edge_from_pair M p) \<in> set l \<and> ee_to (edge_from_pair M p) \<in> set l) \<longleftrightarrow> evidence_node_id (cp_left p) \<in> set l"
    if p: "p \<in> set ps" for p
  proof -
    have "(evidence_node_id (cp_left p), evidence_node_id (cp_right p)) \<in> pair_links ps" using p by (auto simp: pair_links_def)
    then have "(evidence_node_id (cp_left p), evidence_node_id (cp_right p)) \<in> connected (pair_links ps)"
      by (auto simp: connected_def)
    then have "evidence_node_id (cp_left p) \<in> set l \<longleftrightarrow> evidence_node_id (cp_right p) \<in> set l"
      unfolding assms(2) class_of_def using connected_trans connected_sym by blast
    then show ?thesis using edge_from_pair_shape(2) [of M p] by (auto simp: doubleton_eq_iff)
  qed
  moreover have "set (map snd (gs_edges g)) = edge_from_pair M ` set ps" using assms(1) by (simp add: graph_inv_def)
  ultimately show ?thesis unfolding component_edges_def by auto
qed

text \<open>C9. The incidents are the connected components of the pair graph. The node ids of each returned
incident are exactly one class of the reachability relation over the pairs, its edges are exactly those
of the pairs inside the class, no node is in two incidents, the total is the number of classes, and the
list returned is cut to the limit.\<close>

theorem incidents_are_components:
  assumes "build_incident_candidates M b limit = Some (Inr r)"
  shows "(\<forall>i \<in> set (cr_incidents r). \<exists>n \<in> pair_nodes (cb_pairs b). set (node_ids i) = class_of (cb_pairs b) n
      \<and> set (in_edges i) = edge_from_pair M ` {p \<in> set (cb_pairs b). evidence_node_id (cp_left p) \<in> set (node_ids i)})
    \<and> distinct (concat (map node_ids (cr_incidents r)))
    \<and> cr_total_incidents r = card (class_of (cb_pairs b) ` pair_nodes (cb_pairs b))
    \<and> length (cr_incidents r) = min (nat limit) (cr_total_incidents r)"
proof -
  let ?ps = "cb_pairs b"
  have "1 \<le> limit" "limit \<le> 100" using assms by (auto simp: build_incident_candidates_def split: if_splits)
  from build_candidates [OF this, of M b] assms obtain g cs out where g: "graph_inv M ?ps g"
    and cs: "grouped (gs_parents g) (sort (map fst (gs_messages g))) cs"
    and out: "list_all2 (incident_for g) (map snd cs) out"
    and r: "r = \<lparr>cr_incidents = take (nat limit) (rev (sort_key (\<lambda>i. (dt_us (in_latest_signal_at i), in_incident_id i)) (rev out))),
       cr_total_incidents = length out, cr_incidents_truncated = (limit < int (length out)),
       cr_candidate_edges_truncated = cb_truncated b\<rparr>"
    by auto
  have ns: "set (sort (map fst (gs_messages g))) = pair_nodes ?ps" "distinct (sort (map fst (gs_messages g)))"
    using g by (auto simp: graph_inv_def)
  note dis = groups_distinct [OF g cs ns]
  define ordered where "ordered = rev (sort_key (\<lambda>i. (dt_us (in_latest_signal_at i), in_incident_id i)) (rev out))"
  have perm: "mset ordered = mset out" by (simp add: ordered_def)
  have inc: "cr_incidents r = take (nat limit) ordered" "cr_total_incidents r = length out" by (simp_all add: r ordered_def)
  have len: "length out = length cs" "length ordered = length out" using list_all2_lengthD [OF out] perm by (auto dest: mset_eq_length)
  have comp: "\<exists>n \<in> pair_nodes ?ps. set (node_ids i) = class_of ?ps n
      \<and> set (in_edges i) = edge_from_pair M ` {p \<in> set ?ps. evidence_node_id (cp_left p) \<in> set (node_ids i)}"
    if i: "i \<in> set out" for i
  proof -
    obtain k where k: "k < length out" "out ! k = i" using i by (auto simp: in_set_conv_nth)
    then have for_i: "incident_for g (snd (cs ! k)) i" and mem: "cs ! k \<in> set cs"
      using list_all2_nthD2 [OF out k(1)] len(1) by simp_all
    have ne: "snd (cs ! k) \<noteq> []" using group_class(1) [OF g cs ns(1), of "fst (cs ! k)" "snd (cs ! k)"] mem by simp
    have "hd (snd (cs ! k)) \<in> set (snd (cs ! k))" using ne by simp
    then have cls: "hd (snd (cs ! k)) \<in> pair_nodes ?ps" "set (snd (cs ! k)) = class_of ?ps (hd (snd (cs ! k)))"
      using group_class(3) [OF g cs ns(1), of "fst (cs ! k)" "snd (cs ! k)"] mem by simp_all
    have ids: "set (node_ids i) = set (snd (cs ! k))" using for_i by (simp add: incident_for_def)
    have "set (in_edges i) = edge_from_pair M ` {p \<in> set ?ps. evidence_node_id (cp_left p) \<in> set (snd (cs ! k))}"
      using for_i component_edges_class [OF g cls(2)] by (simp add: incident_for_def)
    then show ?thesis using cls ids by metis
  qed
  have sub: "set (cr_incidents r) \<subseteq> set out" unfolding inc by (metis perm set_mset_mset set_take_subset)
  have "list_all2 (\<lambda>l i. mset (node_ids i) = mset l) (map snd cs) out"
    by (rule list_all2_mono [OF out]) (simp add: incident_for_def)
  then have "mset (concat (map node_ids out)) = mset (concat (map snd cs))"
    by (induction "map snd cs" out arbitrary: cs rule: list_all2_induct) auto
  then have "distinct (concat (map node_ids out))" using dis(1) mset_eq_imp_distinct_iff by blast
  then have "distinct (concat (map node_ids ordered))" using distinct_concat_perm perm by metis
  then have "distinct (concat (map node_ids (take (nat limit) ordered)))"
    by (metis append_take_drop_id concat_append distinct_append map_append)
  moreover have "length out = card (class_of ?ps ` pair_nodes ?ps)"
    using distinct_card [OF dis(2)] dis(3) len(1) by simp
  ultimately show ?thesis using comp sub inc len by auto
qed

text \<open>One pair, of an earthquake and a report.\<close>

definition sample_math :: math_api where
  "sample_math = \<lparr>mt_sha256 = (\<lambda>s. s), mt_sum = sum_list, mt_sin = (\<lambda>x. 0), mt_cos = (\<lambda>x. 1), mt_atan2 = (\<lambda>y x. 0),
     mt_hypot = (\<lambda>x y. \<bar>x\<bar>), mt_radians = (\<lambda>x. x), mt_degrees = (\<lambda>x. x)\<rparr>"

definition sample_node :: "string \<Rightarrow> string \<Rightarrow> message" where
  "sample_node src i = \<lparr>sm_stream_id = ''1-0'', sm_event = (sample_event i)\<lparr>se_source := src, se_location := None\<rparr>\<rparr>"

definition sample_pair_batch :: correlation_batch where
  "sample_pair_batch = \<lparr>cb_pairs = [\<lparr>cp_left = sample_node ''usgs'' ''1'', cp_right = sample_node ''gdelt'' ''2'',
     cp_distance_km = 0, cp_time_delta_minutes = 0, cp_left_basis = PointBasis, cp_right_basis = PointBasis\<rparr>],
     cb_truncated = False\<rparr>"

lemma sample_correlation:
  "(case build_incident_candidates sample_math sample_pair_batch 10 of Some (Inr r) \<Rightarrow> cr_total_incidents r = 1 | _ \<Rightarrow> False)"
  by code_simp

theorem incidents_are_components_witness:
  "\<exists>r. build_incident_candidates sample_math sample_pair_batch 10 = Some (Inr r)
    \<and> card (class_of (cb_pairs sample_pair_batch) ` pair_nodes (cb_pairs sample_pair_batch)) = 1 \<and> length (cr_incidents r) = 1"
proof -
  obtain r where r: "build_incident_candidates sample_math sample_pair_batch 10 = Some (Inr r)" "cr_total_incidents r = 1"
    using sample_correlation by (auto split: option.splits sum.splits)
  from incidents_are_components [OF r(1)] r show ?thesis by auto
qed

end
