(* ===== verification/CorrelationQuery.thy ===== *)
theory CorrelationQuery
  imports Projection Correlation
begin

text \<open>
  The query behind incident candidates (\<open>query_correlations\<close> of \<open>projections/postgres.py\<close>) over the
  tables of the projection, and its composition with the union-find of \<open>correlation.py\<close> as
  \<open>/v1/incidents\<close> composes them. The PostGIS functions, the text collation and the interval arithmetic
  of the database are arguments.
\<close>

section \<open>Column values\<close>

datatype db_value = DbInt int | DbFloat rat | DbDecimal rat | DbBool bool | DbText string | DbNull

definition number_from_database :: "string \<Rightarrow> db_value \<Rightarrow> rat res" where
  "number_from_database field v = (case v of
     DbInt i \<Rightarrow> Inr (fl (of_int i))
   | DbFloat x \<Rightarrow> Inr x
   | DbDecimal x \<Rightarrow> Inr (fl x)
   | _ \<Rightarrow> Inl (TypeError (field @ '' must be numeric'')))"

definition geometry_basis_from_database :: "db_value \<Rightarrow> geometry_basis res" where
  "geometry_basis_from_database v =
     (if v = DbText ''point'' then Inr PointBasis
      else if v = DbText ''polygon'' then Inr PolygonBasis
      else Inl (TypeError ''geometry basis must be point or polygon''))"

section \<open>The query\<close>

text \<open>\<open>pg_collate\<close> is the sort key of a text column; \<open>pg_minutes\<close> is the column
\<open>ABS(EXTRACT(EPOCH FROM ...)) / 60.0\<close> of a difference in microseconds.\<close>

record postgis =
  pg_intersects :: "geometry \<Rightarrow> geo_bounds \<Rightarrow> bool"
  pg_dwithin :: "geometry \<Rightarrow> geometry \<Rightarrow> rat \<Rightarrow> bool"
  pg_distance :: "geometry \<Rightarrow> geometry \<Rightarrow> rat"
  pg_minutes :: "int \<Rightarrow> db_value"
  pg_collate :: "string \<Rightarrow> string"

text \<open>\<open>COALESCE(footprint, point)\<close> and the basis it was taken from.\<close>

definition evidence_geometry :: "revision \<Rightarrow> geometry option" where
  "evidence_geometry r = (case rv_footprint r of
     Some g \<Rightarrow> Some (Footprint g) | None \<Rightarrow> map_option PointAt (rv_point r))"

definition basis_column :: "revision \<Rightarrow> db_value" where
  "basis_column r = (if rv_footprint r \<noteq> None then DbText ''polygon'' else DbText ''point'')"

definition current_rows :: "tables \<Rightarrow> revision list" where
  "current_rows t = concat (map (\<lambda>(k, sid, p).
     filter (\<lambda>r. rv_stream_id r = sid \<and> revision_key r = k) (tb_revisions t)) (tb_current t))"

text \<open>The conditions the statement puts on either side.\<close>

definition correlates :: "postgis \<Rightarrow> datetime \<Rightarrow> correlation_query \<Rightarrow> revision \<Rightarrow> bool" where
  "correlates P now q r \<longleftrightarrow>
     (case evidence_geometry r of None \<Rightarrow> False
      | Some g \<Rightarrow> (case cq_bounds q of None \<Rightarrow> True | Some b \<Rightarrow> pg_intersects P g b))
   \<and> dt_us now - cq_lookback_hours q * 3600000000 \<le> dt_us (rv_occurred r)
   \<and> (cq_active_only q \<longrightarrow> (case rv_expires r of None \<Rightarrow> True | Some e \<Rightarrow> dt_us now < dt_us e))"

text \<open>The join conditions between the sides.\<close>

definition joins :: "postgis \<Rightarrow> correlation_query \<Rightarrow> revision \<Rightarrow> revision \<Rightarrow> bool" where
  "joins P q l r \<longleftrightarrow> pg_collate P (rv_source l) < pg_collate P (rv_source r)
   \<and> dt_us (rv_occurred l) - cq_time_window_minutes q * 60 * 1000000 \<le> dt_us (rv_occurred r)
   \<and> dt_us (rv_occurred r) \<le> dt_us (rv_occurred l) + cq_time_window_minutes q * 60 * 1000000
   \<and> (case (evidence_geometry l, evidence_geometry r) of
        (Some a, Some b) \<Rightarrow> pg_dwithin P a b (fl (cq_radius_km q * 1000)) | _ \<Rightarrow> False)"

definition distance_column :: "postgis \<Rightarrow> revision \<Rightarrow> revision \<Rightarrow> rat" where
  "distance_column P l r = fl (pg_distance P (the (evidence_geometry l)) (the (evidence_geometry r)) / 1000)"

definition correlation_order :: "postgis \<Rightarrow> revision \<times> revision \<Rightarrow> int \<times> rat \<times> string \<times> string \<times> string \<times> string" where
  "correlation_order P lr = (case lr of (l, r) \<Rightarrow>
     (- max (dt_us (rv_occurred l)) (dt_us (rv_occurred r)), distance_column P l r,
      pg_collate P (rv_source l), pg_collate P (rv_event_id l),
      pg_collate P (rv_source r), pg_collate P (rv_event_id r)))"

definition correlation_rows :: "postgis \<Rightarrow> datetime \<Rightarrow> tables \<Rightarrow> correlation_query \<Rightarrow> (revision \<times> revision) list" where
  "correlation_rows P now t q = filter (\<lambda>(l, r). joins P q l r \<and> correlates P now q l \<and> correlates P now q r)
     (List.product (current_rows t) (current_rows t))"

definition pair_of_row :: "event_codec \<Rightarrow> postgis \<Rightarrow> revision \<times> revision \<Rightarrow> correlation_pair res" where
  "pair_of_row C P lr = (case lr of (l, r) \<Rightarrow>
     rbind (ec_load C (rv_json l)) (\<lambda>left_event.
     rbind (ec_load C (rv_json r)) (\<lambda>right_event.
     rbind (number_from_database ''distance_km'' (DbFloat (distance_column P l r))) (\<lambda>distance.
     rbind (number_from_database ''time_delta_minutes''
       (pg_minutes P \<bar>dt_us (rv_occurred l) - dt_us (rv_occurred r)\<bar>)) (\<lambda>minutes.
     rbind (geometry_basis_from_database (basis_column l)) (\<lambda>left_basis.
     rbind (geometry_basis_from_database (basis_column r)) (\<lambda>right_basis.
       validate_pair \<lparr>cp_left = \<lparr>sm_stream_id = rv_stream_id l, sm_event = left_event\<rparr>,
         cp_right = \<lparr>sm_stream_id = rv_stream_id r, sm_event = right_event\<rparr>,
         cp_distance_km = distance, cp_time_delta_minutes = minutes,
         cp_left_basis = left_basis, cp_right_basis = right_basis\<rparr>)))))))"

definition query_correlations ::
  "event_codec \<Rightarrow> postgis \<Rightarrow> datetime \<Rightarrow> tables \<Rightarrow> correlation_query \<Rightarrow> correlation_batch res" where
  "query_correlations C P now t q =
     (let limit = nat (cq_edge_limit q);
          rows = take (limit + 1) (sort_key (correlation_order P) (correlation_rows P now t q)) in
      rbind (rmap (pair_of_row C P) (take limit rows)) (\<lambda>pairs.
        Inr \<lparr>cb_pairs = pairs, cb_truncated = (limit < length rows)\<rparr>))"

text \<open>The incident endpoint: the query, then the candidates.\<close>

definition incident_candidates ::
  "math_api \<Rightarrow> event_codec \<Rightarrow> postgis \<Rightarrow> datetime \<Rightarrow> tables \<Rightarrow> correlation_query \<Rightarrow> int \<Rightarrow> correlation_result run" where
  "incident_candidates M C P now t q limit =
     run_bind (Some (validate_correlation_query q)) (\<lambda>q.
     run_bind (Some (query_correlations C P now t q)) (\<lambda>batch. build_incident_candidates M batch limit))"

section \<open>What the query relies on\<close>

text \<open>PostGIS distances and the minutes of a difference are non-negative numbers; a stored event decodes
to an event of the columns it was stored with.\<close>

definition postgis_laws :: "postgis \<Rightarrow> bool" where
  "postgis_laws P \<longleftrightarrow> (\<forall>a b. 0 \<le> pg_distance P a b)
     \<and> (\<forall>us \<ge> 0. \<exists>x \<ge> 0. pg_minutes P us = DbFloat x \<or> pg_minutes P us = DbDecimal x)"

definition decodes :: "event_codec \<Rightarrow> tables \<Rightarrow> bool" where
  "decodes C t \<longleftrightarrow> (\<forall>r \<in> set (tb_revisions t). \<exists>e. ec_load C (rv_json r) = Inr e
     \<and> se_source e = rv_source r \<and> se_id e = rv_event_id r)"

section \<open>The rows of the query\<close>

lemma current_rows_keys:
  assumes "tables_inv t"
  shows "map revision_key (current_rows t) = map fst (tb_current t)" "set (current_rows t) \<subseteq> set (tb_revisions t)"
proof -
  have ids: "distinct (map rv_stream_id (tb_revisions t))" using assms by (simp add: tables_inv_def)
  have one: "map revision_key (filter (\<lambda>r. rv_stream_id r = sid \<and> revision_key r = k) (tb_revisions t)) = [k]"
    if "(k, sid, p) \<in> set (tb_current t)" for k sid p
  proof -
    have "map_of (tb_current t) k = Some (sid, p)" using that assms by (auto simp: tables_inv_def)
    then obtain r where r: "r \<in> set (tb_revisions t)" "rv_stream_id r = sid" "revision_key r = k"
      using assms unfolding tables_inv_def by blast
    obtain xs ys where split: "tb_revisions t = xs @ r # ys" using split_list [OF r(1)] by blast
    have "\<forall>x \<in> set xs \<union> set ys. rv_stream_id x \<noteq> sid" using ids r(2) by (auto simp: split image_iff)
    then have "filter (\<lambda>r. rv_stream_id r = sid \<and> revision_key r = k) xs = []"
      "filter (\<lambda>r. rv_stream_id r = sid \<and> revision_key r = k) ys = []"
      by (simp_all add: filter_empty_conv)
    then show ?thesis using r(2,3) by (simp add: split)
  qed
  have "map revision_key (concat (map (\<lambda>(k, sid, p).
      filter (\<lambda>r. rv_stream_id r = sid \<and> revision_key r = k) (tb_revisions t)) rows)) = map fst rows"
    if "set rows \<subseteq> set (tb_current t)" for rows
    using that by (induction rows) (auto simp: one)
  then show "map revision_key (current_rows t) = map fst (tb_current t)" by (simp add: current_rows_def)
  show "set (current_rows t) \<subseteq> set (tb_revisions t)" by (auto simp: current_rows_def)
qed

lemma current_rows_distinct:
  assumes "tables_inv t"
  shows "distinct (current_rows t)" "inj_on revision_key (set (current_rows t))"
proof -
  have "distinct (map revision_key (current_rows t))"
    using assms by (simp add: current_rows_keys) (simp add: tables_inv_def)
  then show "distinct (current_rows t)" "inj_on revision_key (set (current_rows t))" by (simp_all add: distinct_map)
qed

lemma current_row_newest:
  assumes "tables_inv t" "r \<in> set (current_rows t)" "r' \<in> set (tb_revisions t)" "revision_key r' = revision_key r"
  shows "rv_position r' \<le> rv_position r"
proof -
  obtain k sid p where kp: "(k, sid, p) \<in> set (tb_current t)" "r \<in> set (tb_revisions t)" "rv_stream_id r = sid" "revision_key r = k"
    using assms(2) by (auto simp: current_rows_def)
  then have cur: "map_of (tb_current t) k = Some (sid, p)" using assms(1) by (auto simp: tables_inv_def)
  obtain q where q: "q \<in> set (tb_revisions t)" "rv_stream_id q = sid" "rv_position q = p"
    using assms(1) cur unfolding tables_inv_def by blast
  have "q = r" using q(1,2) kp(2,3) assms(1) by (auto simp: tables_inv_def dest: map_of_eq_Some_iff inj_onD [rotated] simp: distinct_map)
  then have "p = rv_position r" using q(3) by simp
  moreover obtain v where "map_of (tb_current t) (revision_key r') = Some v" "rv_position r' \<le> snd v"
    using assms(1,3) unfolding tables_inv_def by blast
  ultimately show ?thesis using cur kp(4) assms(4) by (metis option.inject snd_conv)
qed


lemma correlation_rows_set: "(l, r) \<in> set (correlation_rows P now t q) \<longleftrightarrow>
    l \<in> set (current_rows t) \<and> r \<in> set (current_rows t) \<and> joins P q l r \<and> correlates P now q l \<and> correlates P now q r"
  by (auto simp: correlation_rows_def)

lemma correlation_rows_distinct: "tables_inv t \<Longrightarrow> distinct (correlation_rows P now t q)"
  by (simp add: correlation_rows_def distinct_product current_rows_distinct)

definition message_of :: "event_codec \<Rightarrow> revision \<Rightarrow> message" where
  "message_of C r = \<lparr>sm_stream_id = rv_stream_id r,
     sm_event = (case ec_load C (rv_json r) of Inr e \<Rightarrow> e)\<rparr>"

lemma message_of_event: "decodes C t \<Longrightarrow> r \<in> set (tb_revisions t) \<Longrightarrow> ec_load C (rv_json r) = Inr (sm_event (message_of C r))
    \<and> se_source (sm_event (message_of C r)) = rv_source r \<and> se_id (sm_event (message_of C r)) = rv_event_id r"
  by (fastforce simp: decodes_def message_of_def)

text \<open>A row of the query makes a pair of its own two messages, whose checks pass.\<close>

lemma pair_of_row_ok:
  assumes "postgis_laws P" "decodes C t" "l \<in> set (tb_revisions t)" "r \<in> set (tb_revisions t)" "joins P q l r"
  shows "\<exists>p. pair_of_row C P (l, r) = Inr p \<and> cp_left p = message_of C l \<and> cp_right p = message_of C r"
proof -
  note ev = message_of_event [OF assms(2,3)] message_of_event [OF assms(2,4)]
  have ne: "rv_source l \<noteq> rv_source r" using assms(5) by (auto simp: joins_def)
  obtain x where x: "0 \<le> x" "pg_minutes P \<bar>dt_us (rv_occurred l) - dt_us (rv_occurred r)\<bar> = DbFloat x
      \<or> pg_minutes P \<bar>dt_us (rv_occurred l) - dt_us (rv_occurred r)\<bar> = DbDecimal x"
    using assms(1) abs_ge_zero unfolding postgis_laws_def by blast
  let ?minutes = "number_from_database ''time_delta_minutes'' (pg_minutes P \<bar>dt_us (rv_occurred l) - dt_us (rv_occurred r)\<bar>)"
  have "?minutes = Inr x \<or> ?minutes = Inr (fl x)" using x(2) by (auto simp: number_from_database_def)
  then obtain m where m: "0 \<le> m" "?minutes = Inr m" using x(1) fl_nonneg by blast
  have "0 \<le> distance_column P l r" using assms(1) by (simp add: distance_column_def postgis_laws_def fl_nonneg)
  then have d: "\<not> distance_column P l r < 0" "\<not> m < 0" using m(1) by simp_all
  have b: "\<exists>b. geometry_basis_from_database (basis_column s) = Inr b" for s
    by (simp add: geometry_basis_from_database_def basis_column_def)
  have load: "ec_load C (rv_json l) = Inr (sm_event (message_of C l))" "ec_load C (rv_json r) = Inr (sm_event (message_of C r))"
    using ev by simp_all
  have msg: "\<lparr>sm_stream_id = rv_stream_id s, sm_event = sm_event (message_of C s)\<rparr> = message_of C s" for s
    by (simp add: message_of_def)
  have dn: "number_from_database ''distance_km'' (DbFloat (distance_column P l r)) = Inr (distance_column P l r)"
    by (simp add: number_from_database_def)
  obtain bl br where bs: "geometry_basis_from_database (basis_column l) = Inr bl" "geometry_basis_from_database (basis_column r) = Inr br"
    using b by blast
  have src: "se_source (sm_event (message_of C l)) \<noteq> se_source (sm_event (message_of C r))" using ev ne by simp
  show ?thesis unfolding pair_of_row_def prod.case load rbind_simps dn m(2) bs msg
    by (simp add: validate_pair_def src d guard_simps)
qed

text \<open>The pairs of a batch, each with its row.\<close>

definition pair_row :: "event_codec \<Rightarrow> correlation_pair \<Rightarrow> revision \<times> revision \<Rightarrow> bool" where
  "pair_row C p lr \<longleftrightarrow> cp_left p = message_of C (fst lr) \<and> cp_right p = message_of C (snd lr)"

lemma query_correlations_rows:
  assumes inv: "tables_inv t" and laws: "postgis_laws P" "decodes C t"
  shows "\<exists>pairs. query_correlations C P now t q = Inr \<lparr>cb_pairs = pairs,
      cb_truncated = (nat (cq_edge_limit q) < length (correlation_rows P now t q))\<rparr>
    \<and> list_all2 (pair_row C) pairs (take (nat (cq_edge_limit q)) (sort_key (correlation_order P) (correlation_rows P now t q)))"
proof -
  let ?rows = "sort_key (correlation_order P) (correlation_rows P now t q)" and ?n = "nat (cq_edge_limit q)"
  have row: "\<exists>p. pair_of_row C P lr = Inr p \<and> pair_row C p lr" if "lr \<in> set (take ?n ?rows)" for lr
  proof -
    obtain l r where lr: "lr = (l, r)" by (cases lr)
    have "(l, r) \<in> set (correlation_rows P now t q)" using in_set_takeD [OF that] unfolding lr set_sort .
    then have lr': "l \<in> set (tb_revisions t)" "r \<in> set (tb_revisions t)" "joins P q l r"
      using current_rows_keys(2) [OF inv] by (simp_all only: correlation_rows_set subset_eq)
    show ?thesis using pair_of_row_ok [OF laws lr'] unfolding lr pair_row_def by simp
  qed
  have "\<exists>p. pair_of_row C P lr = Inr p" if "lr \<in> set (take ?n ?rows)" for lr
    using row [OF that] by blast
  then have "\<exists>pairs. rmap (pair_of_row C P) (take ?n ?rows) = Inr pairs" by (intro rmap_ok_iff [THEN iffD2] ballI)
  then obtain pairs where p: "rmap (pair_of_row C P) (take ?n ?rows) = Inr pairs" ..
  have "list_all2 (\<lambda>lr p. pair_of_row C P lr = Inr p) (take ?n ?rows) pairs" using p by (simp add: rmap_eq_Inr)
  then have "list_all2 (pair_row C) pairs (take ?n ?rows)"
    unfolding list_all2_conv_all_nth using row nth_mem by (metis Inr_inject)
  moreover have "(?n < length (take (?n + 1) ?rows)) = (?n < length (correlation_rows P now t q))" by auto
  moreover have "take ?n (take (?n + 1) ?rows) = take ?n ?rows" by (simp add: min_def)
  ultimately show ?thesis using p
    by (simp add: query_correlations_def Let_def)
qed


section \<open>The pairs\<close>

lemma pairs_in_rows:
  assumes "list_all2 (pair_row C) pairs (take n (sort_key f rows))" "p \<in> set pairs"
  shows "\<exists>l r. (l, r) \<in> set rows \<and> cp_left p = message_of C l \<and> cp_right p = message_of C r"
proof -
  obtain i where i: "i < length pairs" "pairs ! i = p" using assms(2) by (auto simp: in_set_conv_nth)
  let ?lr = "take n (sort_key f rows) ! i"
  have "i < length (take n (sort_key f rows))" using i(1) list_all2_lengthD [OF assms(1)] by simp
  then have "?lr \<in> set (take n (sort_key f rows))" by (rule nth_mem)
  then have "?lr \<in> set rows" by (metis in_set_takeD set_sort)
  moreover have "pair_row C p ?lr" using list_all2_nthD [OF assms(1) i(1)] i(2) by simp
  ultimately show ?thesis unfolding pair_row_def by (metis prod.collapse)
qed

lemma row_pair:
  assumes inv: "tables_inv t" and laws: "postgis_laws P" "decodes C t"
    and pairs: "list_all2 (pair_row C) pairs (take n (sort_key f (correlation_rows P now t q)))" "p \<in> set pairs"
  shows "\<exists>l r. {l, r} \<subseteq> set (tb_revisions t)
        \<and> cp_left p = message_of C l \<and> cp_right p = message_of C r
        \<and> se_source (sm_event (cp_left p)) \<noteq> se_source (sm_event (cp_right p))
        \<and> (\<forall>s \<in> {l, r}. correlates P now q s
            \<and> (\<forall>s' \<in> set (tb_revisions t). revision_key s' = revision_key s \<longrightarrow> rv_position s' \<le> rv_position s))
        \<and> \<bar>dt_us (rv_occurred l) - dt_us (rv_occurred r)\<bar> \<le> cq_time_window_minutes q * 60000000
        \<and> (\<exists>a b. evidence_geometry l = Some a \<and> evidence_geometry r = Some b
            \<and> pg_dwithin P a b (fl (cq_radius_km q * 1000)))"
proof -
  obtain l r where lr: "(l, r) \<in> set (correlation_rows P now t q)" "cp_left p = message_of C l" "cp_right p = message_of C r"
    using pairs_in_rows [OF pairs] by blast
  then have cur: "l \<in> set (current_rows t)" "r \<in> set (current_rows t)" and j: "joins P q l r"
    and c: "correlates P now q l" "correlates P now q r" unfolding correlation_rows_set by blast+
  then have rev: "l \<in> set (tb_revisions t)" "r \<in> set (tb_revisions t)" using current_rows_keys(2) [OF inv] by blast+
  have src: "se_source (sm_event (cp_left p)) \<noteq> se_source (sm_event (cp_right p))"
    using j message_of_event [OF laws(2) rev(1)] message_of_event [OF laws(2) rev(2)] lr(2,3) by (auto simp: joins_def)
  have near: "\<exists>a b. evidence_geometry l = Some a \<and> evidence_geometry r = Some b \<and> pg_dwithin P a b (fl (cq_radius_km q * 1000))"
    using j by (auto simp: joins_def split: option.splits)
  have window: "\<bar>dt_us (rv_occurred l) - dt_us (rv_occurred r)\<bar> \<le> cq_time_window_minutes q * 60000000"
    using j by (simp add: joins_def abs_le_iff)
  have newest: "\<forall>s \<in> {l, r}. correlates P now q s
            \<and> (\<forall>s' \<in> set (tb_revisions t). revision_key s' = revision_key s \<longrightarrow> rv_position s' \<le> rv_position s)"
    using c current_row_newest [OF inv cur(1)] current_row_newest [OF inv cur(2)] by blast
  show ?thesis using rev lr(2,3) src near window newest by blast
qed

lemma row_pairs_distinct:
  assumes inv: "tables_inv t"
    and pairs: "list_all2 (pair_row C) pairs (take n (sort_key f (correlation_rows P now t q)))"
  shows "distinct (map (\<lambda>p. {sm_stream_id (cp_left p), sm_stream_id (cp_right p)}) pairs)"
proof -
  let ?rows = "take n (sort_key f (correlation_rows P now t q))"
  have eq: "map (\<lambda>p. {sm_stream_id (cp_left p), sm_stream_id (cp_right p)}) pairs
      = map (\<lambda>lr. {rv_stream_id (fst lr), rv_stream_id (snd lr)}) ?rows"
    using pairs by (auto simp: list_all2_conv_all_nth pair_row_def message_of_def intro!: nth_equalityI)
  have "inj_on (\<lambda>lr. {rv_stream_id (fst lr), rv_stream_id (snd lr)}) (set (correlation_rows P now t q))"
  proof (rule inj_onI)
    fix x y assume x: "x \<in> set (correlation_rows P now t q)" and y: "y \<in> set (correlation_rows P now t q)"
      and e: "{rv_stream_id (fst x), rv_stream_id (snd x)} = {rv_stream_id (fst y), rv_stream_id (snd y)}"
    obtain l r l' r' where xy: "x = (l, r)" "y = (l', r')" by (cases x; cases y)
    have j: "joins P q l r" "joins P q l' r'" using x y by (simp_all add: xy correlation_rows_set)
    have "inj_on rv_stream_id (set (tb_revisions t))" using inv by (simp add: tables_inv_def distinct_map)
    then have inj: "inj_on rv_stream_id (set (current_rows t))" using current_rows_keys(2) [OF inv] inj_on_subset by blast
    have m: "l \<in> set (current_rows t)" "r \<in> set (current_rows t)" "l' \<in> set (current_rows t)" "r' \<in> set (current_rows t)"
      using x y by (simp_all add: xy correlation_rows_set)
    have "(l = l' \<and> r = r') \<or> (l = r' \<and> r = l')"
      using e inj_onD [OF inj] m unfolding xy fst_conv snd_conv doubleton_eq_iff by blast
    then show "x = y" using j by (auto simp: xy joins_def)
  qed
  moreover have "distinct ?rows" using correlation_rows_distinct [OF inv] by simp
  moreover have "set ?rows \<subseteq> set (correlation_rows P now t q)" using set_take_subset by fastforce
  ultimately show ?thesis unfolding eq by (meson distinct_map inj_on_subset)
qed

text \<open>C11. What the correlation query returns. Over tables any run of the projection can reach, the
query raises nothing and gives at most \<open>edge_limit\<close> pairs, flagged as truncated exactly when more rows
match; each pair is of two different sources, either side is the newest stored revision of its signal,
recent and located as the query asks, and the two are within its time window and radius; no two
positions of the batch hold the same two revisions, in either order.\<close>

theorem correlation_pairs_are_current:
  assumes reach: "tables_reachable C geojson_ok t" and laws: "postgis_laws P" "decodes C t"
    and q: "validate_correlation_query q = Inr q"
  shows "\<exists>batch. query_correlations C P now t q = Inr batch
    \<and> int (length (cb_pairs batch)) \<le> cq_edge_limit q
    \<and> (cb_truncated batch \<longleftrightarrow> cq_edge_limit q < int (length (correlation_rows P now t q)))
    \<and> (\<forall>p \<in> set (cb_pairs batch). \<exists>l r. {l, r} \<subseteq> set (tb_revisions t)
        \<and> cp_left p = message_of C l \<and> cp_right p = message_of C r
        \<and> se_source (sm_event (cp_left p)) \<noteq> se_source (sm_event (cp_right p))
        \<and> (\<forall>s \<in> {l, r}. correlates P now q s
            \<and> (\<forall>s' \<in> set (tb_revisions t). revision_key s' = revision_key s \<longrightarrow> rv_position s' \<le> rv_position s))
        \<and> \<bar>dt_us (rv_occurred l) - dt_us (rv_occurred r)\<bar> \<le> cq_time_window_minutes q * 60000000
        \<and> (\<exists>a b. evidence_geometry l = Some a \<and> evidence_geometry r = Some b
            \<and> pg_dwithin P a b (fl (cq_radius_km q * 1000))))
    \<and> distinct (map (\<lambda>p. {sm_stream_id (cp_left p), sm_stream_id (cp_right p)}) (cb_pairs batch))"
proof -
  have inv: "tables_inv t" using reach by (rule tables_reachable_inv)
  let ?rows = "correlation_rows P now t q" and ?n = "nat (cq_edge_limit q)"
  have n: "1 \<le> cq_edge_limit q" using q by (auto simp: validate_correlation_query_def guard_simps)
  obtain pairs where pairs: "query_correlations C P now t q = Inr \<lparr>cb_pairs = pairs, cb_truncated = (?n < length ?rows)\<rparr>"
    "list_all2 (pair_row C) pairs (take ?n (sort_key (correlation_order P) ?rows))"
    using query_correlations_rows [OF inv laws, of now q] by blast
  have each: "\<exists>l r. {l, r} \<subseteq> set (tb_revisions t)
        \<and> cp_left p = message_of C l \<and> cp_right p = message_of C r
        \<and> se_source (sm_event (cp_left p)) \<noteq> se_source (sm_event (cp_right p))
        \<and> (\<forall>s \<in> {l, r}. correlates P now q s
            \<and> (\<forall>s' \<in> set (tb_revisions t). revision_key s' = revision_key s \<longrightarrow> rv_position s' \<le> rv_position s))
        \<and> \<bar>dt_us (rv_occurred l) - dt_us (rv_occurred r)\<bar> \<le> cq_time_window_minutes q * 60000000
        \<and> (\<exists>a b. evidence_geometry l = Some a \<and> evidence_geometry r = Some b
            \<and> pg_dwithin P a b (fl (cq_radius_km q * 1000)))" if p: "p \<in> set pairs" for p
    by (rule row_pair [OF inv laws pairs(2) p])
  have "distinct (map (\<lambda>p. {sm_stream_id (cp_left p), sm_stream_id (cp_right p)}) pairs)"
    by (rule row_pairs_distinct [OF inv pairs(2)])
  moreover have "length pairs \<le> ?n" using list_all2_lengthD [OF pairs(2)] by simp
  ultimately show ?thesis using pairs(1) each n by (auto simp: nat_less_iff)
qed


section \<open>No conflict reaches the endpoint\<close>

definition node_text :: "revision \<Rightarrow> string" where
  "node_text r = rv_source r @ '':'' @ rv_event_id r"

lemma node_text_key:
  assumes "CHR '':'' \<notin> set (rv_source r)" "CHR '':'' \<notin> set (rv_source s)" "node_text r = node_text s"
  shows "revision_key r = revision_key s"
proof -
  have "takeWhile (\<lambda>c. c \<noteq> CHR '':'') (node_text x) = rv_source x" if "CHR '':'' \<notin> set (rv_source x)" for x
    unfolding node_text_def using that by (subst takeWhile_append2) auto
  then have "rv_source r = rv_source s" using assms by metis
  then show ?thesis using assms(3) by (simp add: node_text_def revision_key_def)
qed

text \<open>Truncated SHA-256 does not collide on the edges between stored signals, and no source name holds a
colon.\<close>

definition edge_ids_unique :: "math_api \<Rightarrow> tables \<Rightarrow> bool" where
  "edge_ids_unique M t \<longleftrightarrow> inj_on (content_id M ''edge'')
     ((\<lambda>(a, b). [node_text a, node_text b]) ` (set (tb_revisions t) \<times> set (tb_revisions t)))"

definition plain_sources :: "tables \<Rightarrow> bool" where
  "plain_sources t \<longleftrightarrow> list_all (\<lambda>r. CHR '':'' \<notin> set (rv_source r)) (tb_revisions t)"

lemma evidence_node_text:
  "decodes C t \<Longrightarrow> r \<in> set (tb_revisions t) \<Longrightarrow> evidence_node_id (message_of C r) = node_text r"
  using message_of_event [of C t r] by (simp add: evidence_node_id_def node_text_def)

lemma node_text_current:
  assumes "tables_inv t" "plain_sources t" "r \<in> set (current_rows t)" "s \<in> set (current_rows t)" "node_text r = node_text s"
  shows "r = s"
proof -
  have "CHR '':'' \<notin> set (rv_source r)" "CHR '':'' \<notin> set (rv_source s)"
    using assms(2-4) current_rows_keys(2) [OF assms(1)] by (auto simp: plain_sources_def list_all_iff)
  then have "revision_key r = revision_key s" using assms(5) node_text_key by blast
  then show ?thesis using current_rows_distinct(2) [OF assms(1)] assms(3,4) by (simp add: inj_on_eq_iff)
qed

lemma query_coherent:
  assumes inv: "tables_inv t" and laws: "postgis_laws P" "decodes C t" and names: "plain_sources t" "edge_ids_unique M t"
    and query: "query_correlations C P now t q = Inr batch"
  shows "coherent M (cb_pairs batch)"
proof -
  let ?rows = "correlation_rows P now t q" and ?n = "nat (cq_edge_limit q)"
  have pairs: "list_all2 (pair_row C) (cb_pairs batch) (take ?n (sort_key (correlation_order P) ?rows))"
    using query_correlations_rows [OF inv laws, of now q] query by auto
  have convert: "rmap (pair_of_row C P) (take ?n (sort_key (correlation_order P) ?rows)) = Inr (cb_pairs batch)"
    using query by (auto simp: query_correlations_def Let_def min_def)
  have row: "\<exists>l r. pair_of_row C P (l, r) = Inr p \<and> l \<in> set (current_rows t) \<and> r \<in> set (current_rows t) \<and> joins P q l r
      \<and> cp_left p = message_of C l \<and> cp_right p = message_of C r" if p: "p \<in> set (cb_pairs batch)" for p
  proof -
    obtain i where i: "i < length (cb_pairs batch)" "cb_pairs batch ! i = p" using p by (auto simp: in_set_conv_nth)
    let ?lr = "take ?n (sort_key (correlation_order P) ?rows) ! i"
    have conv: "list_all2 (\<lambda>lr p. pair_of_row C P lr = Inr p) (take ?n (sort_key (correlation_order P) ?rows)) (cb_pairs batch)"
      using convert by (simp add: rmap_eq_Inr)
    have len: "i < length (take ?n (sort_key (correlation_order P) ?rows))" using i(1) list_all2_lengthD [OF pairs] by simp
    have "?lr \<in> set (take ?n (sort_key (correlation_order P) ?rows))" using len by (rule nth_mem)
    then have mem: "?lr \<in> set ?rows" by (metis in_set_takeD set_sort)
    obtain l r where lr: "?lr = (l, r)" by (cases ?lr)
    have "pair_of_row C P (l, r) = Inr p" using list_all2_nthD [OF conv len] i(2) by (simp add: lr)
    moreover have "cp_left p = message_of C l" "cp_right p = message_of C r"
      using list_all2_nthD [OF pairs i(1)] i(2) by (simp_all add: lr pair_row_def)
    moreover have "l \<in> set (current_rows t)" "r \<in> set (current_rows t)" "joins P q l r"
      using mem by (simp_all only: lr correlation_rows_set)
    ultimately show ?thesis by blast
  qed
  have txt_id: "evidence_node_id (message_of C r) = node_text r" if "r \<in> set (current_rows t)" for r
    by (rule evidence_node_text [OF laws(2)]) (use that current_rows_keys(2) [OF inv] in blast)
  have nodes: "sm_stream_id m = sm_stream_id m'"
    if m: "m \<in> endpoints (cb_pairs batch)" "m' \<in> endpoints (cb_pairs batch)" "evidence_node_id m = evidence_node_id m'" for m m'
  proof -
    have "\<exists>r \<in> set (current_rows t). x = message_of C r" if "x \<in> endpoints (cb_pairs batch)" for x
      using that row by (force simp: endpoints_def)
    then obtain r r' where r: "r \<in> set (current_rows t)" "m = message_of C r" "r' \<in> set (current_rows t)" "m' = message_of C r'"
      using m(1,2) by blast
    then have "node_text r = node_text r'" using m(3) txt_id by metis
    then show ?thesis using node_text_current [OF inv names(1) r(1,3)] r(2,4) by simp
  qed
  have edges: "edge_from_pair M p = edge_from_pair M p'"
    if p: "p \<in> set (cb_pairs batch)" "p' \<in> set (cb_pairs batch)" "ee_edge_id (edge_from_pair M p) = ee_edge_id (edge_from_pair M p')" for p p'
  proof -
    obtain l r where lr: "pair_of_row C P (l, r) = Inr p" "l \<in> set (current_rows t)" "r \<in> set (current_rows t)" "joins P q l r"
      "cp_left p = message_of C l" "cp_right p = message_of C r" using row [OF p(1)] by blast
    obtain l' r' where lr': "pair_of_row C P (l', r') = Inr p'" "l' \<in> set (current_rows t)" "r' \<in> set (current_rows t)" "joins P q l' r'"
      "cp_left p' = message_of C l'" "cp_right p' = message_of C r'" using row [OF p(2)] by blast
    have ends: "\<exists>a b. [ee_from (edge_from_pair M x), ee_to (edge_from_pair M x)] = [node_text a, node_text b] \<and> {a, b} = {l, r}"
      if "l \<in> set (current_rows t)" "r \<in> set (current_rows t)" "cp_left x = message_of C l" "cp_right x = message_of C r" for x l r
      using edge_from_pair_shape(2) [of M x] that txt_id by (auto simp: doubleton_eq_iff)
    obtain a b where ab: "[ee_from (edge_from_pair M p), ee_to (edge_from_pair M p)] = [node_text a, node_text b]" "{a, b} = {l, r}"
      using ends [OF lr(2,3,5,6)] by blast
    obtain a' b' where ab': "[ee_from (edge_from_pair M p'), ee_to (edge_from_pair M p')] = [node_text a', node_text b']" "{a', b'} = {l', r'}"
      using ends [OF lr'(2,3,5,6)] by blast
    have "{a, b} \<subseteq> set (current_rows t)" "{a', b'} \<subseteq> set (current_rows t)"
      unfolding ab(2) ab'(2) using lr(2,3) lr'(2,3) by blast+
    then have cur: "{a, b, a', b'} \<subseteq> set (current_rows t)" by blast
    then have rev: "{a, b, a', b'} \<subseteq> set (tb_revisions t)" using current_rows_keys(2) [OF inv] by blast
    have "content_id M ''edge'' [node_text a, node_text b] = content_id M ''edge'' [node_text a', node_text b']"
      using p(3) unfolding edge_from_pair_shape(1) ab(1) ab'(1) .
    moreover have "[node_text a, node_text b] \<in> (\<lambda>(a, b). [node_text a, node_text b]) ` (set (tb_revisions t) \<times> set (tb_revisions t))"
      "[node_text a', node_text b'] \<in> (\<lambda>(a, b). [node_text a, node_text b]) ` (set (tb_revisions t) \<times> set (tb_revisions t))"
      using rev by auto
    ultimately have "[node_text a, node_text b] = [node_text a', node_text b']"
      using names(2) unfolding edge_ids_unique_def by (meson inj_onD)
    then have "a = a'" "b = b'" using node_text_current [OF inv names(1)] cur by auto
    then have "(l = l' \<and> r = r') \<or> (l = r' \<and> r = l')" using ab(2) ab'(2) by (auto simp: doubleton_eq_iff)
    moreover have "\<not> (l = r' \<and> r = l')" using lr(4) lr'(4) by (auto simp: joins_def)
    ultimately show ?thesis using lr(1) lr'(1) by auto
  qed
  show ?thesis unfolding coherent_def using nodes edges by blast
qed

text \<open>C10. Incident candidates never fail on current signals. Over tables any run of the projection can
reach, a valid query followed by the union-find returns a result: neither conflict check, of a node with
two revisions or of an edge with two measurements, ever fires, and the truncation of the query is passed
on. This rests on source names without a colon and on edge ids that do not collide.\<close>

theorem incident_candidates_succeed:
  assumes "tables_reachable C geojson_ok t" "postgis_laws P" "decodes C t" "plain_sources t" "edge_ids_unique M t"
    and q: "validate_correlation_query q = Inr q" and limit: "1 \<le> limit" "limit \<le> 100"
  shows "\<exists>r. incident_candidates M C P now t q limit = Some (Inr r)
    \<and> (cr_candidate_edges_truncated r \<longleftrightarrow> cq_edge_limit q < int (length (correlation_rows P now t q)))"
proof -
  have inv: "tables_inv t" using assms(1) by (rule tables_reachable_inv)
  have n: "1 \<le> cq_edge_limit q" using q by (auto simp: validate_correlation_query_def guard_simps)
  obtain batch where batch: "query_correlations C P now t q = Inr batch"
    "cb_truncated batch = (nat (cq_edge_limit q) < length (correlation_rows P now t q))"
    using query_correlations_rows [OF inv assms(2,3), of now q] by auto
  from coherent_returns [OF query_coherent [OF inv assms(2-5) batch(1)] limit] batch n show ?thesis
    by (auto simp: incident_candidates_def q nat_less_iff)
qed

section \<open>A sample\<close>

text \<open>An earthquake and a report at one place, an hour apart.\<close>

definition sample_pair_codec :: event_codec where
  "sample_pair_codec = sample_event_codec\<lparr>ec_dump := se_source,
     ec_load := (\<lambda>s. Inr ((sample_event ''1'')\<lparr>se_source := s\<rparr>))\<rparr>"

definition sample_postgis :: postgis where
  "sample_postgis = \<lparr>pg_intersects = (\<lambda>g b. True), pg_dwithin = (\<lambda>a b x. True), pg_distance = (\<lambda>a b. 0),
     pg_minutes = (\<lambda>us. DbFloat (of_int us / 60000000)), pg_collate = (\<lambda>s. s)\<rparr>"

definition sample_pair_messages :: "message list" where
  "sample_pair_messages = [\<lparr>sm_stream_id = ''1-0'', sm_event = sample_event ''1''\<rparr>,
     \<lparr>sm_stream_id = ''2-0'', sm_event = (sample_event ''1'')\<lparr>se_source := ''gdelt''\<rparr>\<rparr>]"

definition sample_revision :: "string \<Rightarrow> nat \<Rightarrow> string \<Rightarrow> revision" where
  "sample_revision sid n source = \<lparr>rv_stream_id = sid, rv_position = (n, 0), rv_source = source, rv_event_id = ''1'',
      rv_type = ''earthquake'', rv_occurred = utc 0, rv_ingested = utc 0, rv_json = source, rv_point = Some (10, 20),
      rv_footprint = None, rv_severity = Some 2, rv_magnitude = None, rv_expires = None, rv_place = None, rv_title = None\<rparr>"

definition sample_pair_tables :: tables where
  "sample_pair_tables = \<lparr>tb_revisions = [sample_revision ''1-0'' 1 ''usgs'', sample_revision ''2-0'' 2 ''gdelt''],
     tb_current = [((''usgs'', ''1''), ''1-0'', 1, 0), ((''gdelt'', ''1''), ''2-0'', 2, 0)],
     tb_checkpoints = [(''signals'', ''2-0'', 2, 0)]\<rparr>"

definition sample_correlation_query :: correlation_query where
  "sample_correlation_query = \<lparr>cq_radius_km = 50, cq_time_window_minutes = 360, cq_lookback_hours = 24, cq_edge_limit = 1,
     cq_bounds = None, cq_active_only = True\<rparr>"

definition sample_sha :: math_api where
  "sample_sha = sample_math\<lparr>mt_sha256 := drop 18\<rparr>"

lemma sample_stream_ids: "decimal_position ''1-0'' = Some (1, 0)" "decimal_position ''2-0'' = Some (2, 0)"
  by code_simp+

lemma sample_pair_project:
  "project sample_pair_codec (\<lambda>_. True) ''signals'' sample_pair_messages empty_tables = (sample_pair_tables, Inr ())"
proof -
  have vals: "rmap (projection_values sample_pair_codec) sample_pair_messages
      = Inr [sample_revision ''1-0'' 1 ''usgs'', sample_revision ''2-0'' 2 ''gdelt'']"
    by (simp add: sample_pair_messages_def projection_values_def parse_stream_id_def sample_stream_ids sample_event_def
      sample_pair_codec_def sample_event_codec_def sample_revision_def footprint_json_def
      payload_integer_def payload_number_def payload_datetime_def payload_text_def Let_def)
  have ids: "rmap (\<lambda>m. parse_stream_id (sm_stream_id m)) sample_pair_messages = Inr [(1, 0), (2, 0)]"
    by (simp add: sample_pair_messages_def parse_stream_id_def sample_stream_ids)
  have "sorted [(1::nat, 0::nat), (2, 0)]" "distinct [(1::nat, 0::nat), (2, 0)]" by (simp_all add: less_eq_prod_def)
  moreover have "sample_pair_messages \<noteq> []" "sm_stream_id (last sample_pair_messages) = ''2-0''"
    by (simp_all add: sample_pair_messages_def)
  ultimately show ?thesis
    unfolding project_Inr using vals ids
    by (simp add: revision_admissible_def sample_revision_def references_ok_def insert_revision_def revision_key_def
      empty_tables_def committed_def sample_pair_tables_def)
qed

lemma sample_pair_reachable: "tables_reachable sample_pair_codec (\<lambda>_. True) sample_pair_tables"
  by (rule tables_reachable.project [OF tables_reachable.empty sample_pair_project])

lemma sample_pair_rows: "length (correlation_rows sample_postgis (utc 0) sample_pair_tables sample_correlation_query) = 1"
proof -
  have "''gdelt'' < ''usgs''" by code_simp
  then show ?thesis
    by (simp add: correlation_rows_def current_rows_def sample_pair_tables_def sample_revision_def revision_key_def
      joins_def correlates_def evidence_geometry_def sample_postgis_def sample_correlation_query_def order.asym)
qed

lemma sample_pair_laws: "postgis_laws sample_postgis" "decodes sample_pair_codec sample_pair_tables"
  "plain_sources sample_pair_tables" "validate_correlation_query sample_correlation_query = Inr sample_correlation_query"
proof -
  show "postgis_laws sample_postgis"
    unfolding postgis_laws_def sample_postgis_def
    by (intro conjI allI impI exI [of _ "of_int us / 60000000" for us]) simp_all
  show "decodes sample_pair_codec sample_pair_tables"
    by (simp add: decodes_def sample_pair_codec_def sample_pair_tables_def sample_revision_def sample_event_def)
  show "plain_sources sample_pair_tables" by (simp add: plain_sources_def sample_pair_tables_def sample_revision_def)
  show "validate_correlation_query sample_correlation_query = Inr sample_correlation_query" by code_simp
qed

lemma sample_edge_ids: "edge_ids_unique sample_sha sample_pair_tables"
proof -
  have "content_id sample_sha ''edge'' [x, y] = ''edge-'' @ x @ newline @ y" if "length x + length y < 20" for x y
    using that by (simp add: content_id_def sample_sha_def sample_math_def correlation_rule_version_def newline_def)
  then show ?thesis
    by (auto simp: edge_ids_unique_def inj_on_def sample_pair_tables_def sample_revision_def node_text_def newline_def)
qed

theorem correlation_pairs_are_current_witness:
  "\<exists>batch. query_correlations sample_pair_codec sample_postgis (utc 0) sample_pair_tables sample_correlation_query = Inr batch
    \<and> int (length (cb_pairs batch)) \<le> 1 \<and> \<not> cb_truncated batch"
  using correlation_pairs_are_current [OF sample_pair_reachable sample_pair_laws(1,2,4), of "utc 0"] sample_pair_rows
  by (auto simp: sample_correlation_query_def)

theorem incident_candidates_succeed_witness:
  "\<exists>r. incident_candidates sample_sha sample_pair_codec sample_postgis (utc 0) sample_pair_tables sample_correlation_query 10 = Some (Inr r)
    \<and> \<not> cr_candidate_edges_truncated r"
  using incident_candidates_succeed [OF sample_pair_reachable sample_pair_laws(1-3) sample_edge_ids sample_pair_laws(4),
      of 10 "utc 0"] sample_pair_rows
  by (auto simp: sample_correlation_query_def)

end
