(* ===== verification/Indexing.thy ===== *)
theory Indexing
  imports Retrieval
begin

text \<open>
  The retrieval index: the embedding provider (\<open>retrieval/embedding.py\<close>), the document table and its two
  statements (\<open>retrieval/postgres.py\<close> and its migration), the indexing cycle (\<open>RetrievalIndexerService\<close> of
  \<open>retrieval/service.py\<close>) and the candidate queries that search composes with. The vector model, the
  PostgreSQL functions, the event codec and the text of a vector component are arguments.
\<close>

section \<open>The embedding provider\<close>

record vector_model =
  vm_size :: int
  vm_passages :: "string list \<Rightarrow> embedding list res"
  vm_queries :: "string list \<Rightarrow> embedding list res"

text \<open>\<open>pv_model\<close> is the model once it is loaded; loading, the float sum and the square root are arguments.\<close>

record provider =
  pv_name :: string
  pv_dimensions :: int
  pv_model :: "vector_model option"

record float_api =
  fa_sum :: "rat list \<Rightarrow> rat"
  fa_sqrt :: "rat \<Rightarrow> rat"

definition create_model :: "vector_model res \<Rightarrow> provider \<Rightarrow> vector_model res" where
  "create_model factory p = rbind factory (\<lambda>model.
     if vm_size model \<noteq> pv_dimensions p
     then Inl (ValueError (''embedding model exposes '' @ int_text (vm_size model) @ '' dimensions; expected '' @ int_text (pv_dimensions p)))
     else Inr model)"

definition loaded_model :: "vector_model res \<Rightarrow> provider \<Rightarrow> provider \<times> vector_model res" where
  "loaded_model factory p = (case pv_model p of
     Some model \<Rightarrow> (p, Inr model)
   | None \<Rightarrow> (case create_model factory p of
       Inl e \<Rightarrow> (p, Inl e)
     | Inr model \<Rightarrow> (p\<lparr>pv_model := Some model\<rparr>, Inr model)))"

text \<open>Components are finite by their type.\<close>

definition validated_vector :: "float_api \<Rightarrow> provider \<Rightarrow> embedding \<Rightarrow> embedding res" where
  "validated_vector F p vector =
     (if int (length vector) \<noteq> pv_dimensions p
      then Inl (ValueError (''embedding has '' @ int_text (int (length vector)) @ '' dimensions; expected '' @ int_text (pv_dimensions p)))
      else let norm = fa_sqrt F (fa_sum F (map (\<lambda>v. fl (v * v)) vector)) in
        if norm = 0 then Inl (ValueError ''embedding must not be the zero vector'')
        else Inr (map (\<lambda>v. fl (v / norm)) vector))"

definition embed_documents :: "vector_model res \<Rightarrow> float_api \<Rightarrow> string list \<Rightarrow> provider \<Rightarrow> provider \<times> embedding list res" where
  "embed_documents factory F texts p =
     (if texts = [] then (p, Inr [])
      else case loaded_model factory p of
        (p', Inl e) \<Rightarrow> (p', Inl e)
      | (p', Inr model) \<Rightarrow> (p', rbind (vm_passages model texts) (\<lambda>raw.
          rbind (rmap (validated_vector F p') raw) (\<lambda>vectors.
            if length vectors \<noteq> length texts
            then Inl (RuntimeError ''embedding model returned a different number of vectors'')
            else Inr vectors))))"

definition embed_query :: "vector_model res \<Rightarrow> float_api \<Rightarrow> string \<Rightarrow> provider \<Rightarrow> provider \<times> embedding res" where
  "embed_query factory F t p =
     (case loaded_model factory p of
        (p', Inl e) \<Rightarrow> (p', Inl e)
      | (p', Inr model) \<Rightarrow> (p', rbind (vm_queries model [t]) (\<lambda>vectors.
          case vectors of [v] \<Rightarrow> validated_vector F p' v
          | _ \<Rightarrow> Inl (RuntimeError ''embedding model did not return exactly one query vector''))))"

text \<open>The provider as search and indexing see it. Whether the model was loaded before makes no difference.\<close>

definition provider_embedder :: "vector_model res \<Rightarrow> float_api \<Rightarrow> provider \<Rightarrow> embedder" where
  "provider_embedder factory F p = \<lparr>em_model = pv_name p, em_query = \<lambda>t. snd (embed_query factory F t p),
     em_documents = \<lambda>ts. snd (embed_documents factory F ts p)\<rparr>"

definition provider_ok :: "vector_model res \<Rightarrow> provider \<Rightarrow> bool" where
  "provider_ok factory p \<longleftrightarrow> (\<forall>model. pv_model p = Some model \<longrightarrow> create_model factory p = Inr model)"

lemma loaded_model_eq:
  assumes "provider_ok factory p"
  shows "\<exists>p'. loaded_model factory p = (p', create_model factory p) \<and> pv_name p' = pv_name p
    \<and> pv_dimensions p' = pv_dimensions p \<and> provider_ok factory p'"
proof (cases "pv_model p")
  case None
  have "create_model factory (p\<lparr>pv_model := Some m\<rparr>) = create_model factory p" for m by (simp add: create_model_def cong: if_cong)
  then show ?thesis
    using assms None by (cases "create_model factory p") (simp_all add: loaded_model_def provider_ok_def)
next
  case (Some m)
  then show ?thesis
    using assms by (simp add: loaded_model_def provider_ok_def)
qed

lemma validated_vector_provider: "pv_dimensions p' = pv_dimensions p \<Longrightarrow> validated_vector F p' = validated_vector F p"
  by (rule ext) (simp add: validated_vector_def)

lemma embed_documents_cases:
  assumes "provider_ok factory p"
  shows "snd (embed_documents factory F texts p) = (if texts = [] then Inr []
      else rbind (create_model factory p) (\<lambda>model. rbind (vm_passages model texts) (\<lambda>raw.
        rbind (rmap (validated_vector F p) raw) (\<lambda>vectors.
          if length vectors \<noteq> length texts
          then Inl (RuntimeError ''embedding model returned a different number of vectors'') else Inr vectors))))" (is ?A)
    "pv_name (fst (embed_documents factory F texts p)) = pv_name p
     \<and> pv_dimensions (fst (embed_documents factory F texts p)) = pv_dimensions p
     \<and> provider_ok factory (fst (embed_documents factory F texts p))" (is ?B)
proof -
  obtain p' where p': "loaded_model factory p = (p', create_model factory p)" "pv_name p' = pv_name p"
    "pv_dimensions p' = pv_dimensions p" "provider_ok factory p'" using loaded_model_eq [OF assms] by blast
  note same = validated_vector_provider [OF p'(3), of F]
  show ?A ?B
    using p' same assms by (cases "create_model factory p"; simp add: embed_documents_def)+
qed

lemma embed_query_cases:
  assumes "provider_ok factory p"
  shows "snd (embed_query factory F t p) = rbind (create_model factory p) (\<lambda>model. rbind (vm_queries model [t]) (\<lambda>vectors.
          case vectors of [v] \<Rightarrow> validated_vector F p v
          | _ \<Rightarrow> Inl (RuntimeError ''embedding model did not return exactly one query vector'')))" (is ?A)
    "pv_name (fst (embed_query factory F t p)) = pv_name p
     \<and> pv_dimensions (fst (embed_query factory F t p)) = pv_dimensions p
     \<and> provider_ok factory (fst (embed_query factory F t p))" (is ?B)
proof -
  obtain p' where p': "loaded_model factory p = (p', create_model factory p)" "pv_name p' = pv_name p"
    "pv_dimensions p' = pv_dimensions p" "provider_ok factory p'" using loaded_model_eq [OF assms] by blast
  note same = validated_vector_provider [OF p'(3), of F]
  show ?A ?B
    using p' same assms by (cases "create_model factory p"; simp add: embed_query_def)+
qed

text \<open>Each vector of a successful embedding has the schema's width.\<close>

lemma embed_documents_width:
  assumes "provider_ok factory p" "snd (embed_documents factory F texts p) = Inr vs"
  shows "length vs = length texts \<and> (\<forall>v \<in> set vs. int (length v) = pv_dimensions p)"
proof (cases "texts = []")
  case False
  then obtain raw where raw: "rmap (validated_vector F p) raw = Inr vs" "length vs = length texts"
    using assms by (auto simp: embed_documents_cases split: if_splits)
  have "int (length v) = pv_dimensions p" if v: "v \<in> set vs" for v
  proof -
    obtain i where "i < length vs" "vs ! i = v" using v by (auto simp: in_set_conv_nth)
    then have "validated_vector F p (raw ! i) = Inr v" using raw(1) by (auto simp: rmap_eq_Inr list_all2_conv_all_nth)
    then show ?thesis by (auto simp: validated_vector_def Let_def split: if_splits)
  qed
  then show ?thesis using raw(2) by blast
qed (use assms in \<open>auto simp: embed_documents_cases\<close>)

section \<open>Documents\<close>

record indexed_document =
  id_message :: "signal_event stream_message"
  id_text :: string
  id_hash :: string
  id_model :: string
  id_embedding :: embedding

record document_row =
  dc_source :: string
  dc_event_id :: string
  dc_stream_id :: string
  dc_position :: "nat \<times> nat"
  dc_occurred :: datetime
  dc_ingested :: datetime
  dc_expires :: "datetime option"
  dc_json :: string
  dc_text :: string
  dc_hash :: string
  dc_model :: string
  dc_vector :: string
  dc_point :: "(rat \<times> rat) option"
  dc_footprint :: "string option"

definition doc_key :: "document_row \<Rightarrow> signal_key" where
  "doc_key r = (dc_source r, dc_event_id r)"

text \<open>\<open>format(value, ".9g")\<close> is an argument.\<close>

definition vector_literal :: "(rat \<Rightarrow> string) \<Rightarrow> embedding \<Rightarrow> string" where
  "vector_literal g9 v = ''['' @ joined '','' (map g9 v) @ '']''"

definition retrieval_document_values :: "event_codec \<Rightarrow> (rat \<Rightarrow> string) \<Rightarrow> indexed_document \<Rightarrow> document_row res" where
  "retrieval_document_values C g9 d = rbind (projection_values C (id_message d)) (\<lambda>r. Inr
     \<lparr>dc_source = rv_source r, dc_event_id = rv_event_id r, dc_stream_id = rv_stream_id r, dc_position = rv_position r,
      dc_occurred = rv_occurred r, dc_ingested = rv_ingested r, dc_expires = rv_expires r, dc_json = rv_json r,
      dc_text = id_text d, dc_hash = id_hash d, dc_model = id_model d, dc_vector = vector_literal g9 (id_embedding d),
      dc_point = rv_point r, dc_footprint = rv_footprint r\<rparr>)"


section \<open>The table and its statements\<close>

text \<open>What the table and the queries use of PostgreSQL, PostGIS and pgvector: the casts to \<open>jsonb\<close>,
\<open>vector\<close> and geometry, the members of the stored payload, full-text matching and ranking, the cosine
distance, the geography functions, \<open>lower\<close> and the collation.\<close>

record retrieval_sql =
  rs_json_ok :: "string \<Rightarrow> bool"
  rs_geojson_ok :: "string \<Rightarrow> bool"
  rs_vector_width :: "string \<Rightarrow> nat option"
  rs_payload :: "string \<Rightarrow> string \<Rightarrow> json option"
  rs_matches :: "string \<Rightarrow> string \<Rightarrow> bool"
  rs_rank :: "string \<Rightarrow> string \<Rightarrow> rat"
  rs_distance :: "string \<Rightarrow> string \<Rightarrow> rat"
  rs_intersects :: "geometry \<Rightarrow> geo_bounds \<Rightarrow> bool"
  rs_dwithin :: "geometry \<Rightarrow> rat \<times> rat \<Rightarrow> rat \<Rightarrow> bool"
  rs_point_distance :: "geometry \<Rightarrow> rat \<times> rat \<Rightarrow> rat"
  rs_lower :: "string \<Rightarrow> string"
  rs_collate :: "string \<Rightarrow> string"

record index_tables =
  ix_documents :: "document_row list"
  ix_checkpoints :: "(string \<times> string \<times> nat \<times> nat) list"

definition empty_index :: index_tables where
  "empty_index = \<lparr>ix_documents = [], ix_checkpoints = []\<rparr>"

definition document_admissible :: "retrieval_sql \<Rightarrow> document_row \<Rightarrow> bool" where
  "document_admissible Q r \<longleftrightarrow> length (dc_source r) \<le> 64 \<and> length (dc_event_id r) \<le> 200 \<and> length (dc_stream_id r) \<le> 64
     \<and> fst (dc_position r) < 2 ^ 63 \<and> snd (dc_position r) < 2 ^ 63
     \<and> rs_json_ok Q (dc_json r) \<and> length (dc_model r) \<le> 200 \<and> rs_vector_width Q (dc_vector r) = Some 384
     \<and> matches_hex [] 64 (dc_hash r)
     \<and> (case dc_footprint r of None \<Rightarrow> True | Some g \<Rightarrow> rs_geojson_ok Q g)"

text \<open>The condition of \<open>ON CONFLICT ... DO UPDATE\<close>: a newer revision, or the same one rendered or embedded
otherwise.\<close>

definition supersedes :: "document_row \<Rightarrow> document_row \<Rightarrow> bool" where
  "supersedes old new \<longleftrightarrow> dc_position old < dc_position new
     \<or> (dc_position old = dc_position new \<and> (dc_hash old, dc_model old) \<noteq> (dc_hash new, dc_model new))"

fun upsert_document :: "document_row list \<Rightarrow> document_row \<Rightarrow> document_row list" where
  "upsert_document [] v = [v]"
| "upsert_document (r # rows) v =
     (if doc_key r = doc_key v then (if supersedes r v then v else r) # rows else r # upsert_document rows v)"

text \<open>One execution of the upsert, with the unique stream ids of the table.\<close>

definition insert_document :: "retrieval_sql \<Rightarrow> document_row list \<Rightarrow> document_row \<Rightarrow> document_row list res" where
  "insert_document Q rows v =
     (if \<not> document_admissible Q v then Inl (DatabaseError ''retrieval_documents row is not admissible'')
      else let rows' = upsert_document rows v in
        if \<not> distinct (map dc_stream_id rows') then Inl (DatabaseError ''retrieval_documents_stream_id_key'')
        else Inr rows')"

definition index_checkpoint :: "index_tables \<Rightarrow> string \<Rightarrow> string option" where
  "index_checkpoint t name = map_option fst (map_of (ix_checkpoints t) name)"

definition index ::
  "event_codec \<Rightarrow> (rat \<Rightarrow> string) \<Rightarrow> retrieval_sql \<Rightarrow> string \<Rightarrow> indexed_document list \<Rightarrow> index_tables \<Rightarrow> index_tables \<times> unit res" where
  "index C g9 Q name documents t =
     (if documents = [] then (t, Inr ())
      else case rmap (\<lambda>d. parse_stream_id (sm_stream_id (id_message d))) documents of
        Inl e \<Rightarrow> (t, Inl e)
      | Inr positions \<Rightarrow>
          if positions \<noteq> sorted_set positions
          then (t, Inl (ValueError ''retrieval batches must contain unique oldest-first stream IDs''))
          else case rbind (rmap (retrieval_document_values C g9) documents) (\<lambda>vals.
                 rfold (insert_document Q) (ix_documents t) vals) of
            Inl e \<Rightarrow> (t, Inl e)
          | Inr rows \<Rightarrow> (\<lparr>ix_documents = rows, ix_checkpoints = upsert_newer (ix_checkpoints t) name
              (sm_stream_id (id_message (last documents)), last positions)\<rparr>, Inr ()))"

section \<open>The indexing cycle\<close>

record index_config =
  ic_codec :: event_codec
  ic_g9 :: "rat \<Rightarrow> string"
  ic_sql :: retrieval_sql
  ic_render :: render_api
  ic_sha256 :: "string \<Rightarrow> string"
  ic_embedder :: embedder

text \<open>Rendering, embedding and indexing one batch.\<close>

definition document_of :: "index_config \<Rightarrow> signal_event stream_message \<Rightarrow> string \<Rightarrow> embedding \<Rightarrow> indexed_document" where
  "document_of I m s v = \<lparr>id_message = m, id_text = s, id_hash = document_hash (ic_sha256 I) s,
     id_model = em_model (ic_embedder I), id_embedding = v\<rparr>"

definition index_messages ::
  "index_config \<Rightarrow> string \<Rightarrow> signal_event stream_message list \<Rightarrow> index_tables \<Rightarrow> index_tables \<times> unit res" where
  "index_messages I name messages t =
     (let texts = map (\<lambda>m. render_event_document (ic_render I) (sm_event m)) messages in
      case em_documents (ic_embedder I) texts of
        Inl e \<Rightarrow> (t, Inl e)
      | Inr embeddings \<Rightarrow>
          if length embeddings \<noteq> length messages
          then (t, Inl (RuntimeError ''embedding count must match the stream batch''))
          else index (ic_codec I) (ic_g9 I) (ic_sql I) name
            (map (\<lambda>(m, s, v). document_of I m s v) (zip messages (zip texts embeddings))) t)"

record indexing_cycle =
  ig_name :: string
  ig_previous :: "string option"
  ig_checkpoint :: "string option"
  ig_indexed :: nat

definition index_once ::
  "('bus \<Rightarrow> string option \<Rightarrow> int \<Rightarrow> signal_event stream_message list res) \<Rightarrow> index_config
     \<Rightarrow> string \<Rightarrow> int \<Rightarrow> 'bus \<Rightarrow> index_tables \<Rightarrow> index_tables \<times> indexing_cycle res" where
  "index_once replay_page I name batch_size bus t =
     (let previous = index_checkpoint t name in
      case replay_page bus previous batch_size of
        Inl e \<Rightarrow> (t, Inl e)
      | Inr messages \<Rightarrow>
          if messages = [] then (t, Inr \<lparr>ig_name = name, ig_previous = previous, ig_checkpoint = previous, ig_indexed = 0\<rparr>)
          else case index_messages I name messages t of
            (t', Inl e) \<Rightarrow> (t', Inl e)
          | (t', Inr u) \<Rightarrow> (t', Inr \<lparr>ig_name = name, ig_previous = previous,
              ig_checkpoint = Some (sm_stream_id (last messages)), ig_indexed = length messages\<rparr>))"

text \<open>A worker that runs cycles until one raises.\<close>

fun index_cycles ::
  "('bus \<Rightarrow> string option \<Rightarrow> int \<Rightarrow> signal_event stream_message list res) \<Rightarrow> index_config
     \<Rightarrow> string \<Rightarrow> int \<Rightarrow> 'bus \<Rightarrow> nat \<Rightarrow> index_tables \<Rightarrow> index_tables \<times> unit res" where
  "index_cycles replay_page I name n b 0 t = (t, Inr ())"
| "index_cycles replay_page I name n b (Suc m) t =
     (case index_once replay_page I name n b t of
        (t', Inl e) \<Rightarrow> (t', Inl e)
      | (t', Inr c) \<Rightarrow> index_cycles replay_page I name n b m t')"

text \<open>Both cycles are one: indexing is a projection whose batches are rendered and embedded first.\<close>

lemma index_once_project:
  "index_once replay_page I name n b t = (case project_once replay_page index_checkpoint (index_messages I) name n b t of
     (t', Inl e) \<Rightarrow> (t', Inl e)
   | (t', Inr c) \<Rightarrow> (t', Inr \<lparr>ig_name = pc_name c, ig_previous = pc_previous c, ig_checkpoint = pc_checkpoint c,
       ig_indexed = pc_projected c\<rparr>))"
  by (simp add: index_once_def project_once_def Let_def split: sum.split prod.split)

lemma index_cycles_project:
  "index_cycles replay_page I name n b m t = project_cycles replay_page index_checkpoint (index_messages I) name n b m t"
  by (induction m arbitrary: t) (simp_all add: index_once_project split: sum.split prod.split)

section \<open>What the index holds\<close>

text \<open>The vector of a text, when the embedder maps each text to its own.\<close>

definition embeds_each :: "embedder \<Rightarrow> (string \<Rightarrow> embedding) \<Rightarrow> bool" where
  "embeds_each E f \<longleftrightarrow> (\<forall>texts. em_documents E texts = Inr (map f texts))"

definition row_of_message :: "index_config \<Rightarrow> (string \<Rightarrow> embedding) \<Rightarrow> signal_event stream_message \<Rightarrow> document_row res" where
  "row_of_message I f m = (let s = render_event_document (ic_render I) (sm_event m) in
     retrieval_document_values (ic_codec I) (ic_g9 I) (document_of I m s (f s)))"

definition indexable :: "index_config \<Rightarrow> (string \<Rightarrow> embedding) \<Rightarrow> signal_event stream_message \<Rightarrow> bool" where
  "indexable I f m \<longleftrightarrow> (case row_of_message I f m of Inl e \<Rightarrow> False | Inr r \<Rightarrow> document_admissible (ic_sql I) r)"

definition message_key :: "signal_event stream_message \<Rightarrow> signal_key" where
  "message_key m = (se_source (sm_event m), se_id (sm_event m))"

text \<open>A message with no later message of its signal.\<close>

definition newest_in :: "signal_event stream_message list \<Rightarrow> signal_event stream_message \<Rightarrow> bool" where
  "newest_in ms m \<longleftrightarrow> m \<in> set ms \<and> (\<forall>m' \<in> set ms. message_key m' = message_key m \<longrightarrow> message_position m' \<le> message_position m)"

definition documents_hold :: "index_config \<Rightarrow> (string \<Rightarrow> embedding) \<Rightarrow> document_row list \<Rightarrow> signal_event stream_message list \<Rightarrow> bool" where
  "documents_hold I f rows old \<longleftrightarrow> distinct (map doc_key rows)
     \<and> set (map Inr rows) = row_of_message I f ` {m. newest_in old m}"

definition index_holds :: "index_config \<Rightarrow> (string \<Rightarrow> embedding) \<Rightarrow> index_tables \<Rightarrow> signal_event stream_message list \<Rightarrow> bool" where
  "index_holds I f t old \<longleftrightarrow> documents_hold I f (ix_documents t) old
     \<and> (\<forall>name sid p. map_of (ix_checkpoints t) name = Some (sid, p) \<longrightarrow> decimal_position sid = Some p)"

lemma row_of_message_Inr:
  "row_of_message I f m = Inr r \<Longrightarrow> dc_stream_id r = sm_stream_id m
    \<and> decimal_position (sm_stream_id m) = Some (dc_position r) \<and> doc_key r = message_key m"
  by (auto simp: row_of_message_def retrieval_document_values_def document_of_def doc_key_def message_key_def Let_def
    revision_key_def dest!: projection_values_Inr)

lemma upsert_document_keys: "set (map doc_key (upsert_document rows v)) = insert (doc_key v) (set (map doc_key rows))"
  by (induction rows v rule: upsert_document.induct) auto

lemma upsert_document_distinct: "distinct (map doc_key rows) \<Longrightarrow> distinct (map doc_key (upsert_document rows v))"
proof (induction rows v rule: upsert_document.induct)
  case (2 r rows v)
  then show ?case using upsert_document_keys [of rows v] by auto
qed simp

text \<open>A row that supersedes takes the place of the row of its key, and no other row changes.\<close>

lemma upsert_document_rows:
  assumes "distinct (map doc_key rows)" "\<And>r. r \<in> set rows \<Longrightarrow> doc_key r = doc_key v \<Longrightarrow> supersedes r v"
  shows "set (upsert_document rows v) = insert v {r \<in> set rows. doc_key r \<noteq> doc_key v}"
  using assms
proof (induction rows v rule: upsert_document.induct)
  case (2 r rows v)
  show ?case
  proof (cases "doc_key r = doc_key v")
    case True
    then have "\<forall>x \<in> set rows. doc_key x \<noteq> doc_key v" using 2(2) by (simp add: image_iff) metis
    then show ?thesis using True 2(3) [of r] by auto
  next
    case False
    then show ?thesis using 2 by auto
  qed
qed simp


lemma newest_in_snoc:
  assumes later: "\<And>m'. m' \<in> set old \<Longrightarrow> message_position m' < message_position m"
  shows "{x. newest_in (old @ [m]) x} = insert m {x. newest_in old x \<and> message_key x \<noteq> message_key m}"
proof -
  have "\<not> message_position m \<le> message_position x" if "x \<in> set old" for x using later [OF that] by simp
  then show ?thesis using later less_imp_le by (auto simp: newest_in_def)
qed

lemma newest_row:
  assumes "documents_hold I f rows old" "r \<in> set rows"
  obtains m where "newest_in old m" "row_of_message I f m = Inr r"
  using assms by (auto simp: documents_hold_def) (metis (no_types, lifting) image_iff mem_Collect_eq)

text \<open>One more message, later than all the others, is upserted without an error.\<close>

lemma insert_document_holds:
  assumes holds: "documents_hold I f rows old" and m: "indexable I f m"
    and incr: "sorted_wrt (<) (map message_position (old @ [m]))"
  shows "\<exists>v rows'. row_of_message I f m = Inr v \<and> insert_document (ic_sql I) rows v = Inr rows'
    \<and> documents_hold I f rows' (old @ [m])"
proof -
  have later: "\<And>m'. m' \<in> set old \<Longrightarrow> message_position m' < message_position m"
    using incr by (simp add: sorted_wrt_append)
  obtain v where v: "row_of_message I f m = Inr v" "document_admissible (ic_sql I) v"
    using m by (auto simp: indexable_def split: sum.splits)
  note rv = row_of_message_Inr [OF v(1)]
  have dist: "distinct (map doc_key rows)" using holds by (simp add: documents_hold_def)
  have from_old: "\<exists>m'. newest_in old m' \<and> row_of_message I f m' = Inr r" if "r \<in> set rows" for r
    using newest_row [OF holds that] by blast
  have sup: "supersedes r v" if r: "r \<in> set rows" for r
  proof -
    obtain m' where m': "newest_in old m'" "row_of_message I f m' = Inr r" using from_old [OF r] by blast
    then have "message_position m' < message_position m" using later by (simp add: newest_in_def)
    then show ?thesis using row_of_message_Inr [OF m'(2)] rv by (simp add: supersedes_def message_position_def)
  qed
  let ?rows = "upsert_document rows v"
  have rows: "set ?rows = insert v {r \<in> set rows. doc_key r \<noteq> doc_key v}"
    using upsert_document_rows [OF dist] sup by blast
  have old_rows: "Inr ` {r \<in> set rows. doc_key r \<noteq> doc_key v}
      = row_of_message I f ` {x. newest_in old x \<and> message_key x \<noteq> message_key m}" (is "?L = ?R")
  proof
    have "Inr r \<in> ?R" if r: "r \<in> set rows" "doc_key r \<noteq> doc_key v" for r
    proof -
      obtain m' where m': "newest_in old m'" "row_of_message I f m' = Inr r" using from_old [OF r(1)] by blast
      then have "message_key m' \<noteq> message_key m" using row_of_message_Inr [OF m'(2)] rv r(2) by simp
      then show ?thesis using m' by (metis (mono_tags, lifting) image_eqI mem_Collect_eq)
    qed
    then show "?L \<subseteq> ?R" by blast
    have "row_of_message I f x \<in> ?L" if x: "newest_in old x" "message_key x \<noteq> message_key m" for x
    proof -
      have "row_of_message I f x \<in> set (map Inr rows)" using holds x(1) unfolding documents_hold_def by blast
      then obtain r where r: "r \<in> set rows" "row_of_message I f x = Inr r" by auto
      then have "doc_key r \<noteq> doc_key v" using row_of_message_Inr [OF r(2)] rv x(2) by simp
      then show ?thesis using r by simp
    qed
    then show "?R \<subseteq> ?L" by blast
  qed
  note set_of_new = newest_in_snoc [OF later]
  have holds': "documents_hold I f ?rows (old @ [m])"
    unfolding documents_hold_def
    using upsert_document_distinct [OF dist] by (simp add: rows v(1) old_rows set_of_new)
  have "inj_on dc_stream_id (set ?rows)"
  proof (rule inj_onI)
    fix r r' assume r: "r \<in> set ?rows" "r' \<in> set ?rows" "dc_stream_id r = dc_stream_id r'"
    obtain x where x: "newest_in (old @ [m]) x" "row_of_message I f x = Inr r" using newest_row [OF holds' r(1)] .
    obtain x' where x': "newest_in (old @ [m]) x'" "row_of_message I f x' = Inr r'" using newest_row [OF holds' r(2)] .
    have pos: "message_position x = message_position x'"
      using row_of_message_Inr [OF x(2)] row_of_message_Inr [OF x'(2)] r(3) by (simp add: message_position_def)
    have "inj_on message_position (set (old @ [m]))" using incr unfolding strict_sorted_iff distinct_map by blast
    then have "x = x'" using pos x(1) x'(1) by (simp only: inj_on_def newest_in_def)
    then show "r = r'" using x x' by simp
  qed
  moreover have "distinct ?rows" using upsert_document_distinct [OF dist] by (simp add: distinct_map)
  ultimately have "distinct (map dc_stream_id ?rows)" by (simp add: distinct_map)
  then show ?thesis using v holds' by (simp add: insert_document_def)
qed


lemma insert_documents_hold:
  assumes "documents_hold I f rows old" "list_all (indexable I f) ms" "sorted_wrt (<) (map message_position (old @ ms))"
  shows "\<exists>vals rows'. rmap (row_of_message I f) ms = Inr vals \<and> rfold (insert_document (ic_sql I)) rows vals = Inr rows'
    \<and> documents_hold I f rows' (old @ ms)"
  using assms
proof (induction ms arbitrary: rows old)
  case (Cons m ms)
  have incr: "sorted_wrt (<) (map message_position (old @ [m]))" using Cons.prems(3) by (auto simp: sorted_wrt_append)
  obtain v rows1 where one: "row_of_message I f m = Inr v" "insert_document (ic_sql I) rows v = Inr rows1"
    "documents_hold I f rows1 (old @ [m])"
    using insert_document_holds [OF Cons.prems(1) _ incr] Cons.prems(2) by auto
  have "sorted_wrt (<) (map message_position ((old @ [m]) @ ms))" using Cons.prems(3) by simp
  from Cons.IH [OF one(3) _ this] Cons.prems(2) obtain vals rows' where
    "rmap (row_of_message I f) ms = Inr vals" "rfold (insert_document (ic_sql I)) rows1 vals = Inr rows'"
    "documents_hold I f rows' ((old @ [m]) @ ms)" by auto
  then show ?case using one by simp
qed simp

text \<open>The whole batch: rendered, embedded, indexed, and checkpointed.\<close>

lemma index_messages_absorbs:
  assumes E: "embeds_each (ic_embedder I) f" and t: "index_holds I f t old" and ne: "ms \<noteq> []"
    and ok: "list_all (indexable I f) ms" and incr: "sorted_wrt (<) (map message_position (old @ ms))"
    and beyond: "\<And>c. index_checkpoint t name = Some c \<Longrightarrow> the (decimal_position c) < message_position (last ms)"
  shows "\<exists>t'. index_messages I name ms t = (t', Inr ()) \<and> index_holds I f t' (old @ ms)
    \<and> index_checkpoint t' name = Some (sm_stream_id (last ms))"
proof -
  let ?text = "\<lambda>m. render_event_document (ic_render I) (sm_event m)"
  let ?doc = "\<lambda>m. document_of I m (?text m) (f (?text m))"
  have docs: "map (\<lambda>(m, s, v). document_of I m s v) (zip ms (zip (map ?text ms) (map f (map ?text ms)))) = map ?doc ms"
    by (induction ms) simp_all
  have emb: "em_documents (ic_embedder I) (map ?text ms) = Inr (map f (map ?text ms))"
    using E unfolding embeds_each_def by blast
  have run: "index_messages I name ms t = index (ic_codec I) (ic_g9 I) (ic_sql I) name (map ?doc ms) t"
    unfolding index_messages_def Let_def emb docs sum.case by simp
  obtain vals rows where rows: "rmap (row_of_message I f) ms = Inr vals" "rfold (insert_document (ic_sql I)) (ix_documents t) vals = Inr rows"
    "documents_hold I f rows (old @ ms)"
    using insert_documents_hold [OF _ ok incr] t unfolding index_holds_def by blast
  have conv: "rmap (retrieval_document_values (ic_codec I) (ic_g9 I)) (map ?doc ms) = Inr vals"
    using rows(1) by (simp add: rmap_eq_Inr list_all2_map1 row_of_message_def Let_def)
  have decimal: "decimal_position (sm_stream_id m) = Some (message_position m)" if "m \<in> set ms" for m
  proof -
    have "indexable I f m" using ok that by (simp add: list_all_iff)
    then obtain r where "row_of_message I f m = Inr r" by (auto simp: indexable_def split: sum.splits)
    from row_of_message_Inr [OF this] show ?thesis by (simp add: message_position_def)
  qed
  then have pos: "rmap (\<lambda>d. parse_stream_id (sm_stream_id (id_message d))) (map ?doc ms) = Inr (map message_position ms)"
    by (simp add: rmap_eq_Inr list_all2_map1 list_all2_map2 document_of_def parse_stream_id_def list_all2_same)
  have "sorted_wrt (<) (map message_position ms)" using incr by (simp add: sorted_wrt_append)
  then have strict: "map message_position ms = sorted_set (map message_position ms)"
    unfolding sorted_set_fixpoint strict_sorted_iff .
  have last: "id_message (last (map ?doc ms)) = last ms" "last (map message_position ms) = message_position (last ms)"
    using ne by (simp_all add: last_map document_of_def)
  let ?t = "\<lparr>ix_documents = rows, ix_checkpoints = upsert_newer (ix_checkpoints t) name (sm_stream_id (last ms), message_position (last ms))\<rparr>"
  have "index (ic_codec I) (ic_g9 I) (ic_sql I) name (map ?doc ms) t = (?t, Inr ())"
    unfolding index_def pos sum.case conv rbind_simps rows(2) last using ne strict by simp
  moreover have old: "decimal_position sid = Some p" if "map_of (ix_checkpoints t) nm = Some (sid, p)" for nm sid p
    using t that unfolding index_holds_def by blast
  have cps: "map_of (upsert_newer (ix_checkpoints t) name (sm_stream_id (last ms), message_position (last ms)))
      = (map_of (ix_checkpoints t))(name \<mapsto> (sm_stream_id (last ms), message_position (last ms)))"
  proof (cases "map_of (ix_checkpoints t) name")
    case (Some v)
    obtain sid p where v: "v = (sid, p)" by (cases v)
    have "p < message_position (last ms)" using beyond [of sid] old Some v by (simp add: index_checkpoint_def)
    then show ?thesis using Some v by (simp add: upsert_newer_map)
  qed (simp add: upsert_newer_map)
  have "index_holds I f ?t (old @ ms)"
    unfolding index_holds_def index_tables.select_convs cps
    using rows(3) old decimal [OF last_in_set [OF ne]] by (simp split: if_splits)
  moreover have "index_checkpoint ?t name = Some (sm_stream_id (last ms))"
    unfolding index_checkpoint_def index_tables.select_convs cps by simp
  ultimately show ?thesis unfolding run by blast
qed


lemma empty_index_holds: "index_holds I f empty_index []"
  by (simp add: index_holds_def documents_hold_def empty_index_def newest_in_def)

interpretation index_projection: projection mb_messages replay "bus_inv A" index_checkpoint "index_messages I" "indexable I f"
    "\<lambda>t old. embeds_each (ic_embedder I) f \<and> index_holds I f t old" for A I f
  by unfold_locales (blast dest: index_messages_absorbs)

lemma index_reaches:
  fixes A :: "signal_event event_api" and es :: "signal_event list"
  defines "b \<equiv> fst (publish_many A es empty_bus)"
  assumes E: "embeds_each (ic_embedder I) f" and ok: "list_all (indexable I f) (mb_messages b)" "1 \<le> n"
  shows "\<exists>t. index_cycles replay I name n b m empty_index = (t, Inr ())
    \<and> index_holds I f t (take (m * nat n) (mb_messages b))
    \<and> index_checkpoint t name = mem_log.checkpoint_at b (min (m * nat n) (length (mb_messages b)))"
proof -
  have b: "bus_inv A b"
    using publish_many_spec [OF empty_bus_inv, of A es] unfolding b_def by (metis prod.collapse)
  have "index_projection.caught_up I f name b 0 empty_index"
    unfolding index_projection.caught_up_def using E empty_index_holds
    by (simp add: mem_log.checkpoint_at_def index_checkpoint_def) (simp add: empty_index_def)
  from index_projection.cycles_advance [OF b ok this, of m] obtain t where
    t: "project_cycles replay index_checkpoint (index_messages I) name n b m empty_index = (t, Inr ())"
    "index_projection.caught_up I f name b (min (0 + m * nat n) (length (mb_messages b))) t" by blast
  moreover have "take (min (m * nat n) (length (mb_messages b))) (mb_messages b) = take (m * nat n) (mb_messages b)"
    by (rule take_min_length)
  ultimately show ?thesis
    unfolding index_cycles_project index_projection.caught_up_def by auto
qed

section \<open>The index catches up\<close>

text \<open>C13. The index catches up, one document per signal. From an empty index, over a stream whose messages
can all be indexed, any number of cycles commits without an error; afterwards the table holds for each
signal among the messages consumed exactly one row, that of its newest message, rendered and embedded,
and the durable checkpoint is the id of the last message consumed.\<close>

theorem index_catches_up:
  fixes A :: "signal_event event_api" and es :: "signal_event list"
  defines "b \<equiv> fst (publish_many A es empty_bus)"
  assumes "embeds_each (ic_embedder I) f" "list_all (indexable I f) (mb_messages b)" "1 \<le> n"
  shows "\<exists>t. index_cycles replay I name n b m empty_index = (t, Inr ())
    \<and> distinct (map doc_key (ix_documents t))
    \<and> Inr ` set (ix_documents t) = row_of_message I f ` {x. newest_in (take (m * nat n) (mb_messages b)) x}
    \<and> index_checkpoint t name = (if take (m * nat n) (mb_messages b) = [] then None
        else Some (sm_stream_id (last (take (m * nat n) (mb_messages b)))))"
proof -
  obtain t where t: "index_cycles replay I name n b m empty_index = (t, Inr ())"
    "index_holds I f t (take (m * nat n) (mb_messages b))"
    "index_checkpoint t name = mem_log.checkpoint_at b (min (m * nat n) (length (mb_messages b)))"
    using index_reaches [OF assms(2-4) [unfolded b_def], of name m] unfolding b_def by blast
  have "index_checkpoint t name = (if take (m * nat n) (mb_messages b) = [] then None
        else Some (sm_stream_id (last (take (m * nat n) (mb_messages b)))))"
    unfolding t(3) mem_log.checkpoint_at_def by (auto simp: last_conv_nth min_def)
  then show ?thesis using t(1,2) by (auto simp: index_holds_def documents_hold_def)
qed

section \<open>The provider embeds each text\<close>

definition model_laws :: "vector_model res \<Rightarrow> float_api \<Rightarrow> provider \<Rightarrow> (string \<Rightarrow> embedding) \<Rightarrow> bool" where
  "model_laws factory F p raw \<longleftrightarrow> (\<exists>model. factory = Inr model \<and> vm_size model = pv_dimensions p
     \<and> (\<forall>ts. vm_passages model ts = Inr (map raw ts)))
     \<and> (\<forall>s. int (length (raw s)) = pv_dimensions p \<and> fa_sqrt F (fa_sum F (map (\<lambda>v. fl (v * v)) (raw s))) \<noteq> 0)"

definition normalized_vector :: "float_api \<Rightarrow> embedding \<Rightarrow> embedding" where
  "normalized_vector F v = map (\<lambda>x. fl (x / fa_sqrt F (fa_sum F (map (\<lambda>v. fl (v * v)) v)))) v"

lemma provider_embeds_each:
  assumes "provider_ok factory p" "model_laws factory F p raw"
  shows "embeds_each (provider_embedder factory F p) (\<lambda>s. normalized_vector F (raw s))"
proof -
  obtain model where m: "factory = Inr model" "vm_size model = pv_dimensions p" "\<And>ts. vm_passages model ts = Inr (map raw ts)"
    using assms(2) unfolding model_laws_def by blast
  have each: "validated_vector F p (raw s) = Inr (normalized_vector F (raw s))" for s
    using assms(2) unfolding model_laws_def by (simp add: validated_vector_def normalized_vector_def Let_def)
  have "rmap (validated_vector F p) (map raw ts) = Inr (map (\<lambda>s. normalized_vector F (raw s)) ts)" for ts
    by (induction ts) (simp_all add: each)
  then show ?thesis
    unfolding embeds_each_def provider_embedder_def embedder.select_convs embed_documents_cases(1) [OF assms(1)]
    by (simp add: create_model_def m)
qed

section \<open>Searching the index\<close>

text \<open>\<open>_relaxed_websearch_query\<close>: runs of word characters other than the underscore, after case folding.\<close>

definition lexical_operators :: "string list" where
  "lexical_operators = [''and'', ''not'', ''or'']"

definition max_lexical_terms :: nat where
  "max_lexical_terms = 32"

definition lexical_char :: "text_api \<Rightarrow> char \<Rightarrow> bool" where
  "lexical_char T c \<longleftrightarrow> tx_word T c \<and> c \<noteq> CHR ''_''"

fun lexical_terms :: "string list \<Rightarrow> string list \<Rightarrow> string list" where
  "lexical_terms terms [] = terms"
| "lexical_terms terms (t # ts) =
     (if t \<in> set lexical_operators \<or> t \<in> set terms then lexical_terms terms ts
      else if length terms + 1 = max_lexical_terms then terms @ [t]
      else lexical_terms (terms @ [t]) ts)"

definition relaxed_websearch_query :: "text_api \<Rightarrow> string \<Rightarrow> string" where
  "relaxed_websearch_query T s = joined '' OR '' (lexical_terms [] (runs (lexical_char T) (tx_casefold T s)))"

text \<open>The members of \<open>event_json -> 'payload'\<close> as numbers and texts; \<open>jsonb\<close> holds no non-finite numbers.\<close>

definition payload_double :: "retrieval_sql \<Rightarrow> document_row \<Rightarrow> string \<Rightarrow> rat option" where
  "payload_double Q r key = (case rs_payload Q (dc_json r) key of
     Some (JInt i) \<Rightarrow> Some (fl (of_int i)) | Some (JFloat x) \<Rightarrow> Some x | _ \<Rightarrow> None)"

definition payload_string :: "retrieval_sql \<Rightarrow> document_row \<Rightarrow> string \<Rightarrow> string option" where
  "payload_string Q r key = (case rs_payload Q (dc_json r) key of Some (JStr s) \<Rightarrow> Some s | _ \<Rightarrow> None)"

definition row_geometry :: "document_row \<Rightarrow> geometry option" where
  "row_geometry r = (case dc_footprint r of Some g \<Rightarrow> Some (Footprint g) | None \<Rightarrow> map_option PointAt (dc_point r))"

text \<open>A condition is there when its argument is, and a comparison with \<open>NULL\<close> does not hold.\<close>

definition when_given :: "'a option \<Rightarrow> ('a \<Rightarrow> bool) \<Rightarrow> bool" where
  "when_given a p \<longleftrightarrow> (case a of None \<Rightarrow> True | Some x \<Rightarrow> p x)"

definition known_and :: "'a option \<Rightarrow> ('a \<Rightarrow> bool) \<Rightarrow> bool" where
  "known_and a p \<longleftrightarrow> (case a of None \<Rightarrow> False | Some x \<Rightarrow> p x)"

definition period_text :: "observation_period \<Rightarrow> string" where
  "period_text p = (case p of Day \<Rightarrow> ''day'' | Night \<Rightarrow> ''night'')"

definition filters :: "text_api \<Rightarrow> retrieval_sql \<Rightarrow> datetime \<Rightarrow> search_query \<Rightarrow> document_row \<Rightarrow> bool" where
  "filters T Q now q r \<longleftrightarrow>
     when_given (qy_source q) (\<lambda>s. dc_source r = s)
   \<and> when_given (qy_occurred_after q) (\<lambda>t. dt_us t \<le> dt_us (dc_occurred r))
   \<and> when_given (qy_occurred_before q) (\<lambda>t. dt_us (dc_occurred r) \<le> dt_us t)
   \<and> (qy_active_only q \<longrightarrow> when_given (dc_expires r) (\<lambda>t. dt_us now < dt_us t))
   \<and> when_given (qy_min_magnitude q) (\<lambda>x. known_and (payload_double Q r ''magnitude'') (\<lambda>v. x \<le> v))
   \<and> when_given (qy_max_depth_km q) (\<lambda>x. known_and (payload_double Q r ''depth_km'') (\<lambda>v. v \<le> x))
   \<and> when_given (qy_tsunami q) (\<lambda>b. rs_payload Q (dc_json r) ''tsunami'' = Some (JBool b))
   \<and> when_given (qy_alert_type q) (\<lambda>a. known_and (payload_string Q r ''alert_type'') (\<lambda>v. rs_lower Q v = tx_lower T a))
   \<and> when_given (qy_min_confidence_rank q) (\<lambda>k. known_and (payload_double Q r ''confidence_rank'') (\<lambda>v. of_int k \<le> v))
   \<and> when_given (qy_observation_period q) (\<lambda>p. payload_string Q r ''day_night'' = Some (period_text p))
   \<and> when_given (qy_bounds q) (\<lambda>b. known_and (row_geometry r) (\<lambda>g. rs_intersects Q g b))
   \<and> when_given (qy_near q) (\<lambda>n. known_and (row_geometry r) (\<lambda>g.
        rs_dwithin Q g (gd_longitude n, gd_latitude n) (fl (gd_radius_km n * 1000))))"

definition distance_expression :: "retrieval_sql \<Rightarrow> search_query \<Rightarrow> document_row \<Rightarrow> rat option" where
  "distance_expression Q q r = (case qy_near q of None \<Rightarrow> None
     | Some n \<Rightarrow> map_option (\<lambda>g. fl (rs_point_distance Q g (gd_longitude n, gd_latitude n) / 1000)) (row_geometry r))"

definition row_order :: "retrieval_sql \<Rightarrow> document_row \<Rightarrow> int \<times> int \<times> string \<times> string" where
  "row_order Q r = (- int (fst (dc_position r)), - int (snd (dc_position r)), rs_collate Q (dc_source r), rs_collate Q (dc_event_id r))"

definition lexical_rows :: "text_api \<Rightarrow> retrieval_sql \<Rightarrow> datetime \<Rightarrow> index_tables \<Rightarrow> search_query \<Rightarrow> string \<Rightarrow> (document_row \<times> rat) list" where
  "lexical_rows T Q now t q lexical_query = map (\<lambda>r. (r, rs_rank Q (dc_text r) lexical_query))
     (take (nat (qy_candidate_limit q)) (sort_key (\<lambda>r. (- rs_rank Q (dc_text r) lexical_query, row_order Q r))
       (filter (\<lambda>r. filters T Q now q r \<and> rs_matches Q (dc_text r) lexical_query) (ix_documents t))))"

definition dense_rows :: "text_api \<Rightarrow> retrieval_sql \<Rightarrow> datetime \<Rightarrow> index_tables \<Rightarrow> search_query \<Rightarrow> string \<Rightarrow> string \<Rightarrow> (document_row \<times> rat) list" where
  "dense_rows T Q now t q query_embedding model = map (\<lambda>r. (r, fl (1 - rs_distance Q (dc_vector r) query_embedding)))
     (take (nat (qy_candidate_limit q)) (sort_key (\<lambda>r. (rs_distance Q (dc_vector r) query_embedding, row_order Q r))
       (filter (\<lambda>r. filters T Q now q r \<and> dc_model r = model) (ix_documents t))))"

definition candidate_of_row :: "event_codec \<Rightarrow> retrieval_sql \<Rightarrow> search_query \<Rightarrow> nat \<times> document_row \<times> rat \<Rightarrow> channel_candidate res" where
  "candidate_of_row C Q q x = (case x of (rank, r, score) \<Rightarrow>
     rbind (ec_load C (dc_json r)) (\<lambda>e. Inr
       \<lparr>cc_message = \<lparr>sm_stream_id = dc_stream_id r, sm_event = e\<rparr>, cc_document_text = dc_text r,
        cc_rank = rank, cc_score = score, cc_distance_km = distance_expression Q q r\<rparr>))"

definition index_candidates ::
  "text_api \<Rightarrow> event_codec \<Rightarrow> (rat \<Rightarrow> string) \<Rightarrow> retrieval_sql \<Rightarrow> datetime
     \<Rightarrow> index_tables \<Rightarrow> search_query \<Rightarrow> embedding option \<Rightarrow> string \<Rightarrow> candidate_batch res" where
  "index_candidates T C g9 Q now t q embedding model =
     (let uses_lexical = (qy_ranking_mode q \<noteq> DenseMode); uses_dense = (qy_ranking_mode q \<noteq> LexicalMode) in
      if uses_dense \<and> embedding = None then Inl (ValueError ''dense retrieval requires a query embedding'')
      else let lexical = (if uses_lexical then lexical_rows T Q now t q (relaxed_websearch_query T (qy_text q)) else []);
        dense = (if uses_dense then dense_rows T Q now t q (vector_literal g9 (the embedding)) model else []) in
      rbind (rmap (candidate_of_row C Q q) (enumerate 1 lexical)) (\<lambda>l.
      rbind (rmap (candidate_of_row C Q q) (enumerate 1 dense)) (\<lambda>d.
        Inr \<lparr>cb_lexical = l, cb_dense = d\<rparr>)))"


section \<open>Relaxed queries\<close>

text \<open>The loop keeps the first distinct terms that are no operators, at most 32.\<close>

lemma lexical_terms_take:
  assumes "length terms < max_lexical_terms" "distinct terms"
  shows "lexical_terms terms ts = take max_lexical_terms
    (terms @ filter (\<lambda>t. t \<notin> set terms) (first_occurrences (filter (\<lambda>t. t \<notin> set lexical_operators) ts)))"
  using assms
proof (induction ts arbitrary: terms)
  case (Cons t ts)
  let ?new = "first_occurrences (filter (\<lambda>t. t \<notin> set lexical_operators) ts)"
  show ?case
  proof (cases "t \<in> set lexical_operators \<or> t \<in> set terms")
    case True
    have "filter (\<lambda>u. u \<notin> set terms) (filter (\<lambda>u. u \<noteq> t) ?new) = filter (\<lambda>u. u \<notin> set terms) ?new" if "t \<in> set terms"
      using that by (induction ?new) (auto simp: filter_filter intro!: filter_cong)
    then show ?thesis using True Cons by auto
  next
    case False
    then have eq: "filter (\<lambda>u. u \<notin> set terms) (first_occurrences (filter (\<lambda>t. t \<notin> set lexical_operators) (t # ts)))
        = t # filter (\<lambda>u. u \<notin> set (terms @ [t])) ?new"
      by (simp add: conj_commute)
    show ?thesis
    proof (cases "length terms + 1 = max_lexical_terms")
      case True
      then have "take max_lexical_terms (terms @ t # x) = terms @ [t]" for x by (simp flip: True)
      then show ?thesis unfolding eq using False True by simp
    next
      case more: False
      then have "length (terms @ [t]) < max_lexical_terms" "distinct (terms @ [t])" using Cons.prems False by simp_all
      from Cons.IH [OF this] show ?thesis unfolding eq using False more by simp
    qed
  qed
qed simp

lemma first_occurrences_set: "set (first_occurrences xs) = set xs"
  by (induction xs) auto

lemma first_occurrences_distinct: "distinct (first_occurrences xs)"
  by (induction xs) auto

text \<open>The full-text query is built from the words of the text alone. It is \<open>OR\<close> between at most 32 distinct
terms, the first in the text; each term is a non-empty run of word characters of the case-folded text and
no search operator, so no quote, minus, parenthesis or operator of the user reaches the database.\<close>

theorem relaxed_query_forwards_no_syntax:
  "\<exists>terms. relaxed_websearch_query T s = joined '' OR '' terms
    \<and> terms = take 32 (first_occurrences (filter (\<lambda>t. t \<notin> {''and'', ''not'', ''or''}) (runs (lexical_char T) (tx_casefold T s))))
    \<and> length terms \<le> 32 \<and> distinct terms
    \<and> list_all (\<lambda>t. t \<noteq> [] \<and> list_all (\<lambda>c. tx_word T c \<and> c \<noteq> CHR ''_'') t \<and> t \<notin> {''and'', ''not'', ''or''}) terms"
proof -
  let ?found = "first_occurrences (filter (\<lambda>t. t \<notin> {''and'', ''not'', ''or''}) (runs (lexical_char T) (tx_casefold T s)))"
  have eq: "lexical_terms [] (runs (lexical_char T) (tx_casefold T s)) = take 32 ?found"
    using lexical_terms_take [of "[]"] by (simp add: max_lexical_terms_def lexical_operators_def)
  have each: "t \<noteq> [] \<and> (\<forall>c \<in> set t. tx_word T c \<and> c \<noteq> CHR ''_'') \<and> t \<notin> {''and'', ''not'', ''or''}" if "t \<in> set (take 32 ?found)" for t
  proof -
    have "t \<in> set (runs (lexical_char T) (tx_casefold T s))" "t \<notin> {''and'', ''not'', ''or''}"
      using in_set_takeD [OF that] unfolding first_occurrences_set by simp_all
    then show ?thesis using runs_words [of t "lexical_char T"] by (auto simp: word_def lexical_char_def list_all_iff)
  qed
  have dis: "distinct (take 32 ?found)" by (intro distinct_take first_occurrences_distinct)
  have len: "length (take 32 ?found) \<le> 32" by (simp only: length_take min.cobounded2)
  show ?thesis unfolding relaxed_websearch_query_def list_all_iff eq
    by (rule exI [of _ "take 32 ?found"]) (rule conjI [OF refl conjI [OF refl conjI [OF len conjI [OF dis]]]], rule ballI, rule each)
qed

section \<open>Hits satisfy the query\<close>

definition hit_row :: "event_codec \<Rightarrow> document_row \<Rightarrow> signal_event stream_message \<Rightarrow> bool" where
  "hit_row C r m \<longleftrightarrow> sm_stream_id m = dc_stream_id r \<and> ec_load C (dc_json r) = Inr (sm_event m)"

lemma candidates_from_rows:
  assumes "rmap (candidate_of_row C Q q) (enumerate n rows) = Inr cs" "c \<in> set cs"
  shows "\<exists>r score. (r, score) \<in> set rows \<and> hit_row C r (cc_message c) \<and> cc_document_text c = dc_text r
    \<and> cc_distance_km c = distance_expression Q q r"
proof -
  obtain i where i: "i < length cs" "cs ! i = c" using assms(2) by (auto simp: in_set_conv_nth)
  have all: "list_all2 (\<lambda>x y. candidate_of_row C Q q x = Inr y) (enumerate n rows) cs" using assms(1) by (simp add: rmap_eq_Inr)
  have len: "i < length rows" using i(1) list_all2_lengthD [OF all] by simp
  obtain r score where r: "rows ! i = (r, score)" by (cases "rows ! i")
  have "candidate_of_row C Q q (n + i, r, score) = Inr c"
    using list_all2_nthD2 [OF all i(1)] i(2) len r by (simp add: nth_enumerate_eq)
  moreover have "(r, score) \<in> set rows" using len r nth_mem by metis
  ultimately show ?thesis by (auto simp: candidate_of_row_def hit_row_def)
qed

lemma rows_filtered:
  "(r, score) \<in> set (lexical_rows T Q now t q lq) \<Longrightarrow> r \<in> set (ix_documents t) \<and> filters T Q now q r \<and> rs_matches Q (dc_text r) lq"
  "(r, score) \<in> set (dense_rows T Q now t q v model) \<Longrightarrow> r \<in> set (ix_documents t) \<and> filters T Q now q r \<and> dc_model r = model"
  by (auto simp: lexical_rows_def dense_rows_def dest!: in_set_takeD)

lemma merge_into_from: "(k, m) \<in> set (merge_into l c ms) \<Longrightarrow>
    mc_candidate m \<in> insert c (mc_candidate ` snd ` set ms)"
  by (induction l c ms rule: merge_into.induct)
    (auto simp: record_channel_def fresh_merged_def Let_def image_iff split: if_splits intro: bexI [rotated])


lemma merge_from:
  assumes "(k, m) \<in> set (merge b)"
  shows "mc_candidate m \<in> set (cb_lexical b) \<union> set (cb_dense b)"
proof -
  have fold: "mc_candidate ` snd ` set (fold (merge_into l) cs ms) \<subseteq> set cs \<union> mc_candidate ` snd ` set ms" for l cs ms
  proof (induction cs arbitrary: ms)
    case (Cons c cs)
    have "mc_candidate ` snd ` set (merge_into l c ms) \<subseteq> insert c (mc_candidate ` snd ` set ms)"
      using merge_into_from by fastforce
    have "mc_candidate ` snd ` set (fold (merge_into l) cs (merge_into l c ms))
        \<subseteq> set cs \<union> mc_candidate ` snd ` set (merge_into l c ms)" by (rule Cons.IH)
    have trans: "X \<subseteq> insert x S \<union> Z" if "Y \<subseteq> insert x Z" "X \<subseteq> S \<union> Y" for X Y Z S and x :: channel_candidate
      using that by blast
    show ?case unfolding fold_Cons comp_apply list.set by (rule trans) fact+
  qed simp
  have "mc_candidate m \<in> mc_candidate ` snd ` set (merge b)" using assms by force
  then show ?thesis
    using fold [of False "cb_dense b" "fold (merge_into True) (cb_lexical b) []"] fold [of True "cb_lexical b" "[]"]
    by (auto simp: merge_def)
qed

lemma hits_from_rows:
  assumes run: "search T U E (index_candidates T C g9 Q now) t q = Inr result" and h: "h \<in> set (sr_hits result)"
  shows "\<exists>r \<in> set (ix_documents t). hit_row C r (sh_message h) \<and> filters T Q now q r
    \<and> sh_document_text h = dc_text r \<and> sh_distance_km h = distance_expression Q q r
    \<and> ((qy_ranking_mode q \<noteq> DenseMode \<and> rs_matches Q (dc_text r) (relaxed_websearch_query T (qy_text q)))
      \<or> (qy_ranking_mode q \<noteq> LexicalMode \<and> dc_model r = em_model E))"
proof -
  obtain embedding batch where b: "index_candidates T C g9 Q now t q embedding (em_model E) = Inr batch"
    and hits: "sr_hits result = rank_candidates T U batch (qy_text q) (qy_limit q) (qy_ranking_mode q)"
    using run by (auto simp: search_def)
  obtain k m where m: "(k, m) \<in> set (merge batch)" "h = merged_hit T U (qy_text q) m"
    using rank_hits_from h unfolding hits by blast
  let ?c = "mc_candidate m"
  have hit: "sh_message h = cc_message ?c" "sh_document_text h = cc_document_text ?c" "sh_distance_km h = cc_distance_km ?c"
    by (simp_all add: m(2) merged_hit_def Let_def)
  let ?lexical = "if qy_ranking_mode q \<noteq> DenseMode then lexical_rows T Q now t q (relaxed_websearch_query T (qy_text q)) else []"
  let ?dense = "if qy_ranking_mode q \<noteq> LexicalMode then dense_rows T Q now t q (vector_literal g9 (the embedding)) (em_model E) else []"
  have "rmap (candidate_of_row C Q q) (enumerate 1 ?lexical) = Inr (cb_lexical batch)"
    "rmap (candidate_of_row C Q q) (enumerate 1 ?dense) = Inr (cb_dense batch)"
    using b unfolding index_candidates_def Let_def by (auto split: if_splits)
  note from_rows = candidates_from_rows [OF this(1), of ?c] candidates_from_rows [OF this(2), of ?c]
  from merge_from [OF m(1)] show ?thesis
  proof
    assume "?c \<in> set (cb_lexical batch)"
    from from_rows(1) [OF this] obtain r score where r: "(r, score) \<in> set ?lexical" "hit_row C r (cc_message ?c)"
      "cc_document_text ?c = dc_text r" "cc_distance_km ?c = distance_expression Q q r" by blast
    have mode: "qy_ranking_mode q \<noteq> DenseMode" using r(1) by auto
    then show ?thesis using r rows_filtered(1) hit by (intro bexI [of _ r]) auto
  next
    assume "?c \<in> set (cb_dense batch)"
    from from_rows(2) [OF this] obtain r score where r: "(r, score) \<in> set ?dense" "hit_row C r (cc_message ?c)"
      "cc_document_text ?c = dc_text r" "cc_distance_km ?c = distance_expression Q q r" by blast
    have mode: "qy_ranking_mode q \<noteq> LexicalMode" using r(1) by auto
    then show ?thesis using r rows_filtered(2) hit by (intro bexI [of _ r]) auto
  qed
qed

text \<open>C12. Search finds current documents that satisfy the query. After any number of indexing cycles, each
hit of a search is the newest message of its signal among those indexed, decoded from the stored row; that
row passes every filter of the query, its text matches the relaxed query or its vector was made by the
model of the query, as the ranking mode says; no signal is hit twice, and there are at most as many hits
as the query asks for.\<close>

theorem search_finds_current_documents:
  fixes A :: "signal_event event_api" and es :: "signal_event list"
  defines "b \<equiv> fst (publish_many A es empty_bus)"
  assumes "embeds_each (ic_embedder I) f" "list_all (indexable I f) (mb_messages b)" "1 \<le> n"
    and cycles: "index_cycles replay I name n b m empty_index = (t, Inr ())"
    and run: "search T U (ic_embedder I) (index_candidates T (ic_codec I) (ic_g9 I) (ic_sql I) now) t q = Inr result"
    and limit: "0 \<le> qy_limit q"
  shows "(\<forall>h \<in> set (sr_hits result). \<exists>x r. newest_in (take (m * nat n) (mb_messages b)) x \<and> row_of_message I f x = Inr r
      \<and> sm_stream_id (sh_message h) = sm_stream_id x \<and> ec_load (ic_codec I) (ec_dump (ic_codec I) (sm_event x)) = Inr (sm_event (sh_message h))
      \<and> filters T (ic_sql I) now q r
      \<and> ((qy_ranking_mode q \<noteq> DenseMode \<and> rs_matches (ic_sql I) (dc_text r) (relaxed_websearch_query T (qy_text q)))
        \<or> (qy_ranking_mode q \<noteq> LexicalMode \<and> dc_model r = em_model (ic_embedder I))))
    \<and> distinct (map hit_key (sr_hits result)) \<and> int (length (sr_hits result)) \<le> qy_limit q"
proof -
  have "index_holds I f t (take (m * nat n) (mb_messages b))"
    using index_reaches [OF assms(2-4) [unfolded b_def], of name m] cycles unfolding b_def by simp
  then have hold: "documents_hold I f (ix_documents t) (take (m * nat n) (mb_messages b))" by (simp add: index_holds_def)
  have each: "\<exists>x r. newest_in (take (m * nat n) (mb_messages b)) x \<and> row_of_message I f x = Inr r
      \<and> sm_stream_id (sh_message h) = sm_stream_id x \<and> ec_load (ic_codec I) (ec_dump (ic_codec I) (sm_event x)) = Inr (sm_event (sh_message h))
      \<and> filters T (ic_sql I) now q r
      \<and> ((qy_ranking_mode q \<noteq> DenseMode \<and> rs_matches (ic_sql I) (dc_text r) (relaxed_websearch_query T (qy_text q)))
        \<or> (qy_ranking_mode q \<noteq> LexicalMode \<and> dc_model r = em_model (ic_embedder I)))" if h: "h \<in> set (sr_hits result)" for h
  proof -
    obtain r where r: "r \<in> set (ix_documents t)" "hit_row (ic_codec I) r (sh_message h)" "filters T (ic_sql I) now q r"
      "(qy_ranking_mode q \<noteq> DenseMode \<and> rs_matches (ic_sql I) (dc_text r) (relaxed_websearch_query T (qy_text q)))
        \<or> (qy_ranking_mode q \<noteq> LexicalMode \<and> dc_model r = em_model (ic_embedder I))"
      using hits_from_rows [OF run h] by blast
    obtain x where x: "newest_in (take (m * nat n) (mb_messages b)) x" "row_of_message I f x = Inr r"
      using newest_row [OF hold r(1)] .
    have "dc_stream_id r = sm_stream_id x" "dc_json r = ec_dump (ic_codec I) (sm_event x)"
      using x(2) by (auto simp: row_of_message_def retrieval_document_values_def projection_values_def document_of_def Let_def)
    then show ?thesis using x r(2-4) unfolding hit_row_def by (intro exI [of _ x] exI [of _ r]) simp
  qed
  obtain batch where hits: "sr_hits result = rank_candidates T U batch (qy_text q) (qy_limit q) (qy_ranking_mode q)"
    using run by (auto simp: search_def)
  note order = ranking_order [OF limit, of "qy_ranking_mode q" T U batch "qy_text q", folded hits]
  show ?thesis using each order limit by (auto simp: le_nat_iff)
qed


section \<open>A sample index\<close>

text \<open>A model whose vectors are all ones, of the width of the schema, over the two events of
\<open>sample_events_bus\<close>.\<close>

definition ones :: "string \<Rightarrow> embedding" where
  "ones s = replicate 384 1"

definition sample_factory :: "vector_model res" where
  "sample_factory = Inr \<lparr>vm_size = 384, vm_passages = \<lambda>ts. Inr (map ones ts), vm_queries = \<lambda>ts. Inr (map ones ts)\<rparr>"

definition sample_floats :: float_api where
  "sample_floats = \<lparr>fa_sum = sum_list, fa_sqrt = id\<rparr>"

definition sample_provider :: provider where
  "sample_provider = \<lparr>pv_name = ''bge'', pv_dimensions = 384, pv_model = None\<rparr>"

definition sample_sql :: retrieval_sql where
  "sample_sql = \<lparr>rs_json_ok = \<lambda>s. True, rs_geojson_ok = \<lambda>s. True,
     rs_vector_width = \<lambda>s. Some (Suc (length (filter (\<lambda>c. c = CHR '','') s))), rs_payload = \<lambda>s k. None,
     rs_matches = \<lambda>d q. True, rs_rank = \<lambda>d q. 1, rs_distance = \<lambda>v w. 0, rs_intersects = \<lambda>g b. True,
     rs_dwithin = \<lambda>g p x. True, rs_point_distance = \<lambda>g p. 0, rs_lower = id, rs_collate = id\<rparr>"

definition sample_render :: render_api where
  "sample_render = \<lparr>rd_general = \<lambda>x. ''1'', rd_fixed6 = \<lambda>x. ''1'', rd_nonfinite = \<lambda>n. ''nan'', rd_json_float = \<lambda>x. ''1''\<rparr>"

definition sample_index :: index_config where
  "sample_index = \<lparr>ic_codec = sample_event_codec, ic_g9 = \<lambda>x. ''1'', ic_sql = sample_sql, ic_render = sample_render,
     ic_sha256 = \<lambda>s. replicate 64 (CHR ''0''), ic_embedder = provider_embedder sample_factory sample_floats sample_provider\<rparr>"

abbreviation sample_vector :: "string \<Rightarrow> embedding" where
  "sample_vector \<equiv> \<lambda>s. normalized_vector sample_floats (ones s)"

lemma sample_embeds: "embeds_each (ic_embedder sample_index) sample_vector"
proof -
  have "provider_ok sample_factory sample_provider" by (simp add: provider_ok_def sample_provider_def)
  moreover have "sum_list (map (\<lambda>v. fl (v * v)) (replicate 384 (1::rat))) \<noteq> 0" by (simp add: sum_list_replicate)
  then have "model_laws sample_factory sample_floats sample_provider ones"
    by (simp add: model_laws_def sample_factory_def sample_floats_def sample_provider_def ones_def)
  ultimately show ?thesis unfolding sample_index_def index_config.select_convs by (rule provider_embeds_each)
qed

lemma commas: "length (filter (\<lambda>c. c = CHR '','') (joined '','' (replicate (Suc n) ''1''))) = n"
  by (induction n) simp_all

lemma sample_row: "row_of_message sample_index sample_vector \<lparr>sm_stream_id = memory_stream_id n, sm_event = sample_event i\<rparr> = Inr
    \<lparr>dc_source = ''usgs'', dc_event_id = i, dc_stream_id = memory_stream_id n, dc_position = (0, n), dc_occurred = utc 0,
     dc_ingested = utc 0, dc_expires = None, dc_json = i, dc_text = render_event_document sample_render (sample_event i),
     dc_hash = replicate 64 (CHR ''0''), dc_model = ''bge'', dc_vector = ''['' @ joined '','' (replicate 384 ''1'') @ '']'',
     dc_point = Some (10, 20), dc_footprint = None\<rparr>"
proof -
  have "map (\<lambda>x. ''1'') (sample_vector s) = replicate 384 ''1''" for s
    by (simp add: normalized_vector_def ones_def map_replicate_const)
  then show ?thesis
    by (simp add: row_of_message_def retrieval_document_values_def sample_index_def document_of_def vector_literal_def
      document_hash_def provider_embedder_def sample_provider_def sample_projection_values Let_def)
qed

lemma sample_indexable: "list_all (indexable sample_index sample_vector) (mb_messages sample_events_bus)"
proof -
  have "length (filter (\<lambda>c. c = CHR '','') (joined '','' (replicate 384 ''1''))) = 383" using commas [of 383] by simp
  then have width: "rs_vector_width sample_sql (''['' @ joined '','' (replicate 384 ''1'') @ '']'') = Some 384"
    by (simp add: sample_sql_def)
  have hash: "matches_hex [] 64 (replicate 64 (CHR ''0''))" by (simp add: matches_hex_def is_prefix_def hex_digits_def list_all_iff)
  have "length (memory_stream_id 1) \<le> 64" "length (memory_stream_id 2) \<le> 64" by code_simp+
  then show ?thesis
    using width hash by (simp add: sample_events_messages indexable_def sample_row document_admissible_def)
      (simp add: sample_index_def sample_sql_def)
qed


theorem index_catches_up_witness:
  "\<exists>t. index_cycles replay sample_index ''retrieval'' 1
      (fst (publish_many sample_event_api [sample_event ''a'', sample_event ''b''] empty_bus)) 2 empty_index = (t, Inr ())
    \<and> distinct (map doc_key (ix_documents t))
    \<and> Inr ` set (ix_documents t) = row_of_message sample_index sample_vector ` {x. newest_in (take (2 * nat 1)
        (mb_messages (fst (publish_many sample_event_api [sample_event ''a'', sample_event ''b''] empty_bus)))) x}"
proof -
  have "list_all (indexable sample_index sample_vector)
      (mb_messages (fst (publish_many sample_event_api [sample_event ''a'', sample_event ''b''] empty_bus)))"
    using sample_indexable by (simp only: sample_events_bus_def)
  from index_catches_up [OF sample_embeds this, of 1 "''retrieval''" 2] show ?thesis by blast
qed

definition sample_search :: search_query where
  "sample_search = sample_query\<lparr>qy_text := ''flood warning'', qy_ranking_mode := LexicalMode\<rparr>"

theorem search_finds_current_documents_witness:
  "\<exists>t result. index_cycles replay sample_index ''retrieval'' 1 sample_events_bus 2 empty_index = (t, Inr ())
    \<and> search sample_text_api sample_url_api (ic_embedder sample_index)
        (index_candidates sample_text_api sample_event_codec (\<lambda>x. ''1'') sample_sql (utc 0)) t sample_search = Inr result
    \<and> distinct (map hit_key (sr_hits result)) \<and> int (length (sr_hits result)) \<le> qy_limit sample_search"
proof -
  have I: "ic_codec sample_index = sample_event_codec" "ic_g9 sample_index = (\<lambda>x. ''1'')" "ic_sql sample_index = sample_sql"
    by (simp_all add: sample_index_def)
  obtain t where t: "index_cycles replay sample_index ''retrieval'' 1 sample_events_bus 2 empty_index = (t, Inr ())"
    using index_reaches [OF sample_embeds, of sample_event_api "[sample_event ''a'', sample_event ''b'']" 1 "''retrieval''" 2]
      sample_indexable unfolding sample_events_bus_def by auto
  have "\<exists>cs. rmap (candidate_of_row sample_event_codec sample_sql sample_search) xs = Inr cs" for xs
    by (rule rmap_ok_iff [THEN iffD2]) (simp add: candidate_of_row_def sample_event_codec_def split: prod.splits)
  then obtain cs where cs: "rmap (candidate_of_row sample_event_codec sample_sql sample_search)
      (enumerate 1 (lexical_rows sample_text_api sample_sql (utc 0) t sample_search (relaxed_websearch_query sample_text_api (qy_text sample_search))))
      = Inr cs" by blast
  have mode: "qy_ranking_mode sample_search = LexicalMode" by (simp add: sample_search_def)
  have "index_candidates sample_text_api sample_event_codec (\<lambda>x. ''1'') sample_sql (utc 0) t sample_search None model
      = Inr \<lparr>cb_lexical = cs, cb_dense = []\<rparr>" for model
    using cs by (simp add: index_candidates_def mode)
  then have "\<exists>result. search sample_text_api sample_url_api (ic_embedder sample_index)
      (index_candidates sample_text_api sample_event_codec (\<lambda>x. ''1'') sample_sql (utc 0)) t sample_search = Inr result"
    by (simp add: search_def mode)
  then obtain result where r: "search sample_text_api sample_url_api (ic_embedder sample_index)
      (index_candidates sample_text_api sample_event_codec (\<lambda>x. ''1'') sample_sql (utc 0)) t sample_search = Inr result" ..
  have limit: "0 \<le> qy_limit sample_search" by (simp add: sample_search_def sample_query_def)
  from search_finds_current_documents [OF sample_embeds sample_indexable [unfolded sample_events_bus_def] order_refl
      t [unfolded sample_events_bus_def], unfolded I, OF r limit] t r show ?thesis by blast
qed

end
