(* ===== verification/Grounded.thy ===== *)
theory Grounded
  imports EvidencePack
begin

text \<open>
  Grounded-answer evaluation (\<open>grounded_answer_evaluation/\<close>): the gold-free task, the imported candidate
  batch, the human review and the metrics report (\<open>base.py\<close>, \<open>candidates.py\<close>, \<open>metrics.py\<close>), and the
  identity of a candidate system (\<open>relationship_evaluation/candidates.py\<close>). The dump of a model to JSON,
  SHA-256, the text of a float, case folding and the float \<open>sum\<close> are arguments. Constant fields are left
  out, and a violated field constraint is one guard of its validator.
\<close>

section \<open>Shared checks\<close>

definition alnum_lower :: "char \<Rightarrow> bool" where
  "alnum_lower c \<longleftrightarrow> c \<in> set dec_digits \<or> CHR ''a'' \<le> c \<and> c \<le> CHR ''z''"

text \<open>The patterns of a query id and of a benchmark or candidate id.\<close>

definition slug :: "string \<Rightarrow> bool" where
  "slug s \<longleftrightarrow> (case s of [] \<Rightarrow> False | c # r \<Rightarrow> alnum_lower c \<and> list_all (\<lambda>d. alnum_lower d \<or> d = CHR ''-'') r
     \<and> 1 \<le> length r \<and> length r \<le> 63)"

definition name_id :: "string \<Rightarrow> bool" where
  "name_id s \<longleftrightarrow> (case s of [] \<Rightarrow> False | c # r \<Rightarrow> alnum_lower c
     \<and> list_all (\<lambda>d. alnum_lower d \<or> d \<in> {CHR ''.'', CHR ''_'', CHR ''-''}) r \<and> 2 \<le> length r \<and> length r \<le> 119)"

definition in_range :: "'a::linorder \<Rightarrow> 'a \<Rightarrow> 'a \<Rightarrow> bool" where
  "in_range lo hi x \<longleftrightarrow> lo \<le> x \<and> x \<le> hi"

definition if_some :: "('a \<Rightarrow> bool) \<Rightarrow> 'a option \<Rightarrow> bool" where
  "if_some p v \<longleftrightarrow> (case v of None \<Rightarrow> True | Some x \<Rightarrow> p x)"

lemma if_some_simps [simp]: "if_some p None" "if_some p (Some x) \<longleftrightarrow> p x"
  by (simp_all add: if_some_def)

definition aware :: "datetime \<Rightarrow> bool" where
  "aware t \<longleftrightarrow> dt_off t \<noteq> None"

definition ordered_unique :: "'a::linorder list \<Rightarrow> bool" where
  "ordered_unique xs \<longleftrightarrow> distinct xs \<and> sorted xs"

text \<open>\<open>{key(x): x for x in xs}\<close>: the last of equal keys counts.\<close>

definition dict_by :: "('a \<Rightarrow> 'k) \<Rightarrow> 'a list \<Rightarrow> 'k \<rightharpoonup> 'a" where
  "dict_by key xs = map_of (rev (map (\<lambda>x. (key x, x)) xs))"

section \<open>Candidate identity\<close>

record candidate_system =
  cs_candidate_id :: string
  cs_model_id :: string
  cs_model_revision :: string
  cs_model_artifact :: string
  cs_adapter :: string
  cs_template :: string
  cs_runtime :: string
  cs_runtime_version :: string
  cs_parameters :: "(string \<times> json) list"

definition parameter_ok :: "string \<times> json \<Rightarrow> bool" where
  "parameter_ok kv \<longleftrightarrow> (case kv of (k, v) \<Rightarrow> k \<noteq> [] \<and> k = py_strip k \<and> length k \<le> 120
     \<and> (case v of JBool b \<Rightarrow> True | JInt i \<Rightarrow> True | JFloat x \<Rightarrow> True | JStr s \<Rightarrow> True | _ \<Rightarrow> False))"

definition validate_system :: "candidate_system \<Rightarrow> candidate_system res" where
  "validate_system s = (let s' = s\<lparr>cs_model_id := normalize_space (cs_model_id s), cs_runtime := normalize_space (cs_runtime s),
       cs_runtime_version := normalize_space (cs_runtime_version s)\<rparr> in
     raise_first
       [(\<not> (name_id (cs_candidate_id s) \<and> in_range 1 500 (length (cs_model_id s))
          \<and> (matches_hex [] 40 (cs_model_revision s) \<or> matches_hex [] 64 (cs_model_revision s))
          \<and> matches_hex [] 64 (cs_model_artifact s) \<and> name_id (cs_adapter s) \<and> matches_hex [] 64 (cs_template s)
          \<and> in_range 1 200 (length (cs_runtime s)) \<and> in_range 1 200 (length (cs_runtime_version s))), ''CandidateSystemDefinition fields''),
        (cs_model_id s' = [] \<or> cs_runtime s' = [] \<or> cs_runtime_version s' = [], ''candidate identity fields must not be blank''),
        (\<not> list_all parameter_ok (cs_parameters s), ''candidate parameter keys must be non-blank normalized strings'')] s')"

text \<open>Equality of models, whose parameters are a dictionary. A boolean, an integer and a float of the same value
are equal in Python.\<close>

fun parameter_number :: "json \<Rightarrow> rat option" where
  "parameter_number (JBool b) = Some (of_bool b)"
| "parameter_number (JInt i) = Some (of_int i)"
| "parameter_number (JFloat x) = Some x"
| "parameter_number v = None"

definition same_parameter :: "json option \<Rightarrow> json option \<Rightarrow> bool" where
  "same_parameter v w \<longleftrightarrow> (case (v, w) of (Some a, Some b) \<Rightarrow>
       (if parameter_number a = None then a = b else parameter_number a = parameter_number b)
     | _ \<Rightarrow> v = w)"

definition same_system :: "candidate_system \<Rightarrow> candidate_system \<Rightarrow> bool" where
  "same_system s t \<longleftrightarrow> s\<lparr>cs_parameters := []\<rparr> = t\<lparr>cs_parameters := []\<rparr>
     \<and> list_all (\<lambda>k. same_parameter (map_of (cs_parameters s) k) (map_of (cs_parameters t) k))
         (map fst (cs_parameters s) @ map fst (cs_parameters t))"

lemma same_system_refl [simp]: "same_system s s"
  by (auto simp: same_system_def same_parameter_def list_all_iff split: option.split)

section \<open>Tasks\<close>

record answer_evidence =
  ge_evidence_id :: string
  ge_rank :: int
  ge_stream_id :: string
  ge_event_id :: string
  ge_event_type :: string
  ge_source :: string
  ge_occurred :: datetime
  ge_text :: string
  ge_document_sha256 :: string
  ge_text_sha256 :: string
  ge_truncated :: bool
  ge_citation_url :: string

record task_case =
  tc_case_id :: string
  tc_query_id :: string
  tc_question :: string
  tc_slices :: "string list"
  tc_pack_id :: string
  tc_pack_status :: pack_status
  tc_evidence :: "answer_evidence list"
  tc_exclusion_count :: int
  tc_source_text_characters :: int

record answer_task =
  gt_task_id :: string
  gt_task_sha256 :: string
  gt_benchmark_id :: string
  gt_benchmark_sha256 :: string
  gt_captured_at :: datetime
  gt_endpoint :: string
  gt_case_count :: int
  gt_cases :: "task_case list"

section \<open>Responses\<close>

datatype response_status = Answered | Abstained

datatype abstention_reason = AbstainNoEvidence | AbstainInsufficient | AbstainConflicting

record claim =
  cl_claim_id :: string
  cl_text :: string
  cl_evidence_ids :: "string list"

record response =
  rp_status :: response_status
  rp_claims :: "claim list"
  rp_abstention_reason :: "abstention_reason option"

record submission_case =
  sc_case_id :: string
  sc_query_id :: string
  sc_response :: "response option"
  sc_input_tokens :: "int option"
  sc_output_tokens :: "int option"
  sc_latency_ms :: "rat option"

record answer_submission =
  su_task_id :: string
  su_task_sha256 :: string
  su_cases :: "submission_case list"

record candidate_case =
  kc_case_id :: string
  kc_query_id :: string
  kc_response :: response
  kc_input_tokens :: int
  kc_output_tokens :: int
  kc_latency_ms :: rat

record answer_batch =
  ab_batch_id :: string
  ab_batch_sha256 :: string
  ab_task_id :: string
  ab_task_sha256 :: string
  ab_generated_at :: datetime
  ab_system :: candidate_system
  ab_case_count :: int
  ab_cases :: "candidate_case list"


section \<open>Identities\<close>

text \<open>\<open>model_dump(mode="json")\<close> of each model, and what the content hash uses of the standard library. An
excluded field is blank in the model that is dumped.\<close>

record answer_api =
  aa_sha256 :: "string \<Rightarrow> string"
  aa_float :: "rat \<Rightarrow> string"
  aa_casefold :: "string \<Rightarrow> string"
  aa_dump_case :: "task_case \<Rightarrow> json"
  aa_dump_task :: "answer_task \<Rightarrow> json"
  aa_dump_response :: "response \<Rightarrow> json"
  aa_dump_batch :: "answer_batch \<Rightarrow> json"

definition canonical_sha256 :: "('a) answer_api_scheme \<Rightarrow> json \<Rightarrow> string" where
  "canonical_sha256 A v = aa_sha256 A (dumps True (aa_float A) v)"

definition grounded_answer_case_sha256 :: "('a) answer_api_scheme \<Rightarrow> task_case \<Rightarrow> string" where
  "grounded_answer_case_sha256 A c = canonical_sha256 A (aa_dump_case A (c\<lparr>tc_case_id := []\<rparr>))"

definition grounded_answer_task_sha256 :: "('a) answer_api_scheme \<Rightarrow> answer_task \<Rightarrow> string" where
  "grounded_answer_task_sha256 A t = canonical_sha256 A (aa_dump_task A (t\<lparr>gt_task_id := [], gt_task_sha256 := []\<rparr>))"

definition grounded_answer_batch_sha256 :: "('a) answer_api_scheme \<Rightarrow> answer_batch \<Rightarrow> string" where
  "grounded_answer_batch_sha256 A b = canonical_sha256 A (aa_dump_batch A (b\<lparr>ab_batch_id := [], ab_batch_sha256 := []\<rparr>))"

section \<open>Validators\<close>

definition validate_evidence :: "('a) answer_api_scheme \<Rightarrow> answer_evidence \<Rightarrow> answer_evidence res" where
  "validate_evidence A e = raise_first
     [(\<not> (matches_hex ''evidence-'' 64 (ge_evidence_id e) \<and> in_range 1 50 (ge_rank e)
        \<and> in_range 1 200 (length (ge_stream_id e)) \<and> in_range 1 500 (length (ge_event_id e)) \<and> in_range 1 200 (length (ge_event_type e))
        \<and> in_range 1 64000 (length (ge_text e)) \<and> matches_hex [] 64 (ge_document_sha256 e) \<and> matches_hex [] 64 (ge_text_sha256 e)
        \<and> in_range 8 2000 (length (ge_citation_url e))), ''GroundedAnswerEvidence fields''),
      (\<not> aware (ge_occurred e), ''grounded-answer evidence timestamps must be timezone-aware''),
      (aa_sha256 A (ge_text e) \<noteq> ge_text_sha256 e, ''grounded-answer evidence text_sha256 must match text'')] e"

definition validate_task_case :: "('a) answer_api_scheme \<Rightarrow> task_case \<Rightarrow> task_case res" where
  "validate_task_case A c = raise_first
     [(\<not> (matches_hex ''answer-case-'' 20 (tc_case_id c) \<and> slug (tc_query_id c) \<and> in_range 2 500 (length (tc_question c))
        \<and> in_range 1 12 (length (tc_slices c)) \<and> matches_hex ''pack-'' 64 (tc_pack_id c) \<and> length (tc_evidence c) \<le> 50
        \<and> 0 \<le> tc_exclusion_count c \<and> in_range 0 64000 (tc_source_text_characters c)), ''GroundedAnswerTaskCase fields''),
      (\<not> distinct (map ge_evidence_id (tc_evidence c)), ''grounded-answer case evidence IDs must be unique''),
      (\<not> ordered_unique (map ge_rank (tc_evidence c)), ''grounded-answer evidence must preserve unique retrieval order''),
      ((tc_pack_status c = TraceableEvidence) \<noteq> (tc_evidence c \<noteq> []), ''grounded-answer pack status must match available evidence''),
      (int (sum_list (map (\<lambda>e. length (ge_text e)) (tc_evidence c))) \<noteq> tc_source_text_characters c,
        ''source_text_characters must match included evidence''),
      (tc_case_id c \<noteq> ''answer-case-'' @ take 20 (grounded_answer_case_sha256 A c),
        ''grounded-answer case_id must match its exact evidence payload'')] c"

definition validate_task :: "('a) answer_api_scheme \<Rightarrow> answer_task \<Rightarrow> answer_task res" where
  "validate_task A t = raise_first
     [(\<not> (matches_hex ''grounded-task-'' 20 (gt_task_id t) \<and> matches_hex [] 64 (gt_task_sha256 t) \<and> name_id (gt_benchmark_id t)
        \<and> matches_hex [] 64 (gt_benchmark_sha256 t) \<and> in_range 8 2000 (length (gt_endpoint t)) \<and> 1 \<le> gt_case_count t
        \<and> in_range 1 100 (length (gt_cases t))), ''GroundedAnswerTask fields''),
      (\<not> aware (gt_captured_at t), ''grounded-answer capture timestamp must be timezone-aware''),
      (gt_case_count t \<noteq> int (length (gt_cases t)), ''grounded-answer task case_count must match cases''),
      (\<not> ordered_unique (map tc_case_id (gt_cases t)), ''grounded-answer task cases must be unique and canonically ordered''),
      (\<not> distinct (map tc_query_id (gt_cases t)), ''grounded-answer task query IDs must be unique''),
      (gt_task_sha256 t \<noteq> grounded_answer_task_sha256 A t, ''grounded-answer task_sha256 must match its exact capture''),
      (gt_task_id t \<noteq> ''grounded-task-'' @ take 20 (grounded_answer_task_sha256 A t), ''grounded-answer task_id must match task_sha256'')] t"

text \<open>The text of a claim is normalised before the check of the response.\<close>

definition validate_claim :: "claim \<Rightarrow> claim res" where
  "validate_claim c = (let claim_text = normalize_space (cl_text c) in raise_first
     [(\<not> (is_prefix ''claim-'' (cl_claim_id c) \<and> length (cl_claim_id c) = 8 \<and> list_all (\<lambda>d. d \<in> set dec_digits) (drop 6 (cl_claim_id c))
        \<and> in_range 2 600 (length (cl_text c)) \<and> in_range 1 4 (length (cl_evidence_ids c))), ''GroundedAnswerClaim fields''),
      (length claim_text < 2, ''grounded-answer claims must contain at least two characters''),
      (\<not> distinct (cl_evidence_ids c), ''claim evidence IDs must be unique''),
      (\<not> sorted (cl_evidence_ids c), ''claim evidence IDs must use canonical order''),
      (\<not> list_all (matches_hex ''evidence-'' 64) (cl_evidence_ids c), ''claims must cite canonical evidence IDs'')]
     (c\<lparr>cl_text := claim_text\<rparr>))"

definition claim_id_at :: "nat \<Rightarrow> string" where
  "claim_id_at i = ''claim-'' @ (if i < 10 then CHR ''0'' # nat_dec i else nat_dec i)"

definition validate_answer_response :: "('a) answer_api_scheme \<Rightarrow> response \<Rightarrow> response res" where
  "validate_answer_response A r = (if rp_status r = Answered then raise_first
       [(8 < length (rp_claims r), ''GroundedAnswerResponse fields''),
        (rp_claims r = [] \<or> rp_abstention_reason r \<noteq> None, ''answered responses require claims and no abstention reason''),
        (map cl_claim_id (rp_claims r) \<noteq> map claim_id_at [1..<length (rp_claims r) + 1],
          ''answered claim IDs must be consecutive and canonically ordered''),
        (\<not> distinct (map (\<lambda>c. aa_casefold A (cl_text c)) (rp_claims r)), ''answered claims must not duplicate normalized text'')] r
     else raise_first
       [(8 < length (rp_claims r), ''GroundedAnswerResponse fields''),
        (rp_claims r \<noteq> [] \<or> rp_abstention_reason r = None, ''abstained responses require one reason and no claims'')] r)"

definition validate_submission_case :: "submission_case \<Rightarrow> submission_case res" where
  "validate_submission_case c = raise_first
     [(\<not> (matches_hex ''answer-case-'' 20 (sc_case_id c) \<and> slug (sc_query_id c) \<and> if_some (\<lambda>n. 1 \<le> n) (sc_input_tokens c)
        \<and> if_some (\<lambda>n. 1 \<le> n) (sc_output_tokens c) \<and> if_some (\<lambda>l. 0 \<le> l) (sc_latency_ms c)),
       ''GroundedAnswerSubmissionCase fields'')] c"

definition validate_submission :: "answer_submission \<Rightarrow> answer_submission res" where
  "validate_submission s = raise_first
     [(\<not> (matches_hex ''grounded-task-'' 20 (su_task_id s) \<and> matches_hex [] 64 (su_task_sha256 s) \<and> in_range 1 100 (length (su_cases s))),
       ''GroundedAnswerSubmission fields''),
      (\<not> ordered_unique (map sc_case_id (su_cases s)), ''grounded-answer submission cases must be unique and ordered'')] s"

definition validate_candidate_case :: "candidate_case \<Rightarrow> candidate_case res" where
  "validate_candidate_case c = raise_first
     [(\<not> (matches_hex ''answer-case-'' 20 (kc_case_id c) \<and> slug (kc_query_id c) \<and> 1 \<le> kc_input_tokens c
        \<and> 1 \<le> kc_output_tokens c \<and> 0 \<le> kc_latency_ms c), ''GroundedAnswerCandidateCase fields'')] c"

definition validate_batch :: "('a) answer_api_scheme \<Rightarrow> answer_batch \<Rightarrow> answer_batch res" where
  "validate_batch A b = raise_first
     [(\<not> (matches_hex ''grounded-batch-'' 20 (ab_batch_id b) \<and> matches_hex [] 64 (ab_batch_sha256 b)
        \<and> matches_hex ''grounded-task-'' 20 (ab_task_id b) \<and> matches_hex [] 64 (ab_task_sha256 b) \<and> 1 \<le> ab_case_count b
        \<and> in_range 1 100 (length (ab_cases b))), ''GroundedAnswerCandidateBatch fields''),
      (\<not> aware (ab_generated_at b), ''grounded-answer batch generated_at must be timezone-aware''),
      (ab_case_count b \<noteq> int (length (ab_cases b)), ''grounded-answer batch case_count must match cases''),
      (\<not> ordered_unique (map kc_case_id (ab_cases b)), ''grounded-answer batch cases must be unique and ordered''),
      (ab_batch_sha256 b \<noteq> grounded_answer_batch_sha256 A b, ''grounded-answer batch_sha256 must match its exact output payload''),
      (ab_batch_id b \<noteq> ''grounded-batch-'' @ take 20 (grounded_answer_batch_sha256 A b), ''grounded-answer batch_id must match batch_sha256'')] b"

text \<open>An instance whose nested instances were built by their own validators.\<close>

definition response_ok :: "('a) answer_api_scheme \<Rightarrow> response \<Rightarrow> bool" where
  "response_ok A r \<longleftrightarrow> validate_answer_response A r = Inr r \<and> list_all (\<lambda>c. validate_claim c = Inr c) (rp_claims r)"

definition task_ok :: "('a) answer_api_scheme \<Rightarrow> answer_task \<Rightarrow> bool" where
  "task_ok A t \<longleftrightarrow> validate_task A t = Inr t \<and> list_all (\<lambda>c. validate_task_case A c = Inr c
     \<and> list_all (\<lambda>e. validate_evidence A e = Inr e) (tc_evidence c)) (gt_cases t)"

definition submission_ok :: "('a) answer_api_scheme \<Rightarrow> answer_submission \<Rightarrow> bool" where
  "submission_ok A s \<longleftrightarrow> validate_submission s = Inr s \<and> list_all (\<lambda>c. validate_submission_case c = Inr c
     \<and> if_some (response_ok A) (sc_response c)) (su_cases s)"

definition batch_ok :: "('a) answer_api_scheme \<Rightarrow> answer_batch \<Rightarrow> bool" where
  "batch_ok A b \<longleftrightarrow> validate_batch A b = Inr b \<and> list_all (\<lambda>c. validate_candidate_case c = Inr c
     \<and> response_ok A (kc_response c)) (ab_cases b)"

section \<open>Importing a submission\<close>

definition build_grounded_answer_submission :: "answer_task \<Rightarrow> answer_submission res" where
  "build_grounded_answer_submission t =
     rbind (rmap (\<lambda>c. validate_submission_case \<lparr>sc_case_id = tc_case_id c, sc_query_id = tc_query_id c, sc_response = None,
        sc_input_tokens = None, sc_output_tokens = None, sc_latency_ms = None\<rparr>) (gt_cases t)) (\<lambda>cases.
     validate_submission \<lparr>su_task_id = gt_task_id t, su_task_sha256 = gt_task_sha256 t, su_cases = cases\<rparr>)"

definition integer_parameter :: "candidate_system \<Rightarrow> string \<Rightarrow> int \<Rightarrow> int \<Rightarrow> int res" where
  "integer_parameter s key lo hi = (case map_of (cs_parameters s) key of
     Some (JInt v) \<Rightarrow> if in_range lo hi v then Inr v
       else Inl (ValueError (''grounded-answer candidate parameter must be an integer in range: '' @ key))
   | _ \<Rightarrow> Inl (ValueError (''grounded-answer candidate parameter must be an integer in range: '' @ key)))"

definition candidate_token_limits :: "candidate_system \<Rightarrow> (int \<times> int) res" where
  "candidate_token_limits s = rbind (integer_parameter s ''context_length'' 256 1000000) (\<lambda>window.
     rbind (integer_parameter s ''max_output_tokens'' 1 window) (\<lambda>cap.
     case map_of (cs_parameters s) ''tokenizer_artifact_sha256'' of
       Some (JStr h) \<Rightarrow> if matches_hex [] 64 h then Inr (window, cap)
         else Inl (ValueError ''grounded-answer candidate requires a tokenizer_artifact_sha256 parameter'')
     | _ \<Rightarrow> Inl (ValueError ''grounded-answer candidate requires a tokenizer_artifact_sha256 parameter'')))"

definition cited_ids :: "response \<Rightarrow> string set" where
  "cited_ids r = set (concat (map cl_evidence_ids (rp_claims r)))"

definition complete_case :: "(string \<rightharpoonup> task_case) \<Rightarrow> int \<Rightarrow> int \<Rightarrow> submission_case \<Rightarrow> candidate_case res" where
  "complete_case tasks window cap s =
     (case (sc_response s, sc_input_tokens s, sc_output_tokens s, sc_latency_ms s) of
       (Some r, Some i, Some u, Some l) \<Rightarrow> (case tasks (sc_case_id s) of
           None \<Rightarrow> Inl (KeyError (sc_case_id s))
         | Some t \<Rightarrow> rbind (raise_first
             [(tc_pack_status t = NoTraceableEvidence \<and> (rp_status r \<noteq> Abstained \<or> rp_abstention_reason r \<noteq> Some AbstainNoEvidence),
                ''cases without traceable evidence require the matching abstention''),
              (tc_pack_status t \<noteq> NoTraceableEvidence \<and> rp_abstention_reason r = Some AbstainNoEvidence,
                ''traceable-evidence cases cannot claim that no evidence was available''),
              (\<not> list_all (\<lambda>e. e \<in> set (map ge_evidence_id (tc_evidence t))) (concat (map cl_evidence_ids (rp_claims r))),
                ''grounded-answer claims cite evidence outside the exact task case''),
              (window < i + cap, ''candidate prompt plus output budget exceeds its context length''),
              (cap < u, ''candidate output token count exceeds its declared maximum'')] r) (\<lambda>_.
            validate_candidate_case \<lparr>kc_case_id = sc_case_id s, kc_query_id = sc_query_id s, kc_response = r, kc_input_tokens = i,
              kc_output_tokens = u, kc_latency_ms = l\<rparr>))
     | _ \<Rightarrow> Inl (ValueError ''grounded-answer submission must complete every candidate field''))"

definition batch_of :: "('a) answer_api_scheme \<Rightarrow> answer_task \<Rightarrow> candidate_system \<Rightarrow> datetime \<Rightarrow> candidate_case list \<Rightarrow> answer_batch" where
  "batch_of A t s stamp cases = (let draft = \<lparr>ab_batch_id = [], ab_batch_sha256 = [], ab_task_id = gt_task_id t, ab_task_sha256 = gt_task_sha256 t,
       ab_generated_at = stamp, ab_system = s, ab_case_count = int (length cases), ab_cases = cases\<rparr>;
     digest = grounded_answer_batch_sha256 A draft in
     draft\<lparr>ab_batch_id := ''grounded-batch-'' @ take 20 digest, ab_batch_sha256 := digest\<rparr>)"

definition apply_grounded_answer_submission ::
  "('a) answer_api_scheme \<Rightarrow> answer_task \<Rightarrow> answer_submission \<Rightarrow> candidate_system \<Rightarrow> datetime option \<Rightarrow> datetime \<Rightarrow> answer_batch res" where
  "apply_grounded_answer_submission A t s system generated now =
     (if su_task_id s \<noteq> gt_task_id t \<or> su_task_sha256 s \<noteq> gt_task_sha256 t
      then Inl (ValueError ''grounded-answer submission does not match the exact task'')
      else if map (\<lambda>c. (sc_case_id c, sc_query_id c)) (su_cases s) \<noteq> map (\<lambda>c. (tc_case_id c, tc_query_id c)) (gt_cases t)
      then Inl (ValueError ''grounded-answer submission changed protected case identities'')
      else rbind (candidate_token_limits system) (\<lambda>(window, cap).
        rbind (rmap (complete_case (dict_by tc_case_id (gt_cases t)) window cap) (su_cases s)) (\<lambda>cases.
          let stamp = (case generated of Some g \<Rightarrow> g | None \<Rightarrow> now) in
          if \<not> aware stamp then Inl (ValueError ''grounded-answer batch generated_at must be timezone-aware'')
          else validate_batch A (batch_of A t system stamp cases))))"

section \<open>What an import accepts\<close>

text \<open>The contract of one answer: it stays inside the evidence and the token budget of its case.\<close>

definition grounded_in :: "int \<Rightarrow> int \<Rightarrow> task_case \<Rightarrow> candidate_case \<Rightarrow> bool" where
  "grounded_in window cap t c \<longleftrightarrow> kc_case_id c = tc_case_id t \<and> kc_query_id c = tc_query_id t
     \<and> cited_ids (kc_response c) \<subseteq> ge_evidence_id ` set (tc_evidence t)
     \<and> (rp_abstention_reason (kc_response c) = Some AbstainNoEvidence \<longleftrightarrow> tc_evidence t = [])
     \<and> kc_input_tokens c + cap \<le> window \<and> kc_output_tokens c \<le> cap"

definition completes :: "submission_case \<Rightarrow> candidate_case \<Rightarrow> bool" where
  "completes s c \<longleftrightarrow> kc_case_id c = sc_case_id s \<and> kc_query_id c = sc_query_id s \<and> sc_response s = Some (kc_response c)
     \<and> sc_input_tokens s = Some (kc_input_tokens c) \<and> sc_output_tokens s = Some (kc_output_tokens c)
     \<and> sc_latency_ms s = Some (kc_latency_ms c)"

lemma dict_by_distinct: "distinct (map key xs) \<Longrightarrow> x \<in> set xs \<Longrightarrow> dict_by key xs (key x) = Some x"
proof -
  assume d: "distinct (map key xs)" and x: "x \<in> set xs"
  have "distinct (map fst (rev (map (\<lambda>x. (key x, x)) xs)))" using d by (simp add: rev_map [symmetric] comp_def)
  then show ?thesis using x by (simp add: dict_by_def)
qed

lemma dict_by_dom: "dom (dict_by key xs) = key ` set xs"
  by (simp add: dict_by_def dom_map_of_conv_image_fst image_image)

lemma abstained_response:
  "response_ok A r \<Longrightarrow> rp_abstention_reason r \<noteq> None \<longleftrightarrow> rp_status r = Abstained"
  "response_ok A r \<Longrightarrow> rp_status r = Abstained \<longleftrightarrow> rp_claims r = []"
  by (cases "rp_status r"; simp add: response_ok_def validate_answer_response_def guard_simps)+

lemma evidence_available: "validate_task_case A t = Inr t \<Longrightarrow> tc_pack_status t = NoTraceableEvidence \<longleftrightarrow> tc_evidence t = []"
  by (cases "tc_pack_status t") (simp_all add: validate_task_case_def guard_simps)

lemma complete_case_iff:
  assumes s: "validate_submission_case s = Inr s" and r: "if_some (response_ok A) (sc_response s)"
    and t: "tasks (sc_case_id s) = Some t" "validate_task_case A t = Inr t" "tc_case_id t = sc_case_id s" "tc_query_id t = sc_query_id s"
  shows "complete_case tasks window cap s = Inr c \<longleftrightarrow> completes s c \<and> grounded_in window cap t c"
proof (cases "\<exists>r i u l. sc_response s = Some r \<and> sc_input_tokens s = Some i \<and> sc_output_tokens s = Some u \<and> sc_latency_ms s = Some l")
  case False
  then have "complete_case tasks window cap s \<noteq> Inr c"
    by (auto simp: complete_case_def split: option.splits)
  moreover have "\<not> completes s c" using False by (auto simp: completes_def)
  ultimately show ?thesis by simp
next
  case True
  then obtain r i u l where f: "sc_response s = Some r" "sc_input_tokens s = Some i" "sc_output_tokens s = Some u" "sc_latency_ms s = Some l"
    by blast
  have ok: "response_ok A r" using r f by simp
  let ?c = "\<lparr>kc_case_id = sc_case_id s, kc_query_id = sc_query_id s, kc_response = r, kc_input_tokens = i,
    kc_output_tokens = u, kc_latency_ms = l\<rparr>"
  have v: "validate_candidate_case ?c = Inr ?c"
    using s f by (simp add: validate_submission_case_def validate_candidate_case_def guard_simps)
  have "completes s c \<longleftrightarrow> c = ?c" using f by (cases c) (auto simp: completes_def)
  moreover have "complete_case tasks window cap s = Inr c \<longleftrightarrow> c = ?c \<and> grounded_in window cap t ?c"
    using evidence_available [OF t(2)] abstained_response [OF ok] t f v
    by (auto simp: complete_case_def guard_simps grounded_in_def cited_ids_def list_all_iff)
  ultimately show ?thesis by auto
qed

lemma task_shape:
  assumes "task_ok A t"
  shows "matches_hex ''grounded-task-'' 20 (gt_task_id t)" "matches_hex [] 64 (gt_task_sha256 t)" "in_range 1 100 (length (gt_cases t))"
    "ordered_unique (map tc_case_id (gt_cases t))" "distinct (map tc_query_id (gt_cases t))"
  using assms unfolding task_ok_def validate_task_def guard_simps list.set ball_simps fst_conv not_not by blast+

lemma task_cases_found:
  assumes "task_ok A t" and "c \<in> set (gt_cases t)"
  shows "dict_by tc_case_id (gt_cases t) (tc_case_id c) = Some c" "validate_task_case A c = Inr c"
proof -
  have "distinct (map tc_case_id (gt_cases t))"
    using assms(1) by (simp add: task_ok_def validate_task_def ordered_unique_def guard_simps)
  then show "dict_by tc_case_id (gt_cases t) (tc_case_id c) = Some c" using assms(2) by (rule dict_by_distinct)
  show "validate_task_case A c = Inr c" using assms by (simp add: task_ok_def list_all_iff)
qed

lemma completed_cases_iff:
  assumes t: "task_ok A t" and s: "submission_ok A s"
    and same: "map (\<lambda>c. (sc_case_id c, sc_query_id c)) (su_cases s) = map (\<lambda>c. (tc_case_id c, tc_query_id c)) (gt_cases t)"
  shows "rmap (complete_case (dict_by tc_case_id (gt_cases t)) window cap) (su_cases s) = Inr cases
    \<longleftrightarrow> list_all2 completes (su_cases s) cases \<and> list_all2 (grounded_in window cap) (gt_cases t) cases"
proof -
  let ?d = "dict_by tc_case_id (gt_cases t)"
  have len: "length (su_cases s) = length (gt_cases t)" using map_eq_imp_length_eq [OF same] .
  have each: "complete_case ?d window cap (su_cases s ! i) = Inr c
      \<longleftrightarrow> completes (su_cases s ! i) c \<and> grounded_in window cap (gt_cases t ! i) c"
    if i: "i < length (gt_cases t)" for i c
  proof -
    let ?s = "su_cases s ! i" and ?t = "gt_cases t ! i"
    have mem: "?t \<in> set (gt_cases t)" "?s \<in> set (su_cases s)" using i len by simp_all
    have "map (\<lambda>c. (sc_case_id c, sc_query_id c)) (su_cases s) ! i = map (\<lambda>c. (tc_case_id c, tc_query_id c)) (gt_cases t) ! i"
      using same by simp
    then have ids: "tc_case_id ?t = sc_case_id ?s" "tc_query_id ?t = sc_query_id ?s" using i len by simp_all
    have v: "validate_submission_case ?s = Inr ?s" "if_some (response_ok A) (sc_response ?s)"
      using s mem by (simp_all add: submission_ok_def list_all_iff)
    have "?d (sc_case_id ?s) = Some ?t" using task_cases_found(1) [OF t mem(1)] ids by simp
    then show ?thesis by (rule complete_case_iff [OF v _ task_cases_found(2) [OF t mem(1)] ids])
  qed
  show ?thesis using each len by (auto simp: rmap_eq_Inr list_all2_conv_all_nth)
qed

lemma digest_shapes:
  assumes "hex_digest (aa_sha256 A)"
  shows "matches_hex [] 64 (canonical_sha256 A v)" "matches_hex p 20 (p @ take 20 (canonical_sha256 A v))"
  using assms by (simp_all add: hex_digest_def canonical_sha256_def matches_hex_append)
    (simp add: matches_hex_def is_prefix_def list_all_iff, meson in_set_takeD)

lemma validate_batch_of:
  assumes A: "hex_digest (aa_sha256 A)" and t: "task_ok A t" and stamp: "aware stamp"
    and ids: "map kc_case_id cases = map tc_case_id (gt_cases t)"
  shows "validate_batch A (batch_of A t s stamp cases) = Inr (batch_of A t s stamp cases)"
proof -
  have len: "length cases = length (gt_cases t)" using map_eq_imp_length_eq [OF ids] .
  have h: "grounded_answer_batch_sha256 A (batch_of A t s stamp cases) = ab_batch_sha256 (batch_of A t s stamp cases)"
    by (simp add: grounded_answer_batch_sha256_def batch_of_def Let_def)
  have id: "ab_batch_id (batch_of A t s stamp cases) = ''grounded-batch-'' @ take 20 (ab_batch_sha256 (batch_of A t s stamp cases))"
    by (simp add: batch_of_def Let_def)
  have shape: "matches_hex [] 64 (ab_batch_sha256 (batch_of A t s stamp cases))"
      "matches_hex ''grounded-batch-'' 20 (ab_batch_id (batch_of A t s stamp cases))"
    unfolding id by (simp_all only: h [symmetric] grounded_answer_batch_sha256_def digest_shapes [OF A])
  have rest: "ab_task_id (batch_of A t s stamp cases) = gt_task_id t" "ab_task_sha256 (batch_of A t s stamp cases) = gt_task_sha256 t"
      "ab_generated_at (batch_of A t s stamp cases) = stamp" "ab_cases (batch_of A t s stamp cases) = cases"
      "ab_case_count (batch_of A t s stamp cases) = int (length cases)"
    by (simp_all add: batch_of_def Let_def)
  have ok: "matches_hex ''grounded-task-'' 20 (gt_task_id t)" "matches_hex [] 64 (gt_task_sha256 t)" "in_range 1 100 (length (gt_cases t))"
      "ordered_unique (map tc_case_id (gt_cases t))"
    using task_shape [OF t] by blast+
  have "1 \<le> int (length (gt_cases t))" using ok(3) by (simp add: in_range_def)
  then show ?thesis unfolding validate_batch_def guard_simps
    using shape id h ok stamp ids len by (simp add: rest)
qed

lemma import_iff:
  assumes A: "hex_digest (aa_sha256 A)" and t: "task_ok A t" and s: "submission_ok A s"
  shows "apply_grounded_answer_submission A t s system generated now = Inr b \<longleftrightarrow>
    su_task_id s = gt_task_id t \<and> su_task_sha256 s = gt_task_sha256 t
    \<and> map (\<lambda>c. (sc_case_id c, sc_query_id c)) (su_cases s) = map (\<lambda>c. (tc_case_id c, tc_query_id c)) (gt_cases t)
    \<and> (\<exists>window cap. candidate_token_limits system = Inr (window, cap)
        \<and> list_all2 completes (su_cases s) (ab_cases b) \<and> list_all2 (grounded_in window cap) (gt_cases t) (ab_cases b))
    \<and> aware (case generated of Some g \<Rightarrow> g | None \<Rightarrow> now)
    \<and> b = batch_of A t system (case generated of Some g \<Rightarrow> g | None \<Rightarrow> now) (ab_cases b)"
    (is "?apply \<longleftrightarrow> ?ids \<and> ?sha \<and> ?same \<and> ?cases \<and> ?aware \<and> ?b")
proof (cases "?ids \<and> ?sha \<and> ?same")
  case False
  then show ?thesis by (auto simp: apply_grounded_answer_submission_def)
next
  case True
  then have same: ?same by blast
  note each = completed_cases_iff [OF t s same]
  let ?stamp = "case generated of Some g \<Rightarrow> g | None \<Rightarrow> now"
  have built: "validate_batch A (batch_of A t system ?stamp cases) = Inr b
      \<longleftrightarrow> b = batch_of A t system ?stamp cases"
    if g: "list_all2 (grounded_in window cap) (gt_cases t) cases" and st: "aware ?stamp" for window cap cases
  proof -
    have "map kc_case_id cases = map tc_case_id (gt_cases t)"
      using g by (auto simp: list_all2_conv_all_nth grounded_in_def intro: nth_equalityI)
    from validate_batch_of [OF A t st this, of system] show ?thesis by auto
  qed
  have content: "ab_cases (batch_of A t system st cases) = cases" for st cases
    by (simp add: batch_of_def Let_def)
  have "?apply \<longleftrightarrow> (\<exists>window cap cases. candidate_token_limits system = Inr (window, cap)
      \<and> rmap (complete_case (dict_by tc_case_id (gt_cases t)) window cap) (su_cases s) = Inr cases
      \<and> ?aware \<and> validate_batch A (batch_of A t system ?stamp cases) = Inr b)"
    using True by (auto simp: apply_grounded_answer_submission_def Let_def split: prod.splits if_splits)
  also have "\<dots> \<longleftrightarrow> (\<exists>window cap cases. candidate_token_limits system = Inr (window, cap)
      \<and> list_all2 completes (su_cases s) cases \<and> list_all2 (grounded_in window cap) (gt_cases t) cases
      \<and> ?aware \<and> b = batch_of A t system ?stamp cases)"
    unfolding each using built by blast
  also have "\<dots> \<longleftrightarrow> ?cases \<and> ?aware \<and> ?b"
    using content by metis
  finally show ?thesis using True by simp
qed

lemma imported_batch_ok:
  assumes A: "hex_digest (aa_sha256 A)" and t: "task_ok A t" and s: "submission_ok A s"
    and b: "apply_grounded_answer_submission A t s system generated now = Inr b"
  shows "batch_ok A b"
proof -
  note b' = b [unfolded import_iff [OF A t s]]
  then obtain window cap where c: "list_all2 completes (su_cases s) (ab_cases b)" "list_all2 (grounded_in window cap) (gt_cases t) (ab_cases b)"
    by blast
  have "map kc_case_id (ab_cases b) = map tc_case_id (gt_cases t)"
    using c(2) by (auto simp: list_all2_conv_all_nth grounded_in_def intro: nth_equalityI)
  with b' have v: "validate_batch A b = Inr b"
    using validate_batch_of [OF A t] by metis
  have "validate_candidate_case k = Inr k \<and> response_ok A (kc_response k)" if k: "k \<in> set (ab_cases b)" for k
  proof -
    obtain i where i: "i < length (ab_cases b)" "k = ab_cases b ! i" using k by (metis in_set_conv_nth)
    define x where "x = su_cases s ! i"
    have x: "x \<in> set (su_cases s)" "completes x k"
      using list_all2_lengthD [OF c(1)] list_all2_nthD2 [OF c(1) i(1)] i by (simp_all add: x_def)
    have "validate_submission_case x = Inr x" "if_some (response_ok A) (sc_response x)"
      using s x(1) by (simp_all add: submission_ok_def list_all_iff)
    then show ?thesis using x(2)
      by (simp add: completes_def validate_submission_case_def validate_candidate_case_def guard_simps)
  qed
  with v show ?thesis by (simp add: batch_ok_def list_all_iff)
qed

text \<open>C7. A submission of valid candidate answers is imported exactly when it names the task and its cases in
order, completes every field, stays inside the evidence of each case (an answer cites only that evidence, and a
case without evidence is answered by the matching abstention and no other case is) and inside the declared
context window and output budget, at a timezone-aware time; and what is imported is a valid batch.\<close>

theorem submission_import_exact:
  assumes "hex_digest (aa_sha256 A)" and "task_ok A t" and "submission_ok A s"
  shows "(apply_grounded_answer_submission A t s system generated now = Inr b \<longrightarrow> batch_ok A b)
    \<and> (apply_grounded_answer_submission A t s system generated now = Inr b \<longleftrightarrow>
      su_task_id s = gt_task_id t \<and> su_task_sha256 s = gt_task_sha256 t
      \<and> map (\<lambda>c. (sc_case_id c, sc_query_id c)) (su_cases s) = map (\<lambda>c. (tc_case_id c, tc_query_id c)) (gt_cases t)
      \<and> (\<exists>window cap. candidate_token_limits system = Inr (window, cap)
          \<and> list_all2 completes (su_cases s) (ab_cases b) \<and> list_all2 (grounded_in window cap) (gt_cases t) (ab_cases b))
      \<and> aware (case generated of Some g \<Rightarrow> g | None \<Rightarrow> now)
      \<and> b = batch_of A t system (case generated of Some g \<Rightarrow> g | None \<Rightarrow> now) (ab_cases b))"
  using import_iff [OF assms] imported_batch_ok [OF assms] by blast

section \<open>A sample task\<close>

definition sample_digest :: string where
  "sample_digest = replicate 64 (CHR ''a'')"

definition sample_id :: "string \<Rightarrow> nat \<Rightarrow> string" where
  "sample_id p n = p @ take n sample_digest"

lemma sample_id_hex [simp]: "matches_hex [] 64 sample_digest" "n \<le> 64 \<Longrightarrow> matches_hex p n (sample_id p n)"
  by (simp_all add: sample_id_def matches_hex_append sample_digest_def hex_digits_def list_all_iff)
    (simp add: matches_hex_def is_prefix_def hex_digits_def list_all_iff)

definition sample_answers :: answer_api where
  "sample_answers = \<lparr>aa_sha256 = (\<lambda>_. sample_digest), aa_float = (\<lambda>_. ''0.0''), aa_casefold = (\<lambda>s. s), aa_dump_case = (\<lambda>_. JNull),
     aa_dump_task = (\<lambda>_. JNull), aa_dump_response = (\<lambda>_. JNull), aa_dump_batch = (\<lambda>_. JNull)\<rparr>"

definition sample_time :: datetime where
  "sample_time = \<lparr>dt_us = 0, dt_off = Some 0\<rparr>"

definition sample_answer_case :: task_case where
  "sample_answer_case = \<lparr>tc_case_id = sample_id ''answer-case-'' 20, tc_query_id = ''quakes-today'', tc_question = ''What shook?'',
     tc_slices = [''seismic''], tc_pack_id = sample_id ''pack-'' 64, tc_pack_status = TraceableEvidence,
     tc_evidence = [\<lparr>ge_evidence_id = sample_id ''evidence-'' 64, ge_rank = 1, ge_stream_id = ''1-0'', ge_event_id = ''us1'',
       ge_event_type = ''earthquake'', ge_source = ''usgs'', ge_occurred = sample_time, ge_text = ''M 5.1'',
       ge_document_sha256 = sample_digest, ge_text_sha256 = sample_digest, ge_truncated = False, ge_citation_url = ''https://usgs.gov''\<rparr>],
     tc_exclusion_count = 0, tc_source_text_characters = 5\<rparr>"

definition sample_answer_task :: answer_task where
  "sample_answer_task = \<lparr>gt_task_id = sample_id ''grounded-task-'' 20, gt_task_sha256 = sample_digest,
     gt_benchmark_id = ''live-brief'', gt_benchmark_sha256 = sample_digest, gt_captured_at = sample_time,
     gt_endpoint = ''http://localhost'', gt_case_count = 1, gt_cases = [sample_answer_case]\<rparr>"

definition sample_response :: response where
  "sample_response = \<lparr>rp_status = Answered, rp_claims = [\<lparr>cl_claim_id = ''claim-01'', cl_text = ''A quake'',
     cl_evidence_ids = [sample_id ''evidence-'' 64]\<rparr>], rp_abstention_reason = None\<rparr>"

definition sample_submission :: answer_submission where
  "sample_submission = \<lparr>su_task_id = gt_task_id sample_answer_task, su_task_sha256 = sample_digest,
     su_cases = [\<lparr>sc_case_id = tc_case_id sample_answer_case, sc_query_id = ''quakes-today'', sc_response = Some sample_response,
       sc_input_tokens = Some 200, sc_output_tokens = Some 20, sc_latency_ms = Some 35\<rparr>]\<rparr>"

definition sample_system :: candidate_system where
  "sample_system = \<lparr>cs_candidate_id = ''local-llm'', cs_model_id = ''m'', cs_model_revision = sample_digest, cs_model_artifact = sample_digest,
     cs_adapter = ''adapter-v1'', cs_template = sample_digest, cs_runtime = ''llama.cpp'', cs_runtime_version = ''1'',
     cs_parameters = [(''context_length'', JInt 4096), (''max_output_tokens'', JInt 256), (''tokenizer_artifact_sha256'', JStr sample_digest)]\<rparr>"

text \<open>The samples are valid for every instance with this digest and the identity as case folding.\<close>

definition sample_like :: "('a) answer_api_scheme \<Rightarrow> bool" where
  "sample_like A \<longleftrightarrow> (\<forall>v. aa_sha256 A v = sample_digest) \<and> (\<forall>s. aa_casefold A s = s)"

lemma sample_like_digest: "sample_like A \<Longrightarrow> hex_digest (aa_sha256 A)"
  by (simp add: hex_digest_def sample_like_def)

lemma sample_canonical: "sample_like A \<Longrightarrow> canonical_sha256 A v = sample_digest"
  by (simp add: canonical_sha256_def sample_like_def)

lemma sample_like_answers: "sample_like sample_answers"
  by (simp add: sample_like_def sample_answers_def)

lemmas sample_hashes = grounded_answer_case_sha256_def grounded_answer_task_sha256_def grounded_answer_batch_sha256_def

lemmas sample_folds = sample_id_def [of "''answer-case-''" 20, symmetric, simplified]
  sample_id_def [of "''grounded-task-''" 20, symmetric, simplified]

lemmas sample_texts = in_range_def slug_def name_id_def alnum_lower_def dec_digits_def aware_def ordered_unique_def

lemma sample_task_ok: "sample_like A \<Longrightarrow> task_ok A sample_answer_task"
  by (simp add: task_ok_def validate_task_def validate_task_case_def validate_evidence_def guard_simps sample_answer_task_def sample_answer_case_def
      sample_texts sample_time_def sample_hashes sample_folds sample_canonical) (simp add: sample_like_def)

lemma sample_claim_text: "normalize_space ''A quake'' = ''A quake''" "claim_id_at (Suc 0) = ''claim-01''"
  by code_simp+

lemma sample_response_ok: "sample_like A \<Longrightarrow> response_ok A sample_response"
  by (simp add: response_ok_def validate_answer_response_def validate_claim_def guard_simps sample_response_def sample_texts sample_claim_text
      is_prefix_def Let_def)

lemma sample_submission_ok: "sample_like A \<Longrightarrow> submission_ok A sample_submission"
  using sample_response_ok [of A]
  by (simp add: submission_ok_def validate_submission_def validate_submission_case_def guard_simps sample_submission_def sample_answer_task_def
      sample_answer_case_def sample_texts)

text \<open>The sample submission is imported.\<close>

definition sample_batch :: answer_batch where
  "sample_batch = batch_of sample_answers sample_answer_task sample_system sample_time [\<lparr>kc_case_id = tc_case_id sample_answer_case,
     kc_query_id = ''quakes-today'', kc_response = sample_response, kc_input_tokens = 200, kc_output_tokens = 20, kc_latency_ms = 35\<rparr>]"

lemma sample_batch_ok: "sample_like A \<Longrightarrow> batch_ok A sample_batch"
  using sample_response_ok [of A]
  by (simp add: batch_ok_def validate_batch_def validate_candidate_case_def guard_simps sample_batch_def batch_of_def Let_def sample_answer_task_def
      sample_answer_case_def sample_texts sample_time_def sample_hashes sample_canonical sample_like_answers
      sample_id_def [of "''grounded-batch-''" 20, symmetric, simplified])

theorem submission_import_exact_witness:
  "apply_grounded_answer_submission sample_answers sample_answer_task sample_submission sample_system (Some sample_time) sample_time = Inr sample_batch"
proof -
  have l: "candidate_token_limits sample_system = Inr (4096, 256)"
    by (simp add: candidate_token_limits_def integer_parameter_def sample_system_def in_range_def)
  note exact = submission_import_exact [OF sample_like_digest [OF sample_like_answers] sample_task_ok [OF sample_like_answers]
      sample_submission_ok [OF sample_like_answers], THEN conjunct2,
      of sample_system "Some sample_time" sample_time sample_batch]
  show ?thesis unfolding exact
    by (simp add: l sample_batch_def batch_of_def Let_def sample_submission_def sample_answer_task_def sample_answer_case_def
        completes_def grounded_in_def cited_ids_def sample_response_def sample_time_def aware_def)
qed

end
