(* ===== verification/GroundedReview.thy ===== *)
theory GroundedReview
  imports Grounded ValkeyReply
begin

text \<open>
  The human review of grounded answers (\<open>grounded_answer_evaluation/judgments.py\<close>, the review models of
  \<open>base.py\<close>) and its measurements (\<open>metrics.py\<close>): the model-blind review sheet, the import of a completed
  sheet, and the report. The CSV reader and writer, the JSON dumps and the \<open>sum\<close> of floats are arguments.
  The lemmas show that an imported review covers its batch exactly, so that scoring it always returns, and
  that a case passes strictly exactly when its judgments are the best grades.
\<close>

section \<open>Reviews and reports\<close>

record answer_judgment =
  jd_case_id :: string
  jd_claim_id :: "string option"
  jd_support_grade :: "int option"
  jd_citation_quality :: "int option"
  jd_answer_relevance :: "int option"
  jd_abstention_appropriate :: "bool option"
  jd_rationale :: string

record review_provenance =
  vp_reviewers :: "string \<times> string"
  vp_review_ids :: "string \<times> string"
  vp_review_sha256s :: "string \<times> string"
  vp_agreement_report_id :: string
  vp_observed_agreement :: "(string \<times> rat) list"
  vp_cohen_kappa :: "(string \<times> rat option) list"
  vp_adjudicator :: string
  vp_adjudicated_at :: datetime
  vp_judgment_count :: int
  vp_decision_count :: int
  vp_field_count :: int

datatype review_status = FirstPassComplete | AdjudicationComplete

record answer_review =
  rw_schema_version :: string
  rw_review_id :: string
  rw_review_sha256 :: string
  rw_task_id :: string
  rw_task_sha256 :: string
  rw_batch_id :: string
  rw_batch_sha256 :: string
  rw_reviewer :: string
  rw_reviewed_at :: datetime
  rw_judgment_count :: int
  rw_judgments :: "answer_judgment list"
  rw_status :: review_status
  rw_adjudication :: "review_provenance option"

record metric_summary =
  ms_case_count :: int
  ms_answered_case_count :: int
  ms_abstained_case_count :: int
  ms_claim_count :: int
  ms_mean_support :: "rat option"
  ms_fully_supported_rate :: "rat option"
  ms_unsupported_rate :: "rat option"
  ms_mean_citation :: "rat option"
  ms_complete_citation_rate :: "rat option"
  ms_mean_relevance :: "rat option"
  ms_appropriate_abstention_rate :: "rat option"
  ms_strict_case_pass_rate :: rat
  ms_mean_input_tokens :: rat
  ms_mean_output_tokens :: rat
  ms_mean_latency_ms :: rat
  ms_p95_latency_ms :: rat

record case_outcome =
  co_case_id :: string
  co_query_id :: string
  co_response_status :: response_status
  co_claim_count :: int
  co_minimum_support :: "int option"
  co_minimum_citation :: "int option"
  co_answer_relevance :: "int option"
  co_abstention_appropriate :: "bool option"
  co_strict_pass :: bool

record evaluation_report =
  er_schema_version :: string
  er_report_id :: string
  er_report_sha256 :: string
  er_generated_at :: datetime
  er_task_id :: string
  er_task_sha256 :: string
  er_batch_id :: string
  er_batch_sha256 :: string
  er_review_id :: string
  er_review_sha256 :: string
  er_reviewer :: string
  er_adjudication :: "review_provenance option"
  er_system :: candidate_system
  er_overall :: metric_summary
  er_slices :: "(string \<times> metric_summary) list"
  er_outcomes :: "case_outcome list"

section \<open>Identities\<close>

record review_api = answer_api +
  aa_sum :: "rat list \<Rightarrow> rat"
  aa_dump_review :: "answer_review \<Rightarrow> json"
  aa_dump_report :: "evaluation_report \<Rightarrow> json"
  aa_read_csv :: "string \<Rightarrow> string list list"
  aa_write_csv :: "string list list \<Rightarrow> string"

definition pop_null :: "string \<Rightarrow> json \<Rightarrow> json" where
  "pop_null key v = (case v of JObj ms \<Rightarrow> if map_of ms key = Some JNull then JObj (filter (\<lambda>m. fst m \<noteq> key) ms) else JObj ms | _ \<Rightarrow> v)"

definition grounded_answer_review_sha256 :: "('a) review_api_scheme \<Rightarrow> answer_review \<Rightarrow> string" where
  "grounded_answer_review_sha256 A r = canonical_sha256 A
     (pop_null ''adjudication'' (aa_dump_review A (r\<lparr>rw_review_id := [], rw_review_sha256 := []\<rparr>)))"

definition grounded_answer_report_sha256 :: "('a) review_api_scheme \<Rightarrow> evaluation_report \<Rightarrow> string" where
  "grounded_answer_report_sha256 A r = canonical_sha256 A
     (pop_null ''adjudication'' (aa_dump_report A (r\<lparr>er_report_id := [], er_report_sha256 := []\<rparr>)))"

section \<open>Validators\<close>

definition validate_judgment :: "answer_judgment \<Rightarrow> answer_judgment res" where
  "validate_judgment j = (let why = normalize_space (jd_rationale j) in raise_first
     [(\<not> (matches_hex ''answer-case-'' 20 (jd_case_id j)
        \<and> if_some (\<lambda>c. is_prefix ''claim-'' c \<and> length c = 8 \<and> list_all (\<lambda>d. d \<in> set dec_digits) (drop 6 c)) (jd_claim_id j)
        \<and> if_some (in_range 0 3) (jd_support_grade j) \<and> if_some (in_range 0 2) (jd_citation_quality j)
        \<and> if_some (in_range 0 2) (jd_answer_relevance j) \<and> in_range 10 1000 (length (jd_rationale j))), ''GroundedAnswerJudgment fields''),
      (length why < 10, ''grounded-answer review rationales require at least ten characters''),
      (jd_claim_id j = None \<and> (jd_support_grade j \<noteq> None \<or> jd_citation_quality j \<noteq> None \<or> jd_answer_relevance j \<noteq> None
         \<or> jd_abstention_appropriate j = None), ''abstention rows require only abstention_appropriate''),
      (jd_claim_id j \<noteq> None \<and> (jd_support_grade j = None \<or> jd_citation_quality j = None), ''claim rows require support and citation grades''),
      (jd_claim_id j = Some ''claim-01'' \<and> jd_answer_relevance j = None, ''the first claim row requires answer relevance''),
      (jd_claim_id j \<noteq> None \<and> jd_claim_id j \<noteq> Some ''claim-01'' \<and> jd_answer_relevance j \<noteq> None,
        ''only the first claim row may contain answer relevance''),
      (jd_claim_id j \<noteq> None \<and> jd_abstention_appropriate j \<noteq> None, ''claim rows must not contain abstention appropriateness'')]
     (j\<lparr>jd_rationale := why\<rparr>))"

definition validate_provenance :: "('a) review_api_scheme \<Rightarrow> review_provenance \<Rightarrow> review_provenance res" where
  "validate_provenance A p = (let (a, b) = map_prod normalize_space normalize_space (vp_reviewers p); judge = normalize_space (vp_adjudicator p);
       fold = aa_casefold A in raise_first
     [(\<not> (matches_hex ''grounded-review-'' 20 (fst (vp_review_ids p)) \<and> matches_hex ''grounded-review-'' 20 (snd (vp_review_ids p))
        \<and> matches_hex [] 64 (fst (vp_review_sha256s p)) \<and> matches_hex [] 64 (snd (vp_review_sha256s p))
        \<and> matches_hex ''grounded-agreement-'' 20 (vp_agreement_report_id p) \<and> vp_observed_agreement p \<noteq> [] \<and> vp_cohen_kappa p \<noteq> []
        \<and> in_range 2 200 (length (vp_adjudicator p)) \<and> 1 \<le> vp_judgment_count p \<and> 0 \<le> vp_decision_count p \<and> 0 \<le> vp_field_count p),
       ''GroundedAnswerIndependentAdjudicationProvenance fields''),
      (length a < 2 \<or> length b < 2, ''independent reviewer identities require at least two characters''),
      (fold a = fold b, ''independent review requires two different reviewer identities''),
      (\<not> (fold a, a) \<le> (fold b, b), ''independent reviewers must use canonical identity order''),
      (length judge < 2, ''adjudicator identity must contain at least two characters''),
      (fold judge = fold a \<or> fold judge = fold b, ''adjudicator must be independent from both reviewers''),
      (\<not> aware (vp_adjudicated_at p), ''grounded-answer adjudication timestamp must be timezone-aware''),
      (fst (vp_review_ids p) = snd (vp_review_ids p), ''independent review IDs must be different''),
      (fst (vp_review_sha256s p) = snd (vp_review_sha256s p), ''independent review hashes must be different''),
      (set (map fst (vp_observed_agreement p)) \<noteq> set (map fst (vp_cohen_kappa p)), ''agreement and kappa dimensions must match''),
      (\<not> list_all (\<lambda>kv. in_range 0 1 (snd kv)) (vp_observed_agreement p), ''dimension observed agreement must be between zero and one''),
      (\<not> list_all (\<lambda>kv. if_some (in_range (- 1) 1) (snd kv)) (vp_cohen_kappa p), ''dimension Cohen kappa must be between minus one and one''),
      ((vp_decision_count p = 0) \<noteq> (vp_field_count p = 0), ''adjudication decision and field counts must be zero together''),
      (vp_field_count p < vp_decision_count p, ''every adjudication decision must resolve at least one field''),
      (vp_judgment_count p < vp_decision_count p, ''adjudication decisions cannot exceed reviewed judgments'')]
     (p\<lparr>vp_reviewers := (a, b), vp_adjudicator := judge\<rparr>))"

definition judgment_key :: "answer_judgment \<Rightarrow> string \<times> string" where
  "judgment_key j = (jd_case_id j, case jd_claim_id j of Some c \<Rightarrow> c | None \<Rightarrow> [])"

definition validate_review :: "('a) review_api_scheme \<Rightarrow> answer_review \<Rightarrow> answer_review res" where
  "validate_review A r = (let r' = r\<lparr>rw_reviewer := normalize_space (rw_reviewer r)\<rparr> in raise_first
     ([(\<not> (rw_schema_version r \<in> {''1.0.0'', ''1.1.0''} \<and> matches_hex ''grounded-review-'' 20 (rw_review_id r) \<and> matches_hex [] 64 (rw_review_sha256 r)
         \<and> matches_hex ''grounded-task-'' 20 (rw_task_id r) \<and> matches_hex [] 64 (rw_task_sha256 r)
         \<and> matches_hex ''grounded-batch-'' 20 (rw_batch_id r) \<and> matches_hex [] 64 (rw_batch_sha256 r)
         \<and> in_range 2 200 (length (rw_reviewer r)) \<and> 1 \<le> rw_judgment_count r \<and> rw_judgments r \<noteq> []), ''ReviewedGroundedAnswerBatch fields''),
       (length (rw_reviewer r') < 2, ''reviewer identity must contain at least two characters''),
       (\<not> aware (rw_reviewed_at r), ''grounded-answer review timestamp must be timezone-aware''),
       (rw_judgment_count r \<noteq> int (length (rw_judgments r)), ''grounded-answer judgment_count must match judgments''),
       (\<not> ordered_unique (map judgment_key (rw_judgments r)), ''grounded-answer judgments must be unique and canonically ordered'')]
      @ (case rw_adjudication r of
          None \<Rightarrow> [(rw_schema_version r \<noteq> ''1.0.0'' \<or> rw_status r \<noteq> FirstPassComplete, ''unadjudicated grounded-answer reviews must remain first-pass'')]
        | Some p \<Rightarrow> [(rw_schema_version r \<noteq> ''1.1.0'' \<or> rw_status r \<noteq> AdjudicationComplete, ''adjudicated grounded-answer reviews require artifact schema 1.1.0''),
            (rw_reviewer r' \<noteq> vp_adjudicator p, ''final review identity must equal the adjudicator''),
            (dt_us (rw_reviewed_at r) \<noteq> dt_us (vp_adjudicated_at p), ''final review timestamp must equal the adjudication timestamp''),
            (rw_judgment_count r \<noteq> vp_judgment_count p, ''adjudication provenance must cover every final judgment'')])
      @ [(rw_review_sha256 r \<noteq> grounded_answer_review_sha256 A r', ''grounded-answer review_sha256 must match exact judgments''),
         (rw_review_id r \<noteq> ''grounded-review-'' @ take 20 (grounded_answer_review_sha256 A r'), ''grounded-answer review_id must match review_sha256'')]) r')"

section \<open>The review sheet\<close>

definition grounding_review_columns :: "string list" where
  "grounding_review_columns = [''task_id'', ''task_sha256'', ''batch_id'', ''batch_sha256'', ''case_id'', ''query_id'', ''question_json'',
     ''response_status'', ''abstention_reason'', ''answer_json'', ''claim_id'', ''claim_text_json'', ''evidence_ids'', ''evidence_json'',
     ''support_0_to_3'', ''citation_quality_0_to_2'', ''answer_relevance_0_to_2'', ''abstention_appropriate'', ''rationale'']"

text \<open>A row: the protected cells of the template by name, and the five cells a reviewer fills in.\<close>

record sheet_row =
  sr_task_id :: string
  sr_task_sha256 :: string
  sr_batch_id :: string
  sr_batch_sha256 :: string
  sr_case_id :: string
  sr_query_id :: string
  sr_question :: string
  sr_response_status :: string
  sr_abstention_reason :: string
  sr_answer :: string
  sr_claim_id :: string
  sr_claim_text :: string
  sr_evidence_ids :: string
  sr_evidence :: string
  sr_support :: string
  sr_citation :: string
  sr_relevance :: string
  sr_appropriate :: string
  sr_rationale :: string

definition row_cells :: "sheet_row \<Rightarrow> string list" where
  "row_cells r = [sr_task_id r, sr_task_sha256 r, sr_batch_id r, sr_batch_sha256 r, sr_case_id r, sr_query_id r, sr_question r,
     sr_response_status r, sr_abstention_reason r, sr_answer r, sr_claim_id r, sr_claim_text r, sr_evidence_ids r, sr_evidence r,
     sr_support r, sr_citation r, sr_relevance r, sr_appropriate r, sr_rationale r]"

text \<open>The dictionary \<open>DictReader\<close> makes of a record: malformed unless it has a cell for every column.\<close>

definition row_of_cells :: "string list \<Rightarrow> sheet_row option" where
  "row_of_cells cs = (case cs of [a, b, c, d, e, f, g, h, i, j, k, l, m, n, q, r, s, t, u] \<Rightarrow> Some
     \<lparr>sr_task_id = a, sr_task_sha256 = b, sr_batch_id = c, sr_batch_sha256 = d, sr_case_id = e, sr_query_id = f, sr_question = g,
      sr_response_status = h, sr_abstention_reason = i, sr_answer = j, sr_claim_id = k, sr_claim_text = l, sr_evidence_ids = m,
      sr_evidence = n, sr_support = q, sr_citation = r, sr_relevance = s, sr_appropriate = t, sr_rationale = u\<rparr>
   | _ \<Rightarrow> None)"

definition protected_cells :: "sheet_row \<Rightarrow> string list" where
  "protected_cells r = take 14 (row_cells r)"

definition row_key :: "sheet_row \<Rightarrow> string \<times> string" where
  "row_key r = (sr_case_id r, sr_claim_id r)"

definition compact_json :: "('a) review_api_scheme \<Rightarrow> json \<Rightarrow> string" where
  "compact_json A v = dumps False (aa_float A) v"

definition abstention_text :: "abstention_reason option \<Rightarrow> string" where
  "abstention_text r = (case r of None \<Rightarrow> [] | Some AbstainNoEvidence \<Rightarrow> ''no_traceable_evidence''
     | Some AbstainInsufficient \<Rightarrow> ''insufficient_evidence'' | Some AbstainConflicting \<Rightarrow> ''conflicting_evidence'')"

definition evidence_member :: "answer_evidence \<Rightarrow> json" where
  "evidence_member e = JObj [(''evidence_id'', JStr (ge_evidence_id e)), (''source'', JStr (ge_source e)), (''event_id'', JStr (ge_event_id e)),
     (''occurred_at'', JStr (isoformat (ge_occurred e))), (''text'', JStr (ge_text e)), (''text_sha256'', JStr (ge_text_sha256 e)),
     (''citation_url'', JStr (ge_citation_url e))]"

definition blank_row :: "('a) review_api_scheme \<Rightarrow> answer_task \<Rightarrow> answer_batch \<Rightarrow> task_case \<Rightarrow> candidate_case \<Rightarrow> sheet_row" where
  "blank_row A t b tc kc = \<lparr>sr_task_id = gt_task_id t, sr_task_sha256 = gt_task_sha256 t, sr_batch_id = ab_batch_id b,
     sr_batch_sha256 = ab_batch_sha256 b, sr_case_id = kc_case_id kc, sr_query_id = kc_query_id kc,
     sr_question = compact_json A (JStr (tc_question tc)),
     sr_response_status = (if rp_status (kc_response kc) = Abstained then ''abstained'' else ''answered''),
     sr_abstention_reason = abstention_text (if rp_status (kc_response kc) = Abstained then rp_abstention_reason (kc_response kc) else None),
     sr_answer = compact_json A (aa_dump_response A (kc_response kc)), sr_claim_id = [], sr_claim_text = [], sr_evidence_ids = [],
     sr_evidence = ''[]'', sr_support = [], sr_citation = [], sr_relevance = [], sr_appropriate = [], sr_rationale = []\<rparr>"

definition claim_row :: "('a) review_api_scheme \<Rightarrow> task_case \<Rightarrow> sheet_row \<Rightarrow> claim \<Rightarrow> sheet_row res" where
  "claim_row A tc row c = rbind (rmap (\<lambda>k. case dict_by ge_evidence_id (tc_evidence tc) k of
       Some e \<Rightarrow> Inr e | None \<Rightarrow> Inl (KeyError k)) (cl_evidence_ids c)) (\<lambda>cited.
     Inr (row\<lparr>sr_claim_id := cl_claim_id c, sr_claim_text := compact_json A (JStr (cl_text c)),
       sr_evidence_ids := joined '';'' (cl_evidence_ids c), sr_evidence := compact_json A (JList (map evidence_member cited))\<rparr>))"

definition case_rows :: "('a) review_api_scheme \<Rightarrow> answer_task \<Rightarrow> answer_batch \<Rightarrow> candidate_case \<Rightarrow> sheet_row list res" where
  "case_rows A t b kc = (case dict_by tc_case_id (gt_cases t) (kc_case_id kc) of None \<Rightarrow> Inl (KeyError (kc_case_id kc))
     | Some tc \<Rightarrow> if rp_status (kc_response kc) = Abstained then Inr [blank_row A t b tc kc]
         else rmap (claim_row A tc (blank_row A t b tc kc)) (rp_claims (kc_response kc)))"

definition grounded_answer_review_rows :: "('a) review_api_scheme \<Rightarrow> answer_task \<Rightarrow> answer_batch \<Rightarrow> sheet_row list res" where
  "grounded_answer_review_rows A t b =
     (if ab_task_id b \<noteq> gt_task_id t \<or> ab_task_sha256 b \<noteq> gt_task_sha256 t
      then Inl (ValueError ''grounded-answer candidate batch does not match the exact task'')
      else if map (\<lambda>c. (kc_case_id c, kc_query_id c)) (ab_cases b) \<noteq> map (\<lambda>c. (tc_case_id c, tc_query_id c)) (gt_cases t)
      then Inl (ValueError ''grounded-answer candidate batch does not exactly cover the task'')
      else rbind (rmap (case_rows A t b) (ab_cases b)) (\<lambda>rows.
        Inr (sort_key (\<lambda>r. aa_sha256 A (gt_task_sha256 t @ '':'' @ ab_batch_sha256 b @ '':'' @ sr_case_id r @ '':'' @ sr_claim_id r)) (concat rows))))"

definition build_grounded_answer_review_sheet :: "('a) review_api_scheme \<Rightarrow> answer_task \<Rightarrow> answer_batch \<Rightarrow> (string \<times> nat) res" where
  "build_grounded_answer_review_sheet A t b = rbind (grounded_answer_review_rows A t b) (\<lambda>rows.
     Inr (aa_write_csv A (grounding_review_columns # map row_cells rows), length rows))"

section \<open>Importing a review\<close>

definition optional_grade :: "string \<Rightarrow> string \<Rightarrow> int \<Rightarrow> int option res" where
  "optional_grade column cell hi = (let raw = py_strip cell in
     if raw = [] then Inr None
     else case py_int raw of Inl e \<Rightarrow> Inl (ValueError (column @ '' must be a whole number between 0 and '' @ int_text hi))
       | Inr v \<Rightarrow> if in_range 0 hi v then Inr (Some v) else Inl (ValueError (column @ '' must be between 0 and '' @ int_text hi)))"

definition optional_bool :: "('a) review_api_scheme \<Rightarrow> string \<Rightarrow> string \<Rightarrow> bool option res" where
  "optional_bool A column cell = (let raw = aa_casefold A (py_strip cell) in
     if raw = [] then Inr None else if raw = ''yes'' then Inr (Some True) else if raw = ''no'' then Inr (Some False)
     else Inl (ValueError (column @ '' must be yes or no'')))"

definition row_judgment :: "('a) review_api_scheme \<Rightarrow> sheet_row \<Rightarrow> answer_judgment res" where
  "row_judgment A r =
     rbind (optional_grade ''support_0_to_3'' (sr_support r) 3) (\<lambda>support.
     rbind (optional_grade ''citation_quality_0_to_2'' (sr_citation r) 2) (\<lambda>citation.
     rbind (optional_grade ''answer_relevance_0_to_2'' (sr_relevance r) 2) (\<lambda>relevance.
     rbind (optional_bool A ''abstention_appropriate'' (sr_appropriate r)) (\<lambda>appropriate.
     validate_judgment \<lparr>jd_case_id = sr_case_id r, jd_claim_id = (if sr_claim_id r = [] then None else Some (sr_claim_id r)),
       jd_support_grade = support, jd_citation_quality = citation, jd_answer_relevance = relevance,
       jd_abstention_appropriate = appropriate, jd_rationale = sr_rationale r\<rparr>))))"

text \<open>The rows in the order of the file; a malformed or repeated row stops the import.\<close>

fun index_rows :: "string list list \<Rightarrow> sheet_row list \<Rightarrow> sheet_row list res" where
  "index_rows [] seen = Inr seen"
| "index_rows (cs # rest) seen = (case row_of_cells cs of
     None \<Rightarrow> Inl (ValueError ''grounded-answer review CSV contains malformed rows'')
   | Some r \<Rightarrow> if row_key r \<in> set (map row_key seen) then Inl (ValueError ''grounded-answer review CSV contains duplicate rows'')
       else index_rows rest (seen @ [r]))"

text \<open>The keys of a dictionary in insertion order.\<close>

definition dict_keys :: "'k list \<Rightarrow> 'k list" where
  "dict_keys ks = rev (remdups (rev ks))"

definition review_judgments :: "('a) review_api_scheme \<Rightarrow> sheet_row list \<Rightarrow> sheet_row list \<Rightarrow> answer_judgment list res" where
  "review_judgments A expected actual = rmap (\<lambda>k. case (dict_by row_key expected k, dict_by row_key actual k) of
       (Some e, Some r) \<Rightarrow> if protected_cells r \<noteq> protected_cells e
         then Inl (ValueError ''grounded-answer review changed protected task, answer, or evidence fields'') else row_judgment A r
     | _ \<Rightarrow> Inl (KeyError (fst k))) (dict_keys (map row_key expected))"

definition review_of :: "('a) review_api_scheme \<Rightarrow> answer_task \<Rightarrow> answer_batch \<Rightarrow> string \<Rightarrow> datetime \<Rightarrow> answer_judgment list \<Rightarrow> answer_review" where
  "review_of A t b reviewer stamp js = (let draft = \<lparr>rw_schema_version = ''1.0.0'', rw_review_id = [], rw_review_sha256 = [],
       rw_task_id = gt_task_id t, rw_task_sha256 = gt_task_sha256 t, rw_batch_id = ab_batch_id b, rw_batch_sha256 = ab_batch_sha256 b,
       rw_reviewer = reviewer, rw_reviewed_at = stamp, rw_judgment_count = int (length js), rw_judgments = js,
       rw_status = FirstPassComplete, rw_adjudication = None\<rparr>;
     digest = grounded_answer_review_sha256 A draft in
     draft\<lparr>rw_review_id := ''grounded-review-'' @ take 20 digest, rw_review_sha256 := digest\<rparr>)"

definition apply_grounded_answer_review ::
  "('a) review_api_scheme \<Rightarrow> answer_task \<Rightarrow> answer_batch \<Rightarrow> string \<Rightarrow> string \<Rightarrow> datetime option \<Rightarrow> datetime \<Rightarrow> answer_review res" where
  "apply_grounded_answer_review A t b csv reviewer reviewed now =
     rbind (grounded_answer_review_rows A t b) (\<lambda>expected.
     case aa_read_csv A csv of
       [] \<Rightarrow> Inl (ValueError ''grounded-answer review CSV header does not match the exact template'')
     | header # records \<Rightarrow>
       if header \<noteq> grounding_review_columns then Inl (ValueError ''grounded-answer review CSV header does not match the exact template'')
       else rbind (index_rows (filter (\<lambda>cs. cs \<noteq> []) records) []) (\<lambda>actual.
         if set (map row_key expected) \<noteq> set (map row_key actual)
         then Inl (ValueError ''grounded-answer review must exactly cover the template'')
         else rbind (review_judgments A expected actual) (\<lambda>js.
           let stamp = (case reviewed of Some g \<Rightarrow> g | None \<Rightarrow> now); name = normalize_space reviewer in
           if \<not> aware stamp then Inl (ValueError ''grounded-answer review timestamp must be timezone-aware'')
           else if length name < 2 then Inl (ValueError ''reviewer identity must contain at least two characters'')
           else validate_review A (review_of A t b name stamp (sort_key judgment_key js)))))"

section \<open>Measurements\<close>

definition validate_summary :: "metric_summary \<Rightarrow> metric_summary res" where
  "validate_summary m = raise_first
     [(\<not> (1 \<le> ms_case_count m \<and> 0 \<le> ms_answered_case_count m \<and> 0 \<le> ms_abstained_case_count m \<and> 0 \<le> ms_claim_count m
        \<and> if_some (in_range 0 3) (ms_mean_support m) \<and> if_some (in_range 0 1) (ms_fully_supported_rate m)
        \<and> if_some (in_range 0 1) (ms_unsupported_rate m) \<and> if_some (in_range 0 2) (ms_mean_citation m)
        \<and> if_some (in_range 0 1) (ms_complete_citation_rate m) \<and> if_some (in_range 0 2) (ms_mean_relevance m)
        \<and> if_some (in_range 0 1) (ms_appropriate_abstention_rate m) \<and> in_range 0 1 (ms_strict_case_pass_rate m)
        \<and> 0 \<le> ms_mean_input_tokens m \<and> 0 \<le> ms_mean_output_tokens m \<and> 0 \<le> ms_mean_latency_ms m \<and> 0 \<le> ms_p95_latency_ms m),
       ''GroundedAnswerMetricSummary fields''),
      (ms_answered_case_count m + ms_abstained_case_count m \<noteq> ms_case_count m, ''grounded-answer response counts must cover every case''),
      (ms_claim_count m = 0 \<and> (ms_mean_support m \<noteq> None \<or> ms_fully_supported_rate m \<noteq> None \<or> ms_unsupported_rate m \<noteq> None
         \<or> ms_mean_citation m \<noteq> None \<or> ms_complete_citation_rate m \<noteq> None \<or> ms_mean_relevance m \<noteq> None),
       ''claim metrics must be null when a slice has no answered claims''),
      (ms_abstained_case_count m = 0 \<and> ms_appropriate_abstention_rate m \<noteq> None,
       ''abstention rate must be null when a slice has no abstentions'')] m"

definition validate_outcome :: "case_outcome \<Rightarrow> case_outcome res" where
  "validate_outcome c = (let grades = (co_minimum_support c, co_minimum_citation c, co_answer_relevance c) in raise_first
     ((\<not> (matches_hex ''answer-case-'' 20 (co_case_id c) \<and> slug (co_query_id c) \<and> in_range 0 8 (co_claim_count c)
        \<and> if_some (in_range 0 3) (co_minimum_support c) \<and> if_some (in_range 0 2) (co_minimum_citation c)
        \<and> if_some (in_range 0 2) (co_answer_relevance c)), ''GroundedAnswerCaseOutcome fields'')
      # (if co_response_status c = Answered then
          [(co_claim_count c = 0 \<or> fst grades = None \<or> fst (snd grades) = None \<or> snd (snd grades) = None,
            ''answered outcomes require claim measurements''),
           (co_abstention_appropriate c \<noteq> None, ''answered outcomes cannot contain an abstention judgment''),
           (co_strict_pass c \<noteq> (grades = (Some 3, Some 2, Some 2)), ''strict_pass must match the recorded human judgments'')]
         else
          [(co_claim_count c \<noteq> 0 \<or> grades \<noteq> (None, None, None), ''abstained outcomes cannot contain claim measurements''),
           (co_abstention_appropriate c = None, ''abstained outcomes require an appropriateness judgment''),
           (Some (co_strict_pass c) \<noteq> co_abstention_appropriate c, ''strict_pass must match the recorded human judgments'')])) c)"

definition validate_report :: "('a) review_api_scheme \<Rightarrow> evaluation_report \<Rightarrow> evaluation_report res" where
  "validate_report A r = raise_first
     ([(\<not> (er_schema_version r \<in> {''1.0.0'', ''1.1.0''} \<and> matches_hex ''grounded-report-'' 20 (er_report_id r) \<and> matches_hex [] 64 (er_report_sha256 r)
         \<and> matches_hex ''grounded-task-'' 20 (er_task_id r) \<and> matches_hex [] 64 (er_task_sha256 r)
         \<and> matches_hex ''grounded-batch-'' 20 (er_batch_id r) \<and> matches_hex [] 64 (er_batch_sha256 r)
         \<and> matches_hex ''grounded-review-'' 20 (er_review_id r) \<and> matches_hex [] 64 (er_review_sha256 r)
         \<and> in_range 2 200 (length (er_reviewer r)) \<and> er_outcomes r \<noteq> []), ''GroundedAnswerEvaluationReport fields''),
       (\<not> aware (er_generated_at r), ''grounded-answer report generated_at must be timezone-aware''),
       (\<not> ordered_unique (map co_case_id (er_outcomes r)), ''grounded-answer report outcomes must be unique and ordered''),
       (ms_case_count (er_overall r) \<noteq> int (length (er_outcomes r)), ''grounded-answer report overall count must match outcomes''),
       (\<not> list_all (\<lambda>s. fst s \<noteq> [] \<and> fst s = aa_casefold A (py_strip (fst s))) (er_slices r),
         ''grounded-answer report slice names must be normalized'')]
      @ (case er_adjudication r of
          None \<Rightarrow> [(er_schema_version r \<noteq> ''1.0.0'', ''first-pass grounded-answer reports require schema 1.0.0'')]
        | Some p \<Rightarrow> [(er_schema_version r \<noteq> ''1.1.0'', ''adjudicated grounded-answer reports require schema 1.1.0''),
            (er_reviewer r \<noteq> vp_adjudicator p, ''adjudicated report reviewer must equal the adjudicator'')])
      @ [(er_report_sha256 r \<noteq> grounded_answer_report_sha256 A r, ''grounded-answer report_sha256 must match exact measurements''),
         (er_report_id r \<noteq> ''grounded-report-'' @ take 20 (grounded_answer_report_sha256 A r), ''grounded-answer report_id must match report_sha256'')]) r"

definition mean_grade :: "int list \<Rightarrow> rat option" where
  "mean_grade xs = (if xs = [] then None else Some (fl (of_int (sum_list xs) / of_nat (length xs))))"

definition rate :: "nat \<Rightarrow> nat \<Rightarrow> rat option" where
  "rate n d = (if d = 0 then None else Some (fl (of_nat n / of_nat d)))"

definition percentile :: "rat list \<Rightarrow> rat \<Rightarrow> rat" where
  "percentile xs fraction = (let ordered = sort xs; position = fl (of_nat (length ordered - 1) * fraction); lower = nat \<lfloor>position\<rfloor>;
     upper = min (lower + 1) (length ordered - 1); weight = fl (position - of_nat lower) in
     fl (fl (ordered ! lower * fl (1 - weight)) + fl (ordered ! upper * weight)))"

definition case_judgments :: "answer_review \<Rightarrow> string \<Rightarrow> answer_judgment list" where
  "case_judgments r c = filter (\<lambda>j. jd_case_id j = c) (rw_judgments r)"

definition answered_outcome :: "candidate_case \<Rightarrow> answer_judgment list \<Rightarrow> case_outcome res" where
  "answered_outcome c js = rbind (raise_first
     [(map jd_claim_id js \<noteq> map (\<lambda>k. Some (cl_claim_id k)) (rp_claims (kc_response c)), ''answered case judgments do not exactly cover its claims''),
      (None \<in> set (map jd_support_grade js) \<or> None \<in> set (map jd_citation_quality js), ''answered case judgments require all claim grades'')] js) (\<lambda>_.
     if js = [] then Inl IndexError
     else case jd_answer_relevance (hd js) of
       None \<Rightarrow> Inl (ValueError ''answered case judgments require answer relevance'')
     | Some relevance \<Rightarrow> let support = Min (set (map the (map jd_support_grade js))); citation = Min (set (map the (map jd_citation_quality js))) in
         validate_outcome \<lparr>co_case_id = kc_case_id c, co_query_id = kc_query_id c, co_response_status = Answered,
           co_claim_count = int (length (rp_claims (kc_response c))), co_minimum_support = Some support, co_minimum_citation = Some citation,
           co_answer_relevance = Some relevance, co_abstention_appropriate = None,
           co_strict_pass = (support = 3 \<and> citation = 2 \<and> relevance = 2)\<rparr>)"

definition abstained_outcome :: "candidate_case \<Rightarrow> answer_judgment list \<Rightarrow> case_outcome res" where
  "abstained_outcome c js = (case js of
     [j] \<Rightarrow> if jd_claim_id j \<noteq> None then Inl (ValueError ''abstained cases require exactly one abstention judgment'')
       else (case jd_abstention_appropriate j of
           None \<Rightarrow> Inl (ValueError ''abstained cases require an appropriateness judgment'')
         | Some ok \<Rightarrow> validate_outcome \<lparr>co_case_id = kc_case_id c, co_query_id = kc_query_id c, co_response_status = Abstained,
             co_claim_count = 0, co_minimum_support = None, co_minimum_citation = None, co_answer_relevance = None,
             co_abstention_appropriate = Some ok, co_strict_pass = ok\<rparr>)
   | _ \<Rightarrow> Inl (ValueError ''abstained cases require exactly one abstention judgment''))"

definition outcome :: "candidate_case \<Rightarrow> answer_judgment list \<Rightarrow> case_outcome res" where
  "outcome c js = (if rp_status (kc_response c) = Abstained then abstained_outcome c js else answered_outcome c js)"

definition count_where :: "('a \<Rightarrow> bool) \<Rightarrow> 'a list \<Rightarrow> nat" where
  "count_where p xs = length (filter p xs)"

definition summary :: "('a) review_api_scheme \<Rightarrow> candidate_case list \<Rightarrow> (string \<Rightarrow> answer_judgment list) \<Rightarrow> (string \<rightharpoonup> case_outcome) \<Rightarrow> metric_summary res" where
  "summary A cases judgments outcomes =
     (let js = filter (\<lambda>j. jd_claim_id j \<noteq> None) (concat (map (\<lambda>c. judgments (kc_case_id c)) cases));
        support = List.map_filter jd_support_grade js; citation = List.map_filter jd_citation_quality js;
        relevance = List.map_filter jd_answer_relevance js;
        abstentions = map (\<lambda>c. hd (judgments (kc_case_id c))) (filter (\<lambda>c. rp_status (kc_response c) = Abstained) cases);
        n = length cases; answered = count_where (\<lambda>c. rp_status (kc_response c) = Answered) cases;
        passes = count_where (\<lambda>c. co_strict_pass (the (outcomes (kc_case_id c)))) cases in
      if cases = [] then Inl ZeroDivisionError
      else validate_summary \<lparr>ms_case_count = int n, ms_answered_case_count = int answered, ms_abstained_case_count = int n - int answered,
        ms_claim_count = int (length js), ms_mean_support = mean_grade support,
        ms_fully_supported_rate = rate (count_where (\<lambda>g. g = 3) support) (length support),
        ms_unsupported_rate = rate (count_where (\<lambda>g. g \<le> 1) support) (length support),
        ms_mean_citation = mean_grade citation, ms_complete_citation_rate = rate (count_where (\<lambda>g. g = 2) citation) (length citation),
        ms_mean_relevance = mean_grade relevance,
        ms_appropriate_abstention_rate = rate (count_where (\<lambda>j. jd_abstention_appropriate j = Some True) abstentions) (length abstentions),
        ms_strict_case_pass_rate = fl (of_nat passes / of_nat n),
        ms_mean_input_tokens = fl (of_int (sum_list (map kc_input_tokens cases)) / of_nat n),
        ms_mean_output_tokens = fl (of_int (sum_list (map kc_output_tokens cases)) / of_nat n),
        ms_mean_latency_ms = fl (aa_sum A (map kc_latency_ms cases) / of_nat n),
        ms_p95_latency_ms = percentile (map kc_latency_ms cases) (fl (95 / 100))\<rparr>)"

definition report_of :: "('a) review_api_scheme \<Rightarrow> answer_task \<Rightarrow> answer_batch \<Rightarrow> answer_review \<Rightarrow> datetime \<Rightarrow> metric_summary
    \<Rightarrow> (string \<times> metric_summary) list \<Rightarrow> case_outcome list \<Rightarrow> evaluation_report" where
  "report_of A t b r stamp overall slices outcomes = (let draft = \<lparr>
       er_schema_version = (if rw_adjudication r \<noteq> None then ''1.1.0'' else ''1.0.0''), er_report_id = [], er_report_sha256 = [],
       er_generated_at = stamp, er_task_id = gt_task_id t, er_task_sha256 = gt_task_sha256 t, er_batch_id = ab_batch_id b,
       er_batch_sha256 = ab_batch_sha256 b, er_review_id = rw_review_id r, er_review_sha256 = rw_review_sha256 r,
       er_reviewer = rw_reviewer r, er_adjudication = rw_adjudication r, er_system = ab_system b, er_overall = overall,
       er_slices = slices, er_outcomes = outcomes\<rparr>;
     digest = grounded_answer_report_sha256 A draft in
     draft\<lparr>er_report_id := ''grounded-report-'' @ take 20 digest, er_report_sha256 := digest\<rparr>)"

definition score_grounded_answer_review ::
  "('a) review_api_scheme \<Rightarrow> answer_task \<Rightarrow> answer_batch \<Rightarrow> answer_review \<Rightarrow> datetime option \<Rightarrow> datetime \<Rightarrow> evaluation_report res" where
  "score_grounded_answer_review A t b r generated now =
     (if ab_task_id b \<noteq> gt_task_id t \<or> ab_task_sha256 b \<noteq> gt_task_sha256 t
      then Inl (ValueError ''grounded-answer batch does not match the exact task'')
      else if rw_task_id r \<noteq> gt_task_id t \<or> rw_task_sha256 r \<noteq> gt_task_sha256 t \<or> rw_batch_id r \<noteq> ab_batch_id b \<or> rw_batch_sha256 r \<noteq> ab_batch_sha256 b
      then Inl (ValueError ''grounded-answer review does not match the exact task and batch'')
      else if set (map tc_case_id (gt_cases t)) \<noteq> set (map kc_case_id (ab_cases b))
      then Inl (ValueError ''grounded-answer batch cases do not exactly cover the task'')
      else if set (map jd_case_id (rw_judgments r)) \<noteq> set (map kc_case_id (ab_cases b))
      then Inl (ValueError ''grounded-answer review cases do not exactly cover the batch'')
      else rbind (rmap (\<lambda>c. outcome c (case_judgments r (kc_case_id c))) (ab_cases b)) (\<lambda>found.
        let outcomes = sort_key co_case_id found; by_case = dict_by co_case_id outcomes; task_cases = dict_by tc_case_id (gt_cases t) in
        rbind (rmap (\<lambda>name. rbind (summary A (filter (\<lambda>c. name \<in> set (tc_slices (the (task_cases (kc_case_id c))))) (ab_cases b))
            (case_judgments r) by_case) (\<lambda>m. Inr (name, m))) (sorted_set (concat (map tc_slices (gt_cases t))))) (\<lambda>slices.
          let stamp = (case generated of Some g \<Rightarrow> g | None \<Rightarrow> now) in
          if \<not> aware stamp then Inl (ValueError ''grounded-answer report generated_at must be timezone-aware'')
          else rbind (summary A (ab_cases b) (case_judgments r) by_case) (\<lambda>overall.
            validate_report A (report_of A t b r stamp overall slices outcomes)))))"

section \<open>Measurements stay in their ranges\<close>

lemma is_float_nat: "n \<le> 2 ^ 53 \<Longrightarrow> is_float (of_nat n)"
proof -
  assume "n \<le> 2 ^ 53"
  then have "\<bar>int n\<bar> \<le> 2 ^ 53" by (simp add: nat_le_iff [symmetric])
  from fl_of_int [OF this] have "fl (of_nat n) = (of_nat n :: rat)" by simp
  then show ?thesis by (metis is_float_fl)
qed

lemma fl_in_range: "0 \<le> x \<Longrightarrow> x \<le> of_nat n \<Longrightarrow> n \<le> 2 ^ 53 \<Longrightarrow> in_range 0 (of_nat n) (fl x)"
  by (simp add: in_range_def fl_nonneg fl_le_float is_float_nat)

lemma rate_range: "n \<le> d \<Longrightarrow> if_some (in_range 0 1) (rate n d)"
  using fl_in_range [of "of_nat n / of_nat d" 1] by (simp add: rate_def divide_le_eq)

lemma no_grades [simp]: "mean_grade [] = None" "rate n 0 = None" "List.map_filter f [] = []"
  by (simp_all add: mean_grade_def rate_def map_filter_def)

lemma rate_one: "n \<le> d \<Longrightarrow> 0 < d \<Longrightarrow> d \<le> 100 \<Longrightarrow> fl (of_nat n / of_nat d) = 1 \<longleftrightarrow> n = d"
proof
  assume n: "n \<le> d" "0 < d" "d \<le> 100" and one: "fl (of_nat n / of_nat d) = 1"
  show "n = d"
  proof (rule ccontr)
    assume "n \<noteq> d"
    then have "of_nat n + 1 \<le> (of_nat d :: rat)" using n(1) by (metis Suc_leI le_neq_implies_less of_nat_Suc of_nat_le_iff add.commute)
    moreover have "of_nat d \<le> (100 :: rat)" using n(3) by (metis of_nat_le_iff of_nat_numeral)
    ultimately have "of_nat n / of_nat d \<le> (99 / 100 :: rat)" using n(2) by (simp add: divide_le_eq)
    then have "fl (of_nat n / of_nat d) \<le> fl (99 / 100)" by (rule fl_mono)
    moreover have "fl (99 / 100) < 1" by code_simp
    ultimately show False using one by simp
  qed
qed (simp add: field_simps)

lemma count_le: "count_where p xs \<le> length xs"
  by (simp add: count_where_def)

lemma rate_counts [simp]: "if_some (in_range 0 1) (rate (count_where p xs) (length xs))"
  by (rule rate_range [OF count_le])

lemma count_all: "count_where p xs = length xs \<longleftrightarrow> list_all p xs"
  by (metis count_where_def filter_True length_filter_less list_all_iff nat_neq_iff)

lemma mean_grade_range:
  assumes "list_all (in_range 0 (int k)) xs" and "k \<le> 2 ^ 53"
  shows "if_some (in_range 0 (of_nat k)) (mean_grade xs)"
proof (cases "xs = []")
  case False
  have sums: "0 \<le> sum_list xs" "sum_list xs \<le> int k * int (length xs)"
    using assms(1) by (induction xs) (auto simp: in_range_def algebra_simps)
  have "of_int (sum_list xs) \<le> (of_int (int k * int (length xs)) :: rat)" using sums(2) by (rule of_int_le_iff [THEN iffD2])
  then have "of_int (sum_list xs) / of_nat (length xs) \<le> (of_nat k :: rat)" using False by (simp add: divide_le_eq)
  moreover have "0 \<le> of_int (sum_list xs) / (of_nat (length xs) :: rat)" using sums(1) by simp
  ultimately show ?thesis using fl_in_range [OF _ _ assms(2)] False by (simp add: mean_grade_def)
qed (simp add: mean_grade_def)

text \<open>The percentile reads inside the list and weighs with weights between 0 and 1.\<close>

lemma percentile_index:
  assumes "xs \<noteq> []" and "length xs \<le> 2 ^ 53" and "0 \<le> q" and "q \<le> 1"
  shows "nat \<lfloor>fl (of_nat (length xs - 1) * q)\<rfloor> < length xs"
proof -
  let ?p = "fl (of_nat (length xs - 1) * q)"
  have "of_nat (length xs - 1) * q \<le> of_nat (length xs - 1)" using assms by (simp add: mult_left_le)
  then have "?p \<le> of_nat (length xs - 1)" using assms(2) by (intro fl_le_float is_float_nat) simp_all
  then have "\<lfloor>?p\<rfloor> \<le> int (length xs - 1)" by (metis floor_mono floor_of_nat)
  moreover have "0 < length xs" using assms(1) by simp
  ultimately show ?thesis by linarith
qed

lemma percentile_nonneg:
  assumes xs: "xs \<noteq> []" "length xs \<le> 2 ^ 53" "list_all (\<lambda>x. 0 \<le> x) xs" and q: "0 \<le> q" "q \<le> 1"
  shows "0 \<le> percentile xs q"
proof -
  let ?p = "fl (of_nat (length xs - 1) * q)"
  let ?l = "nat \<lfloor>?p\<rfloor>" and ?u = "min (nat \<lfloor>?p\<rfloor> + 1) (length xs - 1)"
  let ?w = "fl (?p - of_nat ?l)"
  have nn: "0 \<le> sort xs ! i" if "i < length xs" for i
    using that xs(3) nth_mem [of i "sort xs"] by (simp add: list_all_iff)
  have p: "0 \<le> ?p" using q by (intro fl_nonneg) simp
  then have l: "of_nat ?l \<le> ?p" "?p - of_nat ?l \<le> 1" by (simp_all add: of_nat_nat, linarith)
  then have w: "0 \<le> ?w" "?w \<le> 1" using fl_in_range [of "?p - of_nat ?l" 1] by (simp_all add: in_range_def)
  have "0 \<le> sort xs ! ?l" by (rule nn [OF percentile_index [OF xs(1,2) q]])
  moreover have "0 \<le> sort xs ! ?u" using xs(1) by (intro nn) (simp add: min_less_iff_disj)
  ultimately have "0 \<le> fl (fl (sort xs ! ?l * fl (1 - ?w)) + fl (sort xs ! ?u * ?w))"
    using w l(1) by (intro fl_nonneg add_nonneg_nonneg mult_nonneg_nonneg) simp_all
  then show ?thesis by (simp only: percentile_def Let_def length_sort)
qed

lemma fraction_range: "0 \<le> fl (95 / 100)" "fl (95 / 100) \<le> 1"
  using fl_in_range [of "95 / 100" 1] by (simp_all add: in_range_def)

section \<open>Outcomes\<close>

text \<open>A judgment of the best kind: every grade it gives is the highest one. The claims a response makes, or its
abstention, are the identities its judgments must have.\<close>

definition best_judgment :: "answer_judgment \<Rightarrow> bool" where
  "best_judgment j \<longleftrightarrow> if_some (\<lambda>g. g = 3) (jd_support_grade j) \<and> if_some (\<lambda>g. g = 2) (jd_citation_quality j)
     \<and> if_some (\<lambda>g. g = 2) (jd_answer_relevance j) \<and> if_some id (jd_abstention_appropriate j)"

definition judged_ids :: "response \<Rightarrow> string option list" where
  "judged_ids r = (if rp_status r = Abstained then [None] else map (\<lambda>k. Some (cl_claim_id k)) (rp_claims r))"

definition judgment_ok :: "answer_judgment \<Rightarrow> bool" where
  "judgment_ok j \<longleftrightarrow> validate_judgment j = Inr j"

definition candidate_ok :: "('a) answer_api_scheme \<Rightarrow> candidate_case \<Rightarrow> bool" where
  "candidate_ok A c \<longleftrightarrow> validate_candidate_case c = Inr c \<and> response_ok A (kc_response c)"

lemma judgment_grades:
  assumes "judgment_ok j"
  shows "if_some (in_range 0 3) (jd_support_grade j)" "if_some (in_range 0 2) (jd_citation_quality j)" "if_some (in_range 0 2) (jd_answer_relevance j)"
    "jd_claim_id j = None \<Longrightarrow> jd_support_grade j = None \<and> jd_citation_quality j = None \<and> jd_answer_relevance j = None \<and> jd_abstention_appropriate j \<noteq> None"
    "jd_claim_id j \<noteq> None \<Longrightarrow> jd_support_grade j \<noteq> None \<and> jd_citation_quality j \<noteq> None \<and> jd_abstention_appropriate j = None
       \<and> (jd_answer_relevance j \<noteq> None \<longleftrightarrow> jd_claim_id j = Some ''claim-01'')"
proof -
  note j = assms [unfolded judgment_ok_def validate_judgment_def Let_def guard_simps list.set ball_simps fst_conv not_not, THEN conjunct2]
  show "if_some (in_range 0 3) (jd_support_grade j)" "if_some (in_range 0 2) (jd_citation_quality j)" "if_some (in_range 0 2) (jd_answer_relevance j)"
    by (rule j [THEN conjunct1, THEN conjunct2, THEN conjunct2, THEN conjunct1]
        j [THEN conjunct1, THEN conjunct2, THEN conjunct2, THEN conjunct2, THEN conjunct1]
        j [THEN conjunct1, THEN conjunct2, THEN conjunct2, THEN conjunct2, THEN conjunct2, THEN conjunct1])+
  show "jd_support_grade j = None \<and> jd_citation_quality j = None \<and> jd_answer_relevance j = None \<and> jd_abstention_appropriate j \<noteq> None"
    if "jd_claim_id j = None"
    using j that by (elim conjE) simp
  show "jd_support_grade j \<noteq> None \<and> jd_citation_quality j \<noteq> None \<and> jd_abstention_appropriate j = None
      \<and> (jd_answer_relevance j \<noteq> None \<longleftrightarrow> jd_claim_id j = Some ''claim-01'')" if "jd_claim_id j \<noteq> None"
    using j that by (elim conjE) (cases "jd_claim_id j = Some ''claim-01''"; simp)
qed

lemma min_best: "xs \<noteq> [] \<Longrightarrow> list_all (in_range 0 k) xs \<Longrightarrow> Min (set xs) = (k :: int) \<longleftrightarrow> list_all (\<lambda>x. x = k) xs"
proof -
  assume xs: "xs \<noteq> []" "list_all (in_range 0 k) xs"
  have "Min (set xs) = k \<longleftrightarrow> k \<in> set xs \<and> (\<forall>x \<in> set xs. k \<le> x)" using xs(1) by (simp add: Min_eq_iff)
  also have "\<dots> \<longleftrightarrow> (\<forall>x \<in> set xs. x = k)"
    using xs by (auto simp: list_all_iff in_range_def intro: order_antisym) (metis list.set_sel(1))
  finally show ?thesis by (simp add: list_all_iff)
qed

lemma min_range: "xs \<noteq> [] \<Longrightarrow> list_all (in_range 0 (k :: int)) xs \<Longrightarrow> in_range 0 k (Min (set xs))"
  using Min_in [of "set xs"] by (simp add: list_all_iff)

lemma answered_claims:
  assumes "response_ok A r" and "rp_status r = Answered"
  shows "rp_claims r \<noteq> []" "length (rp_claims r) \<le> 8" "map cl_claim_id (rp_claims r) = map claim_id_at [1..<length (rp_claims r) + 1]"
  using assms by (simp_all add: response_ok_def validate_answer_response_def guard_simps)

lemma status_cases: "rp_status r = Abstained \<longleftrightarrow> rp_status r \<noteq> Answered"
  by (cases "rp_status r") simp_all

lemma claim_id_one: "claim_id_at 1 = ''claim-01''"
  by code_simp

lemma claim_ids_listed: "map claim_id_at [1..<9] = [''claim-01'', ''claim-02'', ''claim-03'', ''claim-04'', ''claim-05'', ''claim-06'', ''claim-07'', ''claim-08'']"
  by code_simp

lemma claim_ids:
  assumes "n \<le> 8"
  shows "distinct (map claim_id_at [1..<n + 1])" "sorted (map claim_id_at [1..<n + 1])" "[] \<notin> set (map claim_id_at [1..<n + 1])"
proof -
  have "[1..<n + 1] = take n [1..<9]" using assms by (simp add: take_upt)
  then have "map claim_id_at [1..<n + 1] = take n (map claim_id_at [1..<9])" by (simp add: take_map)
  then have t: "map claim_id_at [1..<n + 1] = take n [''claim-01'', ''claim-02'', ''claim-03'', ''claim-04'', ''claim-05'', ''claim-06'', ''claim-07'', ''claim-08'']"
    unfolding claim_ids_listed .
  show "distinct (map claim_id_at [1..<n + 1])" unfolding t by (rule distinct_take) simp
  show "sorted (map claim_id_at [1..<n + 1])" unfolding t by (rule sorted_wrt_take) simp
  show "[] \<notin> set (map claim_id_at [1..<n + 1])" unfolding t by (rule contra_subsetD [OF set_take_subset]) simp
qed

text \<open>An answered case whose judgments are those of its claims.\<close>

lemma answered_outcome_ok:
  assumes c: "candidate_ok A c" "rp_status (kc_response c) = Answered" and js: "list_all judgment_ok js"
    and ids: "map jd_claim_id js = judged_ids (kc_response c)"
  obtains res where "answered_outcome c js = Inr res" "co_case_id res = kc_case_id c" "co_strict_pass res = list_all best_judgment js"
proof -
  note r = answered_claims [OF conjunct2 [OF c(1) [unfolded candidate_ok_def]] c(2)]
  have ids': "map jd_claim_id js = map (\<lambda>k. Some (cl_claim_id k)) (rp_claims (kc_response c))"
    using ids c(2) by (simp add: judged_ids_def)
  have ne: "js \<noteq> []" using ids' r(1) by auto
  have len: "length js = length (rp_claims (kc_response c))" using map_eq_imp_length_eq [OF ids'] .
  have claim: "jd_claim_id j \<noteq> None" if "j \<in> set js" for j
  proof -
    have "jd_claim_id j \<in> set (map jd_claim_id js)" using that by simp
    then show ?thesis unfolding ids' by auto
  qed
  note g = judgment_grades [OF js [unfolded list_all_iff, rule_format]]
  have some: "jd_support_grade j \<noteq> None \<and> jd_citation_quality j \<noteq> None \<and> jd_abstention_appropriate j = None
      \<and> (jd_answer_relevance j \<noteq> None \<longleftrightarrow> jd_claim_id j = Some ''claim-01'')" if "j \<in> set js" for j
    using g(5) [OF that claim [OF that]] .
  have "jd_claim_id (hd js) = Some (cl_claim_id (hd (rp_claims (kc_response c))))"
    using arg_cong [OF ids', of hd] ne r(1) by (simp add: hd_map)
  also have "cl_claim_id (hd (rp_claims (kc_response c))) = claim_id_at 1"
    using arg_cong [OF r(3), of hd] r(1) upt_conv_Cons [of 1 "length (rp_claims (kc_response c)) + 1"] by (simp add: hd_map)
  finally have "jd_claim_id (hd js) = Some ''claim-01''" by (simp only: claim_id_one)
  then have first: "jd_claim_id (hd js) = Some ''claim-01''" .
  obtain v where v: "jd_answer_relevance (hd js) = Some v" using some [of "hd js"] ne first by auto
  have "distinct (map jd_claim_id js)"
    using claim_ids(1) [OF r(2), folded r(3)] unfolding ids' by (simp add: distinct_map inj_on_def)
  then have only: "j = hd js" if "j \<in> set js" "jd_answer_relevance j \<noteq> None" for j
    using that some [OF that(1)] first ne by (metis distinct_map hd_in_set inj_onD)
  let ?s = "map (\<lambda>j. the (jd_support_grade j)) js" and ?q = "map (\<lambda>j. the (jd_citation_quality j)) js"
  have rs: "list_all (in_range 0 3) ?s" "list_all (in_range 0 2) ?q"
    using g(1,2) some by (force simp: list_all_iff)+
  have rv: "in_range 0 2 v" using g(3) [of "hd js"] ne v by simp
  let ?o = "\<lparr>co_case_id = kc_case_id c, co_query_id = kc_query_id c, co_response_status = Answered,
    co_claim_count = int (length (rp_claims (kc_response c))), co_minimum_support = Some (Min (set ?s)), co_minimum_citation = Some (Min (set ?q)),
    co_answer_relevance = Some v, co_abstention_appropriate = None, co_strict_pass = (Min (set ?s) = 3 \<and> Min (set ?q) = 2 \<and> v = 2)\<rparr>"
  have "validate_outcome ?o = Inr ?o"
    using c(1) r(1,2) rv min_range [OF _ rs(1)] min_range [OF _ rs(2)] ne
    by (simp add: validate_outcome_def guard_simps candidate_ok_def validate_candidate_case_def)
      (auto simp: in_range_def)
  then have "answered_outcome c js = Inr ?o"
    using ids' ne v some by (simp add: answered_outcome_def guard_simps Let_def comp_def image_image) force
  moreover have "co_strict_pass ?o = list_all best_judgment js"
  proof -
    have "best_judgment j \<longleftrightarrow> the (jd_support_grade j) = 3 \<and> the (jd_citation_quality j) = 2 \<and> (jd_answer_relevance j \<noteq> None \<longrightarrow> v = 2)"
      if "j \<in> set js" for j
      using some [OF that] only [OF that] v
      by (cases "jd_support_grade j"; cases "jd_citation_quality j"; cases "jd_answer_relevance j") (auto simp: best_judgment_def)
    then have "list_all best_judgment js \<longleftrightarrow> list_all (\<lambda>x. x = 3) ?s \<and> list_all (\<lambda>x. x = 2) ?q \<and> v = 2"
      using v ne by (auto simp: list_all_iff)
    then show ?thesis using min_best [OF _ rs(1)] min_best [OF _ rs(2)] ne by simp
  qed
  ultimately show ?thesis using that by simp
qed

lemma outcome_ok:
  assumes c: "candidate_ok A c" and js: "list_all judgment_ok js" and ids: "map jd_claim_id js = judged_ids (kc_response c)"
  obtains res where "outcome c js = Inr res" "co_case_id res = kc_case_id c" "co_strict_pass res = list_all best_judgment js"
proof (cases "rp_status (kc_response c)")
  case Answered
  obtain res where "answered_outcome c js = Inr res" "co_case_id res = kc_case_id c" "co_strict_pass res = list_all best_judgment js"
    by (rule answered_outcome_ok [OF c Answered js ids])
  then show ?thesis using that Answered by (simp add: outcome_def)
next
  case Abstained
  then have "map jd_claim_id js = [None]" using ids by (simp add: judged_ids_def)
  then obtain j where j: "js = [j]" "jd_claim_id j = None" by (cases js) auto
  note none = judgment_grades(4) [OF _ j(2)]
  obtain v where v: "jd_abstention_appropriate j = Some v" using none js j by auto
  have "best_judgment j \<longleftrightarrow> v" using none js j v by (simp add: best_judgment_def)
  then show ?thesis using that Abstained c j v
    by (simp add: outcome_def abstained_outcome_def validate_outcome_def guard_simps candidate_ok_def validate_candidate_case_def in_range_def)
qed

lemma outcome_needs_ids:
  assumes "outcome c js = Inr res"
  shows "map jd_claim_id js = judged_ids (kc_response c)"
  using assms
  by (auto simp: outcome_def abstained_outcome_def answered_outcome_def judged_ids_def guard_simps status_cases
      split: if_splits list.splits option.splits)

lemma grades_listed:
  assumes "list_all judgment_ok js"
  shows "list_all (in_range 0 3) (List.map_filter jd_support_grade js)" "list_all (in_range 0 2) (List.map_filter jd_citation_quality js)"
    "list_all (in_range 0 2) (List.map_filter jd_answer_relevance js)"
  using judgment_grades(1-3) [OF assms [unfolded list_all_iff, rule_format]]
  by (force simp: list_all_iff map_filter_def)+

text \<open>What is used of the sum of floats: it does not lose the sign.\<close>

definition sum_law :: "('a) review_api_scheme \<Rightarrow> bool" where
  "sum_law A \<longleftrightarrow> (\<forall>xs. list_all (\<lambda>x. 0 \<le> x) xs \<longrightarrow> 0 \<le> aa_sum A xs)"

lemma summary_ok:
  assumes law: "sum_law A" and cases: "cases \<noteq> []" "length cases \<le> 2 ^ 53" "list_all (candidate_ok A) cases"
    and js: "\<And>c. c \<in> set cases \<Longrightarrow> list_all judgment_ok (judgments (kc_case_id c))"
  obtains m where "summary A cases judgments outcomes = Inr m" "ms_case_count m = int (length cases)"
    "ms_strict_case_pass_rate m = fl (of_nat (count_where (\<lambda>c. co_strict_pass (the (outcomes (kc_case_id c)))) cases) / of_nat (length cases))"
proof -
  define js where "js = filter (\<lambda>j. jd_claim_id j \<noteq> None) (concat (map (\<lambda>c. judgments (kc_case_id c)) cases))"
  define ab where "ab = map (\<lambda>c. hd (judgments (kc_case_id c))) (filter (\<lambda>c. rp_status (kc_response c) = Abstained) cases)"
  have "list_all judgment_ok js" using js by (auto simp: list_all_iff js_def)
  note g = grades_listed [OF this]
  note means = mean_grade_range [of 3, simplified] mean_grade_range [of 2, simplified]
  have c: "0 \<le> kc_latency_ms c" "1 \<le> kc_input_tokens c" "1 \<le> kc_output_tokens c" if "c \<in> set cases" for c
    using cases(3) that by (simp_all add: list_all_iff candidate_ok_def validate_candidate_case_def guard_simps)
  have tokens: "0 \<le> sum_list (map kc_input_tokens cases)" "0 \<le> sum_list (map kc_output_tokens cases)"
    using c by (intro sum_list_nonneg; force)+
  have lat: "list_all (\<lambda>x. 0 \<le> x) (map kc_latency_ms cases)" using c by (simp add: list_all_iff)
  have p95: "0 \<le> percentile (map kc_latency_ms cases) (fl (95 / 100))"
    using cases lat fraction_range by (intro percentile_nonneg) simp_all
  have latency: "0 \<le> aa_sum A (map kc_latency_ms cases)" using law lat by (simp add: sum_law_def)
  have pass: "in_range 0 1 (fl (of_nat (count_where p cases) / of_nat (length cases)))" for p
    using fl_in_range [of "of_nat (count_where p cases) / of_nat (length cases)" 1] count_le [of p cases] cases(1)
    by (simp add: divide_le_eq)
  have answered: "count_where (\<lambda>c. rp_status (kc_response c) = Answered) cases + count_where (\<lambda>c. rp_status (kc_response c) = Abstained) cases
      = length cases"
    using sum_length_filter_compl [of "\<lambda>c. rp_status (kc_response c) = Answered" cases] by (simp add: count_where_def status_cases)
  have one: "Suc 0 \<le> length cases" using cases(1) by (cases cases) simp_all
  have none: "ab = []" if "count_where (\<lambda>c. rp_status (kc_response c) = Abstained) cases = 0"
    using that by (simp add: ab_def count_where_def)
  have "\<exists>m. summary A cases judgments outcomes = Inr m \<and> ms_case_count m = int (length cases)
      \<and> ms_strict_case_pass_rate m = fl (of_nat (count_where (\<lambda>c. co_strict_pass (the (outcomes (kc_case_id c)))) cases) / of_nat (length cases))"
    unfolding summary_def Let_def validate_summary_def js_def [symmetric] ab_def [symmetric]
    using cases(1) means(1) [OF g(1)] means(2) [OF g(2)] means(2) [OF g(3)] pass tokens p95 latency one answered none
    by (simp add: guard_simps fl_nonneg)
  then show ?thesis using that by blast
qed

section \<open>Scoring\<close>

definition review_ok :: "('a) review_api_scheme \<Rightarrow> answer_review \<Rightarrow> bool" where
  "review_ok A r \<longleftrightarrow> validate_review A r = Inr r \<and> list_all judgment_ok (rw_judgments r)"

definition normal_slices :: "('a) review_api_scheme \<Rightarrow> answer_task \<Rightarrow> bool" where
  "normal_slices A t \<longleftrightarrow> list_all (\<lambda>s. s \<noteq> [] \<and> s = aa_casefold A (py_strip s)) (concat (map tc_slices (gt_cases t)))"

text \<open>Every case of the batch has exactly the judgments of its claims, or of its abstention.\<close>

definition fully_judged :: "answer_batch \<Rightarrow> answer_review \<Rightarrow> bool" where
  "fully_judged b r \<longleftrightarrow> list_all (\<lambda>c. map jd_claim_id (case_judgments r (kc_case_id c)) = judged_ids (kc_response c)) (ab_cases b)"

definition case_passes :: "answer_review \<Rightarrow> candidate_case \<Rightarrow> bool" where
  "case_passes r c \<longleftrightarrow> list_all best_judgment (case_judgments r (kc_case_id c))"

lemma batch_shape:
  assumes "batch_ok A b"
  shows "matches_hex ''grounded-batch-'' 20 (ab_batch_id b)" "matches_hex [] 64 (ab_batch_sha256 b)" "in_range 1 100 (length (ab_cases b))"
    "ordered_unique (map kc_case_id (ab_cases b))"
  using assms unfolding batch_ok_def validate_batch_def guard_simps list.set ball_simps fst_conv not_not by blast+

lemma review_shape:
  assumes "review_ok A r"
  shows "matches_hex ''grounded-review-'' 20 (rw_review_id r)" "matches_hex [] 64 (rw_review_sha256 r)" "in_range 2 200 (length (rw_reviewer r))"
    "rw_adjudication r = Some p \<Longrightarrow> rw_reviewer r = vp_adjudicator p"
proof -
  have v: "validate_review A r = Inr r" using assms by (simp add: review_ok_def)
  then have n: "normalize_space (rw_reviewer r) = rw_reviewer r"
    unfolding validate_review_def Let_def guard_simps by (metis answer_review.select_convs(8) answer_review.surjective answer_review.update_convs(8))
  show "matches_hex ''grounded-review-'' 20 (rw_review_id r)" "matches_hex [] 64 (rw_review_sha256 r)" "in_range 2 200 (length (rw_reviewer r))"
    using v unfolding validate_review_def Let_def guard_simps set_append list.set ball_simps ball_Un fst_conv not_not by blast+
  show "rw_reviewer r = vp_adjudicator p" if "rw_adjudication r = Some p"
    using v n that unfolding validate_review_def Let_def guard_simps set_append list.set ball_simps ball_Un fst_conv not_not that option.simps
    by simp
qed

lemma found_outcomes:
  assumes b: "batch_ok A b" and r: "review_ok A r" and j: "fully_judged b r"
  obtains res where "rmap (\<lambda>c. outcome c (case_judgments r (kc_case_id c))) (ab_cases b) = Inr res"
    "map co_case_id res = map kc_case_id (ab_cases b)" "map co_strict_pass res = map (case_passes r) (ab_cases b)"
proof -
  have "\<exists>o'. outcome c (case_judgments r (kc_case_id c)) = Inr o' \<and> co_case_id o' = kc_case_id c \<and> co_strict_pass o' = case_passes r c"
    if c: "c \<in> set (ab_cases b)" for c
  proof -
    have 1: "candidate_ok A c" using b c by (simp add: batch_ok_def candidate_ok_def list_all_iff)
    have 2: "list_all judgment_ok (case_judgments r (kc_case_id c))" using r by (simp add: review_ok_def case_judgments_def list_all_iff)
    have 3: "map jd_claim_id (case_judgments r (kc_case_id c)) = judged_ids (kc_response c)"
      using j c by (simp add: fully_judged_def list_all_iff)
    show ?thesis using outcome_ok [OF 1 2 3] unfolding case_passes_def by blast
  qed
  then obtain f where f: "outcome c (case_judgments r (kc_case_id c)) = Inr (f c) \<and> co_case_id (f c) = kc_case_id c
      \<and> co_strict_pass (f c) = case_passes r c" if "c \<in> set (ab_cases b)" for c
    by metis
  have "rmap (\<lambda>c. outcome c (case_judgments r (kc_case_id c))) (ab_cases b) = Inr (map f (ab_cases b))"
    using f by (intro rmap_Inr_fun) blast
  then show ?thesis using that f by simp
qed

lemma report_parts [simp]:
  "er_outcomes (report_of A t b r stamp overall slices outcomes) = outcomes" "er_overall (report_of A t b r stamp overall slices outcomes) = overall"
  "er_slices (report_of A t b r stamp overall slices outcomes) = slices" "er_generated_at (report_of A t b r stamp overall slices outcomes) = stamp"
  "er_task_id (report_of A t b r stamp overall slices outcomes) = gt_task_id t" "er_task_sha256 (report_of A t b r stamp overall slices outcomes) = gt_task_sha256 t"
  "er_batch_id (report_of A t b r stamp overall slices outcomes) = ab_batch_id b" "er_batch_sha256 (report_of A t b r stamp overall slices outcomes) = ab_batch_sha256 b"
  "er_review_id (report_of A t b r stamp overall slices outcomes) = rw_review_id r" "er_review_sha256 (report_of A t b r stamp overall slices outcomes) = rw_review_sha256 r"
  "er_reviewer (report_of A t b r stamp overall slices outcomes) = rw_reviewer r" "er_adjudication (report_of A t b r stamp overall slices outcomes) = rw_adjudication r"
  "er_schema_version (report_of A t b r stamp overall slices outcomes) = (if rw_adjudication r \<noteq> None then ''1.1.0'' else ''1.0.0'')"
  by (simp_all add: report_of_def Let_def)

lemma validate_report_of:
  assumes A: "hex_digest (aa_sha256 A)" and t: "task_ok A t" and b: "batch_ok A b" and r: "review_ok A r" and stamp: "aware stamp"
    and out: "outcomes \<noteq> []" "ordered_unique (map co_case_id outcomes)" "ms_case_count overall = int (length outcomes)"
    and slices: "list_all (\<lambda>s. fst s \<noteq> [] \<and> fst s = aa_casefold A (py_strip (fst s))) slices"
  shows "validate_report A (report_of A t b r stamp overall slices outcomes) = Inr (report_of A t b r stamp overall slices outcomes)"
    (is "validate_report A ?r = Inr ?r")
proof -
  have h: "grounded_answer_report_sha256 A ?r = er_report_sha256 ?r"
    by (simp add: grounded_answer_report_sha256_def report_of_def Let_def)
  have id: "er_report_id ?r = ''grounded-report-'' @ take 20 (er_report_sha256 ?r)" by (simp add: report_of_def Let_def)
  have shape: "matches_hex [] 64 (er_report_sha256 ?r)" "matches_hex ''grounded-report-'' 20 (er_report_id ?r)"
    unfolding id by (simp_all only: h [symmetric] grounded_answer_report_sha256_def digest_shapes [OF A])
  show ?thesis unfolding validate_report_def guard_simps
    using shape h id stamp out slices task_shape(1,2) [OF t] batch_shape(1,2) [OF b] review_shape [OF r]
    by (cases "rw_adjudication r") simp_all
qed

lemma score_report:
  assumes A: "hex_digest (aa_sha256 A)" "sum_law A" and t: "task_ok A t" "normal_slices A t" and b: "batch_ok A b" and r: "review_ok A r"
    and stamp: "aware (case generated of Some g \<Rightarrow> g | None \<Rightarrow> now)"
    and ids: "ab_task_id b = gt_task_id t" "ab_task_sha256 b = gt_task_sha256 t" "rw_task_id r = gt_task_id t" "rw_task_sha256 r = gt_task_sha256 t"
      "rw_batch_id r = ab_batch_id b" "rw_batch_sha256 r = ab_batch_sha256 b"
    and cover: "set (map tc_case_id (gt_cases t)) = set (map kc_case_id (ab_cases b))" "set (map jd_case_id (rw_judgments r)) = set (map kc_case_id (ab_cases b))"
    and judged: "fully_judged b r"
  obtains rep where "score_grounded_answer_review A t b r generated now = Inr rep"
    "map co_case_id (er_outcomes rep) = map kc_case_id (ab_cases b)" "map co_strict_pass (er_outcomes rep) = map (case_passes r) (ab_cases b)"
    "ms_strict_case_pass_rate (er_overall rep) = fl (of_nat (count_where (case_passes r) (ab_cases b)) / of_nat (length (ab_cases b)))"
proof -
  obtain res where res: "rmap (\<lambda>c. outcome c (case_judgments r (kc_case_id c))) (ab_cases b) = Inr res"
    "map co_case_id res = map kc_case_id (ab_cases b)" "map co_strict_pass res = map (case_passes r) (ab_cases b)"
    by (rule found_outcomes [OF b r judged])
  note bs = batch_shape [OF b]
  have ne: "ab_cases b \<noteq> []" "length (ab_cases b) \<le> 2 ^ 53" using bs(3) by (auto simp: in_range_def)
  have sorted: "sort_key co_case_id res = res" using bs(4) res(2) by (simp add: ordered_unique_def sort_key_id_if_sorted)
  have cok: "candidate_ok A c" if "c \<in> set (ab_cases b)" for c using b that by (simp add: batch_ok_def candidate_ok_def list_all_iff)
  have jok: "list_all judgment_ok (case_judgments r k)" for k using r by (simp add: review_ok_def case_judgments_def list_all_iff)
  let ?by = "dict_by co_case_id res" and ?tc = "dict_by tc_case_id (gt_cases t)"
  let ?part = "\<lambda>name. filter (\<lambda>c. name \<in> set (tc_slices (the (?tc (kc_case_id c))))) (ab_cases b)"
  have "\<exists>m. summary A (?part name) (case_judgments r) ?by = Inr m" if name: "name \<in> set (concat (map tc_slices (gt_cases t)))" for name
  proof -
    obtain k where k: "k \<in> set (gt_cases t)" "name \<in> set (tc_slices k)" using name by auto
    then obtain c where c: "c \<in> set (ab_cases b)" "kc_case_id c = tc_case_id k" using cover(1) by (metis imageE imageI image_set)
    then have "c \<in> set (?part name)" using task_cases_found(1) [OF t(1) k(1)] k(2) by simp
    then have "?part name \<noteq> []" by (metis empty_iff empty_set)
    moreover have "length (?part name) \<le> 2 ^ 53" using ne(2) length_filter_le order_trans by blast
    ultimately show ?thesis using summary_ok [OF A(2), of "?part name" "case_judgments r" ?by] cok jok
      by (metis (no_types, lifting) filter_is_subset list_all_iff subsetD)
  qed
  then obtain f where "summary A (?part name) (case_judgments r) ?by = Inr (f name)" if "name \<in> set (concat (map tc_slices (gt_cases t)))" for name
    by metis
  then have slices: "rmap (\<lambda>name. rbind (summary A (?part name) (case_judgments r) ?by) (\<lambda>m. Inr (name, m))) (sorted_set (concat (map tc_slices (gt_cases t))))
      = Inr (map (\<lambda>name. (name, f name)) (sorted_set (concat (map tc_slices (gt_cases t)))))"
    by (intro rmap_Inr_fun) (simp only: set_sorted_set rbind_simps)
  have strict: "co_strict_pass (the (?by (kc_case_id c))) = case_passes r c" if c: "c \<in> set (ab_cases b)" for c
  proof -
    obtain i where i: "i < length (ab_cases b)" "c = ab_cases b ! i" using c by (metis in_set_conv_nth)
    have len: "length res = length (ab_cases b)" using map_eq_imp_length_eq [OF res(2)] .
    have "co_case_id (res ! i) = kc_case_id c" "co_strict_pass (res ! i) = case_passes r c"
      using arg_cong [OF res(2), of "\<lambda>xs. xs ! i"] arg_cong [OF res(3), of "\<lambda>xs. xs ! i"] i len by simp_all
    moreover have "?by (co_case_id (res ! i)) = Some (res ! i)"
      using bs(4) res(2) i len by (intro dict_by_distinct) (simp_all add: ordered_unique_def)
    ultimately show ?thesis by simp
  qed
  have count: "count_where (\<lambda>c. co_strict_pass (the (?by (kc_case_id c)))) (ab_cases b) = count_where (case_passes r) (ab_cases b)"
    using strict by (simp add: count_where_def cong: filter_cong)
  obtain m where m: "summary A (ab_cases b) (case_judgments r) ?by = Inr m" "ms_case_count m = int (length (ab_cases b))"
    "ms_strict_case_pass_rate m = fl (of_nat (count_where (\<lambda>c. co_strict_pass (the (?by (kc_case_id c)))) (ab_cases b)) / of_nat (length (ab_cases b)))"
    using summary_ok [OF A(2) ne, of "case_judgments r" ?by] cok jok by (metis list_all_iff)
  let ?stamp = "case generated of Some g \<Rightarrow> g | None \<Rightarrow> now" and ?slices = "map (\<lambda>name. (name, f name)) (sorted_set (concat (map tc_slices (gt_cases t))))"
  let ?rep = "report_of A t b r ?stamp m ?slices res"
  have "length res = length (ab_cases b)" "res \<noteq> []" using map_eq_imp_length_eq [OF res(2)] ne(1) by auto
  then have valid: "validate_report A ?rep = Inr ?rep"
    using bs(4) res(2) m(2) t(2) by (intro validate_report_of [OF A(1) t(1) b r stamp]) (simp_all add: normal_slices_def list_all_iff)
  have "score_grounded_answer_review A t b r generated now = Inr ?rep"
    unfolding score_grounded_answer_review_def res(1) using ids cover stamp
    by (simp add: sorted Let_def slices m(1) valid del: set_map)
  then show ?thesis using that [of ?rep] res(2,3) m(3) count by simp
qed

text \<open>What scoring requires of a batch and a review, beside being valid.\<close>

definition reviewed :: "answer_task \<Rightarrow> answer_batch \<Rightarrow> answer_review \<Rightarrow> bool" where
  "reviewed t b r \<longleftrightarrow> ab_task_id b = gt_task_id t \<and> ab_task_sha256 b = gt_task_sha256 t \<and> rw_task_id r = gt_task_id t \<and> rw_task_sha256 r = gt_task_sha256 t
     \<and> rw_batch_id r = ab_batch_id b \<and> rw_batch_sha256 r = ab_batch_sha256 b
     \<and> set (map tc_case_id (gt_cases t)) = set (map kc_case_id (ab_cases b)) \<and> set (map jd_case_id (rw_judgments r)) = set (map kc_case_id (ab_cases b))
     \<and> fully_judged b r"

lemma scored_reviewed:
  assumes "score_grounded_answer_review A t b r generated now = Inr rep"
  shows "reviewed t b r \<and> aware (case generated of Some g \<Rightarrow> g | None \<Rightarrow> now)"
proof -
  obtain res where res: "rmap (\<lambda>c. outcome c (case_judgments r (kc_case_id c))) (ab_cases b) = Inr res"
    using assms by (auto simp: score_grounded_answer_review_def split: if_splits)
  have "map jd_claim_id (case_judgments r (kc_case_id c)) = judged_ids (kc_response c)" if "c \<in> set (ab_cases b)" for c
    using rmap_ok_iff [THEN iffD1, OF exI, OF res] that outcome_needs_ids by blast
  then have "fully_judged b r" by (simp add: fully_judged_def list_all_iff)
  with assms show ?thesis
    by (simp add: score_grounded_answer_review_def reviewed_def Let_def split: if_splits del: set_map)
qed


section \<open>An imported review\<close>

lemma joined_runs_length: "length (joined '' '' (runs p s)) \<le> length (dropWhile (\<lambda>c. \<not> p c) s)"
proof (induction p s rule: runs.induct)
  case (1 p s)
  show ?case
  proof (cases "dropWhile (\<lambda>c. \<not> p c) s")
    case Nil
    then have "runs p s = []" by (subst runs.simps) (simp only: list.case)
    then show ?thesis by simp
  next
    case (Cons c r)
    let ?rest = "dropWhile p (c # r)"
    have ih: "length (joined '' '' (runs p ?rest)) \<le> length (dropWhile (\<lambda>c. \<not> p c) ?rest)" by (rule 1 [OF Cons])
    have split: "length (takeWhile p (c # r)) + length ?rest = length (c # r)" by (metis length_append takeWhile_dropWhile_id)
    have runs: "runs p s = takeWhile p (c # r) # runs p ?rest" by (subst runs.simps) (simp only: Cons list.case)
    show ?thesis
    proof (cases "runs p ?rest")
      case Nil
      then show ?thesis unfolding runs Cons using split by simp
    next
      case (Cons w ws)
      then have "?rest \<noteq> []" by (metis list.distinct(1) runs_Nil)
      then obtain x xs where x: "?rest = x # xs" "\<not> p x" by (metis hd_dropWhile list.collapse)
      have "length (dropWhile (\<lambda>c. \<not> p c) ?rest) < length ?rest" unfolding x(1) using x(2) by (simp add: length_dropWhile_le le_imp_less_Suc)
      then show ?thesis unfolding runs \<open>dropWhile (\<lambda>c. \<not> p c) s = c # r\<close> using split ih Cons by simp
    qed
  qed
qed

lemma normalize_space_length: "length (normalize_space s) \<le> length s"
  using joined_runs_length [of "\<lambda>c. \<not> is_uspace c" s] length_dropWhile_le [of is_uspace s]
  by (simp add: normalize_space_def py_split_def)

lemma validated_judgment:
  assumes "validate_judgment i = Inr j"
  shows "judgment_ok j" "j = i\<lparr>jd_rationale := normalize_space (jd_rationale i)\<rparr>"
proof -
  show j: "j = i\<lparr>jd_rationale := normalize_space (jd_rationale i)\<rparr>"
    using assms unfolding validate_judgment_def Let_def guard_simps by blast
  show "judgment_ok j"
    using assms normalize_space_length [of "jd_rationale i"] unfolding judgment_ok_def j validate_judgment_def Let_def guard_simps
    by (simp add: in_range_def)
qed

text \<open>The identities of a case's rows, and the claim identity of a key.\<close>

definition case_keys :: "candidate_case \<Rightarrow> (string \<times> string) list" where
  "case_keys c = map (\<lambda>i. (kc_case_id c, case i of Some k \<Rightarrow> k | None \<Rightarrow> [])) (judged_ids (kc_response c))"

definition key_claim :: "string \<times> string \<Rightarrow> string option" where
  "key_claim k = (if snd k = [] then None else Some (snd k))"

lemma judgment_claim: "judgment_ok j \<Longrightarrow> jd_claim_id j = key_claim (judgment_key j)"
  by (cases "jd_claim_id j") (auto simp: judgment_ok_def validate_judgment_def Let_def guard_simps key_claim_def judgment_key_def)

lemma case_keys_ok:
  assumes "candidate_ok A c"
  shows "distinct (case_keys c)" "sorted (case_keys c)" "case_keys c \<noteq> []" "fst ` set (case_keys c) = {kc_case_id c}"
    "map key_claim (case_keys c) = judged_ids (kc_response c)"
proof -
  have "\<exists>ks. case_keys c = map (Pair (kc_case_id c)) ks \<and> distinct ks \<and> sorted ks \<and> ks \<noteq> []
      \<and> map (\<lambda>k. if k = [] then None else Some k) ks = judged_ids (kc_response c)"
  proof (cases "rp_status (kc_response c)")
    case Abstained
    then show ?thesis by (intro exI [of _ "[[]]"]) (simp add: case_keys_def judged_ids_def)
  next
    case Answered
    let ?ks = "map cl_claim_id (rp_claims (kc_response c))"
    note r = answered_claims [OF conjunct2 [OF assms [unfolded candidate_ok_def]] Answered]
    note ids = claim_ids [OF r(2), folded r(3)]
    have "map (\<lambda>k. if k = [] then None else Some k) ?ks = map Some ?ks" using ids(3) by (intro map_cong) force+
    then show ?thesis using Answered ids r(1) by (intro exI [of _ ?ks]) (simp add: case_keys_def judged_ids_def)
  qed
  then obtain ks where ks: "case_keys c = map (Pair (kc_case_id c)) ks" "distinct ks" "sorted ks" "ks \<noteq> []"
    "map (\<lambda>k. if k = [] then None else Some k) ks = judged_ids (kc_response c)" by blast
  show "distinct (case_keys c)" using ks by (simp add: distinct_map inj_on_def)
  show "sorted (case_keys c)" using ks(3) unfolding ks(1) sorted_map by (rule sorted_wrt_mono_rel [rotated]) simp
  show "case_keys c \<noteq> []" using ks by simp
  show "fst ` set (case_keys c) = {kc_case_id c}" using ks(1,4) by (cases ks) (auto simp: image_image)
  show "map key_claim (case_keys c) = judged_ids (kc_response c)" using ks(1,5) by (simp add: key_claim_def comp_def cong: if_cong)
qed

lemma rmap_keys:
  assumes "rmap f xs = Inr ys" and "\<And>x y. x \<in> set xs \<Longrightarrow> f x = Inr y \<Longrightarrow> g y = h x"
  shows "map g ys = map h xs"
  using assms by (induction xs arbitrary: ys) auto

lemma rmap_all:
  assumes "rmap f xs = Inr ys" and "\<And>x y. f x = Inr y \<Longrightarrow> P y"
  shows "list_all P ys"
  using assms by (induction xs arbitrary: ys) auto

lemma claim_row_key: "claim_row A tc row k = Inr r \<Longrightarrow> row_key r = (sr_case_id row, cl_claim_id k)"
  by (auto simp: claim_row_def row_key_def)

lemma case_rows_keys:
  assumes "case_rows A t b c = Inr rows"
  shows "map row_key rows = case_keys c"
proof (cases "rp_status (kc_response c)")
  case Abstained
  then show ?thesis using assms by (auto simp: case_rows_def row_key_def blank_row_def case_keys_def judged_ids_def split: option.splits)
next
  case Answered
  then obtain tc where tc: "rmap (claim_row A tc (blank_row A t b tc c)) (rp_claims (kc_response c)) = Inr rows"
    using assms by (auto simp: case_rows_def split: option.splits)
  have "map row_key rows = map (\<lambda>k. (kc_case_id c, cl_claim_id k)) (rp_claims (kc_response c))"
    by (rule rmap_keys [OF tc]) (auto dest: claim_row_key simp: blank_row_def)
  then show ?thesis using Answered by (simp add: case_keys_def judged_ids_def comp_def)
qed

lemma row_judgment_key:
  assumes "row_judgment A r = Inr j"
  shows "judgment_ok j" "judgment_key j = row_key r"
proof -
  obtain i where i: "validate_judgment i = Inr j" "judgment_key i = row_key r"
    using assms by (auto simp: row_judgment_def judgment_key_def row_key_def)
  show "judgment_ok j" by (rule validated_judgment(1) [OF i(1)])
  show "judgment_key j = row_key r" using i(2) validated_judgment(2) [OF i(1)] by (simp add: judgment_key_def)
qed

lemma review_rows_keys:
  assumes "grounded_answer_review_rows A t b = Inr rows"
  shows "set (map row_key rows) = set (concat (map case_keys (ab_cases b)))"
    "ab_task_id b = gt_task_id t" "ab_task_sha256 b = gt_task_sha256 t" "map kc_case_id (ab_cases b) = map tc_case_id (gt_cases t)"
proof -
  obtain found where found: "rmap (case_rows A t b) (ab_cases b) = Inr found" "set rows = set (concat found)"
    using assms by (auto simp: grounded_answer_review_rows_def split: if_splits)
  have "map (map row_key) found = map case_keys (ab_cases b)" by (rule rmap_keys [OF found(1)]) (rule case_rows_keys)
  then have "concat (map (map row_key) found) = concat (map case_keys (ab_cases b))" by simp
  then have "map row_key (concat found) = concat (map case_keys (ab_cases b))" by (simp only: map_concat)
  then show "set (map row_key rows) = set (concat (map case_keys (ab_cases b)))" using found(2) by (metis set_map)
  have same: "map (\<lambda>c. (kc_case_id c, kc_query_id c)) (ab_cases b) = map (\<lambda>c. (tc_case_id c, tc_query_id c)) (gt_cases t)"
    using assms by (auto simp: grounded_answer_review_rows_def split: if_splits)
  show "ab_task_id b = gt_task_id t" "ab_task_sha256 b = gt_task_sha256 t"
    using assms by (auto simp: grounded_answer_review_rows_def split: if_splits)
  show "map kc_case_id (ab_cases b) = map tc_case_id (gt_cases t)"
    using arg_cong [OF same, of "map fst"] by (simp add: comp_def)
qed

lemma dict_keys_set [simp]: "set (dict_keys ks) = set ks" "distinct (dict_keys ks)"
  by (simp_all add: dict_keys_def)

lemma dict_by_found: "dict_by key xs k = Some x \<Longrightarrow> x \<in> set xs \<and> key x = k"
  by (auto simp: dict_by_def dest: map_of_SomeD)

lemma review_judgments_keys:
  assumes "review_judgments A expected actual = Inr js"
  shows "map judgment_key js = dict_keys (map row_key expected)" "list_all judgment_ok js"
proof -
  let ?f = "\<lambda>k. case (dict_by row_key expected k, dict_by row_key actual k) of
       (Some e, Some r) \<Rightarrow> if protected_cells r \<noteq> protected_cells e
         then Inl (ValueError ''grounded-answer review changed protected task, answer, or evidence fields'') else row_judgment A r
     | _ \<Rightarrow> Inl (KeyError (fst k))"
  have f: "judgment_key j = k \<and> judgment_ok j" if "?f k = Inr j" for k j
    using that row_judgment_key [of A _ j] dict_by_found [of row_key actual k]
    by (auto split: option.splits if_splits)
  have r: "rmap ?f (dict_keys (map row_key expected)) = Inr js" using assms by (simp add: review_judgments_def)
  have "map judgment_key js = map (\<lambda>k. k) (dict_keys (map row_key expected))" by (rule rmap_keys [OF r]) (use f in blast)
  then show "map judgment_key js = dict_keys (map row_key expected)" by simp
  show "list_all judgment_ok js" by (rule rmap_all [OF r]) (use f in blast)
qed

text \<open>Judgments of all keys, in canonical order, fall apart into those of the cases.\<close>

lemma judged_by_keys:
  assumes b: "batch_ok A b" and js: "list_all judgment_ok js" and keys: "distinct (map judgment_key js)"
    "set (map judgment_key js) = set (concat (map case_keys (ab_cases b)))" and c: "c \<in> set (ab_cases b)"
  shows "map jd_claim_id (filter (\<lambda>j. jd_case_id j = kc_case_id c) (sort_key judgment_key js)) = judged_ids (kc_response c)"
proof -
  have cok: "candidate_ok A k" if "k \<in> set (ab_cases b)" for k using b that by (simp add: batch_ok_def candidate_ok_def list_all_iff)
  have ids: "distinct (map kc_case_id (ab_cases b))" using batch_shape(4) [OF b] by (simp add: ordered_unique_def)
  let ?js = "filter (\<lambda>j. jd_case_id j = kc_case_id c) (sort_key judgment_key js)"
  have first: "fst (judgment_key j) = jd_case_id j" for j by (simp add: judgment_key_def)
  have "set (map judgment_key ?js) = {k \<in> set (map judgment_key js). fst k = kc_case_id c}" using first by force
  also have "\<dots> = set (case_keys c)"
  proof -
    have "fst k = kc_case_id c \<longleftrightarrow> d = c" if "d \<in> set (ab_cases b)" "k \<in> set (case_keys d)" for d k
      using case_keys_ok(4) [OF cok [OF that(1)]] that c ids by (metis distinct_map imageI inj_onD singletonD)
    then show ?thesis unfolding keys(2) using c by auto
  qed
  finally have set: "set (map judgment_key ?js) = set (case_keys c)" .
  have "sorted (map judgment_key (sort_key judgment_key js))" by simp
  then have "sorted (map judgment_key ?js)" by (simp add: sorted_map sorted_wrt_filter)
  moreover have "distinct (map judgment_key ?js)" using keys(1) by (simp add: distinct_map inj_on_def)
  ultimately have eq: "map judgment_key ?js = case_keys c"
    using set case_keys_ok(1,2) [OF cok [OF c]] by (intro sorted_distinct_set_unique) simp_all
  have "map jd_claim_id ?js = map key_claim (map judgment_key ?js)" using js by (auto simp: judgment_claim list_all_iff)
  then show ?thesis unfolding eq using case_keys_ok(5) [OF cok [OF c]] by simp
qed

lemma import_covers:
  assumes t: "task_ok A t" and b: "batch_ok A b" and imported: "apply_grounded_answer_review A t b csv reviewer reviewed_at now = Inr r"
  shows "review_ok A r" "reviewed t b r" "rw_adjudication r = None"
proof -
  obtain rows actual js stamp where rows: "grounded_answer_review_rows A t b = Inr rows" and js: "review_judgments A rows actual = Inr js"
    and v: "validate_review A (review_of A t b (normalize_space reviewer) stamp (sort_key judgment_key js)) = Inr r"
    using imported by (cases "aa_read_csv A csv") (auto simp: apply_grounded_answer_review_def Let_def split: if_splits)
  note k = review_rows_keys [OF rows] and j = review_judgments_keys [OF js]
  let ?r = "review_of A t b (normalize_space reviewer) stamp (sort_key judgment_key js)"
  have "rw_reviewer ?r = normalize_space reviewer" by (simp add: review_of_def Let_def)
  then have r: "r = ?r" using v unfolding validate_review_def Let_def guard_simps by simp
  have parts: "rw_task_id r = gt_task_id t" "rw_task_sha256 r = gt_task_sha256 t" "rw_batch_id r = ab_batch_id b" "rw_batch_sha256 r = ab_batch_sha256 b"
    "rw_judgments r = sort_key judgment_key js" "rw_adjudication r = None"
    by (simp_all add: r review_of_def Let_def)
  show "review_ok A r" unfolding review_ok_def parts(5) using v [folded r] j(2) by (simp add: list_all_iff)
  have keys: "distinct (map judgment_key js)" "set (map judgment_key js) = set (concat (map case_keys (ab_cases b)))"
    using j(1) k(1) by simp_all
  have "fully_judged b r"
    using judged_by_keys [OF b j(2) keys] by (simp add: fully_judged_def case_judgments_def parts list_all_iff)
  moreover have "set (map jd_case_id (rw_judgments r)) = set (map kc_case_id (ab_cases b))"
  proof -
    have "set (map jd_case_id (rw_judgments r)) = fst ` set (map judgment_key js)" by (simp add: parts judgment_key_def image_image)
    also have "\<dots> = (\<Union>c \<in> set (ab_cases b). fst ` set (case_keys c))" unfolding keys(2) by auto
    also have "\<dots> = (\<Union>c \<in> set (ab_cases b). {kc_case_id c})"
      using b by (intro SUP_cong case_keys_ok(4) [of A]) (simp_all add: batch_ok_def candidate_ok_def list_all_iff)
    finally show ?thesis by auto
  qed
  ultimately show "reviewed t b r" using k parts by (simp add: reviewed_def del: set_map)
  show "rw_adjudication r = None" by (rule parts(6))
qed


section \<open>A sample review\<close>

definition sample_row :: "('a) review_api_scheme \<Rightarrow> sheet_row" where
  "sample_row A = (blank_row A sample_answer_task sample_batch sample_answer_case (hd (ab_cases sample_batch)))
     \<lparr>sr_claim_id := ''claim-01'', sr_claim_text := compact_json A (JStr ''A quake''),
      sr_evidence_ids := joined '';'' [sample_id ''evidence-'' 64], sr_evidence := compact_json A (JList (map evidence_member (tc_evidence sample_answer_case)))\<rparr>"

definition plain_review_api :: review_api where
  "plain_review_api = answer_api.extend sample_answers \<lparr>aa_sum = sum_list, aa_dump_review = (\<lambda>_. JNull), aa_dump_report = (\<lambda>_. JNull),
     aa_read_csv = (\<lambda>_. []), aa_write_csv = concat \<circ> map concat\<rparr>"

definition filled_row :: sheet_row where
  "filled_row = (sample_row plain_review_api)\<lparr>sr_support := ''3'', sr_citation := ''2'', sr_relevance := '' 2'', sr_rationale := ''fully supported''\<rparr>"

definition sample_review_api :: review_api where
  "sample_review_api = plain_review_api\<lparr>aa_read_csv := (\<lambda>_. [grounding_review_columns, row_cells filled_row])\<rparr>"

definition sample_judgment :: answer_judgment where
  "sample_judgment = \<lparr>jd_case_id = tc_case_id sample_answer_case, jd_claim_id = Some ''claim-01'', jd_support_grade = Some 3, jd_citation_quality = Some 2,
     jd_answer_relevance = Some 2, jd_abstention_appropriate = None, jd_rationale = ''fully supported''\<rparr>"

definition sample_review :: answer_review where
  "sample_review = review_of sample_review_api sample_answer_task sample_batch ''Ada L'' sample_time [sample_judgment]"

lemma row_cells_inverse [simp]: "row_of_cells (row_cells r) = Some r"
  by (simp add: row_of_cells_def row_cells_def)

lemma sample_api_parts [simp]:
  "aa_sha256 sample_review_api v = sample_digest" "aa_sum sample_review_api = sum_list" "aa_casefold sample_review_api s = s"
  "aa_read_csv sample_review_api x = [grounding_review_columns, row_cells filled_row]" "canonical_sha256 sample_review_api j = sample_digest"
  "compact_json sample_review_api j = compact_json plain_review_api j" "aa_dump_response sample_review_api p = aa_dump_response plain_review_api p"
  by (simp_all add: sample_review_api_def plain_review_api_def answer_api.defs sample_answers_def canonical_sha256_def compact_json_def)

lemma sample_like_review: "sample_like sample_review_api"
  by (simp add: sample_like_def)

lemma sample_slices: "sample_like A \<Longrightarrow> normal_slices A sample_answer_task"
proof -
  assume A: "sample_like A"
  have "py_strip ''seismic'' = ''seismic''" by code_simp
  then show "normal_slices A sample_answer_task" using A by (simp add: normal_slices_def sample_answer_task_def sample_answer_case_def sample_like_def)
qed

lemma sample_laws: "hex_digest (aa_sha256 sample_review_api)" "sum_law sample_review_api" "normal_slices sample_review_api sample_answer_task"
  by (rule sample_like_digest [OF sample_like_review], simp add: sum_law_def list_all_iff sum_list_nonneg, rule sample_slices [OF sample_like_review])

lemma sample_rows: "grounded_answer_review_rows sample_review_api sample_answer_task sample_batch = Inr [sample_row plain_review_api]"
  by (simp add: grounded_answer_review_rows_def case_rows_def claim_row_def sample_batch_def batch_of_def Let_def sample_row_def blank_row_def
      sample_answer_task_def sample_answer_case_def sample_response_def dict_by_def)

lemma sample_grades: "py_strip ''3'' = ''3''" "py_strip '' 2'' = ''2''" "py_strip ''2'' = ''2''" "py_strip [] = []" "py_int ''3'' = Inr 3" "py_int ''2'' = Inr 2"
  "normalize_space ''fully supported'' = ''fully supported''" "normalize_space '' Ada  L'' = ''Ada L''" "normalize_space ''Ada L'' = ''Ada L''"
  by code_simp+

lemma sample_row_judgment: "row_judgment sample_review_api filled_row = Inr sample_judgment"
  by (simp add: row_judgment_def optional_grade_def optional_bool_def Let_def filled_row_def sample_row_def sample_grades in_range_def
      validate_judgment_def guard_simps sample_judgment_def is_prefix_def dec_digits_def blank_row_def sample_batch_def batch_of_def sample_answer_case_def)

lemma sample_review_valid: "validate_review sample_review_api sample_review = Inr sample_review"
  unfolding validate_review_def guard_simps Let_def
  by (simp add: sample_review_def review_of_def Let_def sample_grades sample_answer_task_def sample_batch_def batch_of_def sample_time_def
      in_range_def aware_def ordered_unique_def grounded_answer_review_sha256_def grounded_answer_batch_sha256_def
      sample_canonical sample_like_answers
      sample_id_def [of "''grounded-batch-''" 20, symmetric, simplified] sample_id_def [of "''grounded-review-''" 20, symmetric, simplified])

lemma sample_imported:
  "apply_grounded_answer_review sample_review_api sample_answer_task sample_batch [] '' Ada  L'' (Some sample_time) sample_time = Inr sample_review"
proof -
  have "row_cells filled_row \<noteq> []" by (simp add: row_cells_def)
  then have index: "index_rows (filter (\<lambda>cs. cs \<noteq> []) [row_cells filled_row]) [] = Inr [filled_row]" by simp
  have key: "row_key filled_row = row_key (sample_row plain_review_api)" by (simp add: filled_row_def row_key_def)
  have "protected_cells filled_row = protected_cells (sample_row plain_review_api)"
    by (simp add: filled_row_def protected_cells_def row_cells_def)
  then have js: "review_judgments sample_review_api [sample_row plain_review_api] [filled_row] = Inr [sample_judgment]"
    by (simp add: review_judgments_def dict_keys_def dict_by_def key sample_row_judgment)
  show ?thesis unfolding apply_grounded_answer_review_def sample_rows
    using sample_review_valid [unfolded sample_review_def]
    by (simp add: index key js sample_grades sample_review_def sample_time_def aware_def del: filter.simps)
qed


text \<open>The sample review passes its case.\<close>

lemma sample_reviewed: "review_ok sample_review_api sample_review" "reviewed sample_answer_task sample_batch sample_review"
  by (rule import_covers [OF sample_task_ok [OF sample_like_review] sample_batch_ok [OF sample_like_review] sample_imported])+


end
