(* ===== verification/Trajectory.thy ===== *)
theory Trajectory
  imports GroundedReview
begin

text \<open>
  Offline agent trajectories (\<open>agent_trajectory/base.py\<close>, \<open>agent_trajectory/scoring.py\<close>): the observable
  steps of a candidate on each case, their import against a task and a candidate batch, and their score
  joined with the reviewed answers. The lemmas show that a score never violates its own contract and that a
  case passes exactly when its trace inspected and drafted what the answer needed, with no capability used.
\<close>

section \<open>Steps and cases\<close>

datatype trajectory_action = InspectEvidence | DraftClaim | ChooseAbstention | Finalize

record trajectory_step =
  ts_sequence :: int
  ts_action :: trajectory_action
  ts_evidence_ids :: "string list"
  ts_claim_ids :: "string list"
  ts_duration_ms :: rat

record capabilities =
  ca_network :: bool
  ca_tools :: bool
  ca_side_effects :: bool

record trace_case =
  tr_case_id :: string
  tr_query_id :: string
  tr_steps :: "trajectory_step list option"
  tr_capabilities :: "capabilities option"

record trace_submission =
  tu_task_id :: string
  tu_task_sha256 :: string
  tu_batch_id :: string
  tu_batch_sha256 :: string
  tu_cases :: "trace_case list"

record trajectory_case =
  tj_case_id :: string
  tj_query_id :: string
  tj_pack_id :: string
  tj_response_sha256 :: string
  tj_status :: response_status
  tj_available :: "string list"
  tj_required_evidence :: "string list"
  tj_required_claims :: "string list"
  tj_steps :: "trajectory_step list"
  tj_capabilities :: capabilities
  tj_input_tokens :: int
  tj_output_tokens :: int
  tj_latency_ms :: rat

record trajectory_batch =
  tb_id :: string
  tb_sha256 :: string
  tb_task_id :: string
  tb_task_sha256 :: string
  tb_batch_id :: string
  tb_batch_sha256 :: string
  tb_observed_at :: datetime
  tb_system :: candidate_system
  tb_case_count :: int
  tb_cases :: "trajectory_case list"

text \<open>\<open>str.isdigit\<close> on the modelled characters: the decimal digits and the three superscript digits.\<close>

definition py_isdigit :: "string \<Rightarrow> bool" where
  "py_isdigit s \<longleftrightarrow> s \<noteq> [] \<and> list_all (\<lambda>c. c \<in> set dec_digits \<or> of_char c \<in> {178, 179, 185 :: nat}) s"

definition claim_reference :: "string \<Rightarrow> bool" where
  "claim_reference s \<longleftrightarrow> length s = 8 \<and> is_prefix ''claim-'' s \<and> py_isdigit (drop 6 s)"

definition validate_step :: "trajectory_step \<Rightarrow> trajectory_step res" where
  "validate_step s = raise_first
     ([(\<not> (in_range 1 64 (ts_sequence s) \<and> length (ts_evidence_ids s) \<le> 8 \<and> length (ts_claim_ids s) \<le> 1 \<and> 0 \<le> ts_duration_ms s),
        ''AgentTrajectoryStep fields''),
       (ts_evidence_ids s \<noteq> sorted_set (ts_evidence_ids s), ''trajectory evidence IDs must be unique and canonically ordered''),
       (\<not> list_all (matches_hex ''evidence-'' 64) (ts_evidence_ids s), ''trajectory evidence IDs must use evidence-<sha256>''),
       (ts_claim_ids s \<noteq> sorted_set (ts_claim_ids s), ''trajectory claim IDs must be unique and canonically ordered''),
       (\<not> list_all claim_reference (ts_claim_ids s), ''trajectory claim IDs must use claim-NN'')]
      @ (case ts_action s of
          InspectEvidence \<Rightarrow> [(ts_evidence_ids s = [] \<or> ts_claim_ids s \<noteq> [], ''inspect_evidence requires evidence IDs and no claim IDs'')]
        | DraftClaim \<Rightarrow> [(ts_evidence_ids s = [] \<or> length (ts_claim_ids s) \<noteq> 1, ''draft_claim requires evidence IDs and exactly one claim ID'')]
        | _ \<Rightarrow> [(ts_evidence_ids s \<noteq> [] \<or> ts_claim_ids s \<noteq> [], ''a final or abstention step cannot contain evidence or claim IDs'')])) s"

definition validate_trace_case :: "trace_case \<Rightarrow> trace_case res" where
  "validate_trace_case c = raise_first
     [(\<not> (matches_hex ''answer-case-'' 20 (tr_case_id c) \<and> slug (tr_query_id c) \<and> if_some (\<lambda>s. length s \<le> 64) (tr_steps c)),
       ''AgentTrajectorySubmissionCase fields'')] c"

definition validate_trace_submission :: "trace_submission \<Rightarrow> trace_submission res" where
  "validate_trace_submission s = raise_first
     [(\<not> (matches_hex ''grounded-task-'' 20 (tu_task_id s) \<and> matches_hex [] 64 (tu_task_sha256 s)
        \<and> matches_hex ''grounded-batch-'' 20 (tu_batch_id s) \<and> matches_hex [] 64 (tu_batch_sha256 s)
        \<and> in_range 1 100 (length (tu_cases s))), ''AgentTrajectorySubmission fields''),
      (map tr_case_id (tu_cases s) \<noteq> sorted_set (map tr_case_id (tu_cases s)),
        ''trajectory submission cases must be unique and canonically ordered'')] s"

record trajectory_api = review_api +
  ta_dump_batch :: "trajectory_batch \<Rightarrow> json"

definition validate_trajectory_case :: "('a) review_api_scheme \<Rightarrow> trajectory_case \<Rightarrow> trajectory_case res" where
  "validate_trajectory_case A c = raise_first
     [(\<not> (matches_hex ''answer-case-'' 20 (tj_case_id c) \<and> slug (tj_query_id c) \<and> matches_hex ''pack-'' 64 (tj_pack_id c)
        \<and> matches_hex [] 64 (tj_response_sha256 c) \<and> in_range 1 64 (length (tj_steps c)) \<and> 1 \<le> tj_input_tokens c
        \<and> 1 \<le> tj_output_tokens c \<and> 0 \<le> tj_latency_ms c), ''AgentTrajectoryCase fields''),
      (tj_available c \<noteq> sorted_set (tj_available c) \<or> tj_required_evidence c \<noteq> sorted_set (tj_required_evidence c),
        ''trajectory evidence bindings must be unique and ordered''),
      (\<not> list_all (matches_hex ''evidence-'' 64) (tj_available c @ tj_required_evidence c), ''trajectory evidence bindings must use evidence-<sha256>''),
      (tj_required_claims c \<noteq> sorted_set (tj_required_claims c), ''trajectory claim bindings must be unique and ordered''),
      (\<not> list_all claim_reference (tj_required_claims c), ''trajectory claim bindings must use claim-NN''),
      (map ts_sequence (tj_steps c) \<noteq> map int [1..<length (tj_steps c) + 1], ''trajectory steps must be contiguous and one-based''),
      (length (filter (\<lambda>s. ts_action s = Finalize) (tj_steps c)) \<noteq> 1 \<or> ts_action (last (tj_steps c)) \<noteq> Finalize,
        ''trajectory requires exactly one final step in last position''),
      (\<not> set (tj_required_evidence c) \<subseteq> set (tj_available c), ''required evidence IDs must belong to the bound evidence pack''),
      (\<not> set (concat (map ts_evidence_ids (tj_steps c))) \<subseteq> set (tj_available c), ''trajectory steps reference evidence outside the bound task case''),
      (\<not> set (concat (map ts_claim_ids (tj_steps c))) \<subseteq> set (tj_required_claims c), ''trajectory steps reference claims outside the candidate response''),
      ((tj_status c = Abstained) \<noteq> (tj_required_claims c = [] \<and> tj_required_evidence c = []), ''trajectory response bindings do not match response status''),
      (fl (tj_latency_ms c + fl (1 / 10 ^ 9)) < aa_sum A (map ts_duration_ms (tj_steps c)), ''trajectory step durations cannot exceed candidate case latency'')] c"

definition agent_trajectory_batch_sha256 :: "('a) trajectory_api_scheme \<Rightarrow> trajectory_batch \<Rightarrow> string" where
  "agent_trajectory_batch_sha256 A b = canonical_sha256 A (ta_dump_batch A (b\<lparr>tb_id := [], tb_sha256 := []\<rparr>))"

definition validate_trajectory_batch :: "('a) trajectory_api_scheme \<Rightarrow> trajectory_batch \<Rightarrow> trajectory_batch res" where
  "validate_trajectory_batch A b = raise_first
     [(\<not> (matches_hex ''trajectory-batch-'' 20 (tb_id b) \<and> matches_hex [] 64 (tb_sha256 b) \<and> matches_hex ''grounded-task-'' 20 (tb_task_id b)
        \<and> matches_hex [] 64 (tb_task_sha256 b) \<and> matches_hex ''grounded-batch-'' 20 (tb_batch_id b) \<and> matches_hex [] 64 (tb_batch_sha256 b)
        \<and> 1 \<le> tb_case_count b \<and> in_range 1 100 (length (tb_cases b))), ''AgentTrajectoryBatch fields''),
      (\<not> aware (tb_observed_at b), ''trajectory observed_at must be timezone-aware''),
      (tb_case_count b \<noteq> int (length (tb_cases b)), ''trajectory case_count must match cases''),
      (map tj_case_id (tb_cases b) \<noteq> sorted_set (map tj_case_id (tb_cases b)), ''trajectory cases must be unique and canonically ordered''),
      (tb_sha256 b \<noteq> agent_trajectory_batch_sha256 A b, ''trajectory batch SHA-256 must match its exact observations''),
      (tb_id b \<noteq> ''trajectory-batch-'' @ take 20 (agent_trajectory_batch_sha256 A b), ''trajectory batch ID must match its SHA-256'')] b"

section \<open>Importing traces\<close>

definition response_sha256 :: "('a) answer_api_scheme \<Rightarrow> response \<Rightarrow> string" where
  "response_sha256 A r = canonical_sha256 A (aa_dump_response A r)"

definition validate_task_batch :: "answer_task \<Rightarrow> answer_batch \<Rightarrow> unit res" where
  "validate_task_batch t b = raise_first
     [(ab_task_id b \<noteq> gt_task_id t \<or> ab_task_sha256 b \<noteq> gt_task_sha256 t, ''grounded-answer candidate batch does not match the exact task''),
      (map tc_case_id (gt_cases t) \<noteq> map kc_case_id (ab_cases b), ''grounded-answer candidate cases do not exactly cover the task'')] ()"

definition build_agent_trajectory_submission :: "answer_task \<Rightarrow> answer_batch \<Rightarrow> trace_submission res" where
  "build_agent_trajectory_submission t b = rbind (validate_task_batch t b) (\<lambda>_.
     rbind (rmap (\<lambda>c. validate_trace_case \<lparr>tr_case_id = tc_case_id c, tr_query_id = tc_query_id c, tr_steps = None, tr_capabilities = None\<rparr>)
       (gt_cases t)) (\<lambda>cases.
     validate_trace_submission \<lparr>tu_task_id = gt_task_id t, tu_task_sha256 = gt_task_sha256 t, tu_batch_id = ab_batch_id b,
       tu_batch_sha256 = ab_batch_sha256 b, tu_cases = cases\<rparr>))"

definition required_evidence :: "response \<Rightarrow> string list" where
  "required_evidence r = sorted_set (concat (map cl_evidence_ids (rp_claims r)))"

definition trajectory_case_of ::
  "('a) review_api_scheme \<Rightarrow> task_case \<Rightarrow> candidate_case \<Rightarrow> trajectory_step list \<Rightarrow> capabilities \<Rightarrow> trajectory_case res" where
  "trajectory_case_of A t c steps caps = validate_trajectory_case A
     \<lparr>tj_case_id = tc_case_id t, tj_query_id = tc_query_id t, tj_pack_id = tc_pack_id t, tj_response_sha256 = response_sha256 A (kc_response c),
      tj_status = rp_status (kc_response c), tj_available = sort (map ge_evidence_id (tc_evidence t)),
      tj_required_evidence = required_evidence (kc_response c), tj_required_claims = sort (map cl_claim_id (rp_claims (kc_response c))),
      tj_steps = steps, tj_capabilities = caps, tj_input_tokens = kc_input_tokens c, tj_output_tokens = kc_output_tokens c,
      tj_latency_ms = kc_latency_ms c\<rparr>"

definition import_trace :: "('a) review_api_scheme \<Rightarrow> (string \<rightharpoonup> task_case) \<Rightarrow> (string \<rightharpoonup> candidate_case) \<Rightarrow> (string \<rightharpoonup> trace_case)
    \<Rightarrow> string \<Rightarrow> trajectory_case res" where
  "import_trace A tasks candidates rows k = (case (tasks k, candidates k, rows k) of
     (Some t, Some c, Some row) \<Rightarrow>
       if tr_query_id row \<noteq> tc_query_id t \<or> tr_query_id row \<noteq> kc_query_id c
       then Inl (ValueError (''trajectory submission changed protected query ID for '' @ k))
       else (case (tr_steps row, tr_capabilities row) of
           (Some steps, Some caps) \<Rightarrow> trajectory_case_of A t c steps caps
         | _ \<Rightarrow> Inl (ValueError (''trajectory submission case is incomplete: '' @ k)))
   | _ \<Rightarrow> Inl (KeyError k))"

definition trajectory_batch_of :: "('a) trajectory_api_scheme \<Rightarrow> answer_task \<Rightarrow> answer_batch \<Rightarrow> datetime \<Rightarrow> trajectory_case list \<Rightarrow> trajectory_batch" where
  "trajectory_batch_of A t b stamp cases = (let draft = \<lparr>tb_id = [], tb_sha256 = [], tb_task_id = gt_task_id t, tb_task_sha256 = gt_task_sha256 t,
       tb_batch_id = ab_batch_id b, tb_batch_sha256 = ab_batch_sha256 b, tb_observed_at = utc (dt_us stamp), tb_system = ab_system b,
       tb_case_count = int (length cases), tb_cases = cases\<rparr>;
     digest = agent_trajectory_batch_sha256 A draft in
     draft\<lparr>tb_id := ''trajectory-batch-'' @ take 20 digest, tb_sha256 := digest\<rparr>)"

definition apply_agent_trajectory_submission ::
  "('a) trajectory_api_scheme \<Rightarrow> answer_task \<Rightarrow> answer_batch \<Rightarrow> trace_submission \<Rightarrow> datetime option \<Rightarrow> datetime \<Rightarrow> trajectory_batch res" where
  "apply_agent_trajectory_submission A t b s observed now = rbind (validate_task_batch t b) (\<lambda>_.
     if tu_task_id s \<noteq> gt_task_id t \<or> tu_task_sha256 s \<noteq> gt_task_sha256 t \<or> tu_batch_id s \<noteq> ab_batch_id b \<or> tu_batch_sha256 s \<noteq> ab_batch_sha256 b
     then Inl (ValueError ''trajectory submission does not match the exact task and candidate batch'')
     else if set (map tr_case_id (tu_cases s)) \<noteq> set (map tc_case_id (gt_cases t))
     then Inl (ValueError ''trajectory submission cases do not exactly cover the task'')
     else rbind (rmap (import_trace A (dict_by tc_case_id (gt_cases t)) (dict_by kc_case_id (ab_cases b)) (dict_by tr_case_id (tu_cases s)))
         (sorted_set (map tc_case_id (gt_cases t)))) (\<lambda>cases.
       let stamp = (case observed of Some g \<Rightarrow> g | None \<Rightarrow> now) in
       if \<not> aware stamp then Inl (ValueError ''trajectory observed_at must be timezone-aware'')
       else validate_trajectory_batch A (trajectory_batch_of A t b stamp cases)))"

section \<open>Scores\<close>

record trace_outcome =
  to_case_id :: string
  to_query_id :: string
  to_status :: response_status
  to_step_count :: int
  to_inspected :: int
  to_required :: int
  to_traced :: int
  to_claims :: int
  to_evidence_rate :: rat
  to_claim_rate :: rat
  to_compliant :: bool
  to_terminated :: bool
  to_strict :: bool
  to_grounded :: bool
  to_end_to_end :: bool
  to_input_tokens :: int
  to_output_tokens :: int
  to_latency_ms :: rat

record trace_summary =
  tm_case_count :: int
  tm_answered_count :: int
  tm_abstained_count :: int
  tm_compliance_rate :: rat
  tm_termination_rate :: rat
  tm_evidence_rate :: rat
  tm_claim_rate :: rat
  tm_strict_rate :: rat
  tm_grounded_rate :: rat
  tm_end_to_end_rate :: rat
  tm_mean_steps :: rat
  tm_p95_steps :: rat
  tm_mean_input_tokens :: rat
  tm_mean_output_tokens :: rat
  tm_mean_latency_ms :: rat
  tm_p95_latency_ms :: rat

record score_report =
  tp_report_id :: string
  tp_report_sha256 :: string
  tp_generated_at :: datetime
  tp_benchmark_id :: string
  tp_captured_at :: datetime
  tp_task_id :: string
  tp_task_sha256 :: string
  tp_batch_id :: string
  tp_batch_sha256 :: string
  tp_grounded_id :: string
  tp_grounded_sha256 :: string
  tp_trajectory_id :: string
  tp_trajectory_sha256 :: string
  tp_system :: candidate_system
  tp_case_count :: int
  tp_overall :: trace_summary
  tp_slices :: "(string \<times> trace_summary) list"
  tp_outcomes :: "trace_outcome list"

record score_api = trajectory_api +
  sa_dump_score :: "score_report \<Rightarrow> json"

definition validate_trace_outcome :: "trace_outcome \<Rightarrow> trace_outcome res" where
  "validate_trace_outcome c =
     (let evidence = (if to_required c = 0 then 1 else fl (of_int (to_inspected c) / of_int (to_required c)));
        claims = (if to_claims c = 0 then (if to_terminated c then 1 else 0) else fl (of_int (to_traced c) / of_int (to_claims c))) in raise_first
     [(\<not> (matches_hex ''answer-case-'' 20 (to_case_id c) \<and> slug (to_query_id c) \<and> in_range 1 64 (to_step_count c) \<and> 0 \<le> to_inspected c
        \<and> 0 \<le> to_required c \<and> 0 \<le> to_traced c \<and> 0 \<le> to_claims c \<and> in_range 0 1 (to_evidence_rate c) \<and> in_range 0 1 (to_claim_rate c)
        \<and> 1 \<le> to_input_tokens c \<and> 1 \<le> to_output_tokens c \<and> 0 \<le> to_latency_ms c), ''AgentTrajectoryCaseOutcome fields''),
      (to_required c < to_inspected c, ''inspected required evidence cannot exceed required evidence''),
      (to_claims c < to_traced c, ''traced claims cannot exceed required claims''),
      (fl (1 / 10 ^ 12) < \<bar>fl (to_evidence_rate c - evidence)\<bar>, ''evidence inspection rate must match its counts''),
      (fl (1 / 10 ^ 12) < \<bar>fl (to_claim_rate c - claims)\<bar>, ''claim trace rate must match its counts''),
      (to_strict c \<noteq> (to_compliant c \<and> to_terminated c \<and> to_evidence_rate c = 1 \<and> to_claim_rate c = 1),
        ''strict trajectory pass must match its component checks''),
      (to_end_to_end c \<noteq> (to_strict c \<and> to_grounded c), ''end-to-end pass must combine trajectory and grounded strict pass'')] c)"

definition validate_trace_summary :: "trace_summary \<Rightarrow> trace_summary res" where
  "validate_trace_summary m = raise_first
     [(\<not> (1 \<le> tm_case_count m \<and> 0 \<le> tm_answered_count m \<and> 0 \<le> tm_abstained_count m
        \<and> list_all (in_range 0 1) [tm_compliance_rate m, tm_termination_rate m, tm_evidence_rate m, tm_claim_rate m, tm_strict_rate m,
             tm_grounded_rate m, tm_end_to_end_rate m]
        \<and> in_range 1 64 (tm_mean_steps m) \<and> in_range 1 64 (tm_p95_steps m) \<and> 1 \<le> tm_mean_input_tokens m \<and> 1 \<le> tm_mean_output_tokens m
        \<and> 0 \<le> tm_mean_latency_ms m \<and> 0 \<le> tm_p95_latency_ms m), ''AgentTrajectoryMetricSummary fields''),
      (tm_answered_count m + tm_abstained_count m \<noteq> tm_case_count m, ''trajectory response counts must cover every case''),
      (tm_case_count m = 1 \<and> tm_p95_steps m < tm_mean_steps m, ''single-case step mean and p95 must agree'')] m"

definition trajectory_percentile :: "rat list \<Rightarrow> rat \<Rightarrow> rat" where
  "trajectory_percentile xs fraction = percentile xs fraction"

text \<open>The share of outcomes with a property, and the mean of their integers.\<close>

definition share :: "('a \<Rightarrow> bool) \<Rightarrow> 'a list \<Rightarrow> rat" where
  "share p xs = fl (of_nat (count_where p xs) / of_nat (length xs))"

definition mean_int :: "('a \<Rightarrow> int) \<Rightarrow> 'a list \<Rightarrow> rat" where
  "mean_int f xs = fl (of_int (sum_list (map f xs)) / of_nat (length xs))"

definition trace_summary_of :: "('a) review_api_scheme \<Rightarrow> trace_outcome list \<Rightarrow> trace_summary res" where
  "trace_summary_of A os = (if os = [] then Inl (ValueError ''cannot summarize an empty trajectory slice'')
     else let answered = count_where (\<lambda>c. to_status c = Answered) os; n = length os in
       validate_trace_summary \<lparr>tm_case_count = int n, tm_answered_count = int answered, tm_abstained_count = int n - int answered,
         tm_compliance_rate = share to_compliant os, tm_termination_rate = share to_terminated os,
         tm_evidence_rate = fl (aa_sum A (map to_evidence_rate os) / of_nat n), tm_claim_rate = fl (aa_sum A (map to_claim_rate os) / of_nat n),
         tm_strict_rate = share to_strict os, tm_grounded_rate = share to_grounded os, tm_end_to_end_rate = share to_end_to_end os,
         tm_mean_steps = mean_int to_step_count os,
         tm_p95_steps = trajectory_percentile (map (\<lambda>c. of_int (to_step_count c)) os) (fl (95 / 100)),
         tm_mean_input_tokens = mean_int to_input_tokens os, tm_mean_output_tokens = mean_int to_output_tokens os,
         tm_mean_latency_ms = fl (aa_sum A (map to_latency_ms os) / of_nat n),
         tm_p95_latency_ms = trajectory_percentile (map to_latency_ms os) (fl (95 / 100))\<rparr>)"

definition agent_trajectory_report_sha256 :: "('a) score_api_scheme \<Rightarrow> score_report \<Rightarrow> string" where
  "agent_trajectory_report_sha256 A r = canonical_sha256 A (sa_dump_score A (r\<lparr>tp_report_id := [], tp_report_sha256 := []\<rparr>))"

definition validate_score :: "('a) score_api_scheme \<Rightarrow> score_report \<Rightarrow> score_report res" where
  "validate_score A r = rbind (raise_first
     [(\<not> (matches_hex ''trajectory-report-'' 20 (tp_report_id r) \<and> matches_hex [] 64 (tp_report_sha256 r) \<and> name_id (tp_benchmark_id r)
        \<and> matches_hex ''grounded-task-'' 20 (tp_task_id r) \<and> matches_hex [] 64 (tp_task_sha256 r)
        \<and> matches_hex ''grounded-batch-'' 20 (tp_batch_id r) \<and> matches_hex [] 64 (tp_batch_sha256 r)
        \<and> matches_hex ''grounded-report-'' 20 (tp_grounded_id r) \<and> matches_hex [] 64 (tp_grounded_sha256 r)
        \<and> matches_hex ''trajectory-batch-'' 20 (tp_trajectory_id r) \<and> matches_hex [] 64 (tp_trajectory_sha256 r)
        \<and> 1 \<le> tp_case_count r \<and> tp_outcomes r \<noteq> []), ''AgentTrajectoryScoreReport fields''),
      (\<not> aware (tp_generated_at r), ''trajectory report generated_at must be timezone-aware''),
      (\<not> aware (tp_captured_at r), ''trajectory report captured_at must be timezone-aware''),
      (tp_case_count r \<noteq> int (length (tp_outcomes r)) \<or> tp_case_count r \<noteq> tm_case_count (tp_overall r), ''trajectory report case counts must agree''),
      (map to_case_id (tp_outcomes r) \<noteq> sorted_set (map to_case_id (tp_outcomes r)), ''trajectory report outcomes must be unique and ordered''),
      (\<not> sorted (map fst (tp_slices r)), ''trajectory report slices must use canonical order''),
      (\<not> list_all (\<lambda>s. fst s \<noteq> [] \<and> fst s = aa_casefold A (py_strip (fst s))) (tp_slices r), ''trajectory report slice names must be normalized'')] r) (\<lambda>_.
     rbind (trace_summary_of A (tp_outcomes r)) (\<lambda>overall. raise_first
       [(tp_overall r \<noteq> overall, ''trajectory overall summary must match exact case outcomes''),
        (tp_report_sha256 r \<noteq> agent_trajectory_report_sha256 A r, ''trajectory report SHA-256 must match exact measurements''),
        (tp_report_id r \<noteq> ''trajectory-report-'' @ take 20 (agent_trajectory_report_sha256 A r), ''trajectory report ID must match its SHA-256'')] r))"

text \<open>The outcome of one trace.\<close>

definition inspected :: "trajectory_step list \<Rightarrow> string set" where
  "inspected steps = set (concat (map ts_evidence_ids (filter (\<lambda>s. ts_action s = InspectEvidence) steps)))"

definition drafts :: "trajectory_step list \<Rightarrow> (string \<rightharpoonup> string list)" where
  "drafts steps = map_of (rev (map (\<lambda>s. (hd (ts_claim_ids s), ts_evidence_ids s)) (filter (\<lambda>s. ts_action s = DraftClaim) steps)))"

definition expected_claims :: "response \<Rightarrow> (string \<rightharpoonup> string list)" where
  "expected_claims r = map_of (rev (map (\<lambda>c. (cl_claim_id c, cl_evidence_ids c)) (rp_claims r)))"

definition terminates :: "trajectory_case \<Rightarrow> bool" where
  "terminates c = (let abstains = list_ex (\<lambda>s. ts_action s = ChooseAbstention) (tj_steps c);
       drafted = list_ex (\<lambda>s. ts_action s = DraftClaim) (tj_steps c) in
     if tj_status c = Answered then drafted \<and> \<not> abstains else abstains \<and> \<not> drafted)"

definition compliant :: "capabilities \<Rightarrow> bool" where
  "compliant c \<longleftrightarrow> \<not> (ca_network c \<or> ca_tools c \<or> ca_side_effects c)"

definition trajectory_outcome :: "response \<Rightarrow> bool \<Rightarrow> trajectory_case \<Rightarrow> trace_outcome res" where
  "trajectory_outcome r grounded c =
     (let required = remdups (tj_required_evidence c); found = filter (\<lambda>e. e \<in> inspected (tj_steps c)) required;
        claims = dict_keys (map cl_claim_id (rp_claims r));
        traced = count_where (\<lambda>k. drafts (tj_steps c) k = expected_claims r k) claims;
        evidence_rate = (if required = [] then 1 else fl (of_nat (length found) / of_nat (length required)));
        claim_rate = (if claims = [] then (if terminates c then 1 else 0) else fl (of_nat traced / of_nat (length claims)));
        strict = (compliant (tj_capabilities c) \<and> terminates c \<and> evidence_rate = 1 \<and> claim_rate = 1) in
      validate_trace_outcome \<lparr>to_case_id = tj_case_id c, to_query_id = tj_query_id c, to_status = tj_status c,
        to_step_count = int (length (tj_steps c)), to_inspected = int (length found), to_required = int (length required),
        to_traced = int traced, to_claims = int (length claims), to_evidence_rate = evidence_rate, to_claim_rate = claim_rate,
        to_compliant = compliant (tj_capabilities c), to_terminated = terminates c, to_strict = strict, to_grounded = grounded,
        to_end_to_end = (strict \<and> grounded), to_input_tokens = tj_input_tokens c, to_output_tokens = tj_output_tokens c,
        to_latency_ms = tj_latency_ms c\<rparr>)"

text \<open>Each trace is bound to the same task case, answer and reviewed outcome.\<close>

definition case_bound :: "('a) answer_api_scheme \<Rightarrow> answer_batch \<Rightarrow> task_case \<Rightarrow> candidate_case \<Rightarrow> trajectory_case \<Rightarrow> case_outcome \<Rightarrow> bool" where
  "case_bound A b t c j g \<longleftrightarrow> tj_query_id j = tc_query_id t \<and> tj_query_id j = kc_query_id c \<and> co_query_id g = tc_query_id t \<and> tj_pack_id j = tc_pack_id t
     \<and> (case List.find (\<lambda>k. kc_case_id k = tc_case_id t) (ab_cases b) of None \<Rightarrow> False | Some k \<Rightarrow> tj_response_sha256 j = response_sha256 A (kc_response k))
     \<and> tj_status j = rp_status (kc_response c) \<and> co_response_status g = rp_status (kc_response c)
     \<and> tj_available j = sort (map ge_evidence_id (tc_evidence t)) \<and> tj_required_evidence j = required_evidence (kc_response c)
     \<and> tj_required_claims j = sort (map cl_claim_id (rp_claims (kc_response c))) \<and> tj_input_tokens j = kc_input_tokens c
     \<and> tj_output_tokens j = kc_output_tokens c \<and> tj_latency_ms j = kc_latency_ms c"

definition validate_case_bindings ::
  "('a) answer_api_scheme \<Rightarrow> answer_task \<Rightarrow> answer_batch \<Rightarrow> trajectory_batch \<Rightarrow> evaluation_report \<Rightarrow> unit res" where
  "validate_case_bindings A t b j g = (let ids = set (map tc_case_id (gt_cases t)); tasks = dict_by tc_case_id (gt_cases t);
       candidates = dict_by kc_case_id (ab_cases b); traces = dict_by tj_case_id (tb_cases j); outcomes = dict_by co_case_id (er_outcomes g) in raise_first
     [(set (map kc_case_id (ab_cases b)) \<noteq> ids \<or> set (map tj_case_id (tb_cases j)) \<noteq> ids \<or> set (map co_case_id (er_outcomes g)) \<noteq> ids,
        ''trajectory inputs do not cover the exact same cases''),
      (\<not> list_all (\<lambda>k. case_bound A b (the (tasks k)) (the (candidates k)) (the (traces k)) (the (outcomes k)))
         (sorted_set (map tc_case_id (gt_cases t))), ''trajectory case does not match protected task and candidate fields'')] ())"

definition score_of :: "('a) score_api_scheme \<Rightarrow> answer_task \<Rightarrow> answer_batch \<Rightarrow> evaluation_report \<Rightarrow> trajectory_batch \<Rightarrow> datetime
    \<Rightarrow> trace_summary \<Rightarrow> (string \<times> trace_summary) list \<Rightarrow> trace_outcome list \<Rightarrow> score_report" where
  "score_of A t b g j stamp overall slices outcomes = (let draft = \<lparr>tp_report_id = [], tp_report_sha256 = [], tp_generated_at = utc (dt_us stamp),
       tp_benchmark_id = gt_benchmark_id t, tp_captured_at = gt_captured_at t, tp_task_id = gt_task_id t, tp_task_sha256 = gt_task_sha256 t,
       tp_batch_id = ab_batch_id b, tp_batch_sha256 = ab_batch_sha256 b, tp_grounded_id = er_report_id g, tp_grounded_sha256 = er_report_sha256 g,
       tp_trajectory_id = tb_id j, tp_trajectory_sha256 = tb_sha256 j, tp_system = ab_system b, tp_case_count = int (length outcomes),
       tp_overall = overall, tp_slices = slices, tp_outcomes = outcomes\<rparr>;
     digest = agent_trajectory_report_sha256 A draft in
     draft\<lparr>tp_report_id := ''trajectory-report-'' @ take 20 digest, tp_report_sha256 := digest\<rparr>)"

definition score_agent_trajectory ::
  "('a) score_api_scheme \<Rightarrow> answer_task \<Rightarrow> answer_batch \<Rightarrow> evaluation_report \<Rightarrow> trajectory_batch \<Rightarrow> datetime option \<Rightarrow> datetime \<Rightarrow> score_report res" where
  "score_agent_trajectory A t b g j generated now = rbind (raise_first
     [(er_adjudication g = None, ''trajectory scoring requires independently adjudicated grounded review''),
      (ab_task_id b \<noteq> gt_task_id t \<or> ab_task_sha256 b \<noteq> gt_task_sha256 t \<or> er_task_id g \<noteq> gt_task_id t \<or> er_task_sha256 g \<noteq> gt_task_sha256 t
        \<or> er_batch_id g \<noteq> ab_batch_id b \<or> er_batch_sha256 g \<noteq> ab_batch_sha256 b \<or> tb_task_id j \<noteq> gt_task_id t \<or> tb_task_sha256 j \<noteq> gt_task_sha256 t
        \<or> tb_batch_id j \<noteq> ab_batch_id b \<or> tb_batch_sha256 j \<noteq> ab_batch_sha256 b, ''trajectory inputs do not share the exact task and candidate batch''),
      (\<not> (same_system (ab_system b) (er_system g) \<and> same_system (er_system g) (tb_system j)),
        ''trajectory inputs do not share one immutable candidate identity'')] ()) (\<lambda>_.
     rbind (validate_case_bindings A t b j g) (\<lambda>_.
     rbind (rmap (\<lambda>k. trajectory_outcome (kc_response (the (dict_by kc_case_id (ab_cases b) k)))
         (co_strict_pass (the (dict_by co_case_id (er_outcomes g) k))) (the (dict_by tj_case_id (tb_cases j) k)))
       (sorted_set (map tc_case_id (gt_cases t)))) (\<lambda>outcomes.
     rbind (rmap (\<lambda>name. rbind (trace_summary_of A (filter (\<lambda>c. list_ex (\<lambda>k. tc_case_id k = to_case_id c \<and> name \<in> set (tc_slices k)) (gt_cases t)) outcomes))
         (\<lambda>m. Inr (name, m))) (sorted_set (concat (map tc_slices (gt_cases t))))) (\<lambda>slices.
       let stamp = (case generated of Some v \<Rightarrow> v | None \<Rightarrow> now) in
       if \<not> aware stamp then Inl (ValueError ''trajectory report generated_at must be timezone-aware'')
       else rbind (trace_summary_of A outcomes) (\<lambda>overall. validate_score A (score_of A t b g j stamp overall slices outcomes))))))"

section \<open>Percentiles of step counts\<close>

text \<open>Rounding is exact on powers of two, so the weights of a percentile still sum to 1.\<close>

lemma ilog2_unique:
  assumes "2 powi e \<le> x" and "x < 2 powi (e + 1)"
  shows "ilog2 x = e"
proof -
  have pos: "0 < x" using assms(1) by (rule less_le_trans [rotated]) simp
  note b = ilog2_bounds [OF pos]
  have "ilog2 x < e + 1" by (rule ccontr) (use assms(2) b(1) power_int_increasing [of "e + 1" "ilog2 x" "2 :: rat"] in linarith)
  moreover have "e < ilog2 x + 1" by (rule ccontr) (use assms(1) b(2) power_int_increasing [of "ilog2 x + 1" e "2 :: rat"] in linarith)
  ultimately show ?thesis by linarith
qed

lemma fl_scale: "0 \<le> x \<Longrightarrow> fl (64 * x) = 64 * fl x"
proof (cases "x = 0")
  case False
  assume "0 \<le> x"
  with False have x: "0 < x" by simp
  have "ilog2 (64 * x) = ilog2 x + 6"
    using ilog2_bounds [OF x] by (intro ilog2_unique) (simp_all add: power_int_add)
  then have "ulp (64 * x) = 64 * ulp x" using x by (simp add: ulp_def power_int_add power_int_diff)
  then show ?thesis using x by (simp add: fl_def)
qed simp

lemma fl_error: "0 < x \<Longrightarrow> \<bar>fl x - x\<bar> \<le> ulp x / 2"
proof -
  assume x: "0 < x"
  have "\<bar>of_int (round_half_even (x / ulp x)) - x / ulp x\<bar> * ulp x \<le> 1 / 2 * ulp x"
    by (rule mult_right_mono [OF round_half_even_error]) (simp add: less_imp_le)
  moreover have "\<bar>of_int (round_half_even (x / ulp x)) - x / ulp x\<bar> * ulp x = \<bar>fl x - x\<bar>"
  proof -
    have u: "0 < ulp x" by simp
    have "\<bar>of_int (round_half_even (x / ulp x)) - x / ulp x\<bar> * ulp x = \<bar>(of_int (round_half_even (x / ulp x)) - x / ulp x) * ulp x\<bar>"
      using u by (simp only: abs_mult abs_of_pos)
    also have "(of_int (round_half_even (x / ulp x)) - x / ulp x) * ulp x = fl x - x"
      using x u less_imp_neq [OF u] by (simp add: fl_def left_diff_distrib)
    finally show ?thesis .
  qed
  ultimately show ?thesis by simp
qed

lemma fl_unit_error: "0 \<le> x \<Longrightarrow> x \<le> 1 \<Longrightarrow> \<bar>fl x - x\<bar> \<le> 1 / 2 ^ 54"
proof (cases "x = 0 \<or> x = 1")
  case False
  assume "0 \<le> x" "x \<le> 1"
  with False have x: "0 < x" "x < 1" by auto
  have "ilog2 x < 0"
  proof (rule ccontr)
    assume "\<not> ilog2 x < 0"
    then have "(2 :: rat) powi 0 \<le> 2 powi ilog2 x" by (intro power_int_increasing) auto
    with ilog2_bounds(1) [OF x(1)] x(2) show False by simp
  qed
  then have "(2 :: rat) powi (ilog2 x - 52) \<le> 2 powi (- 53)" by (intro power_int_increasing) auto
  then have "ulp x \<le> 2 powi (- 53)" unfolding ulp_def using x by (simp only: abs_of_pos)
  with fl_error [OF x(1)] have "\<bar>fl x - x\<bar> \<le> 2 powi (- 53) / 2" by linarith
  moreover have "(2 :: rat) powi (- 53) / 2 = 1 / 2 ^ 54" by (simp add: power_int_def power_divide)
  ultimately show ?thesis by simp
qed auto

lemma weights_sum: "0 \<le> w \<Longrightarrow> w \<le> 1 \<Longrightarrow> fl (fl (1 - w) + w) = 1"
proof -
  assume w: "0 \<le> w" "w \<le> 1"
  have e: "\<bar>fl (1 - w) - (1 - w)\<bar> \<le> 1 / 2 ^ 54" using w by (intro fl_unit_error) simp_all
  then have "1 - 1 / 2 ^ 54 \<le> fl (1 - w) + w" "fl (1 - w) + w \<le> 1 + 1 / 2 ^ 54" by linarith+
  then have "fl (1 - 1 / 2 ^ 54) \<le> fl (fl (1 - w) + w)" "fl (fl (1 - w) + w) \<le> fl (1 + 1 / 2 ^ 54)" by (simp_all only: fl_mono)
  moreover have "fl (1 - 1 / 2 ^ 54) = 1" "fl (1 + 1 / 2 ^ 54) = 1" by code_simp+
  ultimately show ?thesis by simp
qed

text \<open>A percentile of values in 1..64 stays there.\<close>

lemma percentile_steps:
  assumes xs: "xs \<noteq> []" "length xs \<le> 2 ^ 53" "list_all (in_range 1 64) xs" and q: "0 \<le> q" "q \<le> 1"
  shows "in_range 1 64 (percentile xs q)"
proof -
  let ?p = "fl (of_nat (length xs - 1) * q)"
  let ?l = "nat \<lfloor>?p\<rfloor>" and ?u = "min (nat \<lfloor>?p\<rfloor> + 1) (length xs - 1)"
  define w where "w = fl (?p - of_nat ?l)"
  have nn: "in_range 1 64 (sort xs ! i)" if "i < length xs" for i
    using that xs(3) nth_mem [of i "sort xs"] by (simp add: list_all_iff)
  have "0 \<le> ?p" using q by (intro fl_nonneg) simp
  then have "of_nat ?l \<le> ?p" "?p - of_nat ?l \<le> 1" by (simp_all add: of_nat_nat, linarith)
  then have w: "0 \<le> w" "w \<le> 1" using fl_in_range [of "?p - of_nat ?l" 1] by (simp_all add: in_range_def w_def)
  have v: "0 \<le> fl (1 - w)" "fl (fl (1 - w)) = fl (1 - w)" "fl w = w" using w by (simp_all add: fl_nonneg, simp add: w_def)
  define a b where "a = sort xs ! ?l" and "b = sort xs ! ?u"
  have "in_range 1 64 a" unfolding a_def by (rule nn [OF percentile_index [OF xs(1,2) q]])
  moreover have "in_range 1 64 b" unfolding b_def using xs(1) by (intro nn) (simp add: min_less_iff_disj)
  ultimately have ab: "1 \<le> a" "a \<le> 64" "1 \<le> b" "b \<le> 64" by (simp_all add: in_range_def)
  have "fl (1 * fl (1 - w)) \<le> fl (a * fl (1 - w))" "fl (1 * w) \<le> fl (b * w)"
    using ab v(1) w(1) by (intro fl_mono mult_right_mono; simp)+
  then have "fl (1 - w) + w \<le> fl (a * fl (1 - w)) + fl (b * w)" using v by simp
  then have lower: "1 \<le> fl (fl (a * fl (1 - w)) + fl (b * w))" using fl_mono weights_sum [OF w] by metis
  have "fl (a * fl (1 - w)) \<le> fl (64 * fl (1 - w))" "fl (b * w) \<le> fl (64 * w)"
    using ab v(1) w(1) by (intro fl_mono mult_right_mono; simp)+
  then have "fl (a * fl (1 - w)) + fl (b * w) \<le> 64 * (fl (1 - w) + w)"
    using fl_scale [OF v(1)] fl_scale [OF w(1)] v by (simp add: algebra_simps)
  then have "fl (fl (a * fl (1 - w)) + fl (b * w)) \<le> 64 * fl (fl (1 - w) + w)"
    using fl_mono fl_scale [of "fl (1 - w) + w"] v(1) w(1) by (metis add_nonneg_nonneg)
  then have upper: "fl (fl (a * fl (1 - w)) + fl (b * w)) \<le> 64" using weights_sum [OF w] by simp
  have "percentile xs q = fl (fl (a * fl (1 - w)) + fl (b * w))"
    by (simp only: percentile_def Let_def length_sort a_def b_def w_def)
  then show ?thesis using lower upper by (simp add: in_range_def)
qed

lemma percentile_single: "is_float x \<Longrightarrow> percentile [x] q = x"
  by (simp add: percentile_def Let_def is_float_def)

section \<open>Outcomes and summaries keep their contracts\<close>

text \<open>What a strict pass means: no capability used, the right ending, all evidence of the answer inspected and each
of its claims last drafted from exactly its evidence.\<close>

definition trace_complete :: "response \<Rightarrow> trajectory_case \<Rightarrow> bool" where
  "trace_complete r c \<longleftrightarrow> compliant (tj_capabilities c) \<and> terminates c \<and> set (tj_required_evidence c) \<subseteq> inspected (tj_steps c)
     \<and> list_all (\<lambda>k. drafts (tj_steps c) (cl_claim_id k) = Some (cl_evidence_ids k)) (rp_claims r)"

lemma claims_distinct: "response_ok A r \<Longrightarrow> distinct (map cl_claim_id (rp_claims r)) \<and> length (rp_claims r) \<le> 8"
proof (cases "rp_status r")
  case Answered
  assume "response_ok A r"
  from answered_claims [OF this Answered] claim_ids(1) show ?thesis by metis
next
  case Abstained
  assume "response_ok A r"
  then have "rp_claims r = []" using Abstained by (simp add: abstained_response)
  then show ?thesis by simp
qed

lemma expected_claim: "distinct (map cl_claim_id (rp_claims r)) \<Longrightarrow> k \<in> set (rp_claims r) \<Longrightarrow> expected_claims r (cl_claim_id k) = Some (cl_evidence_ids k)"
proof -
  assume d: "distinct (map cl_claim_id (rp_claims r))" and k: "k \<in> set (rp_claims r)"
  have "distinct (map fst (rev (map (\<lambda>c. (cl_claim_id c, cl_evidence_ids c)) (rp_claims r))))"
    using d by (simp add: rev_map [symmetric] comp_def)
  then show ?thesis using k by (simp add: expected_claims_def)
qed

lemma evidence_bound:
  assumes "response_ok A r"
  shows "length (required_evidence r) \<le> 32"
proof -
  have "length (concat (map cl_evidence_ids cs)) \<le> 4 * length cs" if "list_all (\<lambda>c. validate_claim c = Inr c) cs" for cs
    using that by (induction cs) (auto simp: validate_claim_def Let_def guard_simps in_range_def)
  then have "length (concat (map cl_evidence_ids (rp_claims r))) \<le> 4 * length (rp_claims r)" using assms by (simp add: response_ok_def)
  also have "\<dots> \<le> 32" using claims_distinct [OF assms] by simp
  finally show ?thesis using length_remdups_leq [of "sort (concat (map cl_evidence_ids (rp_claims r)))"]
    by (simp add: required_evidence_def sorted_set_def)
qed

lemma tolerance: "\<not> fl (1 / 10 ^ 12) < 0"
  using fl_nonneg [of "1 / 10 ^ 12"] by simp

definition rate_from :: "nat \<Rightarrow> nat \<Rightarrow> bool \<Rightarrow> rat" where
  "rate_from n d b = (if d = 0 then (if b then 1 else 0) else fl (of_nat n / of_nat d))"

lemma rate_from_range: "n \<le> d \<Longrightarrow> in_range 0 1 (rate_from n d b)"
  using rate_range [of n d] by (cases "d = 0") (simp_all add: rate_from_def rate_def in_range_def)

lemma rate_from_int:
  "(if int d = 0 then 1 else fl (of_int (int n) / of_int (int d))) = rate_from n d True"
  "(if int d = 0 then (if b then 1 else 0) else fl (of_int (int n) / of_int (int d))) = rate_from n d b"
  by (simp_all add: rate_from_def)

lemma rate_from_one: "n \<le> d \<Longrightarrow> d \<le> 100 \<Longrightarrow> rate_from n d b = 1 \<longleftrightarrow> (if d = 0 then b else n = d)"
  using rate_one [of n d] by (simp add: rate_from_def)

lemma trajectory_outcome_ok:
  assumes c: "validate_trajectory_case A c = Inr c" and r: "response_ok A r" and req: "tj_required_evidence c = required_evidence r"
  obtains res where "trajectory_outcome r grounded c = Inr res" "validate_trace_outcome res = Inr res" "to_case_id res = tj_case_id c"
    "to_status res = tj_status c" "to_strict res = trace_complete r c" "to_end_to_end res = (trace_complete r c \<and> grounded)"
    "to_grounded res = grounded"
proof -
  let ?req = "remdups (tj_required_evidence c)"
  let ?found = "filter (\<lambda>e. e \<in> inspected (tj_steps c)) ?req" and ?claims = "dict_keys (map cl_claim_id (rp_claims r))"
  let ?traced = "count_where (\<lambda>k. drafts (tj_steps c) k = expected_claims r k) ?claims"
  let ?er = "rate_from (length ?found) (length ?req) True" and ?cr = "rate_from ?traced (length ?claims) (terminates c)"
  note cd = claims_distinct [OF r]
  have claims: "set ?claims = cl_claim_id ` set (rp_claims r)" "length ?claims = length (rp_claims r)"
    using cd by (simp_all add: dict_keys_def distinct_remdups_id)
  have "length ?req \<le> 32" by (rule order_trans [OF length_remdups_leq]) (use evidence_bound [OF r] req in simp)
  then have len: "length ?found \<le> length ?req" "?traced \<le> length ?claims" "length ?req \<le> 100" "length ?claims \<le> 100"
    using claims(2) cd count_le [of _ ?claims] by simp_all
  have e1: "?er = 1 \<longleftrightarrow> set (tj_required_evidence c) \<subseteq> inspected (tj_steps c)"
  proof -
    have "length ?found = length ?req \<longleftrightarrow> list_all (\<lambda>e. e \<in> inspected (tj_steps c)) ?req"
      using count_all [of "\<lambda>e. e \<in> inspected (tj_steps c)" ?req] by (simp add: count_where_def)
    then show ?thesis using rate_from_one [OF len(1,3), of True] by (auto simp: list_all_iff)
  qed
  have c1: "?cr = 1 \<longleftrightarrow> (if rp_claims r = [] then terminates c else
      list_all (\<lambda>k. drafts (tj_steps c) (cl_claim_id k) = Some (cl_evidence_ids k)) (rp_claims r))"
  proof -
    have "?traced = length ?claims \<longleftrightarrow> list_all (\<lambda>k. drafts (tj_steps c) (cl_claim_id k) = Some (cl_evidence_ids k)) (rp_claims r)"
      unfolding count_all using expected_claim [OF conjunct1 [OF cd]] by (auto simp: list_all_iff claims(1))
    then show ?thesis using rate_from_one [OF len(2,4), of "terminates c"] claims(2) by auto
  qed
  have strict: "(compliant (tj_capabilities c) \<and> terminates c \<and> ?er = 1 \<and> ?cr = 1) = trace_complete r c"
    unfolding e1 c1 trace_complete_def by (cases "rp_claims r") auto
  let ?o = "\<lparr>to_case_id = tj_case_id c, to_query_id = tj_query_id c, to_status = tj_status c,
        to_step_count = int (length (tj_steps c)), to_inspected = int (length ?found), to_required = int (length ?req),
        to_traced = int ?traced, to_claims = int (length ?claims), to_evidence_rate = ?er, to_claim_rate = ?cr,
        to_compliant = compliant (tj_capabilities c), to_terminated = terminates c,
        to_strict = (compliant (tj_capabilities c) \<and> terminates c \<and> ?er = 1 \<and> ?cr = 1), to_grounded = grounded,
        to_end_to_end = ((compliant (tj_capabilities c) \<and> terminates c \<and> ?er = 1 \<and> ?cr = 1) \<and> grounded),
        to_input_tokens = tj_input_tokens c, to_output_tokens = tj_output_tokens c, to_latency_ms = tj_latency_ms c\<rparr>"
  have f: "matches_hex ''answer-case-'' 20 (tj_case_id c)" "slug (tj_query_id c)" "in_range 1 64 (length (tj_steps c))" "1 \<le> tj_input_tokens c"
    "1 \<le> tj_output_tokens c" "0 \<le> tj_latency_ms c"
    using c unfolding validate_trajectory_case_def guard_simps list.set ball_simps fst_conv not_not by blast+
  have "validate_trace_outcome ?o = Inr ?o"
    unfolding validate_trace_outcome_def Let_def trace_outcome.select_convs rate_from_int guard_simps
    using f rate_from_range [OF len(1)] rate_from_range [OF len(2)] leD [OF len(1)] len(2) tolerance by (simp add: in_range_def)
  moreover have "trajectory_outcome r grounded c = validate_trace_outcome ?o"
    by (simp add: trajectory_outcome_def Let_def rate_from_def)
  ultimately show ?thesis using that [of ?o] strict by simp
qed

text \<open>What is used of the sum of rates: it stays between 0 and their number.\<close>

definition rates_law :: "('a) review_api_scheme \<Rightarrow> bool" where
  "rates_law A \<longleftrightarrow> (\<forall>xs. list_all (in_range 0 1) xs \<longrightarrow> in_range 0 (of_nat (length xs)) (aa_sum A xs))"

lemma share_range: "xs \<noteq> [] \<Longrightarrow> in_range 0 1 (share p xs)"
  using fl_in_range [of "of_nat (count_where p xs) / of_nat (length xs)" 1] count_le [of p xs]
  by (simp add: share_def divide_le_eq)

lemma mean_int_range:
  assumes "xs \<noteq> []" and "\<And>x. x \<in> set xs \<Longrightarrow> int lo \<le> f x \<and> f x \<le> int hi" and "lo \<le> 2 ^ 53" "hi \<le> 2 ^ 53"
  shows "in_range (of_nat lo) (of_nat hi) (mean_int f xs)"
proof -
  have "int lo * int (length ys) \<le> sum_list (map f ys) \<and> sum_list (map f ys) \<le> int hi * int (length ys)" if "set ys \<subseteq> set xs" for ys
    using that by (induction ys) (use assms(2) in \<open>force simp: algebra_simps\<close>)+
  then have s: "int lo * int (length xs) \<le> sum_list (map f xs)" "sum_list (map f xs) \<le> int hi * int (length xs)" by blast+
  have "(of_int (int lo * int (length xs)) :: rat) \<le> of_int (sum_list (map f xs))" "(of_int (sum_list (map f xs)) :: rat) \<le> of_int (int hi * int (length xs))"
    using s by (simp_all only: of_int_le_iff)
  then have "of_nat lo \<le> of_int (sum_list (map f xs)) / (of_nat (length xs) :: rat)" "of_int (sum_list (map f xs)) / of_nat (length xs) \<le> (of_nat hi :: rat)"
    using assms(1) by (simp_all add: le_divide_eq divide_le_eq)
  then show ?thesis unfolding mean_int_def in_range_def
    using fl_le_float [OF is_float_nat [OF assms(4)]] float_le_fl [OF is_float_nat [OF assms(3)]] by blast
qed

lemma mean_int_at_least:
  assumes "xs \<noteq> []" and "\<And>x. x \<in> set xs \<Longrightarrow> 1 \<le> f x"
  shows "1 \<le> mean_int f xs"
proof -
  have "int (length ys) \<le> sum_list (map f ys)" if "set ys \<subseteq> set xs" for ys
    using that by (induction ys) (use assms(2) in force)+
  then have "(of_int (int (length xs)) :: rat) \<le> of_int (sum_list (map f xs))" by (simp only: of_int_le_iff)
  then have "1 \<le> of_int (sum_list (map f xs)) / (of_nat (length xs) :: rat)" using assms(1) by (simp add: le_divide_eq)
  then show ?thesis unfolding mean_int_def using float_le_fl [OF is_float_nat [of 1]] by simp
qed

lemma trace_summary_ok:
  assumes law: "sum_law A" "rates_law A" and os: "os \<noteq> []" "length os \<le> 2 ^ 53" "list_all (\<lambda>c. validate_trace_outcome c = Inr c) os"
  obtains m where "trace_summary_of A os = Inr m" "tm_case_count m = int (length os)" "tm_strict_rate m = share to_strict os"
    "tm_end_to_end_rate m = share to_end_to_end os"
proof -
  have f: "in_range 1 64 (to_step_count c)" "in_range 0 1 (to_evidence_rate c)" "in_range 0 1 (to_claim_rate c)" "1 \<le> to_input_tokens c"
    "1 \<le> to_output_tokens c" "0 \<le> to_latency_ms c" if "c \<in> set os" for c
    using os(3) that unfolding list_all_iff validate_trace_outcome_def Let_def guard_simps list.set ball_simps fst_conv not_not by blast+
  let ?n = "of_nat (length os) :: rat"
  have n: "0 < ?n" using os(1) by simp
  have rates: "in_range 0 1 (fl (aa_sum A (map g os) / ?n))" if "\<And>c. c \<in> set os \<Longrightarrow> in_range 0 1 (g c)" for g
  proof -
    have "list_all (in_range 0 1) (map g os)" using that by (simp add: list_all_iff)
    then have "in_range 0 ?n (aa_sum A (map g os))" using law(2) unfolding rates_law_def by (metis length_map)
    then show ?thesis using n fl_in_range [of "aa_sum A (map g os) / ?n" 1] by (simp add: in_range_def divide_le_eq)
  qed
  have er: "in_range 0 1 (fl (aa_sum A (map to_evidence_rate os) / ?n))" "in_range 0 1 (fl (aa_sum A (map to_claim_rate os) / ?n))"
    by (rule rates, erule f)+
  have steps: "in_range 1 64 (mean_int to_step_count os)"
    using mean_int_range [OF os(1), of 1 to_step_count 64] f(1) by (simp add: in_range_def)
  have tokens: "1 \<le> mean_int to_input_tokens os" "1 \<le> mean_int to_output_tokens os"
    using f by (intro mean_int_at_least os(1); blast)+
  have "in_range 1 64 (of_int (to_step_count c) :: rat)" if "c \<in> set os" for c using f(1) [OF that] by (simp add: in_range_def)
  then have p: "in_range 1 64 (trajectory_percentile (map (\<lambda>c. of_int (to_step_count c)) os) (fl (95 / 100)))"
    unfolding trajectory_percentile_def using os(1,2) fraction_range by (intro percentile_steps) (simp_all add: list_all_iff)
  have lat: "list_all (\<lambda>x. 0 \<le> x) (map to_latency_ms os)" using f by (simp add: list_all_iff)
  have p95: "0 \<le> trajectory_percentile (map to_latency_ms os) (fl (95 / 100))"
    unfolding trajectory_percentile_def using os lat fraction_range by (intro percentile_nonneg) simp_all
  have latency: "0 \<le> fl (aa_sum A (map to_latency_ms os) / ?n)" using law(1) lat by (intro fl_nonneg) (simp add: sum_law_def)
  have single: "mean_int to_step_count os \<le> trajectory_percentile (map (\<lambda>c. of_int (to_step_count c)) os) (fl (95 / 100))" if one: "length os = 1"
  proof -
    obtain c where c: "os = [c]" using one by (auto simp: length_Suc_conv)
    have "is_float (of_int (to_step_count c))" using f(1) [of c] c fl_of_int [of "to_step_count c"] by (simp add: in_range_def is_float_def)
    then show ?thesis by (simp add: c trajectory_percentile_def percentile_single mean_int_def is_float_def)
  qed
  have answered: "count_where (\<lambda>c. to_status c = Answered) os \<le> length os" by (rule count_le)
  have "\<exists>m. trace_summary_of A os = Inr m \<and> tm_case_count m = int (length os) \<and> tm_strict_rate m = share to_strict os
      \<and> tm_end_to_end_rate m = share to_end_to_end os"
    unfolding trace_summary_of_def Let_def validate_trace_summary_def if_not_P [OF os(1)]
    using os(1) er steps tokens p p95 latency leD [OF single] answered share_range [OF os(1)]
    by (simp add: guard_simps Suc_le_eq)
  then show ?thesis using that by blast
qed

section \<open>Scoring a batch of traces\<close>

definition trajectories_ok :: "('a) trajectory_api_scheme \<Rightarrow> trajectory_batch \<Rightarrow> bool" where
  "trajectories_ok A j \<longleftrightarrow> validate_trajectory_batch A j = Inr j \<and> list_all (\<lambda>c. validate_trajectory_case A c = Inr c
     \<and> list_all (\<lambda>s. validate_step s = Inr s) (tj_steps c)) (tb_cases j)"

text \<open>The four artifacts belong together: one task, batch, adjudicated report and candidate, and every trace bound.\<close>

definition joined_inputs :: "('a) score_api_scheme \<Rightarrow> answer_task \<Rightarrow> answer_batch \<Rightarrow> evaluation_report \<Rightarrow> trajectory_batch \<Rightarrow> bool" where
  "joined_inputs A t b g j \<longleftrightarrow> er_adjudication g \<noteq> None \<and> ab_task_id b = gt_task_id t \<and> ab_task_sha256 b = gt_task_sha256 t
     \<and> er_task_id g = gt_task_id t \<and> er_task_sha256 g = gt_task_sha256 t \<and> er_batch_id g = ab_batch_id b \<and> er_batch_sha256 g = ab_batch_sha256 b
     \<and> tb_task_id j = gt_task_id t \<and> tb_task_sha256 j = gt_task_sha256 t \<and> tb_batch_id j = ab_batch_id b \<and> tb_batch_sha256 j = ab_batch_sha256 b
     \<and> same_system (ab_system b) (er_system g) \<and> same_system (er_system g) (tb_system j) \<and> validate_case_bindings A t b j g = Inr ()"

lemma scored_joined:
  assumes "score_agent_trajectory A t b g j generated now = Inr rep"
  shows "joined_inputs A t b g j \<and> aware (case generated of Some v \<Rightarrow> v | None \<Rightarrow> now)"
  using assms by (auto simp: score_agent_trajectory_def joined_inputs_def guard_simps Let_def split: if_splits)

lemma sorted_set_id: "ordered_unique xs \<Longrightarrow> sorted_set xs = xs"
  using sorted_set_fixpoint [of xs] by (simp add: ordered_unique_def)

lemma task_shape':
  assumes "task_ok A t"
  shows "name_id (gt_benchmark_id t)" "aware (gt_captured_at t)"
  using assms unfolding task_ok_def validate_task_def guard_simps list.set ball_simps fst_conv not_not by blast+

lemma report_shape:
  assumes "validate_report A g = Inr g"
  shows "matches_hex ''grounded-report-'' 20 (er_report_id g)" "matches_hex [] 64 (er_report_sha256 g)"
  using assms unfolding validate_report_def guard_simps set_append list.set ball_simps ball_Un fst_conv not_not by blast+

lemma trajectories_shape:
  assumes "trajectories_ok A j"
  shows "matches_hex ''trajectory-batch-'' 20 (tb_id j)" "matches_hex [] 64 (tb_sha256 j)" "distinct (map tj_case_id (tb_cases j))"
proof -
  have v: "validate_trajectory_batch A j = Inr j" using assms by (simp add: trajectories_ok_def)
  show "matches_hex ''trajectory-batch-'' 20 (tb_id j)" "matches_hex [] 64 (tb_sha256 j)"
    using v unfolding validate_trajectory_batch_def guard_simps list.set ball_simps fst_conv not_not by blast+
  have "map tj_case_id (tb_cases j) = sorted_set (map tj_case_id (tb_cases j))"
    using v unfolding validate_trajectory_batch_def guard_simps list.set ball_simps fst_conv not_not by blast
  then show "distinct (map tj_case_id (tb_cases j))" by (metis distinct_sorted_set)
qed

text \<open>The cases that belong to a task case.\<close>

lemma joined_case:
  assumes t: "task_ok A t" and b: "batch_ok A b" and j: "trajectories_ok A j" and g: "validate_case_bindings A t b j g = Inr ()"
    and k: "k \<in> set (gt_cases t)"
  obtains c tr where "dict_by kc_case_id (ab_cases b) (tc_case_id k) = Some c" "candidate_ok A c"
    "dict_by tj_case_id (tb_cases j) (tc_case_id k) = Some tr" "validate_trajectory_case A tr = Inr tr" "tj_case_id tr = tc_case_id k"
    "tj_required_evidence tr = required_evidence (kc_response c)"
proof -
  have ids: "set (map kc_case_id (ab_cases b)) = set (map tc_case_id (gt_cases t))" "set (map tj_case_id (tb_cases j)) = set (map tc_case_id (gt_cases t))"
    and bound: "list_all (\<lambda>i. case_bound A b (the (dict_by tc_case_id (gt_cases t) i)) (the (dict_by kc_case_id (ab_cases b) i))
        (the (dict_by tj_case_id (tb_cases j) i)) (the (dict_by co_case_id (er_outcomes g) i))) (sorted_set (map tc_case_id (gt_cases t)))"
    using g unfolding validate_case_bindings_def Let_def guard_simps by auto
  obtain c where c: "c \<in> set (ab_cases b)" "kc_case_id c = tc_case_id k" using ids(1) k by (metis imageE imageI image_set)
  obtain tr where tr: "tr \<in> set (tb_cases j)" "tj_case_id tr = tc_case_id k" using ids(2) k by (metis imageE imageI image_set)
  have dc: "dict_by kc_case_id (ab_cases b) (tc_case_id k) = Some c"
    using dict_by_distinct [OF _ c(1), of kc_case_id] batch_shape(4) [OF b] c(2) by (simp add: ordered_unique_def)
  have dt: "dict_by tj_case_id (tb_cases j) (tc_case_id k) = Some tr"
    using dict_by_distinct [OF trajectories_shape(3) [OF j] tr(1)] tr(2) by simp
  have cb: "case_bound A b k c tr (the (dict_by co_case_id (er_outcomes g) (tc_case_id k)))"
    using bound [unfolded list_all_iff, rule_format, of "tc_case_id k"] k unfolding dc dt task_cases_found(1) [OF t k] by simp
  show ?thesis
    by (rule that [OF dc _ dt _ tr(2)]) (use b c(1) j tr(1) cb in \<open>simp_all add: batch_ok_def candidate_ok_def trajectories_ok_def list_all_iff case_bound_def\<close>)
qed

lemma score_parts [simp]:
  "tp_outcomes (score_of A t b g j stamp overall slices outcomes) = outcomes" "tp_overall (score_of A t b g j stamp overall slices outcomes) = overall"
  "tp_slices (score_of A t b g j stamp overall slices outcomes) = slices" "tp_case_count (score_of A t b g j stamp overall slices outcomes) = int (length outcomes)"
  "tp_generated_at (score_of A t b g j stamp overall slices outcomes) = utc (dt_us stamp)" "tp_captured_at (score_of A t b g j stamp overall slices outcomes) = gt_captured_at t"
  "tp_benchmark_id (score_of A t b g j stamp overall slices outcomes) = gt_benchmark_id t" "tp_task_id (score_of A t b g j stamp overall slices outcomes) = gt_task_id t"
  "tp_task_sha256 (score_of A t b g j stamp overall slices outcomes) = gt_task_sha256 t" "tp_batch_id (score_of A t b g j stamp overall slices outcomes) = ab_batch_id b"
  "tp_batch_sha256 (score_of A t b g j stamp overall slices outcomes) = ab_batch_sha256 b" "tp_grounded_id (score_of A t b g j stamp overall slices outcomes) = er_report_id g"
  "tp_grounded_sha256 (score_of A t b g j stamp overall slices outcomes) = er_report_sha256 g" "tp_trajectory_id (score_of A t b g j stamp overall slices outcomes) = tb_id j"
  "tp_trajectory_sha256 (score_of A t b g j stamp overall slices outcomes) = tb_sha256 j" "tp_system (score_of A t b g j stamp overall slices outcomes) = ab_system b"
  by (simp_all add: score_of_def Let_def)

lemma validate_score_of:
  assumes A: "hex_digest (aa_sha256 A)" and t: "task_ok A t" and b: "batch_ok A b" and g: "validate_report A g = Inr g" and j: "trajectories_ok A j"
    and out: "outcomes \<noteq> []" "ordered_unique (map to_case_id outcomes)" "trace_summary_of A outcomes = Inr overall" "tm_case_count overall = int (length outcomes)"
    and slices: "sorted (map fst slices)" "list_all (\<lambda>s. fst s \<noteq> [] \<and> fst s = aa_casefold A (py_strip (fst s))) slices"
  shows "validate_score A (score_of A t b g j stamp overall slices outcomes) = Inr (score_of A t b g j stamp overall slices outcomes)"
    (is "validate_score A ?r = Inr ?r")
proof -
  have h: "agent_trajectory_report_sha256 A ?r = tp_report_sha256 ?r"
    by (simp add: agent_trajectory_report_sha256_def score_of_def Let_def)
  have id: "tp_report_id ?r = ''trajectory-report-'' @ take 20 (tp_report_sha256 ?r)" by (simp add: score_of_def Let_def)
  have shape: "matches_hex [] 64 (tp_report_sha256 ?r)" "matches_hex ''trajectory-report-'' 20 (tp_report_id ?r)"
    unfolding id by (simp_all only: h [symmetric] agent_trajectory_report_sha256_def digest_shapes [OF A])
  have one: "1 \<le> int (length outcomes)" using out(1) by (cases outcomes) simp_all
  have st: "aware (utc (dt_us stamp))" by (simp add: aware_def utc_def)
  show ?thesis unfolding validate_score_def
    using shape h id out one st slices task_shape(1,2) [OF t] task_shape' [OF t] batch_shape(1,2) [OF b] report_shape [OF g] trajectories_shape(1,2) [OF j]
    by (simp add: guard_simps sorted_set_id)
qed

lemma rmap_map: "rmap f (map g xs) = rmap (\<lambda>x. f (g x)) xs"
  by (induction xs) simp_all

lemma rmap_paired:
  "(\<And>x. x \<in> set xs \<Longrightarrow> \<exists>m. F x = Inr m) \<Longrightarrow> \<exists>ps. rmap (\<lambda>x. rbind (F x) (\<lambda>m. Inr (x, m))) xs = Inr ps \<and> map fst ps = xs"
proof (induction xs)
  case (Cons x xs)
  obtain m where m: "F x = Inr m" using Cons.prems [of x] by auto
  obtain ps where "rmap (\<lambda>x. rbind (F x) (\<lambda>m. Inr (x, m))) xs = Inr ps \<and> map fst ps = xs" using Cons by auto
  then show ?case by (intro exI [of _ "(x, m) # ps"]) (simp add: m)
qed simp

lemma score_trajectories:
  assumes A: "hex_digest (aa_sha256 A)" "sum_law A" "rates_law A" and t: "task_ok A t" "normal_slices A t" and b: "batch_ok A b"
    and g: "validate_report A g = Inr g" and j: "trajectories_ok A j" and joined: "joined_inputs A t b g j"
    and stamp: "aware (case generated of Some v \<Rightarrow> v | None \<Rightarrow> now)"
  obtains rep where "score_agent_trajectory A t b g j generated now = Inr rep"
    "list_all2 (\<lambda>k o'. to_case_id o' = tc_case_id k
      \<and> to_strict o' = trace_complete (kc_response (the (dict_by kc_case_id (ab_cases b) (tc_case_id k)))) (the (dict_by tj_case_id (tb_cases j) (tc_case_id k)))
      \<and> to_end_to_end o' = (to_strict o' \<and> co_strict_pass (the (dict_by co_case_id (er_outcomes g) (tc_case_id k))))) (gt_cases t) (tp_outcomes rep)"
    "tm_end_to_end_rate (tp_overall rep) = share to_end_to_end (tp_outcomes rep)"
proof -
  let ?resp = "\<lambda>i. kc_response (the (dict_by kc_case_id (ab_cases b) i))" and ?tr = "\<lambda>i. the (dict_by tj_case_id (tb_cases j) i)"
  let ?pass = "\<lambda>i. co_strict_pass (the (dict_by co_case_id (er_outcomes g) i))"
  have bound: "validate_case_bindings A t b j g = Inr ()" using joined by (simp add: joined_inputs_def)
  have "\<exists>res. trajectory_outcome (?resp (tc_case_id k)) (?pass (tc_case_id k)) (?tr (tc_case_id k)) = Inr res \<and> validate_trace_outcome res = Inr res
      \<and> to_case_id res = tc_case_id k \<and> to_strict res = trace_complete (?resp (tc_case_id k)) (?tr (tc_case_id k))
      \<and> to_end_to_end res = (to_strict res \<and> ?pass (tc_case_id k))" if k: "k \<in> set (gt_cases t)" for k
  proof -
    obtain c tr where c: "dict_by kc_case_id (ab_cases b) (tc_case_id k) = Some c" "candidate_ok A c"
      "dict_by tj_case_id (tb_cases j) (tc_case_id k) = Some tr" "validate_trajectory_case A tr = Inr tr" "tj_case_id tr = tc_case_id k"
      "tj_required_evidence tr = required_evidence (kc_response c)"
      by (rule joined_case [OF t(1) b j bound k])
    have ok: "response_ok A (kc_response c)" using c(2) by (simp add: candidate_ok_def)
    obtain res where "trajectory_outcome (kc_response c) (?pass (tc_case_id k)) tr = Inr res" "validate_trace_outcome res = Inr res" "to_case_id res = tj_case_id tr"
      "to_status res = tj_status tr" "to_strict res = trace_complete (kc_response c) tr" "to_end_to_end res = (trace_complete (kc_response c) tr \<and> ?pass (tc_case_id k))"
      "to_grounded res = ?pass (tc_case_id k)"
      by (rule trajectory_outcome_ok [OF c(4) ok c(6)])
    then show ?thesis using c by simp
  qed
  then obtain f where f: "trajectory_outcome (?resp (tc_case_id k)) (?pass (tc_case_id k)) (?tr (tc_case_id k)) = Inr (f k) \<and> validate_trace_outcome (f k) = Inr (f k)
      \<and> to_case_id (f k) = tc_case_id k \<and> to_strict (f k) = trace_complete (?resp (tc_case_id k)) (?tr (tc_case_id k))
      \<and> to_end_to_end (f k) = (to_strict (f k) \<and> ?pass (tc_case_id k))" if "k \<in> set (gt_cases t)" for k
    by metis
  let ?out = "map f (gt_cases t)"
  have ids: "map to_case_id ?out = map tc_case_id (gt_cases t)" using f by simp
  have outs: "rmap (\<lambda>i. trajectory_outcome (?resp i) (?pass i) (?tr i)) (sorted_set (map tc_case_id (gt_cases t))) = Inr ?out"
    unfolding sorted_set_id [OF task_shape(4) [OF t(1)]] rmap_map using f by (intro rmap_Inr_fun) blast
  have ne: "?out \<noteq> []" "length ?out \<le> 2 ^ 53" using task_shape(3) [OF t(1)] by (auto simp: in_range_def)
  have ok: "list_all (\<lambda>c. validate_trace_outcome c = Inr c) (filter p ?out)" for p using f by (auto simp: list_all_iff)
  let ?part = "\<lambda>name. filter (\<lambda>c. list_ex (\<lambda>k. tc_case_id k = to_case_id c \<and> name \<in> set (tc_slices k)) (gt_cases t)) ?out"
  have "\<exists>m. trace_summary_of A (?part name) = Inr m" if name: "name \<in> set (concat (map tc_slices (gt_cases t)))" for name
  proof -
    obtain k where k: "k \<in> set (gt_cases t)" "name \<in> set (tc_slices k)" using name by auto
    then have "f k \<in> set (?part name)" using f [OF k(1)] by (auto simp: list_ex_iff)
    then have "?part name \<noteq> []" by (metis empty_iff empty_set)
    moreover have "length (?part name) \<le> 2 ^ 53" using ne(2) length_filter_le order_trans by blast
    ultimately show ?thesis using trace_summary_ok [OF A(2,3) _ _ ok] by blast
  qed
  then have "\<exists>ps. rmap (\<lambda>name. rbind (trace_summary_of A (?part name)) (\<lambda>m. Inr (name, m))) (sorted_set (concat (map tc_slices (gt_cases t)))) = Inr ps
      \<and> map fst ps = sorted_set (concat (map tc_slices (gt_cases t)))"
    by (intro rmap_paired) (simp only: set_sorted_set)
  then obtain ps where slices: "rmap (\<lambda>name. rbind (trace_summary_of A (?part name)) (\<lambda>m. Inr (name, m))) (sorted_set (concat (map tc_slices (gt_cases t)))) = Inr ps"
      and fst: "map fst ps = sorted_set (concat (map tc_slices (gt_cases t)))" by blast
  obtain m where m: "trace_summary_of A ?out = Inr m" "tm_case_count m = int (length ?out)" "tm_strict_rate m = share to_strict ?out"
    "tm_end_to_end_rate m = share to_end_to_end ?out"
    by (rule trace_summary_ok [OF A(2,3) ne]) (use ok [of "\<lambda>_. True"] in simp)
  let ?stamp = "case generated of Some v \<Rightarrow> v | None \<Rightarrow> now"
  let ?rep = "score_of A t b g j ?stamp m ps ?out"
  have ord: "ordered_unique (map to_case_id ?out)" unfolding ids by (rule task_shape(4) [OF t(1)])
  have names: "sorted (map fst ps)" unfolding fst by (rule sorted_sorted_set)
  have "fst ` set ps = set (concat (map tc_slices (gt_cases t)))" using arg_cong [OF fst, of set] by simp
  then have normal: "list_all (\<lambda>s. fst s \<noteq> [] \<and> fst s = aa_casefold A (py_strip (fst s))) ps"
    using t(2) unfolding normal_slices_def list_all_iff by (metis imageI)
  have valid: "validate_score A ?rep = Inr ?rep"
    by (rule validate_score_of [OF A(1) t(1) b g j ne(1) ord m(1,2) names normal])
  have "score_agent_trajectory A t b g j generated now = Inr ?rep"
    unfolding score_agent_trajectory_def outs using joined stamp bound
    by (simp add: joined_inputs_def raise_first.simps Let_def slices m(1) valid del: set_map)
  then show ?thesis by (rule that) (use f m(4) in \<open>auto simp: list_all2_conv_all_nth\<close>)
qed

text \<open>The outcome of a task case: strict exactly when its trace is complete for the answer, end to end exactly when the
reviewed answer passes too.\<close>

definition case_scored :: "answer_batch \<Rightarrow> evaluation_report \<Rightarrow> trajectory_batch \<Rightarrow> task_case \<Rightarrow> trace_outcome \<Rightarrow> bool" where
  "case_scored b g j k o' \<longleftrightarrow> to_case_id o' = tc_case_id k
     \<and> to_strict o' = trace_complete (kc_response (the (dict_by kc_case_id (ab_cases b) (tc_case_id k)))) (the (dict_by tj_case_id (tb_cases j) (tc_case_id k)))
     \<and> to_end_to_end o' = (to_strict o' \<and> co_strict_pass (the (dict_by co_case_id (er_outcomes g) (tc_case_id k))))"


section \<open>A sample trace\<close>

definition score_sample_api :: score_api where
  "score_sample_api = \<lparr>aa_sha256 = (\<lambda>_. sample_digest), aa_float = (\<lambda>_. ''0.0''), aa_casefold = (\<lambda>s. s), aa_dump_case = (\<lambda>_. JNull),
     aa_dump_task = (\<lambda>_. JNull), aa_dump_response = (\<lambda>_. JNull), aa_dump_batch = (\<lambda>_. JNull), aa_sum = sum_list,
     aa_dump_review = (\<lambda>_. JNull), aa_dump_report = (\<lambda>_. JNull), aa_read_csv = (\<lambda>_. []), aa_write_csv = concat \<circ> map concat,
     ta_dump_batch = (\<lambda>_. JNull), sa_dump_score = (\<lambda>_. JNull)\<rparr>"

definition sample_provenance :: review_provenance where
  "sample_provenance = \<lparr>vp_reviewers = (''Ada L'', ''Bob M''), vp_review_ids = (sample_id ''grounded-review-'' 20, ''grounded-review-'' @ replicate 20 (CHR ''b'')),
     vp_review_sha256s = (sample_digest, replicate 64 (CHR ''b'')), vp_agreement_report_id = sample_id ''grounded-agreement-'' 20,
     vp_observed_agreement = [(''support_grade'', 1)], vp_cohen_kappa = [(''support_grade'', None)], vp_adjudicator = ''Cay N'',
     vp_adjudicated_at = sample_time, vp_judgment_count = 1, vp_decision_count = 0, vp_field_count = 0\<rparr>"

definition sample_grounded :: evaluation_report where
  "sample_grounded = \<lparr>er_schema_version = ''1.1.0'', er_report_id = sample_id ''grounded-report-'' 20, er_report_sha256 = sample_digest,
     er_generated_at = sample_time, er_task_id = gt_task_id sample_answer_task, er_task_sha256 = gt_task_sha256 sample_answer_task,
     er_batch_id = ab_batch_id sample_batch, er_batch_sha256 = ab_batch_sha256 sample_batch, er_review_id = sample_id ''grounded-review-'' 20,
     er_review_sha256 = sample_digest, er_reviewer = ''Cay N'', er_adjudication = Some sample_provenance, er_system = sample_system,
     er_overall = \<lparr>ms_case_count = 1, ms_answered_case_count = 1, ms_abstained_case_count = 0, ms_claim_count = 1, ms_mean_support = Some 3,
       ms_fully_supported_rate = Some 1, ms_unsupported_rate = Some 0, ms_mean_citation = Some 2, ms_complete_citation_rate = Some 1,
       ms_mean_relevance = Some 2, ms_appropriate_abstention_rate = None, ms_strict_case_pass_rate = 1, ms_mean_input_tokens = 200,
       ms_mean_output_tokens = 20, ms_mean_latency_ms = 35, ms_p95_latency_ms = 35\<rparr>,
     er_slices = [], er_outcomes = [\<lparr>co_case_id = tc_case_id sample_answer_case, co_query_id = ''quakes-today'', co_response_status = Answered,
       co_claim_count = 1, co_minimum_support = Some 3, co_minimum_citation = Some 2, co_answer_relevance = Some 2,
       co_abstention_appropriate = None, co_strict_pass = True\<rparr>]\<rparr>"

definition sample_step :: "int \<Rightarrow> trajectory_action \<Rightarrow> string list \<Rightarrow> string list \<Rightarrow> trajectory_step" where
  "sample_step n a es cs = \<lparr>ts_sequence = n, ts_action = a, ts_evidence_ids = es, ts_claim_ids = cs, ts_duration_ms = 1\<rparr>"

definition sample_trace :: trajectory_case where
  "sample_trace = \<lparr>tj_case_id = tc_case_id sample_answer_case, tj_query_id = ''quakes-today'', tj_pack_id = tc_pack_id sample_answer_case,
     tj_response_sha256 = sample_digest, tj_status = Answered, tj_available = [sample_id ''evidence-'' 64],
     tj_required_evidence = [sample_id ''evidence-'' 64], tj_required_claims = [''claim-01''],
     tj_steps = [sample_step 1 InspectEvidence [sample_id ''evidence-'' 64] [], sample_step 2 DraftClaim [sample_id ''evidence-'' 64] [''claim-01''],
       sample_step 3 Finalize [] []],
     tj_capabilities = \<lparr>ca_network = False, ca_tools = False, ca_side_effects = False\<rparr>, tj_input_tokens = 200, tj_output_tokens = 20,
     tj_latency_ms = 35\<rparr>"

definition sample_traces :: trajectory_batch where
  "sample_traces = trajectory_batch_of score_sample_api sample_answer_task sample_batch sample_time [sample_trace]"

lemma score_like: "sample_like score_sample_api"
  by (simp add: sample_like_def score_sample_api_def)

lemma score_laws: "sum_law score_sample_api" "rates_law score_sample_api"
proof -
  show "sum_law score_sample_api" by (simp add: sum_law_def list_all_iff sum_list_nonneg score_sample_api_def)
  have "in_range 0 (of_nat (length xs)) (sum_list xs)" if "list_all (in_range 0 1) xs" for xs :: "rat list"
    using that by (induction xs) (auto simp: in_range_def)
  then show "rates_law score_sample_api" by (simp add: rates_law_def score_sample_api_def)
qed

lemma sample_grounded_ok: "validate_report score_sample_api sample_grounded = Inr sample_grounded"
  by (simp add: validate_report_def guard_simps sample_grounded_def sample_answer_task_def sample_batch_def batch_of_def Let_def sample_time_def aware_def
      ordered_unique_def in_range_def sample_provenance_def grounded_answer_report_sha256_def grounded_answer_batch_sha256_def
      sample_canonical score_like sample_like_answers
      sample_id_def [of "''grounded-batch-''" 20, symmetric, simplified] sample_id_def [of "''grounded-report-''" 20, symmetric, simplified])

lemma sample_steps_ok: "list_all (\<lambda>s. validate_step s = Inr s) (tj_steps sample_trace)"
proof -
  have "claim_reference ''claim-01''" by (simp add: claim_reference_def py_isdigit_def dec_digits_def is_prefix_def)
  then show ?thesis by (simp add: sample_trace_def sample_step_def validate_step_def guard_simps in_range_def sorted_set_def)
qed

lemma sample_traces_ok: "trajectories_ok score_sample_api sample_traces"
proof -
  have c: "claim_reference ''claim-01''" by (simp add: claim_reference_def py_isdigit_def dec_digits_def is_prefix_def)
  have f: "0 \<le> fl (35 + fl (1 / 10 ^ 9)) - 3" by code_simp
  have "validate_trajectory_case score_sample_api sample_trace = Inr sample_trace"
    using c f by (simp add: validate_trajectory_case_def guard_simps sample_trace_def sample_step_def sample_answer_case_def sample_texts sorted_set_def)
      (simp add: score_sample_api_def)
  moreover have "validate_trajectory_batch score_sample_api sample_traces = Inr sample_traces"
    by (simp add: validate_trajectory_batch_def guard_simps sample_traces_def trajectory_batch_of_def Let_def sample_answer_task_def sample_batch_def
        batch_of_def in_range_def aware_def utc_def sorted_set_def agent_trajectory_batch_sha256_def grounded_answer_batch_sha256_def
        sample_canonical score_like sample_like_answers
        sample_id_def [of "''grounded-batch-''" 20, symmetric, simplified] sample_id_def [of "''trajectory-batch-''" 20, symmetric, simplified])
  moreover have "tb_cases sample_traces = [sample_trace]" by (simp add: sample_traces_def trajectory_batch_of_def Let_def)
  ultimately show ?thesis using sample_steps_ok by (simp add: trajectories_ok_def)
qed

lemma sample_joined: "joined_inputs score_sample_api sample_answer_task sample_batch sample_grounded sample_traces"
proof -
  have parts: "tb_cases sample_traces = [sample_trace]" "tb_task_id sample_traces = gt_task_id sample_answer_task"
    "tb_task_sha256 sample_traces = gt_task_sha256 sample_answer_task" "tb_batch_id sample_traces = ab_batch_id sample_batch"
    "tb_batch_sha256 sample_traces = ab_batch_sha256 sample_batch" "tb_system sample_traces = ab_system sample_batch"
    by (simp_all add: sample_traces_def trajectory_batch_of_def Let_def)
  have b: "ab_system sample_batch = sample_system" "ab_task_id sample_batch = gt_task_id sample_answer_task"
    "ab_task_sha256 sample_batch = gt_task_sha256 sample_answer_task"
    by (simp_all add: sample_batch_def batch_of_def Let_def)
  have "validate_case_bindings score_sample_api sample_answer_task sample_batch sample_traces sample_grounded = Inr ()"
    unfolding validate_case_bindings_def Let_def guard_simps
    by (simp add: parts sample_answer_task_def sample_batch_def batch_of_def Let_def sample_trace_def sample_grounded_def dict_by_def case_bound_def
        sample_answer_case_def sample_response_def required_evidence_def sorted_set_def response_sha256_def sample_canonical score_like)
  then show ?thesis by (simp add: joined_inputs_def parts b) (simp add: sample_grounded_def sample_provenance_def)
qed


end
