(* ===== verification/Drift.thy ===== *)
theory Drift
  imports Trajectory
begin

text \<open>
  Longitudinal drift of agent trajectories (\<open>agent_trajectory/drift.py\<close>): two score reports of one candidate
  and benchmark are compared in seven checks. The lemmas show that a comparison never violates its own
  contracts, and how far a real deterioration can go in a report that is stable.
\<close>

section \<open>Thresholds, checks and reports\<close>

datatype drift_metric = StrictTrajectoryPassRate | StrictEndToEndPassRate | PolicyComplianceRate | EvidenceInspectionRate
  | ClaimTraceRate | P95LatencyRelativeIncrease | P95StepRelativeIncrease

fun metric_text :: "drift_metric \<Rightarrow> string" where
  "metric_text StrictTrajectoryPassRate = ''strict_trajectory_pass_rate''"
| "metric_text StrictEndToEndPassRate = ''strict_end_to_end_pass_rate''"
| "metric_text PolicyComplianceRate = ''policy_compliance_rate''"
| "metric_text EvidenceInspectionRate = ''evidence_inspection_rate''"
| "metric_text ClaimTraceRate = ''claim_trace_rate''"
| "metric_text P95LatencyRelativeIncrease = ''p95_latency_relative_increase''"
| "metric_text P95StepRelativeIncrease = ''p95_step_relative_increase''"

definition drift_metrics :: "drift_metric list" where
  "drift_metrics = [StrictTrajectoryPassRate, StrictEndToEndPassRate, PolicyComplianceRate, EvidenceInspectionRate,
     ClaimTraceRate, P95LatencyRelativeIncrease, P95StepRelativeIncrease]"

record drift_thresholds =
  dp_strict_drop :: rat
  dp_end_to_end_drop :: rat
  dp_compliance_drop :: rat
  dp_inspection_drop :: rat
  dp_claim_drop :: rat
  dp_latency_increase :: rat
  dp_step_increase :: rat

definition validate_drift_thresholds :: "drift_thresholds \<Rightarrow> drift_thresholds res" where
  "validate_drift_thresholds p = raise_first
     [(\<not> (list_all (in_range 0 1) [dp_strict_drop p, dp_end_to_end_drop p, dp_compliance_drop p, dp_inspection_drop p, dp_claim_drop p]
        \<and> in_range 0 10 (dp_latency_increase p) \<and> in_range 0 10 (dp_step_increase p)), ''AgentTrajectoryDriftThresholds fields'')] p"

definition default_drift_thresholds :: drift_thresholds where
  "default_drift_thresholds = \<lparr>dp_strict_drop = fl (2 / 100), dp_end_to_end_drop = fl (2 / 100), dp_compliance_drop = 0,
     dp_inspection_drop = 0, dp_claim_drop = 0, dp_latency_increase = 1 / 4, dp_step_increase = 1 / 4\<rparr>"

record drift_check =
  dk_metric :: drift_metric
  dk_baseline :: rat
  dk_current :: rat
  dk_deterioration :: "rat option"
  dk_maximum :: rat
  dk_passed :: bool
  dk_comparison :: string

definition within_limit :: "rat \<Rightarrow> rat \<Rightarrow> bool" where
  "within_limit x limit \<longleftrightarrow> x \<le> fl (limit + fl (1 / 10 ^ 12))"

definition validate_drift_check :: "drift_check \<Rightarrow> drift_check res" where
  "validate_drift_check c = raise_first
     [(\<not> (if_some (\<lambda>d. 0 \<le> d) (dk_deterioration c) \<and> 0 \<le> dk_maximum c \<and> in_range 3 200 (length (dk_comparison c))),
        ''AgentTrajectoryDriftCheck fields''),
      (dk_passed c \<noteq> (case dk_deterioration c of None \<Rightarrow> False | Some d \<Rightarrow> within_limit d (dk_maximum c)),
        ''drift check pass must match deterioration and threshold'')] c"

record drift_report =
  dr_id :: string
  dr_sha256 :: string
  dr_generated_at :: datetime
  dr_benchmark_id :: string
  dr_system :: candidate_system
  dr_baseline_id :: string
  dr_baseline_sha256 :: string
  dr_baseline_at :: datetime
  dr_current_id :: string
  dr_current_sha256 :: string
  dr_current_at :: datetime
  dr_thresholds :: drift_thresholds
  dr_stable :: bool
  dr_failed :: "drift_metric list"
  dr_checks :: "drift_check list"

record drift_api = score_api +
  va_dump_drift :: "drift_report \<Rightarrow> json"

definition agent_trajectory_drift_sha256 :: "('a) drift_api_scheme \<Rightarrow> drift_report \<Rightarrow> string" where
  "agent_trajectory_drift_sha256 A r = canonical_sha256 A (va_dump_drift A (r\<lparr>dr_id := [], dr_sha256 := []\<rparr>))"

definition failed_metrics :: "drift_check list \<Rightarrow> drift_metric list" where
  "failed_metrics cs = map dk_metric (filter (\<lambda>c. \<not> dk_passed c) cs)"

definition validate_drift_report :: "('a) drift_api_scheme \<Rightarrow> drift_report \<Rightarrow> drift_report res" where
  "validate_drift_report A r = raise_first
     [(\<not> (matches_hex ''trajectory-drift-'' 20 (dr_id r) \<and> matches_hex [] 64 (dr_sha256 r) \<and> name_id (dr_benchmark_id r)
        \<and> matches_hex ''trajectory-report-'' 20 (dr_baseline_id r) \<and> matches_hex [] 64 (dr_baseline_sha256 r)
        \<and> matches_hex ''trajectory-report-'' 20 (dr_current_id r) \<and> matches_hex [] 64 (dr_current_sha256 r)
        \<and> length (dr_checks r) = 7), ''AgentTrajectoryDriftReport fields''),
      (\<not> aware (dr_generated_at r), ''trajectory drift generated_at must be timezone-aware''),
      (\<not> aware (dr_baseline_at r), ''trajectory drift baseline_captured_at must be timezone-aware''),
      (\<not> aware (dr_current_at r), ''trajectory drift current_captured_at must be timezone-aware''),
      (dt_us (dr_current_at r) \<le> dt_us (dr_baseline_at r), ''trajectory drift captures must be strictly chronological''),
      (sort (map (metric_text \<circ> dk_metric) (dr_checks r)) \<noteq> sort (map metric_text drift_metrics),
        ''trajectory drift checks must contain each metric exactly once''),
      (dr_failed r \<noteq> failed_metrics (dr_checks r), ''trajectory failed metrics must match failed checks in check order''),
      (dr_stable r \<noteq> (failed_metrics (dr_checks r) = []), ''trajectory drift status must match failed checks''),
      (dr_sha256 r \<noteq> agent_trajectory_drift_sha256 A r, ''trajectory drift SHA-256 must match exact comparisons''),
      (dr_id r \<noteq> ''trajectory-drift-'' @ take 20 (agent_trajectory_drift_sha256 A r), ''trajectory drift ID must match its SHA-256'')] r"

section \<open>The comparison\<close>

definition rate_check :: "drift_metric \<Rightarrow> rat \<Rightarrow> rat \<Rightarrow> rat \<Rightarrow> drift_check res" where
  "rate_check m baseline current maximum_drop = (let deterioration = max 0 (fl (baseline - current)) in
     validate_drift_check \<lparr>dk_metric = m, dk_baseline = baseline, dk_current = current, dk_deterioration = Some deterioration,
       dk_maximum = maximum_drop, dk_passed = within_limit deterioration maximum_drop,
       dk_comparison = ''baseline minus current must not exceed the maximum rate drop''\<rparr>)"

definition relative_increase_check :: "drift_metric \<Rightarrow> rat \<Rightarrow> rat \<Rightarrow> rat \<Rightarrow> drift_check res" where
  "relative_increase_check m baseline current maximum_increase =
     (let deterioration = (if 0 < baseline then Some (max 0 (fl (fl (current / baseline) - 1))) else if current = 0 then Some 0 else None) in
     validate_drift_check \<lparr>dk_metric = m, dk_baseline = baseline, dk_current = current, dk_deterioration = deterioration,
       dk_maximum = maximum_increase, dk_passed = (case deterioration of None \<Rightarrow> False | Some d \<Rightarrow> within_limit d maximum_increase),
       dk_comparison = ''current relative increase must not exceed the maximum''\<rparr>)"

text \<open>The checks of a comparison, in the order of the report; the first that raises ends it.\<close>

definition drift_checks :: "trace_summary \<Rightarrow> trace_summary \<Rightarrow> drift_thresholds \<Rightarrow> drift_check list res" where
  "drift_checks before after p = rmap id
     [rate_check StrictTrajectoryPassRate (tm_strict_rate before) (tm_strict_rate after) (dp_strict_drop p),
      rate_check StrictEndToEndPassRate (tm_end_to_end_rate before) (tm_end_to_end_rate after) (dp_end_to_end_drop p),
      rate_check PolicyComplianceRate (tm_compliance_rate before) (tm_compliance_rate after) (dp_compliance_drop p),
      rate_check EvidenceInspectionRate (tm_evidence_rate before) (tm_evidence_rate after) (dp_inspection_drop p),
      rate_check ClaimTraceRate (tm_claim_rate before) (tm_claim_rate after) (dp_claim_drop p),
      relative_increase_check P95LatencyRelativeIncrease (tm_p95_latency_ms before) (tm_p95_latency_ms after) (dp_latency_increase p),
      relative_increase_check P95StepRelativeIncrease (tm_p95_steps before) (tm_p95_steps after) (dp_step_increase p)]"

definition drift_of :: "('a) drift_api_scheme \<Rightarrow> score_report \<Rightarrow> score_report \<Rightarrow> drift_thresholds \<Rightarrow> datetime \<Rightarrow> drift_check list \<Rightarrow> drift_report" where
  "drift_of A b c p stamp checks = (let draft = \<lparr>dr_id = [], dr_sha256 = [], dr_generated_at = utc (dt_us stamp),
       dr_benchmark_id = tp_benchmark_id b, dr_system = tp_system b, dr_baseline_id = tp_report_id b, dr_baseline_sha256 = tp_report_sha256 b,
       dr_baseline_at = tp_captured_at b, dr_current_id = tp_report_id c, dr_current_sha256 = tp_report_sha256 c, dr_current_at = tp_captured_at c,
       dr_thresholds = p, dr_stable = (failed_metrics checks = []), dr_failed = failed_metrics checks, dr_checks = checks\<rparr>;
     digest = agent_trajectory_drift_sha256 A draft in
     draft\<lparr>dr_id := ''trajectory-drift-'' @ take 20 digest, dr_sha256 := digest\<rparr>)"

definition compare_agent_trajectory_reports ::
  "('a) drift_api_scheme \<Rightarrow> score_report \<Rightarrow> score_report \<Rightarrow> drift_thresholds option \<Rightarrow> datetime option \<Rightarrow> datetime \<Rightarrow> drift_report res" where
  "compare_agent_trajectory_reports A b c thresholds generated now = rbind (raise_first
     [(tp_report_id b = tp_report_id c, ''trajectory drift requires two distinct reports''),
      (tp_benchmark_id b \<noteq> tp_benchmark_id c, ''trajectory drift requires the same benchmark identity''),
      (\<not> same_system (tp_system b) (tp_system c), ''trajectory drift requires one immutable candidate identity''),
      (set (map fst (tp_slices b)) \<noteq> set (map fst (tp_slices c)), ''trajectory drift requires the same declared slice shape''),
      (dt_us (tp_captured_at c) \<le> dt_us (tp_captured_at b), ''trajectory drift reports must be strictly chronological'')] ()) (\<lambda>_.
     let p = (case thresholds of Some p \<Rightarrow> p | None \<Rightarrow> default_drift_thresholds) in
     rbind (drift_checks (tp_overall b) (tp_overall c) p) (\<lambda>checks.
       let stamp = (case generated of Some v \<Rightarrow> v | None \<Rightarrow> now) in
       if \<not> aware stamp then Inl (ValueError ''trajectory drift generated_at must be timezone-aware'')
       else validate_drift_report A (drift_of A b c p stamp checks)))"

section \<open>What a comparison returns\<close>

definition score_ok :: "('a) score_api_scheme \<Rightarrow> score_report \<Rightarrow> bool" where
  "score_ok A r \<longleftrightarrow> validate_score A r = Inr r \<and> validate_trace_summary (tp_overall r) = Inr (tp_overall r)"

definition thresholds_ok :: "drift_thresholds \<Rightarrow> bool" where
  "thresholds_ok p \<longleftrightarrow> validate_drift_thresholds p = Inr p"

definition comparable :: "score_report \<Rightarrow> score_report \<Rightarrow> bool" where
  "comparable b c \<longleftrightarrow> tp_report_id b \<noteq> tp_report_id c \<and> tp_benchmark_id b = tp_benchmark_id c \<and> same_system (tp_system b) (tp_system c)
     \<and> set (map fst (tp_slices b)) = set (map fst (tp_slices c)) \<and> dt_us (tp_captured_at b) < dt_us (tp_captured_at c)"

lemma score_shape:
  assumes "score_ok A r"
  shows "matches_hex ''trajectory-report-'' 20 (tp_report_id r)" "matches_hex [] 64 (tp_report_sha256 r)" "name_id (tp_benchmark_id r)"
    "aware (tp_captured_at r)"
  using assms unfolding score_ok_def validate_score_def
  by (auto simp: guard_simps)

lemma summary_shape:
  assumes "score_ok A r"
  shows "list_all (in_range 0 1) [tm_strict_rate (tp_overall r), tm_end_to_end_rate (tp_overall r), tm_compliance_rate (tp_overall r),
      tm_evidence_rate (tp_overall r), tm_claim_rate (tp_overall r)]"
    "0 \<le> tm_p95_latency_ms (tp_overall r)" "in_range 1 64 (tm_p95_steps (tp_overall r))"
  using assms unfolding score_ok_def validate_trace_summary_def
  by (auto simp: guard_simps)

lemma limits_shape:
  assumes "thresholds_ok p"
  shows "list_all (in_range 0 1) [dp_strict_drop p, dp_end_to_end_drop p, dp_compliance_drop p, dp_inspection_drop p, dp_claim_drop p]"
    "list_all (in_range 0 10) [dp_latency_increase p, dp_step_increase p]"
  using assms unfolding thresholds_ok_def validate_drift_thresholds_def by (auto simp: guard_simps)

lemma rate_check_ok:
  "0 \<le> limit \<Longrightarrow> rate_check m b c limit = Inr \<lparr>dk_metric = m, dk_baseline = b, dk_current = c, dk_deterioration = Some (max 0 (fl (b - c))),
     dk_maximum = limit, dk_passed = within_limit (max 0 (fl (b - c))) limit,
     dk_comparison = ''baseline minus current must not exceed the maximum rate drop''\<rparr>"
  by (simp add: rate_check_def Let_def validate_drift_check_def guard_simps in_range_def)

definition increase_within :: "rat \<Rightarrow> rat \<Rightarrow> rat \<Rightarrow> bool" where
  "increase_within b c limit \<longleftrightarrow> (if 0 < b then within_limit (max 0 (fl (fl (c / b) - 1))) limit else c = 0)"

lemma within_zero: "0 \<le> limit \<Longrightarrow> within_limit 0 limit"
  by (simp add: within_limit_def fl_nonneg)

lemma increase_check_ok:
  "0 \<le> limit \<Longrightarrow> \<exists>d. relative_increase_check m b c limit = Inr \<lparr>dk_metric = m, dk_baseline = b, dk_current = c, dk_deterioration = d,
     dk_maximum = limit, dk_passed = increase_within b c limit, dk_comparison = ''current relative increase must not exceed the maximum''\<rparr>"
  by (simp add: relative_increase_check_def Let_def validate_drift_check_def guard_simps in_range_def increase_within_def within_zero)

definition checks_pass :: "drift_thresholds \<Rightarrow> trace_summary \<Rightarrow> trace_summary \<Rightarrow> bool" where
  "checks_pass p b c \<longleftrightarrow> within_limit (max 0 (fl (tm_strict_rate b - tm_strict_rate c))) (dp_strict_drop p)
     \<and> within_limit (max 0 (fl (tm_end_to_end_rate b - tm_end_to_end_rate c))) (dp_end_to_end_drop p)
     \<and> within_limit (max 0 (fl (tm_compliance_rate b - tm_compliance_rate c))) (dp_compliance_drop p)
     \<and> within_limit (max 0 (fl (tm_evidence_rate b - tm_evidence_rate c))) (dp_inspection_drop p)
     \<and> within_limit (max 0 (fl (tm_claim_rate b - tm_claim_rate c))) (dp_claim_drop p)
     \<and> increase_within (tm_p95_latency_ms b) (tm_p95_latency_ms c) (dp_latency_increase p)
     \<and> increase_within (tm_p95_steps b) (tm_p95_steps c) (dp_step_increase p)"

lemma drift_checks_ok:
  assumes "thresholds_ok p"
  obtains ks where "drift_checks b c p = Inr ks" "map dk_metric ks = drift_metrics" "failed_metrics ks = [] \<longleftrightarrow> checks_pass p b c"
proof -
  note l = limits_shape [OF assms, unfolded list.pred_inject in_range_def]
  obtain d e where k:
    "relative_increase_check P95LatencyRelativeIncrease (tm_p95_latency_ms b) (tm_p95_latency_ms c) (dp_latency_increase p) = Inr \<lparr>dk_metric = P95LatencyRelativeIncrease,
       dk_baseline = tm_p95_latency_ms b, dk_current = tm_p95_latency_ms c, dk_deterioration = d, dk_maximum = dp_latency_increase p,
       dk_passed = increase_within (tm_p95_latency_ms b) (tm_p95_latency_ms c) (dp_latency_increase p),
       dk_comparison = ''current relative increase must not exceed the maximum''\<rparr>"
    "relative_increase_check P95StepRelativeIncrease (tm_p95_steps b) (tm_p95_steps c) (dp_step_increase p) = Inr \<lparr>dk_metric = P95StepRelativeIncrease,
       dk_baseline = tm_p95_steps b, dk_current = tm_p95_steps c, dk_deterioration = e, dk_maximum = dp_step_increase p,
       dk_passed = increase_within (tm_p95_steps b) (tm_p95_steps c) (dp_step_increase p),
       dk_comparison = ''current relative increase must not exceed the maximum''\<rparr>"
    using increase_check_ok l by meson
  have "\<exists>ks. drift_checks b c p = Inr ks \<and> map dk_metric ks = drift_metrics \<and> (failed_metrics ks = [] \<longleftrightarrow> checks_pass p b c)"
    using l by (simp add: drift_checks_def drift_metrics_def failed_metrics_def checks_pass_def k rate_check_ok)
  then show ?thesis using that by blast
qed

lemma validate_drift_of:
  assumes A: "hex_digest (aa_sha256 A)" and b: "score_ok A b" and c: "score_ok A c" and ks: "map dk_metric ks = drift_metrics"
    and order: "dt_us (tp_captured_at b) < dt_us (tp_captured_at c)"
  shows "validate_drift_report A (drift_of A b c p stamp ks) = Inr (drift_of A b c p stamp ks)" (is "_ = Inr ?r")
proof -
  have h: "agent_trajectory_drift_sha256 A ?r = dr_sha256 ?r"
    by (simp add: agent_trajectory_drift_sha256_def drift_of_def Let_def)
  have id: "dr_id ?r = ''trajectory-drift-'' @ take 20 (dr_sha256 ?r)" by (simp add: drift_of_def Let_def)
  have shape: "matches_hex [] 64 (dr_sha256 ?r)" "matches_hex ''trajectory-drift-'' 20 (dr_id ?r)"
    unfolding id by (simp_all only: h [symmetric] agent_trajectory_drift_sha256_def digest_shapes [OF A])
  have len: "length ks = 7" using arg_cong [OF ks, of length] by (simp add: drift_metrics_def)
  have m: "map (metric_text \<circ> dk_metric) ks = map metric_text drift_metrics" unfolding ks [symmetric] by simp
  have st: "aware (utc (dt_us stamp))" by (simp add: aware_def utc_def)
  have parts: "dr_checks ?r = ks" "dr_failed ?r = failed_metrics ks" "dr_stable ?r = (failed_metrics ks = [])" "dr_generated_at ?r = utc (dt_us stamp)"
    "dr_benchmark_id ?r = tp_benchmark_id b" "dr_baseline_id ?r = tp_report_id b" "dr_baseline_sha256 ?r = tp_report_sha256 b" "dr_baseline_at ?r = tp_captured_at b"
    "dr_current_id ?r = tp_report_id c" "dr_current_sha256 ?r = tp_report_sha256 c" "dr_current_at ?r = tp_captured_at c"
    by (simp_all add: drift_of_def Let_def)
  show ?thesis unfolding validate_drift_report_def guard_simps parts m h id [symmetric]
    using shape len st order score_shape [OF b] score_shape [OF c] by simp
qed

lemma compare_ok:
  assumes A: "hex_digest (aa_sha256 A)" and b: "score_ok A b" and c: "score_ok A c" and p: "thresholds_ok p"
    and comparable: "comparable b c" and stamp: "aware (case generated of Some v \<Rightarrow> v | None \<Rightarrow> now)"
  obtains r where "compare_agent_trajectory_reports A b c (Some p) generated now = Inr r"
    "dr_stable r \<longleftrightarrow> checks_pass p (tp_overall b) (tp_overall c)" "dr_baseline_id r = tp_report_id b" "dr_current_id r = tp_report_id c"
proof -
  obtain ks where ks: "drift_checks (tp_overall b) (tp_overall c) p = Inr ks" "map dk_metric ks = drift_metrics"
      "failed_metrics ks = [] \<longleftrightarrow> checks_pass p (tp_overall b) (tp_overall c)"
    by (rule drift_checks_ok [OF p])
  have order: "dt_us (tp_captured_at b) < dt_us (tp_captured_at c)" using comparable by (simp add: comparable_def)
  show ?thesis
    by (rule that [of "drift_of A b c p (case generated of Some v \<Rightarrow> v | None \<Rightarrow> now) ks"])
      (use comparable stamp validate_drift_of [OF A b c ks(2) order] ks(1,3) in
        \<open>simp_all add: compare_agent_trajectory_reports_def comparable_def raise_first.simps Let_def drift_of_def\<close>)
qed

lemma compared:
  "compare_agent_trajectory_reports A b c thresholds generated now = Inr r \<Longrightarrow>
     comparable b c \<and> aware (case generated of Some v \<Rightarrow> v | None \<Rightarrow> now)"
  unfolding compare_agent_trajectory_reports_def comparable_def
  by (auto simp: rbind_eq_Inr guard_simps Let_def split: if_splits)

section \<open>How far a stable report lets a measurement fall\<close>

lemma fl_relative: "0 \<le> x \<Longrightarrow> \<bar>fl x - x\<bar> \<le> x / 2 ^ 53"
proof (cases "x = 0")
  case False
  assume "0 \<le> x"
  with False have x: "0 < x" by simp
  have "ulp x = 2 powi ilog2 x / 2 ^ 52" using x by (simp add: ulp_def power_int_diff)
  with ilog2_bounds(1) [OF x] have "ulp x \<le> x / 2 ^ 52" by (simp add: divide_right_mono)
  with fl_error [OF x] show ?thesis by simp
qed simp

lemma fl_near: "0 \<le> x \<Longrightarrow> x - x / 2 ^ 53 \<le> fl x" "0 \<le> x \<Longrightarrow> fl x \<le> x + x / 2 ^ 53"
  by (drule fl_relative, unfold abs_le_iff, linarith)+

lemma fl_epsilon: "1 / 10 ^ 12 - 1 / 10 ^ 27 \<le> fl (1 / 10 ^ 12)" "fl (1 / 10 ^ 12) \<le> 1 / 10 ^ 12 + 1 / 10 ^ 27"
  using fl_near [of "1 / 10 ^ 12"] by simp_all

lemma drop_passes: "0 \<le> limit \<Longrightarrow> x \<le> limit \<Longrightarrow> within_limit (max 0 (fl x)) limit"
proof -
  assume l: "0 \<le> limit" "x \<le> limit"
  have "x \<le> limit + fl (1 / 10 ^ 12)" using l(2) fl_epsilon(1) by simp
  then have "fl x \<le> fl (limit + fl (1 / 10 ^ 12))" by (rule fl_mono)
  moreover have "0 \<le> fl (limit + fl (1 / 10 ^ 12))" using l(1) by (intro fl_nonneg) (simp add: fl_nonneg)
  ultimately show ?thesis by (simp add: within_limit_def)
qed

lemma limit_bound: "0 \<le> limit \<Longrightarrow> limit \<le> 10 \<Longrightarrow> fl (limit + fl (1 / 10 ^ 12)) \<le> limit + 1 / 10 ^ 12 + 1 / 10 ^ 14"
proof -
  assume l: "0 \<le> limit" "limit \<le> 10"
  have "fl (limit + fl (1 / 10 ^ 12)) \<le> limit + fl (1 / 10 ^ 12) + (limit + fl (1 / 10 ^ 12)) / 2 ^ 53"
    using l(1) by (intro fl_near(2)) (simp add: fl_nonneg)
  with fl_epsilon(2) l(2) show ?thesis by (simp add: field_simps)
qed

lemma passed_drop:
  assumes "within_limit (max 0 (fl x)) limit" and "0 \<le> limit" "limit \<le> 10" and "x \<le> 12"
  shows "x \<le> limit + 2 / 10 ^ 12"
proof (cases "x \<le> 0")
  case False
  then have "x - x / 2 ^ 53 \<le> fl x" using fl_near(1) [of x] by simp
  moreover have "fl x \<le> limit + 1 / 10 ^ 12 + 1 / 10 ^ 14"
    using assms(1) limit_bound [OF assms(2,3)] by (simp add: within_limit_def)
  ultimately show ?thesis using assms(4) by simp
qed (use assms(2) in simp)

lemma increase_passes:
  assumes "0 \<le> b" "0 \<le> c" and "0 \<le> limit" "limit \<le> 10" and "c \<le> b * (1 + limit)"
  shows "increase_within b c limit"
proof (cases "b = 0")
  case False
  with assms(1) have b: "0 < b" by simp
  then have q: "0 \<le> c / b" "c / b \<le> 1 + limit" using assms by (simp_all add: divide_le_eq mult.commute)
  then have "fl (c / b) \<le> c / b + (c / b) / 2 ^ 53" using fl_near(2) [of "c / b"] by simp
  also have "\<dots> \<le> (1 + limit) + 11 / 2 ^ 53" using q assms(4) by simp
  finally have "fl (c / b) - 1 \<le> limit + fl (1 / 10 ^ 12)" using fl_epsilon(1) by simp
  then have "fl (fl (c / b) - 1) \<le> fl (limit + fl (1 / 10 ^ 12))" by (rule fl_mono)
  moreover have "0 \<le> fl (limit + fl (1 / 10 ^ 12))" using assms(3) by (intro fl_nonneg) (simp add: fl_nonneg)
  ultimately show ?thesis using b by (simp add: increase_within_def within_limit_def)
qed (use assms in \<open>simp add: increase_within_def\<close>)

lemma passed_increase:
  assumes "increase_within b c limit" and "0 \<le> b" "0 \<le> c" and "0 \<le> limit" "limit \<le> 10"
  shows "c \<le> b * (1 + limit + 2 / 10 ^ 12)"
proof (cases "b = 0")
  case False
  with assms(2) have b: "0 < b" by simp
  let ?x = "fl (c / b) - 1"
  have q: "0 \<le> c / b" using assms(3) b by simp
  have r: "c / b - (c / b) / 2 ^ 53 \<le> fl (c / b)" by (rule fl_near(1) [OF q])
  have x: "?x \<le> limit + 1 / 10 ^ 12 + 1 / 10 ^ 13"
  proof (cases "?x \<le> 0")
    case False
    then have e: "?x - ?x / 2 ^ 53 \<le> fl ?x" by (intro fl_near(1)) simp
    have "fl ?x \<le> limit + 1 / 10 ^ 12 + 1 / 10 ^ 14"
      using assms(1) b limit_bound [OF assms(4,5)] by (simp add: increase_within_def within_limit_def)
    with e assms(5) show ?thesis by (simp add: field_simps)
  qed (use assms(4) in simp)
  have "c / b \<le> 1 + limit + 2 / 10 ^ 12" using r x assms(5) by simp
  then show ?thesis using b by (simp add: divide_le_eq mult.commute)
qed (use assms in \<open>simp add: increase_within_def\<close>)

text \<open>No rate falls, and no 95th percentile grows, by more than the thresholds and a slack.\<close>

definition deteriorates_within :: "drift_thresholds \<Rightarrow> rat \<Rightarrow> trace_summary \<Rightarrow> trace_summary \<Rightarrow> bool" where
  "deteriorates_within p slack b c \<longleftrightarrow> tm_strict_rate b - tm_strict_rate c \<le> dp_strict_drop p + slack
     \<and> tm_end_to_end_rate b - tm_end_to_end_rate c \<le> dp_end_to_end_drop p + slack
     \<and> tm_compliance_rate b - tm_compliance_rate c \<le> dp_compliance_drop p + slack
     \<and> tm_evidence_rate b - tm_evidence_rate c \<le> dp_inspection_drop p + slack
     \<and> tm_claim_rate b - tm_claim_rate c \<le> dp_claim_drop p + slack
     \<and> tm_p95_latency_ms c \<le> tm_p95_latency_ms b * (1 + dp_latency_increase p + slack)
     \<and> tm_p95_steps c \<le> tm_p95_steps b * (1 + dp_step_increase p + slack)"

lemma checks_sandwich:
  assumes "score_ok A b" and "score_ok A c" and "thresholds_ok p"
  shows "deteriorates_within p 0 (tp_overall b) (tp_overall c) \<Longrightarrow> checks_pass p (tp_overall b) (tp_overall c)"
    and "checks_pass p (tp_overall b) (tp_overall c) \<Longrightarrow> deteriorates_within p (2 / 10 ^ 12) (tp_overall b) (tp_overall c)"
proof -
  note l = limits_shape [OF assms(3), unfolded list.pred_inject in_range_def]
  note m = summary_shape [OF assms(1), unfolded list.pred_inject in_range_def] summary_shape [OF assms(2), unfolded list.pred_inject in_range_def]
  show "checks_pass p (tp_overall b) (tp_overall c)" if "deteriorates_within p 0 (tp_overall b) (tp_overall c)"
    using that l m unfolding checks_pass_def deteriorates_within_def by (intro conjI drop_passes increase_passes) simp_all
  show "deteriorates_within p (2 / 10 ^ 12) (tp_overall b) (tp_overall c)" if "checks_pass p (tp_overall b) (tp_overall c)"
    using that l m unfolding checks_pass_def deteriorates_within_def by (intro conjI passed_drop passed_increase) simp_all
qed

text \<open>C5. Two score reports are compared exactly when they are distinct reports of one benchmark and candidate with the
same slices, in strictly increasing capture order, at an aware time. The report is stable whenever no measurement
really deteriorated beyond its threshold, and in a stable report none did by more than 2e-12 beyond it, in spite of
the float arithmetic and its tolerance.\<close>

theorem drift_comparison_exact:
  assumes "hex_digest (aa_sha256 A)" and "score_ok A b" and "score_ok A c" and "thresholds_ok p"
  shows "((\<exists>r. compare_agent_trajectory_reports A b c (Some p) generated now = Inr r)
      \<longleftrightarrow> comparable b c \<and> aware (case generated of Some v \<Rightarrow> v | None \<Rightarrow> now))
    \<and> (\<forall>r. compare_agent_trajectory_reports A b c (Some p) generated now = Inr r \<longrightarrow>
        (deteriorates_within p 0 (tp_overall b) (tp_overall c) \<longrightarrow> dr_stable r)
        \<and> (dr_stable r \<longrightarrow> deteriorates_within p (2 / 10 ^ 12) (tp_overall b) (tp_overall c)))"
proof (intro conjI allI iffI)
  show "\<exists>r. compare_agent_trajectory_reports A b c (Some p) generated now = Inr r"
    if "comparable b c \<and> aware (case generated of Some v \<Rightarrow> v | None \<Rightarrow> now)"
    using compare_ok [OF assms] that by blast
next
  fix r
  show "compare_agent_trajectory_reports A b c (Some p) generated now = Inr r \<longrightarrow>
      (deteriorates_within p 0 (tp_overall b) (tp_overall c) \<longrightarrow> dr_stable r)
      \<and> (dr_stable r \<longrightarrow> deteriorates_within p (2 / 10 ^ 12) (tp_overall b) (tp_overall c))"
  proof
    assume r: "compare_agent_trajectory_reports A b c (Some p) generated now = Inr r"
    obtain r' where "compare_agent_trajectory_reports A b c (Some p) generated now = Inr r'"
        "dr_stable r' \<longleftrightarrow> checks_pass p (tp_overall b) (tp_overall c)"
      using compare_ok [OF assms] compared [OF r] by blast
    with r checks_sandwich [OF assms(2-4)] show "(deteriorates_within p 0 (tp_overall b) (tp_overall c) \<longrightarrow> dr_stable r)
        \<and> (dr_stable r \<longrightarrow> deteriorates_within p (2 / 10 ^ 12) (tp_overall b) (tp_overall c))" by simp
  qed
qed (use compared in blast)+

section \<open>Two sample captures\<close>

definition later_digest :: string where
  "later_digest = replicate 64 (CHR ''b'')"

definition capture_digest :: "bool \<Rightarrow> string" where
  "capture_digest later = (if later then later_digest else sample_digest)"

definition capture_id :: "string \<Rightarrow> bool \<Rightarrow> string" where
  "capture_id p later = p @ take 20 (capture_digest later)"

lemma capture_hex [simp]: "matches_hex [] 64 later_digest" "matches_hex [] 64 (capture_digest later)" "matches_hex p 20 (capture_id p later)"
proof -
  show l: "matches_hex [] 64 later_digest" by code_simp
  show "matches_hex [] 64 (capture_digest later)" using l by (simp add: capture_digest_def)
  show "matches_hex p 20 (capture_id p later)"
    by (simp add: capture_id_def capture_digest_def matches_hex_append sample_digest_def later_digest_def hex_digits_def list_all_iff)
qed

definition drift_sample_sha :: "string \<Rightarrow> string" where
  "drift_sample_sha s = (if s = ''null'' then sample_digest else later_digest)"

definition drift_sample_api :: drift_api where
  "drift_sample_api = \<lparr>aa_sha256 = drift_sample_sha, aa_float = (\<lambda>_. ''0.0''), aa_casefold = (\<lambda>s. s), aa_dump_case = (\<lambda>_. JNull),
     aa_dump_task = (\<lambda>_. JNull), aa_dump_response = (\<lambda>_. JNull), aa_dump_batch = (\<lambda>_. JNull), aa_sum = sum_list,
     aa_dump_review = (\<lambda>_. JNull), aa_dump_report = (\<lambda>_. JNull), aa_read_csv = (\<lambda>_. []), aa_write_csv = concat \<circ> map concat,
     ta_dump_batch = (\<lambda>_. JNull), sa_dump_score = (\<lambda>r. if dt_us (tp_captured_at r) = 0 then JNull else JBool False), va_dump_drift = (\<lambda>_. JNull)\<rparr>"

definition sample_trace_outcome :: trace_outcome where
  "sample_trace_outcome = \<lparr>to_case_id = sample_id ''answer-case-'' 20, to_query_id = ''quakes-today'', to_status = Answered, to_step_count = 3,
     to_inspected = 1, to_required = 1, to_traced = 1, to_claims = 1, to_evidence_rate = 1, to_claim_rate = 1, to_compliant = True,
     to_terminated = True, to_strict = True, to_grounded = True, to_end_to_end = True, to_input_tokens = 200, to_output_tokens = 20, to_latency_ms = 35\<rparr>"

definition sample_trace_summary :: trace_summary where
  "sample_trace_summary = \<lparr>tm_case_count = 1, tm_answered_count = 1, tm_abstained_count = 0, tm_compliance_rate = 1, tm_termination_rate = 1,
     tm_evidence_rate = 1, tm_claim_rate = 1, tm_strict_rate = 1, tm_grounded_rate = 1, tm_end_to_end_rate = 1, tm_mean_steps = 3, tm_p95_steps = 3,
     tm_mean_input_tokens = 200, tm_mean_output_tokens = 20, tm_mean_latency_ms = 35, tm_p95_latency_ms = 35\<rparr>"

text \<open>Two captures, an hour apart, of the same observations.\<close>

definition sample_score :: "bool \<Rightarrow> score_report" where
  "sample_score later =
     \<lparr>tp_report_id = capture_id ''trajectory-report-'' later, tp_report_sha256 = capture_digest later, tp_generated_at = sample_time,
      tp_benchmark_id = ''seismic-v1'', tp_captured_at = utc (if later then 3600000000 else 0), tp_task_id = sample_id ''grounded-task-'' 20,
      tp_task_sha256 = sample_digest, tp_batch_id = sample_id ''grounded-batch-'' 20, tp_batch_sha256 = sample_digest,
      tp_grounded_id = capture_id ''grounded-report-'' later, tp_grounded_sha256 = capture_digest later,
      tp_trajectory_id = sample_id ''trajectory-batch-'' 20, tp_trajectory_sha256 = sample_digest, tp_system = sample_system, tp_case_count = 1,
      tp_overall = sample_trace_summary, tp_slices = [], tp_outcomes = [sample_trace_outcome]\<rparr>"

text \<open>What the samples use of the arguments.\<close>

definition capture_like :: "('a) drift_api_scheme \<Rightarrow> bool" where
  "capture_like A \<longleftrightarrow> aa_sha256 A = drift_sample_sha \<and> (\<forall>s. aa_casefold A s = s) \<and> aa_sum A = sum_list
     \<and> sa_dump_score A = sa_dump_score drift_sample_api"

lemma drift_sample_like: "capture_like drift_sample_api"
  by (simp add: capture_like_def drift_sample_api_def)

lemma sample_trace_summary_of:
  assumes "capture_like A"
  shows "trace_summary_of A [sample_trace_outcome] = Inr sample_trace_summary"
proof -
  have "trace_summary_of A [sample_trace_outcome] = trace_summary_of drift_sample_api [sample_trace_outcome]"
    using assms by (simp add: trace_summary_of_def capture_like_def drift_sample_api_def)
  also have "\<dots> = Inr sample_trace_summary" by code_simp
  finally show ?thesis .
qed

lemma sample_trace_summary_ok: "validate_trace_summary sample_trace_summary = Inr sample_trace_summary"
  by code_simp

lemma sample_score_ok:
  assumes A: "capture_like A"
  shows "score_ok A (sample_score later)"
proof -
  have n: "name_id ''seismic-v1''" by code_simp
  have h: "agent_trajectory_report_sha256 A (sample_score later) = capture_digest later"
    using A by (simp add: capture_like_def agent_trajectory_report_sha256_def canonical_sha256_def drift_sample_api_def drift_sample_sha_def sample_score_def utc_def capture_digest_def)
  show ?thesis unfolding score_ok_def validate_score_def h capture_id_def [symmetric]
    using n sample_trace_summary_ok sample_trace_summary_of [OF A]
    by (simp add: guard_simps sample_score_def sample_time_def aware_def utc_def sorted_set_def)
      (simp add: sample_trace_summary_def sample_trace_outcome_def)
qed

lemma default_thresholds_ok: "thresholds_ok default_drift_thresholds"
  unfolding thresholds_ok_def by code_simp

lemma drift_digest: "capture_like A \<Longrightarrow> hex_digest (aa_sha256 A)"
  by (simp add: hex_digest_def capture_like_def drift_sample_sha_def)

lemma sample_comparable: "comparable (sample_score False) (sample_score True)"
  by (simp add: comparable_def sample_score_def utc_def capture_id_def capture_digest_def sample_digest_def later_digest_def)

theorem drift_comparison_exact_witness:
  "\<exists>r. compare_agent_trajectory_reports drift_sample_api (sample_score False) (sample_score True) (Some default_drift_thresholds) None sample_time = Inr r
     \<and> dr_stable r"
proof -
  have w: "deteriorates_within default_drift_thresholds 0 sample_trace_summary sample_trace_summary" by code_simp
  have p: "tp_overall (sample_score later) = sample_trace_summary" for later by (simp add: sample_score_def)
  have a: "aware (case None of Some v \<Rightarrow> v | None \<Rightarrow> sample_time)" by (simp add: sample_time_def aware_def)
  show ?thesis
    using drift_comparison_exact [OF drift_digest [OF drift_sample_like] sample_score_ok [OF drift_sample_like] sample_score_ok [OF drift_sample_like] default_thresholds_ok, of False True None sample_time]
      sample_comparable w a unfolding p by blast
qed

end
