(* ===== verification/Release.thy ===== *)
theory Release
  imports Drift AgentRun
begin

text \<open>
  Release thresholds (\<open>agent_trajectory/release.py\<close>): relationship, grounded-answer, trajectory and drift evidence
  of one candidate is assessed against a content-addressed policy in 22 gates. The lemmas show when an
  assessment is returned, that it is eligible exactly when every measurement meets the policy, and that the
  agent run (\<open>AgentRun\<close>) accepts the observation made of it. Of the relationship comparison report the model
  has the fields the assessment reads and its JSON dump.
\<close>

section \<open>Numbers in text\<close>

text \<open>\<open>f"{x:.nf}"\<close>: the value rounded to \<open>n\<close> decimal places, half to even.\<close>

definition fixed_text :: "nat \<Rightarrow> rat \<Rightarrow> string" where
  "fixed_text n x = (let q = nat (round_half_even (\<bar>x\<bar> * 10 ^ n)) in
     (if x < 0 then ''-'' else []) @ nat_dec (q div 10 ^ n) @ ''.'' @ digits n (q mod 10 ^ n))"

definition number_text :: "rat option \<Rightarrow> string" where
  "number_text v = (case v of None \<Rightarrow> ''unavailable'' | Some x \<Rightarrow> fixed_text 6 x)"

section \<open>The policy\<close>

record release_policy =
  rq_id :: string
  rq_sha256 :: string
  rq_min_relationship_cases :: int
  rq_min_macro_f1 :: rat
  rq_min_accuracy_delta :: rat
  rq_max_regression_rate :: rat
  rq_min_captures :: int
  rq_min_total_cases :: int
  rq_min_capture_cases :: int
  rq_min_answered_rate :: rat
  rq_min_grounded_pass :: rat
  rq_max_unsupported :: rat
  rq_min_citations :: rat
  rq_min_compliance :: rat
  rq_min_inspection :: rat
  rq_min_claim_trace :: rat
  rq_min_strict :: rat
  rq_min_end_to_end :: rat
  rq_max_p95_steps :: rat
  rq_max_p95_latency :: rat
  rq_drift :: drift_thresholds

record release_gate =
  lg_id :: string
  lg_passed :: bool
  lg_observed :: string
  lg_required :: string
  lg_reason :: "string option"

record relationship_evidence =
  qe_report_id :: string
  qe_report_sha256 :: string
  qe_candidate_id :: string
  qe_case_count :: int
  qe_macro_f1 :: "rat option"
  qe_accuracy_delta :: rat
  qe_regression_rate :: rat

record trajectory_evidence =
  we_report_id :: string
  we_report_sha256 :: string
  we_task_id :: string
  we_grounded_id :: string
  we_grounded_sha256 :: string
  we_captured_at :: datetime
  we_case_count :: int

record drift_evidence =
  xe_drift_id :: string
  xe_drift_sha256 :: string
  xe_baseline_id :: string
  xe_current_id :: string
  xe_stable :: bool

record assessment =
  rl_id :: string
  rl_sha256 :: string
  rl_generated_at :: datetime
  rl_policy :: release_policy
  rl_agent_system :: candidate_system
  rl_relationship_system :: candidate_system
  rl_relationship :: relationship_evidence
  rl_trajectories :: "trajectory_evidence list"
  rl_drifts :: "drift_evidence list"
  rl_gate_count :: int
  rl_passed_count :: int
  rl_blocked_count :: int
  rl_blocking_reasons :: "string list"
  rl_gates :: "release_gate list"
  rl_eligible :: bool

text \<open>What an assessment reads of a \<open>RelationshipCandidateComparisonReport\<close>.\<close>

record relationship_report =
  rn_report_id :: string
  rn_case_count :: int
  rn_candidate :: candidate_system
  rn_macro_f1 :: "rat option"
  rn_accuracy_delta :: rat
  rn_regressions :: int
  rn_dump :: json

record release_api = drift_api +
  ea_dump_policy :: "release_policy \<Rightarrow> json"
  ea_dump_assessment :: "assessment \<Rightarrow> json"

definition agent_release_policy_sha256 :: "('a) release_api_scheme \<Rightarrow> release_policy \<Rightarrow> string" where
  "agent_release_policy_sha256 A p = canonical_sha256 A (ea_dump_policy A (p\<lparr>rq_id := [], rq_sha256 := []\<rparr>))"

definition validate_release_policy :: "('a) release_api_scheme \<Rightarrow> release_policy \<Rightarrow> release_policy res" where
  "validate_release_policy A p = raise_first
     [(\<not> (matches_hex ''release-policy-'' 20 (rq_id p) \<and> matches_hex [] 64 (rq_sha256 p) \<and> 1 \<le> rq_min_relationship_cases p
        \<and> in_range 0 1 (rq_min_macro_f1 p) \<and> in_range (- 1) 1 (rq_min_accuracy_delta p) \<and> in_range 0 1 (rq_max_regression_rate p)
        \<and> in_range 2 100 (rq_min_captures p) \<and> 2 \<le> rq_min_total_cases p \<and> 1 \<le> rq_min_capture_cases p
        \<and> list_all (in_range 0 1) [rq_min_answered_rate p, rq_min_grounded_pass p, rq_max_unsupported p, rq_min_citations p, rq_min_compliance p,
             rq_min_inspection p, rq_min_claim_trace p, rq_min_strict p, rq_min_end_to_end p]
        \<and> in_range 1 64 (rq_max_p95_steps p) \<and> 0 \<le> rq_max_p95_latency p), ''AgentReleaseThresholdPolicy fields''),
      (rq_min_total_cases p < rq_min_captures p * rq_min_capture_cases p,
        ''total trajectory case floor must cover the minimum capture count and size''),
      (rq_sha256 p \<noteq> agent_release_policy_sha256 A p, ''release policy SHA-256 must match exact thresholds''),
      (rq_id p \<noteq> ''release-policy-'' @ take 20 (agent_release_policy_sha256 A p), ''release policy ID must match its SHA-256'')] p"

definition sealed_policy :: "('a) release_api_scheme \<Rightarrow> release_policy \<Rightarrow> release_policy" where
  "sealed_policy A p = (let digest = agent_release_policy_sha256 A p in p\<lparr>rq_id := ''release-policy-'' @ take 20 digest, rq_sha256 := digest\<rparr>)"

definition default_policy :: release_policy where
  "default_policy = \<lparr>rq_id = [], rq_sha256 = [], rq_min_relationship_cases = 30, rq_min_macro_f1 = fl (80 / 100), rq_min_accuracy_delta = 0,
     rq_max_regression_rate = fl (5 / 100), rq_min_captures = 3, rq_min_total_cases = 30, rq_min_capture_cases = 10, rq_min_answered_rate = 1 / 4,
     rq_min_grounded_pass = fl (90 / 100), rq_max_unsupported = fl (2 / 100), rq_min_citations = fl (98 / 100), rq_min_compliance = 1,
     rq_min_inspection = 1, rq_min_claim_trace = 1, rq_min_strict = 1, rq_min_end_to_end = fl (90 / 100), rq_max_p95_steps = 12,
     rq_max_p95_latency = 15000, rq_drift = default_drift_thresholds\<rparr>"

definition build_default_agent_release_policy :: "('a) release_api_scheme \<Rightarrow> release_policy res" where
  "build_default_agent_release_policy A = validate_release_policy A (sealed_policy A default_policy)"

section \<open>Gates and evidence\<close>

definition release_gate_ids :: "string list" where
  "release_gate_ids = [''agent_candidate_identity'', ''relationship_sample_size'', ''relationship_macro_f1'', ''relationship_accuracy_delta'',
     ''relationship_regression_rate'', ''trajectory_capture_count'', ''trajectory_total_cases'', ''trajectory_capture_sample_size'',
     ''grounded_review_adjudication'', ''grounded_answer_coverage'', ''grounded_strict_pass'', ''grounded_unsupported_claims'',
     ''grounded_complete_citations'', ''trajectory_policy_compliance'', ''trajectory_evidence_inspection'', ''trajectory_claim_trace'',
     ''trajectory_strict_pass'', ''trajectory_end_to_end_pass'', ''trajectory_step_budget'', ''trajectory_latency_budget'',
     ''trajectory_drift_chain'', ''trajectory_drift_stability'']"

definition machine_reason :: "string \<Rightarrow> bool" where
  "machine_reason s \<longleftrightarrow> s \<noteq> [] \<and> list_all (\<lambda>c. alnum_lower c \<or> c = CHR ''_'') s"

definition validate_gate :: "release_gate \<Rightarrow> release_gate res" where
  "validate_gate g = raise_first
     [(\<not> (lg_id g \<in> set release_gate_ids \<and> in_range 1 300 (length (lg_observed g)) \<and> in_range 1 300 (length (lg_required g))
        \<and> if_some machine_reason (lg_reason g)), ''AgentReleaseGate fields''),
      (lg_passed g = (lg_reason g \<noteq> None), ''only failed release gates require a blocking reason'')] g"

definition release_gate_of :: "string \<Rightarrow> bool \<Rightarrow> string \<Rightarrow> string \<Rightarrow> string \<Rightarrow> release_gate" where
  "release_gate_of gate_id passed observed required reason = \<lparr>lg_id = gate_id, lg_passed = passed, lg_observed = observed,
     lg_required = required, lg_reason = (if passed then None else Some reason)\<rparr>"

definition gate :: "string \<Rightarrow> bool \<Rightarrow> string \<Rightarrow> string \<Rightarrow> string \<Rightarrow> release_gate res" where
  "gate gate_id passed observed required reason = validate_gate (release_gate_of gate_id passed observed required reason)"

definition validate_relationship_evidence :: "relationship_evidence \<Rightarrow> relationship_evidence res" where
  "validate_relationship_evidence e = raise_first
     [(\<not> (in_range 1 240 (length (qe_report_id e)) \<and> matches_hex [] 64 (qe_report_sha256 e) \<and> name_id (qe_candidate_id e) \<and> 1 \<le> qe_case_count e
        \<and> if_some (in_range 0 1) (qe_macro_f1 e) \<and> in_range (- 1) 1 (qe_accuracy_delta e) \<and> in_range 0 1 (qe_regression_rate e)),
       ''RelationshipReleaseEvidence fields'')] e"

definition validate_trajectory_evidence :: "trajectory_evidence \<Rightarrow> trajectory_evidence res" where
  "validate_trajectory_evidence e = raise_first
     [(\<not> (matches_hex ''trajectory-report-'' 20 (we_report_id e) \<and> matches_hex [] 64 (we_report_sha256 e)
        \<and> matches_hex ''grounded-task-'' 20 (we_task_id e) \<and> matches_hex ''grounded-report-'' 20 (we_grounded_id e)
        \<and> matches_hex [] 64 (we_grounded_sha256 e) \<and> 1 \<le> we_case_count e), ''TrajectoryReleaseEvidence fields''),
      (\<not> aware (we_captured_at e), ''trajectory release evidence capture must be timezone-aware'')] e"

definition validate_drift_evidence :: "drift_evidence \<Rightarrow> drift_evidence res" where
  "validate_drift_evidence e = raise_first
     [(\<not> (matches_hex ''trajectory-drift-'' 20 (xe_drift_id e) \<and> matches_hex [] 64 (xe_drift_sha256 e)
        \<and> matches_hex ''trajectory-report-'' 20 (xe_baseline_id e) \<and> matches_hex ''trajectory-report-'' 20 (xe_current_id e)),
       ''DriftReleaseEvidence fields'')] e"

definition agent_release_assessment_sha256 :: "('a) release_api_scheme \<Rightarrow> assessment \<Rightarrow> string" where
  "agent_release_assessment_sha256 A a = canonical_sha256 A (ea_dump_assessment A (a\<lparr>rl_id := [], rl_sha256 := []\<rparr>))"

text \<open>Consecutive pairs, and the reasons of the gates that block.\<close>

definition consecutive :: "'b list \<Rightarrow> ('b \<times> 'b) list" where
  "consecutive xs = zip xs (tl xs)"

definition blocked_gates :: "release_gate list \<Rightarrow> release_gate list" where
  "blocked_gates gs = filter (\<lambda>g. \<not> lg_passed g) gs"

definition blocking_reasons :: "release_gate list \<Rightarrow> string list" where
  "blocking_reasons gs = map the (filter (\<lambda>r. r \<noteq> None) (map lg_reason (blocked_gates gs)))"

definition gate_passed :: "release_gate list \<Rightarrow> string \<Rightarrow> bool" where
  "gate_passed gs k = lg_passed (the (dict_by lg_id gs k))"

definition validate_assessment :: "('a) release_api_scheme \<Rightarrow> assessment \<Rightarrow> assessment res" where
  "validate_assessment A a = (let gs = rl_gates a; times = map (\<lambda>e. dt_us (we_captured_at e)) (rl_trajectories a);
       pairs = map (\<lambda>d. (xe_baseline_id d, xe_current_id d)) (rl_drifts a) in raise_first
     [(\<not> (matches_hex ''release-assessment-'' 20 (rl_id a) \<and> matches_hex [] 64 (rl_sha256 a) \<and> in_range 1 100 (length (rl_trajectories a))
        \<and> length (rl_drifts a) \<le> 99 \<and> 1 \<le> rl_gate_count a \<and> 0 \<le> rl_passed_count a \<and> 0 \<le> rl_blocked_count a \<and> gs \<noteq> []),
       ''AgentReleaseAssessment fields''),
      (\<not> aware (rl_generated_at a), ''release assessment generated_at must be timezone-aware''),
      (rl_gate_count a \<noteq> int (length gs), ''release gate_count must match gates''),
      (map lg_id gs \<noteq> release_gate_ids, ''release gates must contain every policy gate in canonical order''),
      (rl_passed_count a \<noteq> int (length (filter lg_passed gs)) \<or> rl_blocked_count a \<noteq> int (length (blocked_gates gs)),
        ''release gate counts must match gate outcomes''),
      (rl_blocking_reasons a \<noteq> blocking_reasons gs, ''release blocking reasons must match failed gates''),
      (rl_eligible a \<noteq> (blocked_gates gs = []), ''release status must match gate outcomes''),
      (times \<noteq> sort times \<or> \<not> distinct times, ''trajectory release evidence must be strictly chronological''),
      (\<not> distinct (map we_report_id (rl_trajectories a)), ''trajectory release evidence reports must be unique''),
      (\<not> distinct pairs, ''release drift evidence pairs must be unique''),
      (gate_passed gs ''trajectory_drift_chain'' \<and> pairs \<noteq> consecutive (map we_report_id (rl_trajectories a)),
        ''passing release drift-chain gate requires consecutive evidence''),
      (gate_passed gs ''trajectory_drift_stability'' \<noteq> (gate_passed gs ''trajectory_drift_chain'' \<and> list_all xe_stable (rl_drifts a)),
        ''release drift-stability gate must match exact drift evidence''),
      (rl_sha256 a \<noteq> agent_release_assessment_sha256 A a, ''release assessment SHA-256 must match exact evidence and gates''),
      (rl_id a \<noteq> ''release-assessment-'' @ take 20 (agent_release_assessment_sha256 A a), ''release assessment ID must match its SHA-256'')] a)"

section \<open>The assessment\<close>

definition minimum_of :: "rat option list \<Rightarrow> rat option" where
  "minimum_of xs = (if xs = [] \<or> None \<in> set xs then None else Some (Min (set (map the xs))))"

definition maximum_of :: "rat option list \<Rightarrow> rat option" where
  "maximum_of xs = (if xs = [] \<or> None \<in> set xs then None else Some (Max (set (map the xs))))"

definition by_capture :: "score_report list \<Rightarrow> score_report list" where
  "by_capture ts = sort_key (\<lambda>t. dt_us (tp_captured_at t)) ts"

text \<open>The grounded report a trajectory report is bound to.\<close>

definition bound_grounded :: "(string \<rightharpoonup> evaluation_report) \<Rightarrow> score_report \<Rightarrow> evaluation_report res" where
  "bound_grounded reports t = (case reports (tp_grounded_id t) of
     None \<Rightarrow> Inl (ValueError ''missing grounded report bound by trajectory'')
   | Some g \<Rightarrow> if er_report_sha256 g \<noteq> tp_grounded_sha256 t \<or> er_task_id g \<noteq> tp_task_id t \<or> er_task_sha256 g \<noteq> tp_task_sha256 t
         \<or> er_batch_id g \<noteq> tp_batch_id t \<or> er_batch_sha256 g \<noteq> tp_batch_sha256 t
       then Inl (ValueError ''trajectory report does not match its exact grounded report'') else Inr g)"

text \<open>Equality of drift reports: datetimes are equal as instants.\<close>

definition same_drift :: "drift_report \<Rightarrow> drift_report \<Rightarrow> bool" where
  "same_drift d e \<longleftrightarrow> d\<lparr>dr_generated_at := dr_generated_at e, dr_baseline_at := dr_baseline_at e, dr_current_at := dr_current_at e,
       dr_system := dr_system e\<rparr> = e
     \<and> dt_us (dr_generated_at d) = dt_us (dr_generated_at e) \<and> dt_us (dr_baseline_at d) = dt_us (dr_baseline_at e)
     \<and> dt_us (dr_current_at d) = dt_us (dr_current_at e) \<and> same_system (dr_system d) (dr_system e)"

definition drift_pair :: "drift_report \<Rightarrow> string \<times> string" where
  "drift_pair d = (dr_baseline_id d, dr_current_id d)"

text \<open>Every error of a comparison is a \<open>ValueError\<close>, which the code catches.\<close>

definition drift_matches :: "('a) drift_api_scheme \<Rightarrow> drift_thresholds \<Rightarrow> score_report list \<Rightarrow> drift_report list \<Rightarrow> datetime \<Rightarrow> string \<times> string \<Rightarrow> bool" where
  "drift_matches A limits ordered drifts now pair = (case dict_by drift_pair drifts pair of None \<Rightarrow> False
   | Some supplied \<Rightarrow> (case compare_agent_trajectory_reports A (the (dict_by tp_report_id ordered (fst pair))) (the (dict_by tp_report_id ordered (snd pair)))
         (Some limits) (Some (dr_generated_at supplied)) now of Inl _ \<Rightarrow> False | Inr expected \<Rightarrow> same_drift supplied expected))"

definition drift_chain_complete :: "('a) drift_api_scheme \<Rightarrow> drift_thresholds \<Rightarrow> score_report list \<Rightarrow> drift_report list \<Rightarrow> datetime \<Rightarrow> bool" where
  "drift_chain_complete A limits ordered drifts now \<longleftrightarrow> distinct (map drift_pair drifts)
     \<and> set (map drift_pair drifts) = set (consecutive (map tp_report_id ordered))
     \<and> list_all (drift_matches A limits ordered drifts now) (consecutive (map tp_report_id ordered))"

definition drift_chain_stable :: "('a) drift_api_scheme \<Rightarrow> drift_thresholds \<Rightarrow> score_report list \<Rightarrow> drift_report list \<Rightarrow> datetime \<Rightarrow> bool" where
  "drift_chain_stable A limits ordered drifts now \<longleftrightarrow> drift_chain_complete A limits ordered drifts now
     \<and> list_all (\<lambda>k. dr_stable (the (dict_by drift_pair drifts k))) (consecutive (map tp_report_id ordered))"

definition systems_stable :: "score_report list \<Rightarrow> evaluation_report list \<Rightarrow> bool" where
  "systems_stable ordered grounded \<longleftrightarrow> list_all (\<lambda>t. same_system (tp_system t) (tp_system (hd ordered))) ordered
     \<and> list_all (\<lambda>g. same_system (er_system g) (tp_system (hd ordered))) grounded
     \<and> list_all (\<lambda>t. tp_benchmark_id t = tp_benchmark_id (hd ordered)) ordered"

definition regression_rate :: "relationship_report \<Rightarrow> rat" where
  "regression_rate r = fl (of_int (rn_regressions r) / of_int (rn_case_count r))"

definition answered_rate :: "evaluation_report list \<Rightarrow> rat" where
  "answered_rate gs = fl (of_int (sum_list (map (\<lambda>g. ms_answered_case_count (er_overall g)) gs)) / of_int (sum_list (map (\<lambda>g. ms_case_count (er_overall g)) gs)))"

definition lowest :: "('b \<Rightarrow> 'c::linorder) \<Rightarrow> 'b list \<Rightarrow> 'c" where
  "lowest f xs = Min (set (map f xs))"

definition highest :: "('b \<Rightarrow> 'c::linorder) \<Rightarrow> 'b list \<Rightarrow> 'c" where
  "highest f xs = Max (set (map f xs))"

text \<open>A gate on the lowest rate of the captures.\<close>

definition rate_gate :: "string \<Rightarrow> rat \<Rightarrow> rat \<Rightarrow> string \<Rightarrow> release_gate res" where
  "rate_gate gate_id observed required reason = gate gate_id (required \<le> observed) (fixed_text 6 observed)
     (''>='' @ fixed_text 6 required @ '' in every capture'') reason"

definition relationship_gates :: "release_policy \<Rightarrow> relationship_report \<Rightarrow> release_gate res list" where
  "relationship_gates p r =
    [gate ''relationship_sample_size'' (rq_min_relationship_cases p \<le> rn_case_count r) (int_text (rn_case_count r))
       (''>='' @ int_text (rq_min_relationship_cases p) @ '' cases'') ''relationship_sample_too_small'',
     gate ''relationship_macro_f1'' (rn_macro_f1 r \<noteq> None \<and> rq_min_macro_f1 p \<le> the (rn_macro_f1 r)) (number_text (rn_macro_f1 r))
       (''>='' @ fixed_text 6 (rq_min_macro_f1 p)) ''relationship_macro_f1_below_threshold'',
     gate ''relationship_accuracy_delta'' (rq_min_accuracy_delta p \<le> rn_accuracy_delta r) (fixed_text 6 (rn_accuracy_delta r))
       (''>='' @ fixed_text 6 (rq_min_accuracy_delta p)) ''relationship_accuracy_regressed'',
     gate ''relationship_regression_rate'' (regression_rate r \<le> rq_max_regression_rate p) (fixed_text 6 (regression_rate r))
       (''<='' @ fixed_text 6 (rq_max_regression_rate p)) ''relationship_case_regression_rate_too_high'']"

definition sample_gates :: "release_policy \<Rightarrow> score_report list \<Rightarrow> release_gate res list" where
  "sample_gates p ts =
    [gate ''trajectory_capture_count'' (rq_min_captures p \<le> int (length ts)) (int_text (int (length ts)))
       (''>='' @ int_text (rq_min_captures p) @ '' captures'') ''trajectory_capture_count_too_small'',
     gate ''trajectory_total_cases'' (rq_min_total_cases p \<le> sum_list (map tp_case_count ts)) (int_text (sum_list (map tp_case_count ts)))
       (''>='' @ int_text (rq_min_total_cases p) @ '' cases'') ''trajectory_total_sample_too_small'',
     gate ''trajectory_capture_sample_size'' (rq_min_capture_cases p \<le> lowest tp_case_count ts) (int_text (lowest tp_case_count ts))
       (''>='' @ int_text (rq_min_capture_cases p) @ '' cases per capture'') ''trajectory_capture_sample_too_small'']"

definition grounded_gates :: "release_policy \<Rightarrow> evaluation_report list \<Rightarrow> release_gate res list" where
  "grounded_gates p gs = (let adjudicated = list_all (\<lambda>g. er_adjudication g \<noteq> None) gs;
       unsupported = maximum_of (map (\<lambda>g. ms_unsupported_rate (er_overall g)) gs);
       citations = minimum_of (map (\<lambda>g. ms_complete_citation_rate (er_overall g)) gs) in
    [gate ''grounded_review_adjudication'' adjudicated (if adjudicated then ''complete'' else ''missing adjudication'')
       ''independent review plus disagreement-only adjudication for every capture'' ''grounded_review_not_adjudicated'',
     gate ''grounded_answer_coverage'' (rq_min_answered_rate p \<le> answered_rate gs) (fixed_text 6 (answered_rate gs))
       (''>='' @ fixed_text 6 (rq_min_answered_rate p)) ''grounded_answer_coverage_too_low'',
     rate_gate ''grounded_strict_pass'' (lowest (\<lambda>g. ms_strict_case_pass_rate (er_overall g)) gs) (rq_min_grounded_pass p)
       ''grounded_strict_pass_below_threshold'',
     gate ''grounded_unsupported_claims'' (unsupported \<noteq> None \<and> the unsupported \<le> rq_max_unsupported p) (number_text unsupported)
       (''<='' @ fixed_text 6 (rq_max_unsupported p) @ '' in every capture'') ''grounded_unsupported_claim_rate_too_high'',
     gate ''grounded_complete_citations'' (citations \<noteq> None \<and> rq_min_citations p \<le> the citations) (number_text citations)
       (''>='' @ fixed_text 6 (rq_min_citations p) @ '' in every capture'') ''grounded_complete_citation_rate_too_low''])"

definition trajectory_gates :: "release_policy \<Rightarrow> score_report list \<Rightarrow> release_gate res list" where
  "trajectory_gates p ts = (let low = (\<lambda>f. lowest (\<lambda>t. f (tp_overall t)) ts); steps = highest (\<lambda>t. tm_p95_steps (tp_overall t)) ts;
       latency = highest (\<lambda>t. tm_p95_latency_ms (tp_overall t)) ts in
    [rate_gate ''trajectory_policy_compliance'' (low tm_compliance_rate) (rq_min_compliance p) ''trajectory_policy_compliance_below_threshold'',
     rate_gate ''trajectory_evidence_inspection'' (low tm_evidence_rate) (rq_min_inspection p) ''trajectory_evidence_inspection_below_threshold'',
     rate_gate ''trajectory_claim_trace'' (low tm_claim_rate) (rq_min_claim_trace p) ''trajectory_claim_trace_below_threshold'',
     rate_gate ''trajectory_strict_pass'' (low tm_strict_rate) (rq_min_strict p) ''trajectory_strict_pass_below_threshold'',
     rate_gate ''trajectory_end_to_end_pass'' (low tm_end_to_end_rate) (rq_min_end_to_end p) ''trajectory_end_to_end_pass_below_threshold'',
     gate ''trajectory_step_budget'' (steps \<le> rq_max_p95_steps p) (fixed_text 3 steps)
       (''<='' @ fixed_text 3 (rq_max_p95_steps p) @ '' p95 steps'') ''trajectory_step_budget_exceeded'',
     gate ''trajectory_latency_budget'' (latency \<le> rq_max_p95_latency p) (fixed_text 3 latency @ '' ms'')
       (''<='' @ fixed_text 3 (rq_max_p95_latency p) @ '' ms p95'') ''trajectory_latency_budget_exceeded''])"

definition drift_gates :: "bool \<Rightarrow> bool \<Rightarrow> score_report list \<Rightarrow> drift_report list \<Rightarrow> release_gate res list" where
  "drift_gates chain no_alert ts ds =
    [gate ''trajectory_drift_chain'' chain
       (nat_dec (length (remdups (map drift_pair ds))) @ '' of '' @ nat_dec (length (consecutive ts)) @ '' consecutive comparisons'')
       ''one exact policy-matched drift report per consecutive capture pair'' ''trajectory_drift_chain_incomplete'',
     gate ''trajectory_drift_stability'' no_alert
       (if no_alert then ''stable'' else nat_dec (length (filter (\<lambda>d. \<not> dr_stable d) ds)) @ '' alert(s)'')
       ''zero drift alerts across the complete consecutive chain'' ''trajectory_drift_detected'']"

definition release_gates :: "('a) drift_api_scheme \<Rightarrow> release_policy \<Rightarrow> relationship_report \<Rightarrow> evaluation_report list \<Rightarrow> score_report list
    \<Rightarrow> drift_report list \<Rightarrow> datetime \<Rightarrow> release_gate list res" where
  "release_gates A p r gs ts ds now = (let one = systems_stable ts gs in rmap id
    (gate ''agent_candidate_identity'' one (if one then ''stable'' else ''mixed candidate or benchmark identities'')
       ''one exact candidate system and benchmark across every capture'' ''agent_candidate_identity_mismatch''
     # relationship_gates p r @ sample_gates p ts @ grounded_gates p gs @ trajectory_gates p ts
     @ drift_gates (drift_chain_complete A (rq_drift p) ts ds now) (drift_chain_stable A (rq_drift p) ts ds now) ts ds))"

definition relationship_evidence_of :: "('a) answer_api_scheme \<Rightarrow> relationship_report \<Rightarrow> relationship_evidence" where
  "relationship_evidence_of A r = \<lparr>qe_report_id = rn_report_id r, qe_report_sha256 = canonical_sha256 A (rn_dump r),
     qe_candidate_id = cs_candidate_id (rn_candidate r), qe_case_count = rn_case_count r, qe_macro_f1 = rn_macro_f1 r,
     qe_accuracy_delta = rn_accuracy_delta r, qe_regression_rate = regression_rate r\<rparr>"

definition trajectory_evidence_of :: "score_report \<Rightarrow> trajectory_evidence" where
  "trajectory_evidence_of t = \<lparr>we_report_id = tp_report_id t, we_report_sha256 = tp_report_sha256 t, we_task_id = tp_task_id t,
     we_grounded_id = tp_grounded_id t, we_grounded_sha256 = tp_grounded_sha256 t, we_captured_at = tp_captured_at t, we_case_count = tp_case_count t\<rparr>"

definition drift_evidence_of :: "drift_report \<Rightarrow> drift_evidence" where
  "drift_evidence_of d = \<lparr>xe_drift_id = dr_id d, xe_drift_sha256 = dr_sha256 d, xe_baseline_id = dr_baseline_id d,
     xe_current_id = dr_current_id d, xe_stable = dr_stable d\<rparr>"

text \<open>The order by the pair of capture times: two stable sorts.\<close>

definition ordered_drifts :: "drift_report list \<Rightarrow> drift_report list" where
  "ordered_drifts ds = sort_key (\<lambda>d. dt_us (dr_baseline_at d)) (sort_key (\<lambda>d. dt_us (dr_current_at d)) ds)"

definition assessment_of :: "('a) release_api_scheme \<Rightarrow> release_policy \<Rightarrow> relationship_report \<Rightarrow> candidate_system \<Rightarrow> datetime \<Rightarrow> relationship_evidence
    \<Rightarrow> trajectory_evidence list \<Rightarrow> drift_evidence list \<Rightarrow> release_gate list \<Rightarrow> assessment" where
  "assessment_of A p r system stamp relationship trajectories drifts gates = (let draft = \<lparr>rl_id = [], rl_sha256 = [], rl_generated_at = utc (dt_us stamp),
       rl_policy = p, rl_agent_system = system, rl_relationship_system = rn_candidate r, rl_relationship = relationship,
       rl_trajectories = trajectories, rl_drifts = drifts, rl_gate_count = int (length gates),
       rl_passed_count = int (length gates) - int (length (blocked_gates gates)), rl_blocked_count = int (length (blocked_gates gates)),
       rl_blocking_reasons = blocking_reasons gates, rl_gates = gates, rl_eligible = (blocked_gates gates = [])\<rparr>;
     digest = agent_release_assessment_sha256 A draft in
     draft\<lparr>rl_id := ''release-assessment-'' @ take 20 digest, rl_sha256 := digest\<rparr>)"

definition evaluate_agent_release :: "('a) release_api_scheme \<Rightarrow> release_policy \<Rightarrow> relationship_report \<Rightarrow> evaluation_report list \<Rightarrow> score_report list
    \<Rightarrow> drift_report list \<Rightarrow> datetime option \<Rightarrow> datetime \<Rightarrow> assessment res" where
  "evaluate_agent_release A p r grounded trajectories drifts generated now = (let ordered = by_capture trajectories in
     rbind (raise_first
       [(trajectories = [], ''release assessment requires at least one trajectory report''),
        (\<not> distinct (map tp_report_id ordered), ''release assessment trajectory reports must be unique''),
        (\<not> distinct (map (\<lambda>t. dt_us (tp_captured_at t)) ordered), ''release assessment trajectory captures must be distinct''),
        (\<not> distinct (map er_report_id grounded), ''release assessment grounded reports must be unique'')] ()) (\<lambda>_.
     rbind (rmap (bound_grounded (dict_by er_report_id grounded)) ordered) (\<lambda>bound.
     if \<not> set (map er_report_id grounded) \<subseteq> set (map tp_grounded_id ordered)
     then Inl (ValueError ''release assessment contains unreferenced grounded reports'')
     else rbind (release_gates A p r bound ordered drifts now) (\<lambda>gates.
     rbind (validate_relationship_evidence (relationship_evidence_of A r)) (\<lambda>relationship.
     rbind (rmap (\<lambda>t. validate_trajectory_evidence (trajectory_evidence_of t)) ordered) (\<lambda>trajectory_evidence.
     rbind (rmap (\<lambda>d. validate_drift_evidence (drift_evidence_of d)) (ordered_drifts drifts)) (\<lambda>drift_evidence.
       let stamp = (case generated of Some v \<Rightarrow> v | None \<Rightarrow> now) in
       if \<not> aware stamp then Inl (ValueError ''release assessment generated_at must be timezone-aware'')
       else validate_assessment A (assessment_of A p r (tp_system (hd ordered)) stamp relationship trajectory_evidence drift_evidence gates))))))))"

text \<open>What the agent run reads of an assessment.\<close>

definition assessment_view :: "assessment \<Rightarrow> release_assessment" where
  "assessment_view a = \<lparr>ra_eligible = rl_eligible a, ra_assessment_id = rl_id a, ra_assessment_sha256 = rl_sha256 a, ra_policy_id = rq_id (rl_policy a),
     ra_policy_sha256 = rq_sha256 (rl_policy a), ra_agent_candidate_id = cs_candidate_id (rl_agent_system a),
     ra_relationship_report_id = qe_report_id (rl_relationship a), ra_trajectory_report_ids = map we_report_id (rl_trajectories a),
     ra_gates = map (\<lambda>g. (lg_id g, lg_passed g)) (rl_gates a), ra_blocking_reasons = rl_blocking_reasons a\<rparr>"

section \<open>The texts of a gate fit\<close>

definition fits :: "nat \<Rightarrow> string \<Rightarrow> bool" where
  "fits n s \<longleftrightarrow> in_range 1 n (length s)"

lemma nat_dec_length: "m < 10 ^ k \<Longrightarrow> 1 \<le> k \<Longrightarrow> in_range 1 k (length (nat_dec m))"
proof (induction k arbitrary: m)
  case (Suc k)
  show ?case
  proof (cases "m < 10")
    case False
    with Suc.prems(1) have "m div 10 < 10 ^ k" "1 \<le> k" by (simp_all add: div_less_iff_less_mult) (cases k, simp_all)
    from Suc.IH [OF this] False show ?thesis by (simp add: nat_dec.simps [of m] in_range_def)
  qed (simp add: nat_dec.simps [of m] in_range_def)
qed simp

lemma int_text_length: "0 \<le> i \<Longrightarrow> i < 10 ^ k \<Longrightarrow> 1 \<le> k \<Longrightarrow> in_range 1 k (length (int_text i))"
  using nat_dec_length [of "nat i" k] by (simp add: int_text_def nat_less_iff)

lemma fixed_text_length:
  assumes "\<bar>x\<bar> \<le> 10 ^ k"
  shows "in_range 1 (k + n + 3) (length (fixed_text n x))"
proof -
  let ?q = "nat (round_half_even (\<bar>x\<bar> * 10 ^ n))"
  have "\<bar>x\<bar> * 10 ^ n \<le> of_int (10 ^ (k + n))"
    using mult_right_mono [OF assms, of "10 ^ n"] by (simp add: power_add)
  then have "round_half_even (\<bar>x\<bar> * 10 ^ n) \<le> 10 ^ (k + n)"
    using round_half_even_mono [of "\<bar>x\<bar> * 10 ^ n" "of_int (10 ^ (k + n))"] by (simp only: round_half_even_of_int)
  then have "?q \<le> 10 ^ (k + n)" by (simp add: nat_le_iff)
  then have "?q div 10 ^ n \<le> 10 ^ (k + n) div 10 ^ n" by (rule div_le_mono)
  also have "\<dots> = 10 ^ k" by (simp add: power_add)
  also have "\<dots> < (10 :: nat) ^ Suc k" by simp
  finally have "?q div 10 ^ n < 10 ^ Suc k" .
  from nat_dec_length [OF this] have "in_range 1 (Suc k) (length (nat_dec (?q div 10 ^ n)))" by simp
  then show ?thesis unfolding fixed_text_def Let_def in_range_def by (auto simp del: abs_mult)
qed

lemma rate_text: "in_range (- 10) 10 x \<Longrightarrow> fits 10 (fixed_text 6 x)"
  using fixed_text_length [of x 1 6] by (simp add: fits_def in_range_def abs_le_iff)

lemma unit_text: "in_range 0 1 x \<Longrightarrow> fits 10 (fixed_text 6 x)" "in_range (- 1) 1 x \<Longrightarrow> fits 10 (fixed_text 6 x)"
  using rate_text [of x] by (simp_all add: in_range_def)

lemma number_text_length: "if_some (in_range 0 1) v \<Longrightarrow> fits 11 (number_text v)"
  using rate_text [of "the v"] by (cases v) (auto simp: number_text_def in_range_def fits_def)

section \<open>What the gates yield\<close>

text \<open>A gate of an id that passes exactly under a condition, with a reason only when it does not.\<close>

definition yields :: "release_gate res \<Rightarrow> string \<times> bool \<Rightarrow> bool" where
  "yields x kp \<longleftrightarrow> (\<exists>g. x = Inr g \<and> lg_id g = fst kp \<and> lg_passed g = snd kp \<and> validate_gate g = Inr g)"

lemma gate_yields:
  "k \<in> set release_gate_ids \<Longrightarrow> fits 300 obs \<Longrightarrow> fits 300 req \<Longrightarrow> machine_reason reason \<Longrightarrow> passed = condition
     \<Longrightarrow> yields (gate k passed obs req reason) (k, condition)"
  by (simp add: yields_def gate_def validate_gate_def guard_simps release_gate_of_def fits_def)

lemma yields_all:
  "list_all2 yields xs kps \<Longrightarrow> \<exists>gs. rmap id xs = Inr gs \<and> map lg_id gs = map fst kps \<and> map lg_passed gs = map snd kps
     \<and> list_all (\<lambda>g. validate_gate g = Inr g) gs"
proof (induction rule: list_all2_induct)
  case (Cons x xs kp kps)
  obtain g gs where "x = Inr g" "lg_id g = fst kp" "lg_passed g = snd kp" "validate_gate g = Inr g" "rmap id xs = Inr gs"
      "map lg_id gs = map fst kps" "map lg_passed gs = map snd kps" "list_all (\<lambda>g. validate_gate g = Inr g) gs"
    using Cons(1) [unfolded yields_def] Cons(3) by blast
  then show ?case by (intro exI [of _ "g # gs"]) (simp add: id_def)
qed simp

definition policy_ok :: "('a) release_api_scheme \<Rightarrow> release_policy \<Rightarrow> bool" where
  "policy_ok A p \<longleftrightarrow> validate_release_policy A p = Inr p \<and> thresholds_ok (rq_drift p)"

definition relationship_ok :: "relationship_report \<Rightarrow> bool" where
  "relationship_ok r \<longleftrightarrow> fits 240 (rn_report_id r) \<and> 1 \<le> rn_case_count r \<and> if_some (in_range 0 1) (rn_macro_f1 r)
     \<and> in_range (- 1) 1 (rn_accuracy_delta r) \<and> in_range 0 (rn_case_count r) (rn_regressions r) \<and> name_id (cs_candidate_id (rn_candidate r))"

definition measured :: "evaluation_report \<Rightarrow> bool" where
  "measured g \<longleftrightarrow> validate_summary (er_overall g) = Inr (er_overall g)"

text \<open>Numbers of at most 200 digits, which the texts of the gates hold.\<close>

definition text_digits :: nat where
  "text_digits = 200"

definition printable :: "release_policy \<Rightarrow> relationship_report \<Rightarrow> score_report list \<Rightarrow> bool" where
  "printable p r ts \<longleftrightarrow> list_all (\<lambda>i. i < 10 ^ text_digits) [rq_min_relationship_cases p, rq_min_total_cases p, rq_min_capture_cases p, rn_case_count r,
       sum_list (map tp_case_count ts)]
     \<and> list_all (\<lambda>x. x \<le> 10 ^ text_digits) (rq_max_p95_latency p # map (\<lambda>t. tm_p95_latency_ms (tp_overall t)) ts)"

lemma printed_int: "0 \<le> i \<Longrightarrow> i < 10 ^ text_digits \<Longrightarrow> fits 200 (int_text i)"
  using int_text_length [of i text_digits] by (simp add: text_digits_def fits_def)

lemma printed_fixed: "0 \<le> x \<Longrightarrow> x \<le> 10 ^ text_digits \<Longrightarrow> fits 206 (fixed_text 3 x)"
  using fixed_text_length [of x text_digits 3] by (simp add: text_digits_def fits_def)

lemma policy_shape:
  assumes "policy_ok A p"
  shows "1 \<le> rq_min_relationship_cases p" "in_range 0 1 (rq_min_macro_f1 p)" "in_range (- 1) 1 (rq_min_accuracy_delta p)" "in_range 0 1 (rq_max_regression_rate p)"
    "in_range 2 100 (rq_min_captures p)" "2 \<le> rq_min_total_cases p" "1 \<le> rq_min_capture_cases p"
    "list_all (in_range 0 1) [rq_min_answered_rate p, rq_min_grounded_pass p, rq_max_unsupported p, rq_min_citations p, rq_min_compliance p,
       rq_min_inspection p, rq_min_claim_trace p, rq_min_strict p, rq_min_end_to_end p]"
    "in_range 1 64 (rq_max_p95_steps p)" "0 \<le> rq_max_p95_latency p" "thresholds_ok (rq_drift p)"
  using assms unfolding policy_ok_def validate_release_policy_def guard_simps list.set ball_simps fst_conv not_not by blast+

lemma regression_range: "relationship_ok r \<Longrightarrow> in_range 0 1 (regression_rate r)"
  using fl_in_range [of "of_int (rn_regressions r) / of_int (rn_case_count r)" 1]
  by (auto simp: regression_rate_def relationship_ok_def in_range_def divide_le_eq zero_le_divide_iff)

lemma reason_texts:
  "list_all machine_reason [''agent_candidate_identity_mismatch'', ''relationship_sample_too_small'', ''relationship_macro_f1_below_threshold'',
     ''relationship_accuracy_regressed'', ''relationship_case_regression_rate_too_high'', ''trajectory_capture_count_too_small'',
     ''trajectory_total_sample_too_small'', ''trajectory_capture_sample_too_small'', ''grounded_review_not_adjudicated'',
     ''grounded_answer_coverage_too_low'', ''grounded_strict_pass_below_threshold'', ''grounded_unsupported_claim_rate_too_high'',
     ''grounded_complete_citation_rate_too_low'', ''trajectory_policy_compliance_below_threshold'', ''trajectory_evidence_inspection_below_threshold'',
     ''trajectory_claim_trace_below_threshold'', ''trajectory_strict_pass_below_threshold'', ''trajectory_end_to_end_pass_below_threshold'',
     ''trajectory_step_budget_exceeded'', ''trajectory_latency_budget_exceeded'', ''trajectory_drift_chain_incomplete'', ''trajectory_drift_detected'']"
  by code_simp

lemmas reasons = reason_texts [unfolded list.pred_inject, simplified]

lemma relationship_gates_yield:
  assumes "policy_ok A p" and "relationship_ok r" and "printable p r ts"
  shows "list_all2 yields (relationship_gates p r)
    [(''relationship_sample_size'', rq_min_relationship_cases p \<le> rn_case_count r),
     (''relationship_macro_f1'', rn_macro_f1 r \<noteq> None \<and> rq_min_macro_f1 p \<le> the (rn_macro_f1 r)),
     (''relationship_accuracy_delta'', rq_min_accuracy_delta p \<le> rn_accuracy_delta r),
     (''relationship_regression_rate'', regression_rate r \<le> rq_max_regression_rate p)]"
proof -
  note p = policy_shape [OF assms(1)]
  have c: "fits 200 (int_text (rn_case_count r))" "fits 200 (int_text (rq_min_relationship_cases p))"
    using assms(2,3) p by (auto intro!: printed_int simp: relationship_ok_def printable_def)
  have m: "fits 11 (number_text (rn_macro_f1 r))"
    using assms(2) by (intro number_text_length) (simp add: relationship_ok_def)
  have t: "fits 10 (fixed_text 6 (rq_min_macro_f1 p))" "fits 10 (fixed_text 6 (rq_min_accuracy_delta p))"
    "fits 10 (fixed_text 6 (rq_max_regression_rate p))" "fits 10 (fixed_text 6 (rn_accuracy_delta r))"
    "fits 10 (fixed_text 6 (regression_rate r))"
    using assms(2) regression_range [OF assms(2)] p by (auto intro!: rate_text simp: relationship_ok_def in_range_def)
  show ?thesis unfolding relationship_gates_def list_all2_Cons
    by (intro conjI gate_yields list_all2_Nil [THEN iffD2] refl) (use c m t in \<open>simp_all add: reasons release_gate_ids_def fits_def in_range_def\<close>)
qed

lemma score_count:
  assumes "score_ok A t"
  shows "1 \<le> tp_case_count t" "matches_hex ''grounded-task-'' 20 (tp_task_id t)" "matches_hex ''grounded-report-'' 20 (tp_grounded_id t)"
    "matches_hex [] 64 (tp_grounded_sha256 t)"
  using assms unfolding score_ok_def validate_score_def by (auto simp: guard_simps)

lemma lowest_mem: "xs \<noteq> [] \<Longrightarrow> \<exists>x \<in> set xs. lowest f xs = f x"
proof -
  assume "xs \<noteq> []"
  then have "lowest f xs \<in> f ` set xs" using Min_in [of "f ` set xs"] by (simp add: lowest_def)
  then show ?thesis by blast
qed

lemma highest_mem: "xs \<noteq> [] \<Longrightarrow> \<exists>x \<in> set xs. highest f xs = f x"
proof -
  assume "xs \<noteq> []"
  then have "highest f xs \<in> f ` set xs" using Max_in [of "f ` set xs"] by (simp add: highest_def)
  then show ?thesis by blast
qed

lemma le_lowest: "xs \<noteq> [] \<Longrightarrow> b \<le> lowest f xs \<longleftrightarrow> list_all (\<lambda>x. b \<le> f x) xs"
  by (simp add: lowest_def list_all_iff)

lemma highest_le: "xs \<noteq> [] \<Longrightarrow> highest f xs \<le> b \<longleftrightarrow> list_all (\<lambda>x. f x \<le> b) xs"
  by (simp add: highest_def list_all_iff)

lemma member_le_sum: "list_all (\<lambda>x. (0 :: int) \<le> f x) xs \<Longrightarrow> x \<in> set xs \<Longrightarrow> f x \<le> sum_list (map f xs)"
proof (induction xs)
  case (Cons y ys)
  then have "0 \<le> f y" "0 \<le> sum_list (map f ys)" by (auto simp: list_all_iff intro!: sum_list_nonneg)
  with Cons show ?case by auto
qed simp

lemma sample_gates_yield:
  assumes "policy_ok A p" and "ts \<noteq> []" "length ts \<le> 100" "list_all (score_ok A) ts" and "printable p r ts"
  shows "list_all2 yields (sample_gates p ts)
    [(''trajectory_capture_count'', rq_min_captures p \<le> int (length ts)), (''trajectory_total_cases'', rq_min_total_cases p \<le> sum_list (map tp_case_count ts)),
     (''trajectory_capture_sample_size'', list_all (\<lambda>t. rq_min_capture_cases p \<le> tp_case_count t) ts)]"
proof -
  note p = policy_shape [OF assms(1)]
  have pos: "list_all (\<lambda>t. 0 \<le> tp_case_count t) ts"
    using assms(4) score_count(1) by (fastforce simp: list_all_iff)
  obtain t where t: "t \<in> set ts" "lowest tp_case_count ts = tp_case_count t" using lowest_mem [OF assms(2)] by blast
  have sum: "0 \<le> sum_list (map tp_case_count ts)" "sum_list (map tp_case_count ts) < 10 ^ text_digits" "tp_case_count t \<le> sum_list (map tp_case_count ts)"
    "0 \<le> tp_case_count t"
    using member_le_sum [OF pos t(1)] pos assms(5) t(1) by (auto simp: printable_def list_all_iff intro!: sum_list_nonneg)
  have small: "(100 :: int) < 10 ^ text_digits" by (simp add: text_digits_def)
  have n: "fits 200 (int_text (int (length ts)))"
    by (rule printed_int) (use assms(3) small in linarith)+
  have c: "fits 200 (int_text (sum_list (map tp_case_count ts)))" "fits 200 (int_text (lowest tp_case_count ts))"
    "fits 200 (int_text (rq_min_total_cases p))" "fits 200 (int_text (rq_min_capture_cases p))"
    "fits 200 (int_text (rq_min_captures p))"
    using assms(3,5) p(5-7) sum small unfolding t(2) by (auto intro!: printed_int simp: printable_def in_range_def)
  show ?thesis unfolding sample_gates_def list_all2_Cons
    by (intro conjI gate_yields list_all2_Nil [THEN iffD2] le_lowest [OF assms(2)] refl)
      (use c n in \<open>simp_all add: reasons release_gate_ids_def fits_def in_range_def\<close>)
qed

lemma bounds_all:
  "xs \<noteq> [] \<Longrightarrow> maximum_of (map f xs) \<noteq> None \<and> the (maximum_of (map f xs)) \<le> b \<longleftrightarrow> list_all (\<lambda>x. f x \<noteq> None \<and> the (f x) \<le> b) xs"
  "xs \<noteq> [] \<Longrightarrow> minimum_of (map f xs) \<noteq> None \<and> b \<le> the (minimum_of (map f xs)) \<longleftrightarrow> list_all (\<lambda>x. f x \<noteq> None \<and> b \<le> the (f x)) xs"
  by (auto simp: maximum_of_def minimum_of_def list_all_iff image_iff) (metis not_None_eq)+

lemma bounds_range:
  assumes "list_all (if_some (in_range 0 (1 :: rat))) xs"
  shows "if_some (in_range 0 1) (maximum_of xs)" "if_some (in_range 0 1) (minimum_of xs)"
proof -
  have "in_range 0 1 (Max (set (map the xs))) \<and> in_range 0 1 (Min (set (map the xs)))" if "xs \<noteq> []" "None \<notin> set xs"
  proof -
    have r: "in_range 0 1 v" if v: "v \<in> set (map the xs)" for v
    proof -
      from v obtain w where w: "w \<in> set xs" "v = the w" by auto
      with \<open>None \<notin> set xs\<close> obtain z where "w = Some z" by (cases w) auto
      with w assms show ?thesis by (auto simp: list_all_iff)
    qed
    have "set (map the xs) \<noteq> {}" using that(1) by simp
    then show ?thesis using r [OF Max_in] r [OF Min_in] by simp
  qed
  then show "if_some (in_range 0 1) (maximum_of xs)" "if_some (in_range 0 1) (minimum_of xs)"
    by (auto simp: maximum_of_def minimum_of_def)
qed

lemma measured_shape:
  assumes "measured g"
  shows "in_range 0 (ms_case_count (er_overall g)) (ms_answered_case_count (er_overall g))" "1 \<le> ms_case_count (er_overall g)"
    "if_some (in_range 0 1) (ms_unsupported_rate (er_overall g))" "if_some (in_range 0 1) (ms_complete_citation_rate (er_overall g))"
    "in_range 0 1 (ms_strict_case_pass_rate (er_overall g))"
  using assms unfolding measured_def validate_summary_def by (auto simp: guard_simps in_range_def)

lemma answered_range: "gs \<noteq> [] \<Longrightarrow> list_all measured gs \<Longrightarrow> in_range 0 1 (answered_rate gs)"
proof -
  assume gs: "gs \<noteq> []" "list_all measured gs"
  let ?a = "\<lambda>g. ms_answered_case_count (er_overall g)" and ?n = "\<lambda>g. ms_case_count (er_overall g)"
  from gs(2) have "0 \<le> sum_list (map ?a gs) \<and> sum_list (map ?a gs) \<le> sum_list (map ?n gs) \<and> int (length gs) \<le> sum_list (map ?n gs)"
  proof (induction gs)
    case (Cons g gs)
    then show ?case using measured_shape(1,2) [of g] by (simp add: in_range_def)
  qed simp
  moreover have "0 < int (length gs)" using gs(1) by simp
  ultimately have "0 \<le> sum_list (map ?a gs)" "sum_list (map ?a gs) \<le> sum_list (map ?n gs)" "0 < sum_list (map ?n gs)" by linarith+
  then show ?thesis using fl_in_range [of "of_int (sum_list (map ?a gs)) / of_int (sum_list (map ?n gs))" 1]
    by (simp add: answered_rate_def divide_le_eq)
qed

lemma lowest_range: "xs \<noteq> [] \<Longrightarrow> list_all (\<lambda>x. in_range 0 1 (f x)) xs \<Longrightarrow> in_range 0 1 (lowest f xs)"
  using lowest_mem [of xs f] by (auto simp: list_all_iff)

lemma rate_gate_yields:
  assumes "k \<in> set release_gate_ids" and "machine_reason reason" and "xs \<noteq> []" "list_all (\<lambda>x. in_range 0 1 (f x)) xs" and "in_range 0 1 required"
  shows "yields (rate_gate k (lowest f xs) required reason) (k, list_all (\<lambda>x. required \<le> f x) xs)"
  unfolding rate_gate_def
  by (rule gate_yields [OF assms(1) _ _ assms(2) le_lowest [OF assms(3)]])
    (use unit_text(1) [OF lowest_range [OF assms(3,4)]] unit_text(1) [OF assms(5)] in \<open>simp_all add: fits_def in_range_def\<close>)

lemma gate_texts:
  "fits 300 ''independent review plus disagreement-only adjudication for every capture''"
  "fits 300 ''one exact policy-matched drift report per consecutive capture pair''"
  "fits 300 ''zero drift alerts across the complete consecutive chain''"
  "fits 300 ''one exact candidate system and benchmark across every capture''"
  by (simp_all add: fits_def in_range_def)

lemma grounded_gates_yield:
  assumes "policy_ok A p" and "gs \<noteq> []" and "list_all measured gs"
  shows "list_all2 yields (grounded_gates p gs)
    [(''grounded_review_adjudication'', list_all (\<lambda>g. er_adjudication g \<noteq> None) gs),
     (''grounded_answer_coverage'', rq_min_answered_rate p \<le> answered_rate gs),
     (''grounded_strict_pass'', list_all (\<lambda>g. rq_min_grounded_pass p \<le> ms_strict_case_pass_rate (er_overall g)) gs),
     (''grounded_unsupported_claims'', list_all (\<lambda>g. ms_unsupported_rate (er_overall g) \<noteq> None \<and> the (ms_unsupported_rate (er_overall g)) \<le> rq_max_unsupported p) gs),
     (''grounded_complete_citations'', list_all (\<lambda>g. ms_complete_citation_rate (er_overall g) \<noteq> None \<and> rq_min_citations p \<le> the (ms_complete_citation_rate (er_overall g))) gs)]"
proof -
  note p = policy_shape(8) [OF assms(1), unfolded list.pred_inject]
  have m: "fits 11 (number_text (maximum_of (map (\<lambda>g. ms_unsupported_rate (er_overall g)) gs)))"
    "fits 11 (number_text (minimum_of (map (\<lambda>g. ms_complete_citation_rate (er_overall g)) gs)))"
    by (rule number_text_length, rule bounds_range, use assms(3) measured_shape(3,4) in \<open>auto simp: list_all_iff\<close>)+
  have t: "fits 10 (fixed_text 6 (answered_rate gs))" "fits 10 (fixed_text 6 (rq_min_answered_rate p))"
    "fits 10 (fixed_text 6 (rq_max_unsupported p))" "fits 10 (fixed_text 6 (rq_min_citations p))"
    using p answered_range [OF assms(2,3)] by (simp_all add: unit_text)
  have s: "list_all (\<lambda>g. in_range 0 1 (ms_strict_case_pass_rate (er_overall g))) gs"
    using assms(3) measured_shape(5) by (auto simp: list_all_iff)
  show ?thesis unfolding grounded_gates_def Let_def list_all2_Cons
    by (intro conjI gate_yields rate_gate_yields list_all2_Nil [THEN iffD2] bounds_all [OF assms(2)] refl gate_texts assms(2) s)
      (use p m t in \<open>simp_all add: reasons release_gate_ids_def fits_def in_range_def\<close>)
qed

lemma trajectory_gates_yield:
  assumes "policy_ok A p" and "ts \<noteq> []" "list_all (score_ok A) ts" and "printable p r ts"
  shows "list_all2 yields (trajectory_gates p ts)
    [(''trajectory_policy_compliance'', list_all (\<lambda>t. rq_min_compliance p \<le> tm_compliance_rate (tp_overall t)) ts),
     (''trajectory_evidence_inspection'', list_all (\<lambda>t. rq_min_inspection p \<le> tm_evidence_rate (tp_overall t)) ts),
     (''trajectory_claim_trace'', list_all (\<lambda>t. rq_min_claim_trace p \<le> tm_claim_rate (tp_overall t)) ts),
     (''trajectory_strict_pass'', list_all (\<lambda>t. rq_min_strict p \<le> tm_strict_rate (tp_overall t)) ts),
     (''trajectory_end_to_end_pass'', list_all (\<lambda>t. rq_min_end_to_end p \<le> tm_end_to_end_rate (tp_overall t)) ts),
     (''trajectory_step_budget'', list_all (\<lambda>t. tm_p95_steps (tp_overall t) \<le> rq_max_p95_steps p) ts),
     (''trajectory_latency_budget'', list_all (\<lambda>t. tm_p95_latency_ms (tp_overall t) \<le> rq_max_p95_latency p) ts)]"
proof -
  note p = policy_shape(8) [OF assms(1), unfolded list.pred_inject] policy_shape(9,10) [OF assms(1)]
  obtain t where t: "t \<in> set ts" "highest (\<lambda>t. tm_p95_steps (tp_overall t)) ts = tm_p95_steps (tp_overall t)" using highest_mem [OF assms(2)] by blast
  obtain u where u: "u \<in> set ts" "highest (\<lambda>t. tm_p95_latency_ms (tp_overall t)) ts = tm_p95_latency_ms (tp_overall u)" using highest_mem [OF assms(2)] by blast
  have ok: "score_ok A t" "score_ok A u" using assms(3) t(1) u(1) by (auto simp: list_all_iff)
  have small: "(64 :: rat) \<le> 10 ^ text_digits" by (simp add: text_digits_def)
  have s: "in_range 1 64 (tm_p95_steps (tp_overall t))" "0 \<le> tm_p95_latency_ms (tp_overall u)" "tm_p95_latency_ms (tp_overall u) \<le> 10 ^ text_digits"
    using summary_shape(3) [OF ok(1)] summary_shape(2) [OF ok(2)] assms(4) u(1) by (auto simp: printable_def list_all_iff)
  have l: "fits 206 (fixed_text 3 (tm_p95_steps (tp_overall t)))" "fits 206 (fixed_text 3 (tm_p95_latency_ms (tp_overall u)))"
    "fits 206 (fixed_text 3 (rq_max_p95_steps p))" "fits 206 (fixed_text 3 (rq_max_p95_latency p))"
    using s p small assms(4) by (auto intro!: printed_fixed simp: printable_def in_range_def)
  have r: "list_all (\<lambda>t. in_range 0 1 (tm_compliance_rate (tp_overall t))) ts" "list_all (\<lambda>t. in_range 0 1 (tm_evidence_rate (tp_overall t))) ts"
    "list_all (\<lambda>t. in_range 0 1 (tm_claim_rate (tp_overall t))) ts" "list_all (\<lambda>t. in_range 0 1 (tm_strict_rate (tp_overall t))) ts"
    "list_all (\<lambda>t. in_range 0 1 (tm_end_to_end_rate (tp_overall t))) ts"
    using assms(3) summary_shape(1) by (auto simp: list_all_iff)
  show ?thesis unfolding trajectory_gates_def Let_def list_all2_Cons
    by (intro conjI gate_yields rate_gate_yields list_all2_Nil [THEN iffD2] highest_le [OF assms(2)] assms(2) r)
      (use p l in \<open>simp_all add: reasons release_gate_ids_def fits_def in_range_def t(2) u(2)\<close>)
qed

lemma drift_gates_yield:
  assumes "length ts \<le> 100" and "length ds \<le> 100"
  shows "list_all2 yields (drift_gates chain no_alert ts ds) [(''trajectory_drift_chain'', chain), (''trajectory_drift_stability'', no_alert)]"
proof -
  have l: "fits 3 (nat_dec m)" if "m \<le> 100" for m
    unfolding fits_def using that by (intro nat_dec_length) simp_all
  have n: "length (remdups (map drift_pair ds)) \<le> 100" "length (consecutive ts) \<le> 100" "length (filter (\<lambda>d. \<not> dr_stable d) ds) \<le> 100"
    using assms order_trans [OF length_remdups_leq [of "map drift_pair ds"]] order_trans [OF length_filter_le [of _ ds]] by (simp_all add: consecutive_def)
  show ?thesis unfolding drift_gates_def list_all2_Cons
    by (intro conjI gate_yields list_all2_Nil [THEN iffD2] refl gate_texts)
      (use l [OF n(1)] l [OF n(2)] l [OF n(3)] in \<open>simp_all add: reasons release_gate_ids_def fits_def in_range_def\<close>)
qed

text \<open>Every measurement of the relationship comparison, the reviewed answers and the captures meets the policy.\<close>

definition meets_policy :: "release_policy \<Rightarrow> relationship_report \<Rightarrow> evaluation_report list \<Rightarrow> score_report list \<Rightarrow> bool" where
  "meets_policy p r gs ts \<longleftrightarrow> rq_min_relationship_cases p \<le> rn_case_count r \<and> rn_macro_f1 r \<noteq> None \<and> rq_min_macro_f1 p \<le> the (rn_macro_f1 r)
     \<and> rq_min_accuracy_delta p \<le> rn_accuracy_delta r \<and> regression_rate r \<le> rq_max_regression_rate p
     \<and> rq_min_captures p \<le> int (length ts) \<and> rq_min_total_cases p \<le> sum_list (map tp_case_count ts) \<and> rq_min_answered_rate p \<le> answered_rate gs
     \<and> list_all (\<lambda>g. let m = er_overall g in er_adjudication g \<noteq> None \<and> rq_min_grounded_pass p \<le> ms_strict_case_pass_rate m
         \<and> ms_unsupported_rate m \<noteq> None \<and> the (ms_unsupported_rate m) \<le> rq_max_unsupported p
         \<and> ms_complete_citation_rate m \<noteq> None \<and> rq_min_citations p \<le> the (ms_complete_citation_rate m)) gs
     \<and> list_all (\<lambda>t. let m = tp_overall t in rq_min_capture_cases p \<le> tp_case_count t \<and> rq_min_compliance p \<le> tm_compliance_rate m
         \<and> rq_min_inspection p \<le> tm_evidence_rate m \<and> rq_min_claim_trace p \<le> tm_claim_rate m \<and> rq_min_strict p \<le> tm_strict_rate m
         \<and> rq_min_end_to_end p \<le> tm_end_to_end_rate m \<and> tm_p95_steps m \<le> rq_max_p95_steps p \<and> tm_p95_latency_ms m \<le> rq_max_p95_latency p) ts"

lemma gate_at:
  assumes "map lg_id gs = ks" and "distinct ks" and "map lg_passed gs = bs" and "i < length ks"
  shows "gate_passed gs (ks ! i) = bs ! i"
proof -
  have i: "i < length gs" "lg_id (gs ! i) = ks ! i" "lg_passed (gs ! i) = bs ! i" using assms by auto
  have "dict_by lg_id gs (lg_id (gs ! i)) = Some (gs ! i)" using assms(1,2) i(1) by (intro dict_by_distinct) simp_all
  then show ?thesis by (simp add: gate_passed_def i)
qed

lemma gate_ids_distinct: "distinct release_gate_ids"
  by (simp add: release_gate_ids_def)

lemma yields_gates:
  assumes "list_all2 yields xs kps"
  obtains gs where "rmap id xs = Inr gs" "map lg_id gs = map fst kps" "map lg_passed gs = map snd kps" "list_all (\<lambda>g. validate_gate g = Inr g) gs"
  using yields_all [OF assms] by blast

lemma release_gates_ok:
  assumes p: "policy_ok A p" and r: "relationship_ok r" and ts: "ts \<noteq> []" "length ts \<le> 100" "list_all (score_ok A) ts"
    and gs: "gs \<noteq> []" "list_all measured gs" and ds: "length ds \<le> 100" and print: "printable p r ts"
  obtains rows where "release_gates A p r gs ts ds now = Inr rows" "map lg_id rows = release_gate_ids" "list_all (\<lambda>g. validate_gate g = Inr g) rows"
    "list_all lg_passed rows \<longleftrightarrow> systems_stable ts gs \<and> meets_policy p r gs ts \<and> drift_chain_stable A (rq_drift p) ts ds now"
    "gate_passed rows ''trajectory_drift_chain'' = drift_chain_complete A (rq_drift p) ts ds now"
    "gate_passed rows ''trajectory_drift_stability'' = drift_chain_stable A (rq_drift p) ts ds now"
proof -
  let ?one = "gate ''agent_candidate_identity'' (systems_stable ts gs) (if systems_stable ts gs then ''stable'' else ''mixed candidate or benchmark identities'')
       ''one exact candidate system and benchmark across every capture'' ''agent_candidate_identity_mismatch''"
  have one: "list_all2 yields [?one] [(''agent_candidate_identity'', systems_stable ts gs)]"
    unfolding list_all2_Cons by (intro conjI gate_yields list_all2_Nil [THEN iffD2] refl gate_texts)
      (simp_all add: reasons release_gate_ids_def fits_def in_range_def)
  note rows = list_all2_appendI [OF one list_all2_appendI [OF relationship_gates_yield [OF p r print] list_all2_appendI [OF sample_gates_yield [OF p ts print]
    list_all2_appendI [OF grounded_gates_yield [OF p gs] list_all2_appendI [OF trajectory_gates_yield [OF p ts(1,3) print]
    drift_gates_yield [OF ts(2) ds, of "drift_chain_complete A (rq_drift p) ts ds now" "drift_chain_stable A (rq_drift p) ts ds now"]]]]]]
  show ?thesis
  proof (rule yields_gates [OF rows], goal_cases)
    case (1 gates)
    note passed = 1(3) [unfolded append.simps list.map snd_conv]
    have ids: "map lg_id gates = release_gate_ids" unfolding 1(2) by (simp add: release_gate_ids_def)
    have "list_all id (map lg_passed gates) \<longleftrightarrow> systems_stable ts gs \<and> meets_policy p r gs ts \<and> drift_chain_stable A (rq_drift p) ts ds now"
      unfolding passed meets_policy_def list.pred_inject id_apply Let_def by (auto simp: list_all_iff drift_chain_stable_def)
    moreover have "gate_passed gates (release_gate_ids ! 20) = drift_chain_complete A (rq_drift p) ts ds now"
      "gate_passed gates (release_gate_ids ! 21) = drift_chain_stable A (rq_drift p) ts ds now"
      using gate_at [OF ids gate_ids_distinct passed, of 20] gate_at [OF ids gate_ids_distinct passed, of 21]
      by (simp_all add: release_gate_ids_def)
    moreover have "release_gates A p r gs ts ds now = Inr gates"
      using 1(1) by (simp only: release_gates_def Let_def append.simps)
    ultimately show ?thesis
      by (intro that [OF _ ids 1(4)]) (simp_all add: list.pred_map comp_def id_def release_gate_ids_def)
  qed
qed

section \<open>The chain of drift reports\<close>

text \<open>A supplied drift report is the comparison of two captures under the policy.\<close>

definition confirms :: "('a) drift_api_scheme \<Rightarrow> drift_thresholds \<Rightarrow> datetime \<Rightarrow> score_report \<Rightarrow> score_report \<Rightarrow> drift_report \<Rightarrow> bool" where
  "confirms A limits now b c d \<longleftrightarrow> (case compare_agent_trajectory_reports A b c (Some limits) (Some (dr_generated_at d)) now of Inl _ \<Rightarrow> False
     | Inr e \<Rightarrow> same_drift d e)"

text \<open>One confirmed drift report for each two captures that follow each other, and no other.\<close>

definition drift_chained :: "('a) drift_api_scheme \<Rightarrow> drift_thresholds \<Rightarrow> score_report list \<Rightarrow> drift_report list \<Rightarrow> datetime \<Rightarrow> bool" where
  "drift_chained A limits ordered ds now \<longleftrightarrow> length ds = length ordered - 1
     \<and> list_all (\<lambda>(b, c). list_ex (confirms A limits now b c) ds) (consecutive ordered)"

lemma same_drift_fields:
  assumes "same_drift d e"
  shows "dr_baseline_id d = dr_baseline_id e" "dr_current_id d = dr_current_id e" "dt_us (dr_baseline_at d) = dt_us (dr_baseline_at e)"
    "dt_us (dr_current_at d) = dt_us (dr_current_at e)" "dr_stable d = dr_stable e"
proof -
  let ?d = "d\<lparr>dr_generated_at := dr_generated_at e, dr_baseline_at := dr_baseline_at e, dr_current_at := dr_current_at e, dr_system := dr_system e\<rparr>"
  have e: "?d = e" and t: "dt_us (dr_baseline_at d) = dt_us (dr_baseline_at e)" "dt_us (dr_current_at d) = dt_us (dr_current_at e)"
    using assms unfolding same_drift_def by blast+
  show "dt_us (dr_baseline_at d) = dt_us (dr_baseline_at e)" "dt_us (dr_current_at d) = dt_us (dr_current_at e)" by (rule t)+
  have "dr_baseline_id ?d = dr_baseline_id d" "dr_current_id ?d = dr_current_id d" "dr_stable ?d = dr_stable d" by simp_all
  then show "dr_baseline_id d = dr_baseline_id e" "dr_current_id d = dr_current_id e" "dr_stable d = dr_stable e" unfolding e by simp_all
qed

lemma compared_fields:
  assumes "compare_agent_trajectory_reports A b c limits generated now = Inr e"
  shows "dr_baseline_id e = tp_report_id b" "dr_current_id e = tp_report_id c" "dr_baseline_at e = tp_captured_at b" "dr_current_at e = tp_captured_at c"
  using assms unfolding compare_agent_trajectory_reports_def validate_drift_report_def guard_simps
  by (auto simp: rbind_eq_Inr raise_first_eq_Inr Let_def drift_of_def split: if_splits)

lemma confirms_fields:
  assumes "confirms A limits now b c d"
  shows "drift_pair d = (tp_report_id b, tp_report_id c)" "dt_us (dr_baseline_at d) = dt_us (tp_captured_at b)"
proof -
  obtain e where e: "compare_agent_trajectory_reports A b c (Some limits) (Some (dr_generated_at d)) now = Inr e" "same_drift d e"
    using assms by (auto simp: confirms_def split: sum.splits)
  show "drift_pair d = (tp_report_id b, tp_report_id c)" "dt_us (dr_baseline_at d) = dt_us (tp_captured_at b)"
    by (simp_all add: drift_pair_def same_drift_fields [OF e(2)] compared_fields [OF e(1)])
qed

lemma consecutive_map: "consecutive (map f xs) = map (\<lambda>(b, c). (f b, f c)) (consecutive xs)"
  by (simp add: consecutive_def map_tl [symmetric] zip_map_map)

lemma consecutive_distinct: "distinct xs \<Longrightarrow> distinct (consecutive xs)"
  by (simp add: consecutive_def distinct_zipI1)

lemma consecutive_mem: "(b, c) \<in> set (consecutive xs) \<Longrightarrow> b \<in> set xs \<and> c \<in> set xs"
  by (cases xs) (auto simp: consecutive_def dest: set_zip_leftD set_zip_rightD)

lemma consecutive_length [simp]: "length (consecutive xs) = length xs - 1"
  by (simp add: consecutive_def)

lemma matches_confirms:
  assumes "distinct (map tp_report_id ts)" and "distinct (map drift_pair ds)" and "(b, c) \<in> set (consecutive ts)"
  shows "drift_matches A limits ts ds now (tp_report_id b, tp_report_id c) \<longleftrightarrow> list_ex (confirms A limits now b c) ds"
proof -
  have bc: "the (dict_by tp_report_id ts (tp_report_id b)) = b" "the (dict_by tp_report_id ts (tp_report_id c)) = c"
    using consecutive_mem [OF assms(3)] dict_by_distinct [OF assms(1)] by simp_all
  show ?thesis
  proof (cases "dict_by drift_pair ds (tp_report_id b, tp_report_id c)")
    case None
    then have "(tp_report_id b, tp_report_id c) \<notin> drift_pair ` set ds" using dict_by_dom [of drift_pair ds] by auto
    then have "\<not> list_ex (confirms A limits now b c) ds" by (auto simp: list_ex_iff image_iff dest!: confirms_fields(1))
    with None show ?thesis by (simp add: drift_matches_def)
  next
    case (Some d)
    have d: "d \<in> set ds" "drift_pair d = (tp_report_id b, tp_report_id c)" using dict_by_found [OF Some] by simp_all
    have "d' = d" if "d' \<in> set ds" "confirms A limits now b c d'" for d'
      using dict_by_distinct [OF assms(2) that(1)] confirms_fields(1) [OF that(2)] Some by simp
    then have "list_ex (confirms A limits now b c) ds \<longleftrightarrow> confirms A limits now b c d" using d(1) by (auto simp: list_ex_iff)
    then show ?thesis by (simp add: drift_matches_def confirms_def Some bc)
  qed
qed

lemma chain_complete_iff:
  assumes ts: "distinct (map tp_report_id ts)" and ds: "distinct (map drift_pair ds)"
  shows "drift_chain_complete A limits ts ds now \<longleftrightarrow> drift_chained A limits ts ds now"
proof -
  let ?pairs = "consecutive (map tp_report_id ts)"
  have cards: "card (set ?pairs) = length ts - 1" "card (set (map drift_pair ds)) = length ds"
    using distinct_card [OF consecutive_distinct [OF ts]] distinct_card [OF ds] by simp_all
  have matches: "list_all (drift_matches A limits ts ds now) ?pairs \<longleftrightarrow> list_all (\<lambda>(b, c). list_ex (confirms A limits now b c) ds) (consecutive ts)"
    unfolding consecutive_map list.pred_map
    by (rule list.pred_cong [OF refl]) (use matches_confirms [OF ts ds, of _ _ A limits now] in \<open>auto simp: list.pred_set\<close>)
  have "set (map drift_pair ds) = set ?pairs"
    if len: "length ds = length ts - 1" and all: "list_all (\<lambda>(b, c). list_ex (confirms A limits now b c) ds) (consecutive ts)"
  proof -
    have "set ?pairs \<subseteq> set (map drift_pair ds)"
    proof
      fix k assume "k \<in> set ?pairs"
      then obtain b c where k: "k = (tp_report_id b, tp_report_id c)" "(b, c) \<in> set (consecutive ts)" by (auto simp: consecutive_map)
      with all obtain d where "d \<in> set ds" "confirms A limits now b c d" by (auto simp: list_all_iff list_ex_iff)
      with k(1) show "k \<in> set (map drift_pair ds)" using confirms_fields(1) by (metis image_eqI set_map)
    qed
    then show ?thesis using card_subset_eq [of "set (map drift_pair ds)" "set ?pairs"] cards len by simp
  qed
  moreover have "length ds = length ts - 1" if "set (map drift_pair ds) = set ?pairs" using cards that by simp
  ultimately show ?thesis unfolding drift_chain_complete_def drift_chained_def matches using ds by blast
qed

lemma chain_stable_iff:
  assumes ts: "distinct (map tp_report_id ts)" and ds: "distinct (map drift_pair ds)"
  shows "drift_chain_stable A limits ts ds now \<longleftrightarrow> drift_chained A limits ts ds now \<and> list_all dr_stable ds"
proof -
  have "list_all (\<lambda>k. dr_stable (the (dict_by drift_pair ds k))) (consecutive (map tp_report_id ts)) \<longleftrightarrow> list_all dr_stable ds"
    if "drift_chain_complete A limits ts ds now"
  proof -
    have "set (consecutive (map tp_report_id ts)) = drift_pair ` set ds" using that by (simp add: drift_chain_complete_def)
    then show ?thesis using dict_by_distinct [OF ds] by (simp add: list_all_iff)
  qed
  then show ?thesis unfolding drift_chain_stable_def chain_complete_iff [OF assms, symmetric] by blast
qed

text \<open>In the order of their captures the drift reports are the consecutive pairs.\<close>

lemma ordered_drifts_perm: "mset (ordered_drifts ds) = mset ds"
  by (simp add: ordered_drifts_def)

lemma ordered_chain:
  assumes ts: "distinct (map tp_report_id ts)" and times: "sorted (map (\<lambda>t. dt_us (tp_captured_at t)) ts)" "distinct (map (\<lambda>t. dt_us (tp_captured_at t)) ts)"
    and ds: "distinct (map drift_pair ds)" and chain: "drift_chain_complete A limits ts ds now"
  shows "map drift_pair (ordered_drifts ds) = consecutive (map tp_report_id ts)"
proof -
  let ?key = "\<lambda>k. dt_us (tp_captured_at (the (dict_by tp_report_id ts (fst k))))"
  have set: "set (map drift_pair (ordered_drifts ds)) = set (consecutive (map tp_report_id ts))"
    using chain mset_eq_setD [OF ordered_drifts_perm [of ds]] by (simp add: drift_chain_complete_def)
  have at: "?key (drift_pair d) = dt_us (dr_baseline_at d)" if d: "d \<in> set ds" for d
  proof -
    from d chain obtain b c where bc: "(b, c) \<in> set (consecutive ts)" "drift_pair d = (tp_report_id b, tp_report_id c)"
      using imageI [of d "set ds" drift_pair] by (auto simp: drift_chain_complete_def consecutive_map)
    from chain bc(1) have "drift_matches A limits ts ds now (tp_report_id b, tp_report_id c)"
      by (fastforce simp: drift_chain_complete_def consecutive_map list_all_iff)
    then obtain d' where d': "d' \<in> set ds" "confirms A limits now b c d'"
      unfolding matches_confirms [OF ts ds bc(1)] by (auto simp: list_ex_iff)
    have "d' = d" using confirms_fields(1) [OF d'(2)] bc(2) d d'(1) ds by (metis distinct_map inj_onD)
    then show ?thesis using confirms_fields(2) [OF d'(2)] bc(2) consecutive_mem [OF bc(1)] dict_by_distinct [OF ts] by simp
  qed
  have keys: "map ?key (map drift_pair (ordered_drifts ds)) = map (\<lambda>d. dt_us (dr_baseline_at d)) (ordered_drifts ds)"
    using at mset_eq_setD [OF ordered_drifts_perm [of ds]] by simp
  have firsts: "map ?key (consecutive (map tp_report_id ts)) = map (\<lambda>t. dt_us (tp_captured_at t)) (take (length ts - 1) ts)"
  proof -
    have "map ?key (consecutive (map tp_report_id ts)) = map (\<lambda>(b, c). dt_us (tp_captured_at b)) (consecutive ts)"
      using consecutive_mem dict_by_distinct [OF ts] by (fastforce simp: consecutive_map)
    also have "\<dots> = map (\<lambda>t. dt_us (tp_captured_at t)) (map fst (consecutive ts))" by (simp add: case_prod_beta)
    finally show ?thesis by (simp add: consecutive_def map_fst_zip_take)
  qed
  have d1: "distinct (map ?key (consecutive (map tp_report_id ts)))" unfolding firsts using times(2) by (simp add: take_map [symmetric])
  have s1: "sorted (map ?key (consecutive (map tp_report_id ts)))" unfolding firsts using times(1) by (simp add: take_map [symmetric] sorted_wrt_take)
  have inj: "inj_on ?key (set (consecutive (map tp_report_id ts)))" using d1 by (simp only: distinct_map)
  have "distinct (map drift_pair (ordered_drifts ds))" using ds by (metis distinct_map mset_eq_imp_distinct_iff mset_map ordered_drifts_perm)
  then have d2: "distinct (map ?key (map drift_pair (ordered_drifts ds)))" using inj set by (subst distinct_map) simp
  have s2: "sorted (map ?key (map drift_pair (ordered_drifts ds)))" unfolding keys by (simp add: ordered_drifts_def)
  show ?thesis by (rule map_sorted_distinct_set_unique [OF _ s2 d2 s1 d1 set]) (use inj set in simp)
qed

section \<open>What an assessment decides\<close>

definition grounded_binds :: "score_report \<Rightarrow> evaluation_report \<Rightarrow> bool" where
  "grounded_binds t g \<longleftrightarrow> er_report_id g = tp_grounded_id t \<and> er_report_sha256 g = tp_grounded_sha256 t \<and> er_task_id g = tp_task_id t
     \<and> er_task_sha256 g = tp_task_sha256 t \<and> er_batch_id g = tp_batch_id t \<and> er_batch_sha256 g = tp_batch_sha256 t"

text \<open>The evidence fits together: distinct captures, each bound to its grounded report, and no report supplied twice or for nothing.\<close>

definition assessable :: "evaluation_report list \<Rightarrow> score_report list \<Rightarrow> drift_report list \<Rightarrow> bool" where
  "assessable gs ts ds \<longleftrightarrow> in_range 1 100 (length ts) \<and> length ds \<le> 99 \<and> distinct (map tp_report_id ts)
     \<and> distinct (map (\<lambda>t. dt_us (tp_captured_at t)) ts) \<and> distinct (map er_report_id gs) \<and> distinct (map drift_pair ds)
     \<and> list_all (\<lambda>t. list_ex (grounded_binds t) gs) ts \<and> list_all (\<lambda>g. list_ex (\<lambda>t. tp_grounded_id t = er_report_id g) ts) gs"

definition grounded_of :: "evaluation_report list \<Rightarrow> score_report \<Rightarrow> evaluation_report" where
  "grounded_of gs t = the (dict_by er_report_id gs (tp_grounded_id t))"

lemma bound_iff:
  assumes "distinct (map er_report_id gs)"
  shows "bound_grounded (dict_by er_report_id gs) t = Inr g \<longleftrightarrow> g = grounded_of gs t \<and> list_ex (grounded_binds t) gs"
proof (cases "dict_by er_report_id gs (tp_grounded_id t)")
  case None
  then have "tp_grounded_id t \<notin> er_report_id ` set gs" using dict_by_dom [of er_report_id gs] by auto
  with None show ?thesis by (auto simp: bound_grounded_def grounded_binds_def list_ex_iff image_iff)
next
  case (Some h)
  have h: "h \<in> set gs" "er_report_id h = tp_grounded_id t" using dict_by_found [OF Some] by simp_all
  have "g' = h" if "g' \<in> set gs" "grounded_binds t g'" for g'
    using dict_by_distinct [OF assms that(1)] that(2) Some by (simp add: grounded_binds_def)
  then have "list_ex (grounded_binds t) gs \<longleftrightarrow> grounded_binds t h" using h(1) by (auto simp: list_ex_iff)
  then show ?thesis using h(2) by (auto simp: bound_grounded_def grounded_of_def Some grounded_binds_def)
qed

lemma bound_all:
  assumes "distinct (map er_report_id gs)"
  shows "rmap (bound_grounded (dict_by er_report_id gs)) ts = Inr bs \<longleftrightarrow> bs = map (grounded_of gs) ts \<and> list_all (\<lambda>t. list_ex (grounded_binds t) gs) ts"
  unfolding rmap_eq_Inr bound_iff [OF assms] by (auto simp: list_all2_conv_all_nth list_all_length intro: nth_equalityI)

lemma by_capture_set [simp]: "set (by_capture ts) = set ts" "length (by_capture ts) = length ts"
  "distinct (map f (by_capture ts)) = distinct (map f ts)" "by_capture ts = [] \<longleftrightarrow> ts = []"
proof -
  have m: "mset (by_capture ts) = mset ts" by (simp add: by_capture_def)
  show "set (by_capture ts) = set ts" by (rule mset_eq_setD [OF m])
  show l: "length (by_capture ts) = length ts" by (rule mset_eq_length [OF m])
  show "distinct (map f (by_capture ts)) = distinct (map f ts)" by (rule mset_eq_imp_distinct_iff) (simp add: m)
  show "by_capture ts = [] \<longleftrightarrow> ts = []" using l by (metis length_0_conv)
qed

lemma by_capture_all [simp]: "list_all P (by_capture ts) = list_all P ts" "list_ex P (by_capture ts) = list_ex P ts"
  by (simp_all add: list_all_iff list_ex_iff)

lemma printable_by_capture: "printable p r (by_capture ts) = printable p r ts"
proof -
  have "sum_list (map tp_case_count (by_capture ts)) = sum_list (map tp_case_count ts)"
    unfolding sum_mset_sum_list [symmetric] mset_map by (simp add: by_capture_def)
  then show ?thesis by (simp add: printable_def list_all_iff)
qed

lemma blocked_reasons: "list_all (\<lambda>g. validate_gate g = Inr g) gs \<Longrightarrow> length (blocking_reasons gs) = length (blocked_gates gs)"
  by (induction gs) (auto simp: blocking_reasons_def blocked_gates_def validate_gate_def guard_simps)

lemma assessment_valid:
  assumes A: "hex_digest (aa_sha256 A)" and rows: "map lg_id rows = release_gate_ids"
    and ts: "in_range 1 100 (length ts)" "distinct (map tp_report_id ts)" "sorted (map (\<lambda>t. dt_us (tp_captured_at t)) ts)"
      "distinct (map (\<lambda>t. dt_us (tp_captured_at t)) ts)"
    and ds: "length ds \<le> 99" "distinct (map drift_pair ds)"
    and chain: "gate_passed rows ''trajectory_drift_chain'' \<Longrightarrow> map drift_pair ds = consecutive (map tp_report_id ts)"
    and no_alert: "gate_passed rows ''trajectory_drift_stability'' \<longleftrightarrow> gate_passed rows ''trajectory_drift_chain'' \<and> list_all dr_stable ds"
    and a: "a = assessment_of A p r system stamp relationship (map trajectory_evidence_of ts) (map drift_evidence_of ds) rows"
  shows "validate_assessment A a = Inr a"
proof -
  have h: "agent_release_assessment_sha256 A a = rl_sha256 a" by (simp add: a agent_release_assessment_sha256_def assessment_of_def Let_def)
  have id: "rl_id a = ''release-assessment-'' @ take 20 (rl_sha256 a)" by (simp add: a assessment_of_def Let_def)
  have shape: "matches_hex [] 64 (rl_sha256 a)" "matches_hex ''release-assessment-'' 20 (rl_id a)"
    unfolding id by (simp_all only: h [symmetric] agent_release_assessment_sha256_def digest_shapes [OF A])
  have parts: "rl_gates a = rows" "rl_trajectories a = map trajectory_evidence_of ts" "rl_drifts a = map drift_evidence_of ds"
    "rl_gate_count a = int (length rows)" "rl_passed_count a = int (length rows) - int (length (blocked_gates rows))"
    "rl_blocked_count a = int (length (blocked_gates rows))" "rl_blocking_reasons a = blocking_reasons rows"
    "rl_eligible a = (blocked_gates rows = [])" "rl_generated_at a = utc (dt_us stamp)"
    by (simp_all add: a assessment_of_def Let_def)
  have maps: "map (\<lambda>e. dt_us (we_captured_at e)) (map trajectory_evidence_of ts) = map (\<lambda>t. dt_us (tp_captured_at t)) ts"
    "map we_report_id (map trajectory_evidence_of ts) = map tp_report_id ts"
    "map (\<lambda>d. (xe_baseline_id d, xe_current_id d)) (map drift_evidence_of ds) = map drift_pair ds"
    "list_all xe_stable (map drift_evidence_of ds) = list_all dr_stable ds"
    by (simp_all add: trajectory_evidence_of_def drift_evidence_of_def drift_pair_def list.pred_map comp_def)
  have n: "length rows = 22" using arg_cong [OF rows, of length] by (simp add: release_gate_ids_def)
  have count: "int (length rows) - int (length (blocked_gates rows)) = int (length (filter lg_passed rows))"
    using sum_length_filter_compl [of lg_passed rows] by (simp add: blocked_gates_def)
  have st: "aware (utc (dt_us stamp))" by (simp add: aware_def utc_def)
  show ?thesis unfolding validate_assessment_def Let_def parts maps guard_simps h id [symmetric]
      list.set ball_simps fst_conv not_not
    using shape rows ts ds chain no_alert n count st sorted_sort_id [OF ts(3)] by (intro conjI) (auto simp: in_range_def)
qed

lemma evidence_ok:
  assumes "hex_digest (aa_sha256 A)" and "relationship_ok r"
  shows "validate_relationship_evidence (relationship_evidence_of A r) = Inr (relationship_evidence_of A r)"
    and "list_all (score_ok A) ts \<Longrightarrow> rmap (\<lambda>t. validate_trajectory_evidence (trajectory_evidence_of t)) ts = Inr (map trajectory_evidence_of ts)"
    and "list_all (\<lambda>d. validate_drift_report A d = Inr d) ds \<Longrightarrow> rmap (\<lambda>d. validate_drift_evidence (drift_evidence_of d)) ds = Inr (map drift_evidence_of ds)"
proof -
  show "validate_relationship_evidence (relationship_evidence_of A r) = Inr (relationship_evidence_of A r)"
    using assms(2) regression_range [OF assms(2)] digest_shapes(1) [OF assms(1)]
    by (simp add: validate_relationship_evidence_def guard_simps relationship_evidence_of_def relationship_ok_def fits_def)
  show "rmap (\<lambda>t. validate_trajectory_evidence (trajectory_evidence_of t)) ts = Inr (map trajectory_evidence_of ts)" if "list_all (score_ok A) ts"
  proof (intro rmap_Inr_fun)
    fix t assume "t \<in> set ts"
    with that have "score_ok A t" by (simp add: list_all_iff)
    then show "validate_trajectory_evidence (trajectory_evidence_of t) = Inr (trajectory_evidence_of t)"
      using score_shape [of A t] score_count [of A t] by (simp add: validate_trajectory_evidence_def guard_simps trajectory_evidence_of_def)
  qed
  show "rmap (\<lambda>d. validate_drift_evidence (drift_evidence_of d)) ds = Inr (map drift_evidence_of ds)" if "list_all (\<lambda>d. validate_drift_report A d = Inr d) ds"
    using that by (intro rmap_Inr_fun) (auto simp: validate_drift_evidence_def guard_simps drift_evidence_of_def list_all_iff validate_drift_report_def)
qed

lemma assessed:
  assumes "evaluate_agent_release A p r gs ts ds generated now = Inr a"
  shows "assessable gs ts ds" and "aware (case generated of Some v \<Rightarrow> v | None \<Rightarrow> now)"
    and "validate_assessment A a = Inr a"
proof -
  let ?stamp = "case generated of Some v \<Rightarrow> v | None \<Rightarrow> now"
  from assms obtain bound gates relationship trajectories drifts where
    d: "ts \<noteq> []" "distinct (map tp_report_id ts)" "distinct (map (\<lambda>t. dt_us (tp_captured_at t)) ts)" "distinct (map er_report_id gs)" and
    bound: "rmap (bound_grounded (dict_by er_report_id gs)) (by_capture ts) = Inr bound" and
    extra: "set (map er_report_id gs) \<subseteq> set (map tp_grounded_id (by_capture ts))" and
    t: "rmap (\<lambda>t. validate_trajectory_evidence (trajectory_evidence_of t)) (by_capture ts) = Inr trajectories" and
    x: "rmap (\<lambda>d. validate_drift_evidence (drift_evidence_of d)) (ordered_drifts ds) = Inr drifts" and
    st: "aware ?stamp" and
    v: "validate_assessment A (assessment_of A p r (tp_system (hd (by_capture ts))) ?stamp relationship trajectories drifts gates) = Inr a"
    unfolding evaluate_agent_release_def Let_def
    by (auto simp: raise_first_eq_Inr split: if_splits)
  show "aware ?stamp" by (rule st)
  have a: "a = assessment_of A p r (tp_system (hd (by_capture ts))) ?stamp relationship trajectories drifts gates"
    using v by (simp add: validate_assessment_def Let_def raise_first_eq_Inr)
  show "validate_assessment A a = Inr a" using v unfolding a .
  have t': "length trajectories = length ts" using rmap_length [OF t] by simp
  have "list_all2 (\<lambda>d e. (dr_baseline_id d, dr_current_id d) = (xe_baseline_id e, xe_current_id e)) (ordered_drifts ds) drifts"
    using x unfolding rmap_eq_Inr by (rule list_all2_mono) (auto simp: validate_drift_evidence_def raise_first_eq_Inr drift_evidence_of_def)
  then have pairs: "map (\<lambda>e. (xe_baseline_id e, xe_current_id e)) drifts = map drift_pair (ordered_drifts ds)"
    by (induction rule: list_all2_induct) (simp_all add: drift_pair_def)
  have parts: "rl_trajectories a = trajectories" "rl_drifts a = drifts" by (simp_all add: a assessment_of_def Let_def)
  have len: "in_range 1 100 (length trajectories)" "length drifts \<le> 99" "distinct (map drift_pair (ordered_drifts ds))"
    using v unfolding a [symmetric] validate_assessment_def Let_def guard_simps parts pairs list.set ball_simps fst_conv not_not by blast+
  have "length drifts = length ds" using rmap_length [OF x] mset_eq_length [OF ordered_drifts_perm [of ds]] by simp
  moreover have "distinct (map drift_pair ds)"
    using len(3) by (subst mset_eq_imp_distinct_iff [of _ "map drift_pair (ordered_drifts ds)"]) (simp_all add: ordered_drifts_perm)
  moreover have "list_all (\<lambda>g. list_ex (\<lambda>t. tp_grounded_id t = er_report_id g) ts) gs"
  proof -
    have "\<exists>t \<in> set ts. tp_grounded_id t = er_report_id g" if "g \<in> set gs" for g
    proof -
      have "er_report_id g \<in> tp_grounded_id ` set ts" using extra that by auto
      then show ?thesis by auto
    qed
    then show ?thesis by (simp add: list_all_iff list_ex_iff)
  qed
  ultimately show "assessable gs ts ds"
    using d len t' bound [unfolded bound_all [OF d(4)]] by (simp add: assessable_def)
qed

lemma release_assessed:
  assumes A: "hex_digest (aa_sha256 A)" and p: "policy_ok A p" and r: "relationship_ok r" and gs: "list_all measured gs" and ts: "list_all (score_ok A) ts"
    and ds: "list_all (\<lambda>d. validate_drift_report A d = Inr d) ds" and print: "printable p r ts"
    and fit: "assessable gs ts ds" and stamp: "aware (case generated of Some v \<Rightarrow> v | None \<Rightarrow> now)"
  obtains a where "evaluate_agent_release A p r gs ts ds generated now = Inr a"
    "rl_eligible a \<longleftrightarrow> systems_stable (by_capture ts) (map (grounded_of gs) (by_capture ts)) \<and> meets_policy p r (map (grounded_of gs) (by_capture ts)) (by_capture ts)
       \<and> drift_chained A (rq_drift p) (by_capture ts) ds now \<and> list_all dr_stable ds"
proof -
  let ?ts = "by_capture ts" and ?ds = "ordered_drifts ds"
  let ?gs = "map (grounded_of gs) ?ts"
  note f = fit [unfolded assessable_def]
  have len: "?ts \<noteq> []" "length ?ts \<le> 100" "in_range 1 100 (length ?ts)" using f by (auto simp: in_range_def)
  have bound: "rmap (bound_grounded (dict_by er_report_id gs)) ?ts = Inr ?gs" using f by (simp add: bound_all)
  have m: "list_all measured ?gs"
  proof -
    have "grounded_of gs t \<in> set gs" if "t \<in> set ts" for t
    proof -
      from f that obtain g where "g \<in> set gs" "grounded_binds t g" by (auto simp: list_all_iff list_ex_iff)
      then show ?thesis using dict_by_distinct [of er_report_id gs g] f by (simp add: grounded_of_def grounded_binds_def)
    qed
    with gs show ?thesis by (auto simp: list_all_iff)
  qed
  have ok: "list_all (score_ok A) ?ts" "?gs \<noteq> []" "length ds \<le> 100" "printable p r ?ts" using ts len f print by (simp_all add: printable_by_capture)
  obtain rows where rows: "release_gates A p r ?gs ?ts ds now = Inr rows" "map lg_id rows = release_gate_ids"
    "list_all (\<lambda>g. validate_gate g = Inr g) rows"
    "list_all lg_passed rows \<longleftrightarrow> systems_stable ?ts ?gs \<and> meets_policy p r ?gs ?ts \<and> drift_chain_stable A (rq_drift p) ?ts ds now"
    "gate_passed rows ''trajectory_drift_chain'' = drift_chain_complete A (rq_drift p) ?ts ds now"
    "gate_passed rows ''trajectory_drift_stability'' = drift_chain_stable A (rq_drift p) ?ts ds now"
    by (rule release_gates_ok [OF p r len(1,2) ok(1,2) m ok(3,4)])
  have times: "sorted (map (\<lambda>t. dt_us (tp_captured_at t)) ?ts)" by (simp add: by_capture_def)
  have u: "distinct (map tp_report_id ?ts)" "distinct (map (\<lambda>t. dt_us (tp_captured_at t)) ?ts)" "distinct (map drift_pair ds)" "length ?ds \<le> 99"
    using f mset_eq_length [OF ordered_drifts_perm [of ds]] by simp_all
  have perm: "set ?ds = set ds" by (rule mset_eq_setD [OF ordered_drifts_perm])
  have u': "distinct (map drift_pair ?ds)"
    using u(3) by (subst mset_eq_imp_distinct_iff [of _ "map drift_pair ds"]) (simp_all add: ordered_drifts_perm)
  have chain: "map drift_pair ?ds = consecutive (map tp_report_id ?ts)" if "gate_passed rows ''trajectory_drift_chain''"
    using ordered_chain [OF u(1) times u(2,3)] that unfolding rows(5) by blast
  have stable: "gate_passed rows ''trajectory_drift_stability'' \<longleftrightarrow> gate_passed rows ''trajectory_drift_chain'' \<and> list_all dr_stable ?ds"
    unfolding rows(5,6) chain_stable_iff [OF u(1,3)] chain_complete_iff [OF u(1,3)] by (simp add: list_all_iff perm)
  let ?a = "assessment_of A p r (tp_system (hd ?ts)) (case generated of Some v \<Rightarrow> v | None \<Rightarrow> now) (relationship_evidence_of A r)
      (map trajectory_evidence_of ?ts) (map drift_evidence_of ?ds) rows"
  have ds': "list_all (\<lambda>d. validate_drift_report A d = Inr d) ?ds" using ds by (simp add: list_all_iff perm)
  have v: "validate_assessment A ?a = Inr ?a"
    by (rule assessment_valid [OF A rows(2) len(3) u(1) times u(2,4) u' chain stable refl])
  have referenced: "set (map er_report_id gs) \<subseteq> set (map tp_grounded_id ?ts)" using f by (auto simp: list_all_iff list_ex_iff image_iff) metis
  have e: "evaluate_agent_release A p r gs ts ds generated now = Inr ?a"
    unfolding evaluate_agent_release_def Let_def
    using f len(1) stamp referenced
    by (simp add: raise_first.simps bound rows(1) evidence_ok(1) [OF A r] evidence_ok(2) [OF A r ok(1)] evidence_ok(3) [OF A r ds'] v del: set_map)
  have "rl_eligible ?a \<longleftrightarrow> list_all lg_passed rows"
    by (simp add: assessment_of_def Let_def blocked_gates_def filter_empty_conv list_all_iff)
  then show ?thesis by (intro that [OF e]) (simp only: rows(4) chain_stable_iff [OF u(1,3)] conj_assoc)
qed


section \<open>What the agent run sees\<close>

lemma every_gate_view:
  assumes "map lg_id (rl_gates a) = release_gate_ids" and "set ks \<subseteq> set release_gate_ids" and "list_all lg_passed (rl_gates a)"
  shows "every_gate (assessment_view a) ks"
proof -
  have gates: "ra_gates (assessment_view a) = map (\<lambda>g. (lg_id g, lg_passed g)) (rl_gates a)" by (simp add: assessment_view_def)
  have "map_of (rev (map (\<lambda>g. (lg_id g, lg_passed g)) (rl_gates a))) k = Some True" if "k \<in> set ks" for k
  proof -
    from that assms(1,2) have "k \<in> lg_id ` set (rl_gates a)" by (metis list.set_map subsetD)
    then obtain g where g: "g \<in> set (rl_gates a)" "lg_id g = k" by auto
    have "distinct (map fst (rev (map (\<lambda>g. (lg_id g, lg_passed g)) (rl_gates a))))"
      using assms(1) gate_ids_distinct by (simp add: rev_map [symmetric] comp_def)
    then show ?thesis using g assms(3) by (intro map_of_is_SomeI) (auto simp: list_all_iff image_iff)
  qed
  then show ?thesis by (simp add: every_gate_def gates list_all_iff)
qed

lemma gate_valid: "gate k passed obs req reason = Inr g \<Longrightarrow> validate_gate g = Inr g"
  by (auto simp: gate_def validate_gate_def raise_first_eq_Inr)

lemma rmap_id_all: "rmap id xs = Inr ys \<Longrightarrow> list_all (\<lambda>x. \<forall>y. x = Inr y \<longrightarrow> P y) xs \<Longrightarrow> list_all P ys"
  unfolding rmap_eq_Inr id_apply by (induction rule: list_all2_induct) auto

lemma release_gates_valid:
  "release_gates A p r gs ts ds now = Inr rows \<Longrightarrow> list_all (\<lambda>g. validate_gate g = Inr g) rows"
  unfolding release_gates_def Let_def
  by (erule rmap_id_all)
    (auto simp: relationship_gates_def sample_gates_def grounded_gates_def trajectory_gates_def drift_gates_def rate_gate_def Let_def dest: gate_valid)

lemma assessed_gates:
  assumes "evaluate_agent_release A p r gs ts ds generated now = Inr a"
  shows "list_all (\<lambda>g. validate_gate g = Inr g) (rl_gates a)"
proof -
  from assms obtain bound rows relationship trajectories drifts stamp where
    "release_gates A p r bound (by_capture ts) ds now = Inr rows" and
    v: "validate_assessment A (assessment_of A p r (tp_system (hd (by_capture ts))) stamp relationship trajectories drifts rows) = Inr a"
    unfolding evaluate_agent_release_def Let_def by (auto simp: raise_first_eq_Inr split: if_splits)
  moreover have "rl_gates a = rows" using v by (auto simp: validate_assessment_def Let_def raise_first_eq_Inr assessment_of_def)
  ultimately show ?thesis using release_gates_valid by blast
qed

text \<open>C6. Every assessment the release evaluation returns makes an observation the agent run accepts: its threshold is met
exactly when all gates passed, its six quality flags are then set, and a blocked assessment carries a reason for each
failed gate.\<close>

theorem assessment_observation_valid:
  assumes "evaluate_agent_release A p r gs ts ds generated now = Inr a"
  shows "validate_release_observation (agent_release_observation (assessment_view a)) = Inr ()
    \<and> (ro_release_threshold (agent_release_observation (assessment_view a)) \<longleftrightarrow> list_all lg_passed (rl_gates a))
    \<and> length (ro_blocking_reasons (agent_release_observation (assessment_view a))) = length (filter (\<lambda>g. \<not> lg_passed g) (rl_gates a))"
proof -
  have v: "map lg_id (rl_gates a) = release_gate_ids" "rl_blocking_reasons a = blocking_reasons (rl_gates a)"
    "rl_eligible a = (blocked_gates (rl_gates a) = [])" "in_range 1 100 (length (rl_trajectories a))"
    using assessed(3) [OF assms] unfolding validate_assessment_def Let_def guard_simps list.set ball_simps fst_conv not_not by blast+
  have n: "length (blocking_reasons (rl_gates a)) = length (blocked_gates (rl_gates a))" by (rule blocked_reasons [OF assessed_gates [OF assms]])
  have all: "rl_eligible a \<longleftrightarrow> list_all lg_passed (rl_gates a)" by (simp add: v(3) blocked_gates_def filter_empty_conv list_all_iff)
  have t: "rl_trajectories a \<noteq> []" using v(4) by (auto simp: in_range_def)
  have flags: "every_gate (assessment_view a) ks" if "rl_eligible a" "set ks \<subseteq> set release_gate_ids" for ks
    using every_gate_view [OF v(1) that(2)] that(1) all by blast
  have "validate_release_observation (agent_release_observation (assessment_view a)) = Inr ()"
  proof (cases "rl_eligible a")
    case True
    then have "blocking_reasons (rl_gates a) = []" using n v(3) by simp
    then show ?thesis using True t flags [OF True]
      by (simp add: validate_release_observation_def agent_release_observation_def guard_simps release_identity_def release_flags_def
          release_gate_ids_def) (simp add: assessment_view_def v(2))
  next
    case False
    then have "blocking_reasons (rl_gates a) \<noteq> []" using n v(3) by auto
    then show ?thesis using False t
      by (simp add: validate_release_observation_def agent_release_observation_def guard_simps release_identity_def assessment_view_def v(2))
  qed
  then show ?thesis using all n by (simp add: agent_release_observation_def assessment_view_def v(2) blocked_gates_def)
qed

section \<open>A sample release\<close>

text \<open>A comparison confirms the report it returned.\<close>

lemma compare_again:
  assumes "compare_agent_trajectory_reports A b c (Some p) generated now = Inr d"
  shows "validate_drift_report A d = Inr d" "confirms A p now' b c d"
proof -
  let ?stamp = "case generated of Some v \<Rightarrow> v | None \<Rightarrow> now"
  from assms obtain ks where ks: "drift_checks (tp_overall b) (tp_overall c) p = Inr ks" "aware ?stamp"
      and v: "validate_drift_report A (drift_of A b c p ?stamp ks) = Inr d"
    unfolding compare_agent_trajectory_reports_def Let_def by (auto simp: raise_first_eq_Inr split: if_splits)
  have d: "d = drift_of A b c p ?stamp ks" using v by (simp add: validate_drift_report_def raise_first_eq_Inr)
  show valid: "validate_drift_report A d = Inr d" using v unfolding d .
  have g: "dr_generated_at d = utc (dt_us ?stamp)" by (simp add: d drift_of_def Let_def)
  have again: "drift_of A b c p (dr_generated_at d) ks = d" unfolding g by (simp add: d drift_of_def utc_def)
  have "aware (dr_generated_at d)" by (simp add: g aware_def utc_def)
  then have "compare_agent_trajectory_reports A b c (Some p) (Some (dr_generated_at d)) now' = Inr d"
    using compared [OF assms] ks(1) valid
    by (simp add: compare_agent_trajectory_reports_def comparable_def raise_first.simps Let_def again)
  moreover have "same_drift d d" by (simp add: same_drift_def)
  ultimately show "confirms A p now' b c d" by (simp add: confirms_def)
qed

definition release_sample_api :: release_api where
  "release_sample_api = \<lparr>aa_sha256 = drift_sample_sha, aa_float = (\<lambda>_. ''0.0''), aa_casefold = (\<lambda>s. s), aa_dump_case = (\<lambda>_. JNull),
     aa_dump_task = (\<lambda>_. JNull), aa_dump_response = (\<lambda>_. JNull), aa_dump_batch = (\<lambda>_. JNull), aa_sum = sum_list,
     aa_dump_review = (\<lambda>_. JNull), aa_dump_report = (\<lambda>_. JNull), aa_read_csv = (\<lambda>_. []), aa_write_csv = concat \<circ> map concat,
     ta_dump_batch = (\<lambda>_. JNull), sa_dump_score = sa_dump_score drift_sample_api, va_dump_drift = (\<lambda>_. JNull), ea_dump_policy = (\<lambda>_. JNull),
     ea_dump_assessment = (\<lambda>_. JNull)\<rparr>"

text \<open>The default policy with smaller samples.\<close>

definition sample_policy :: release_policy where
  "sample_policy = default_policy\<lparr>rq_id := sample_id ''release-policy-'' 20, rq_sha256 := sample_digest, rq_min_captures := 2,
     rq_min_total_cases := 2, rq_min_capture_cases := 1\<rparr>"

definition sample_relationship :: relationship_report where
  "sample_relationship = \<lparr>rn_report_id = ''gold-candidate-0'', rn_case_count = 40, rn_candidate = sample_system, rn_macro_f1 = Some 1,
     rn_accuracy_delta = 0, rn_regressions = 1, rn_dump = JNull\<rparr>"

definition sample_reviewed :: "bool \<Rightarrow> evaluation_report" where
  "sample_reviewed later = sample_grounded\<lparr>er_report_id := capture_id ''grounded-report-'' later, er_report_sha256 := capture_digest later,
     er_task_id := sample_id ''grounded-task-'' 20, er_task_sha256 := sample_digest, er_batch_id := sample_id ''grounded-batch-'' 20,
     er_batch_sha256 := sample_digest\<rparr>"

lemma release_sample_like: "capture_like release_sample_api"
  by (simp add: capture_like_def release_sample_api_def)

lemma sample_limits: "in_range 0 1 (fl (80 / 100))" "in_range 0 1 (fl (5 / 100))" "in_range 0 1 (fl (90 / 100))" "in_range 0 1 (fl (2 / 100))"
  "in_range 0 1 (fl (98 / 100))"
  using fl_in_range [of _ 1] by simp_all

lemma sample_policy_ok: "policy_ok release_sample_api sample_policy"
proof -
  have t: "thresholds_ok (rq_drift sample_policy)" using default_thresholds_ok by (simp add: sample_policy_def default_policy_def)
  have h: "agent_release_policy_sha256 release_sample_api sample_policy = sample_digest"
    by (simp add: agent_release_policy_sha256_def canonical_sha256_def release_sample_api_def drift_sample_sha_def)
  have id: "''release-policy-'' @ take 20 sample_digest = rq_id sample_policy" by (simp add: sample_policy_def sample_id_def)
  have "validate_release_policy release_sample_api sample_policy = Inr sample_policy"
    unfolding validate_release_policy_def guard_simps h id list.set ball_simps fst_conv not_not
    using sample_limits by (intro conjI) (simp_all add: sample_policy_def default_policy_def, simp_all add: in_range_def)
  with t show ?thesis by (simp add: policy_ok_def)
qed

lemma sample_relationship_ok: "relationship_ok sample_relationship"
proof -
  have n: "name_id (cs_candidate_id sample_system)" by code_simp
  show ?thesis using n by (simp add: relationship_ok_def sample_relationship_def fits_def in_range_def)
qed

lemma sample_reviewed_ok: "measured (sample_reviewed later)"
  by (simp add: measured_def validate_summary_def guard_simps sample_reviewed_def sample_grounded_def in_range_def)

lemma sample_captures: "by_capture [sample_score True, sample_score False] = [sample_score False, sample_score True]"
  by (simp add: by_capture_def sample_score_def utc_def)

lemma capture_ids_differ: "capture_id p True \<noteq> capture_id p False"
  by (simp add: capture_id_def capture_digest_def later_digest_def sample_digest_def)

lemma sample_bindings: "grounded_of [sample_reviewed False, sample_reviewed True] (sample_score later) = sample_reviewed later"
  "list_ex (grounded_binds (sample_score later)) [sample_reviewed False, sample_reviewed True]"
  using capture_ids_differ [of "''grounded-report-''"] capture_ids_differ [of "''grounded-report-''", symmetric]
  by (cases later; simp add: grounded_of_def dict_by_def sample_score_def sample_reviewed_def grounded_binds_def)+

lemma sample_assessable:
  "drift_pair d = (tp_report_id (sample_score False), tp_report_id (sample_score True))
     \<Longrightarrow> assessable [sample_reviewed False, sample_reviewed True] [sample_score True, sample_score False] [d]"
  using capture_ids_differ [of "''grounded-report-''"] capture_ids_differ [of "''trajectory-report-''"] sample_bindings(2)
  by (simp add: assessable_def in_range_def) (simp add: sample_score_def sample_reviewed_def utc_def)

lemma sample_meets: "meets_policy sample_policy sample_relationship [sample_reviewed False, sample_reviewed True] [sample_score False, sample_score True]"
proof -
  have "fl (1 / 40) \<le> fl (5 / 100)" by (rule fl_mono) simp
  then show ?thesis using sample_limits
    by (simp add: meets_policy_def sample_policy_def default_policy_def sample_relationship_def sample_score_def sample_trace_summary_def
        sample_reviewed_def sample_grounded_def regression_rate_def answered_rate_def in_range_def)
qed

lemma sample_systems: "systems_stable [sample_score False, sample_score True] [sample_reviewed False, sample_reviewed True]"
  by (simp add: systems_stable_def sample_score_def sample_reviewed_def sample_grounded_def)

lemma sample_printable: "printable sample_policy sample_relationship [sample_score True, sample_score False]"
  by (simp add: printable_def text_digits_def sample_policy_def default_policy_def sample_relationship_def sample_score_def sample_trace_summary_def)

lemma sample_drift:
  obtains d where "validate_drift_report release_sample_api d = Inr d" "dr_stable d"
    "confirms release_sample_api (rq_drift sample_policy) now (sample_score False) (sample_score True) d"
proof -
  have p: "rq_drift sample_policy = default_drift_thresholds" by (simp add: sample_policy_def default_policy_def)
  have o: "tp_overall (sample_score later) = sample_trace_summary" for later by (simp add: sample_score_def)
  note ok = sample_score_ok [OF release_sample_like]
  have "deteriorates_within default_drift_thresholds 0 sample_trace_summary sample_trace_summary" by code_simp
  then have w: "checks_pass default_drift_thresholds sample_trace_summary sample_trace_summary"
    using checks_sandwich(1) [OF ok ok default_thresholds_ok, of False True] unfolding o by blast
  have a: "aware (case None of Some v \<Rightarrow> v | None \<Rightarrow> sample_time)" by (simp add: sample_time_def aware_def)
  obtain d where d: "compare_agent_trajectory_reports release_sample_api (sample_score False) (sample_score True) (Some default_drift_thresholds) None sample_time = Inr d"
      "dr_stable d \<longleftrightarrow> checks_pass default_drift_thresholds sample_trace_summary sample_trace_summary"
    by (rule compare_ok [OF drift_digest [OF release_sample_like] ok ok default_thresholds_ok sample_comparable a, unfolded o])
  show ?thesis by (rule that [of d]) (use compare_again [OF d(1)] d(2) w in \<open>simp_all add: p\<close>)
qed

lemma sample_release:
  obtains d where "list_all (\<lambda>d. validate_drift_report release_sample_api d = Inr d) [d]"
    "assessable [sample_reviewed False, sample_reviewed True] [sample_score True, sample_score False] [d]"
    "systems_stable [sample_score False, sample_score True] [sample_reviewed False, sample_reviewed True]
      \<and> meets_policy sample_policy sample_relationship [sample_reviewed False, sample_reviewed True] [sample_score False, sample_score True]
      \<and> drift_chained release_sample_api (rq_drift sample_policy) [sample_score False, sample_score True] [d] sample_time \<and> list_all dr_stable [d]"
proof -
  obtain d where d: "validate_drift_report release_sample_api d = Inr d" "dr_stable d"
    "confirms release_sample_api (rq_drift sample_policy) sample_time (sample_score False) (sample_score True) d"
    by (rule sample_drift)
  have "drift_chained release_sample_api (rq_drift sample_policy) [sample_score False, sample_score True] [d] sample_time"
    using d(3) by (simp add: drift_chained_def consecutive_def)
  then show ?thesis
    using that [of d] sample_assessable [OF confirms_fields(1) [OF d(3)]] sample_systems sample_meets d by simp
qed

lemma sample_evidence:
  "hex_digest (aa_sha256 release_sample_api)" "list_all measured [sample_reviewed False, sample_reviewed True]"
  "list_all (score_ok release_sample_api) [sample_score True, sample_score False]" "aware (case None of Some v \<Rightarrow> v | None \<Rightarrow> sample_time)"
  by (simp_all add: sample_score_ok [OF release_sample_like] sample_reviewed_ok drift_digest [OF release_sample_like] sample_time_def aware_def)


theorem assessment_observation_valid_witness:
  "\<exists>a. validate_release_observation (agent_release_observation (assessment_view a)) = Inr () \<and> rl_eligible a"
proof -
  obtain d where d: "list_all (\<lambda>d. validate_drift_report release_sample_api d = Inr d) [d]"
      "assessable [sample_reviewed False, sample_reviewed True] [sample_score True, sample_score False] [d]"
      "systems_stable [sample_score False, sample_score True] [sample_reviewed False, sample_reviewed True]
       \<and> meets_policy sample_policy sample_relationship [sample_reviewed False, sample_reviewed True] [sample_score False, sample_score True]
       \<and> drift_chained release_sample_api (rq_drift sample_policy) [sample_score False, sample_score True] [d] sample_time \<and> list_all dr_stable [d]"
    by (rule sample_release)
  obtain a where a: "evaluate_agent_release release_sample_api sample_policy sample_relationship [sample_reviewed False, sample_reviewed True]
     [sample_score True, sample_score False] [d] None sample_time = Inr a" "rl_eligible a"
    using release_assessed [OF sample_evidence(1) sample_policy_ok sample_relationship_ok sample_evidence(2,3) d(1) sample_printable d(2) sample_evidence(4),
      unfolded sample_captures list.map sample_bindings(1)] d(3) by blast
  show ?thesis using assessment_observation_valid [OF a(1)] a(2) by blast
qed

end
