(* ===== verification/Spec2Isabelle.thy ===== *)
theory Spec2Isabelle
  imports PollStore ValkeyPollStore RateLimit Ingest Ledger CorrelationQuery Indexing Release
begin

text \<open>
  A verification development for Atlas Pulse (Python, \<open>src/src/atlas_pulse\<close>): a service that polls public
  event feeds, publishes each event revision once to a stream, projects the stream into PostgreSQL, ranks
  and packs evidence for a query, and decides, with signed approvals, whether a proposed agent run may go
  ahead.

  \<^bold>\<open>Parts, in the order data flows\<close>

  \<^item> \<open>Prelude\<close>, \<open>PyNum\<close>, \<open>PyTime\<close>, \<open>PyText\<close>, \<open>StreamId\<close>, \<open>ValkeyReply\<close>, \<open>Base64\<close>, \<open>SignalEvent\<close>: the vocabulary.
    Exceptions are a datatype and a fallible function returns \<open>exn + 'a\<close> (\<open>Inl\<close> is the exception);
    validators are chains of guards (\<open>raise_first\<close>). A binary64 float is a rational, \<open>fl\<close> rounds to the
    nearest binary64 value (exponent range not limited) and \<open>py_round\<close> is \<open>round(x, n)\<close>. A datetime is an
    instant in microseconds with an optional offset, with \<open>isoformat\<close> written out. Text is a list of
    characters compared by code.
  \<^item> \<open>SourcePoll\<close>, \<open>Freshness\<close> (\<open>source_polling.py\<close>): poll attempts, per-source state, transitions, and the
    freshness assessment. \<open>PollStore\<close>, \<open>ValkeyPollStore\<close> (\<open>source_poll_store.py\<close>): the in-memory store and
    the two Lua scripts with their client.
  \<^item> \<open>CanonJson\<close>, \<open>ContentId\<close> (\<open>identity.py\<close>): canonical JSON, its injectivity up to key order, and what a
    content address identifies.
  \<^item> \<open>EventStream\<close> (\<open>streams/\<close>): fingerprints, the in-memory and the Valkey bus. \<open>RateLimit\<close> (\<open>rate_limit.py\<close>).
    \<open>Ingest\<close> (\<open>ingestion/\<close>): snapshots and the poll cycle.
  \<^item> \<open>Projection\<close> (\<open>projections/\<close> and its migration): the transactional projection and the keyset query.
    \<open>Correlation\<close> (\<open>correlation.py\<close>): evidence edges, union-find, incidents; \<open>CorrelationQuery\<close>: the SQL query
    over the projected tables that feeds it and the incident endpoint.
  \<^item> \<open>Retrieval\<close> (\<open>retrieval/\<close>): query contracts, documents, citations, ranking, search.
    \<open>Indexing\<close> (\<open>retrieval/service.py\<close>, \<open>postgres.py\<close>, \<open>embeddings.py\<close>): the document index and its candidate
    queries. \<open>EvidencePack\<close> (\<open>evidence_packs.py\<close>): building and checking a pack.
  \<^item> \<open>AgentRun\<close> (\<open>agent_runs.py\<close>): proposals, the eleven checks, manifests. \<open>Governance\<close>
    (\<open>agent_governance.py\<close>): approvals, revocations, signed entries, verification, resolution, the in-memory
    ledger. \<open>Ledger\<close> (\<open>agent_ledger.py\<close> and its migration): the PostgreSQL ledger.
  \<^item> \<open>Grounded\<close>, \<open>GroundedReview\<close> (\<open>grounded_answer_evaluation/\<close>): tasks, imported candidate answers, the human
    review and its measurements. \<open>Trajectory\<close>, \<open>Drift\<close>, \<open>Release\<close> (\<open>agent_trajectory/\<close>): observed traces and their
    score, the comparison of two captures, and the release thresholds over all of it, whose assessment the
    agent run reads.

  \<^bold>\<open>Interfaces\<close>

  The locales state what one part relies on of another, and each is interpreted on the model of the code:
  \<open>poll_store\<close> (the in-memory store, whose law carries the Valkey refinement), \<open>event_publisher\<close> and
  \<open>event_log\<close> (both buses publish, the in-memory one is the log), \<open>ingestion\<close> (publisher and poll store),
  \<open>projection_store\<close> and \<open>projection\<close> (the log with the projection tables and with the document index), \<open>approval_ledger\<close> (the
  in-memory and the PostgreSQL ledger).

  \<^bold>\<open>What the lemmas show\<close>

  \<^item> State: a stored poll state is the fold of its log, and the Valkey scripts refine the in-memory store;
    a bus holds each fingerprint once and replays without gaps; current rows are the newest revisions and
    projecting again changes nothing; a ledger only grows and always verifies.
  \<^item> Identity: equal content addresses mean equal artifacts or an exhibited SHA-256 collision, for canonical
    values, packs, proposals and the whole history behind a ledger head.
  \<^item> Function: ranking is a strict order, a pack includes exactly the hits its budget and citations allow, an
    incident is a connected component, a freshness response never fails its own contracts; a reviewed answer
    set and an observed trajectory set are scored exactly when their inputs agree, and the validators of the
    report never reject what the scorer computed. A stable drift report bounds the real deterioration, and a
    release is eligible exactly when every measurement meets the policy over one confirmed, stable drift chain.
  \<^item> Failing closed: a manifest is always blocked, an approval is active only over a valid trusted ledger,
    inside its lifetime and unrevoked, a revocation is final, an unreadable store or a malformed reply of
    the rate limiter denies.
  \<^item> Termination: the union-find always returns; a run that would not is the value \<open>None\<close> of the model. All
    other loops are structural recursions or carry a measure; no fuel is used. The texts of release gates are limited
    to 300 characters, so their theorem assumes numbers of at most 200 digits (\<open>printable\<close>).

  \<^bold>\<open>Arguments of the model\<close>

  Code outside \<open>src/\<close> is an argument, with its documented behaviour as a named predicate of the theorem that
  uses it and a concrete instance in the witness: SHA-256 and HMAC (hex digests, collisions exhibited and
  never excluded), Ed25519 (\<open>crypto_laws\<close>), the JSON parsers of Pydantic (\<open>event_parses\<close>, \<open>load_faithful\<close>,
  \<open>reads_back\<close>), the text of a float (\<open>float_text_ok\<close>), float sums (\<open>sum_law\<close>,
  \<open>rates_law\<close>: a sum of rates stays between 0 and their number), the CSV reader and writer, the Valkey commands (\<open>stream_server\<close>, \<open>valkey\<close>), PostGIS
  predicates, Unicode case folding, URL and IP parsing, the embedding model, trigonometry. Concurrency:
  an operation under a lock, a Lua script and a transaction are atomic functions of the state; interleaving
  is the order of such steps.

  \<^bold>\<open>Not modelled\<close>

  The HTTP layer (\<open>api.py\<close>, \<open>asgi.py\<close>), configuration, logging, telemetry and the process loops (\<open>worker.py\<close>,
  \<open>projector.py\<close>, \<open>indexer.py\<close>) are input and output around the modelled services. The feed adapters
  (\<open>sources/\<close>) parse vendor formats through third-party clients. The command-line tools only read and write
  files. The retrieval and the relationship evaluation measure rankings and labels offline and no modelled
  service reads their output; the answer runner and the inference models call external model servers; the
  capture and adjudication of answers and the operational evidence collect files and process output into
  reports. Database connections, pools and \<open>close()\<close> methods have no state here. Where an error text
  interpolates a value, the model keeps its constant part.
\<close>

end
